(* ===== verification/Prelude.thy ===== *)
theory Prelude
  imports Main "HOL-Library.Word" "HOL-Library.List_Lexorder" "HOL-Library.Product_Lexorder"
    "HOL-Library.Char_ord"
begin

text \<open>
  What every theory of the development shares: the result type of an operation that may
  fail, the integer division of \<^verbatim>\<open>math.Int\<close>, the byte strings, and the generic
  lemmas on lists that the components use.
\<close>

named_theorems res_simps \<open>rewrite rules that evaluate the result monad\<close>
named_theorems frame_simps \<open>what an operation leaves untouched\<close>

type_synonym bytes = "8 word list"

subsection \<open>Results: a value, an error, a panic\<close>

text \<open>
  A Go function that returns an \<^verbatim>\<open>error\<close> or panics becomes a function into \<open>'a res\<close>.
  The two failures are kept apart because their callers treat them differently: an error inside
  a cached context is logged and the loop goes on, a panic unwinds the whole block.
\<close>

datatype ('e, 'a) res = Ok 'a | Err 'e | Panic

primrec bind_res :: "('e, 'a) res \<Rightarrow> ('a \<Rightarrow> ('e, 'b) res) \<Rightarrow> ('e, 'b) res" where
  "bind_res (Ok x) f = f x"
| "bind_res (Err e) f = Err e"
| "bind_res Panic f = Panic"

definition guard_res :: "bool \<Rightarrow> 'e \<Rightarrow> ('e, 'a) res \<Rightarrow> ('e, 'a) res" where
  "guard_res c e k = (if c then k else Err e)"

definition of_option :: "'e \<Rightarrow> 'a option \<Rightarrow> ('e, 'a) res" where
  "of_option e x = (case x of None \<Rightarrow> Err e | Some v \<Rightarrow> Ok v)"

text \<open>An error wrapped in another one (\<^verbatim>\<open>errorsmod.Wrapf\<close>).\<close>

definition as_error :: "'e \<Rightarrow> ('d, 'a) res \<Rightarrow> ('e, 'a) res" where
  "as_error e r = (case r of Ok x \<Rightarrow> Ok x | Err _ \<Rightarrow> Err e | Panic \<Rightarrow> Panic)"

primrec is_ok :: "('e, 'a) res \<Rightarrow> bool" where
  "is_ok (Ok x) = True"
| "is_ok (Err e) = False"
| "is_ok Panic = False"

text \<open>The value of a result, to run an example step by step.\<close>

primrec value_or :: "'a \<Rightarrow> ('e, 'a) res \<Rightarrow> 'a" where
  "value_or d (Ok x) = x"
| "value_or d (Err e) = d"
| "value_or d Panic = d"

lemma bind_res_Ok_iff [res_simps]:
  "bind_res m f = Ok y \<longleftrightarrow> (\<exists>x. m = Ok x \<and> f x = Ok y)"
  by (cases m) auto

lemma bind_res_Panic_iff [res_simps]:
  "bind_res m f = Panic \<longleftrightarrow> m = Panic \<or> (\<exists>x. m = Ok x \<and> f x = Panic)"
  by (cases m) auto

lemma bind_res_Err_iff [res_simps]:
  "bind_res m f = Err e \<longleftrightarrow> m = Err e \<or> (\<exists>x. m = Ok x \<and> f x = Err e)"
  by (cases m) auto

lemma guard_res_Ok_iff [res_simps]: "guard_res c e k = Ok y \<longleftrightarrow> c \<and> k = Ok y"
  by (simp add: guard_res_def)

lemma guard_res_Panic_iff [res_simps]: "guard_res c e k = Panic \<longleftrightarrow> c \<and> k = Panic"
  by (simp add: guard_res_def)

lemma guard_res_Err_iff [res_simps]:
  "guard_res c e k = Err d \<longleftrightarrow> (\<not> c \<and> e = d) \<or> (c \<and> k = Err d)"
  by (auto simp add: guard_res_def)

lemma of_option_Ok_iff [res_simps]: "of_option e x = Ok v \<longleftrightarrow> x = Some v"
  by (auto simp add: of_option_def split: option.splits)

lemma of_option_Err_iff [res_simps]: "of_option e x = Err d \<longleftrightarrow> x = None \<and> d = e"
  by (auto simp add: of_option_def split: option.splits)

lemma of_option_not_Panic [simp]: "of_option e x \<noteq> Panic"
  by (simp add: of_option_def split: option.splits)

lemma of_option_simps [simp]: "of_option e None = Err e" "of_option e (Some v) = Ok v"
  by (simp_all add: of_option_def)

lemma guard_res_simps [simp]: "guard_res True e k = k" "guard_res False e k = Err e"
  by (simp_all add: guard_res_def)

lemma as_error_Ok_iff [res_simps]: "as_error e r = Ok x \<longleftrightarrow> r = Ok x"
  by (cases r) (simp_all add: as_error_def)

lemma is_ok_iff: "is_ok m \<longleftrightarrow> (\<exists>x. m = Ok x)"
  by (cases m) auto

text \<open>A loop whose body may fail: stops at the first error or panic.\<close>

primrec fold_res :: "('x \<Rightarrow> 's \<Rightarrow> ('e, 's) res) \<Rightarrow> 'x list \<Rightarrow> 's \<Rightarrow> ('e, 's) res" where
  "fold_res f [] s = Ok s"
| "fold_res f (x # xs) s = bind_res (f x s) (fold_res f xs)"

lemma fold_res_invariant:
  assumes "fold_res f xs s = Ok t" and "P s"
    and "\<And>x s t. x \<in> set xs \<Longrightarrow> f x s = Ok t \<Longrightarrow> P s \<Longrightarrow> P t"
  shows "P t"
  using assms
proof (induction xs arbitrary: s)
  case Nil
  then show ?case by simp
next
  case (Cons x xs)
  from Cons.prems(1) obtain u where "f x s = Ok u" and "fold_res f xs u = Ok t"
    by (auto simp: res_simps)
  with Cons show ?case by (meson list.set_intros)
qed

lemma fold_invariant:
  assumes "P s" and "\<And>x s. x \<in> set xs \<Longrightarrow> P s \<Longrightarrow> P (f x s)"
  shows "P (fold f xs s)"
  using assms by (induction xs arbitrary: s) auto

subsection \<open>Contracts of step relations\<close>

text \<open>
  A relation between the state before and the state after that composes: it holds over a loop whose
  body keeps to it, and over any number of steps of a transition relation that keeps to it. An
  invariant is the relation that carries it from one state to the next.
\<close>

locale kept_relation =
  fixes rel :: "'s \<Rightarrow> 's \<Rightarrow> bool"
  assumes kept_refl: "rel s s" and kept_trans: "rel s t \<Longrightarrow> rel t u \<Longrightarrow> rel s u"
begin

lemma kept_fold: "(\<And>x s. x \<in> set xs \<Longrightarrow> rel s (f x s)) \<Longrightarrow> rel s (fold f xs s)"
  by (rule fold_invariant[where P = "rel s"]) (auto intro: kept_refl kept_trans)

lemma kept_fold_res:
  assumes "fold_res f xs s = Ok t" "\<And>x s t. f x s = Ok t \<Longrightarrow> rel s t"
  shows "rel s t"
  by (rule fold_res_invariant[OF assms(1), where P = "rel s"]) (auto intro: kept_refl kept_trans assms(2))

end

locale step_contract = kept_relation rel for rel :: "'s \<Rightarrow> 's \<Rightarrow> bool" +
  fixes step :: "'s \<Rightarrow> 's \<Rightarrow> bool"
  assumes step_kept: "step s t \<Longrightarrow> rel s t"
begin

lemma steps_kept: "step\<^sup>*\<^sup>* s t \<Longrightarrow> rel s t"
  by (induction rule: rtranclp_induct) (auto intro: kept_refl kept_trans step_kept)

end

locale step_invariant =
  fixes step :: "'s \<Rightarrow> 's \<Rightarrow> bool" and inv :: "'s \<Rightarrow> bool"
  assumes step_inv: "step s t \<Longrightarrow> inv s \<Longrightarrow> inv t"

sublocale step_invariant \<subseteq> carried_over: step_contract "\<lambda>s t. inv s \<longrightarrow> inv t" step
  by unfold_locales (auto intro: step_inv)

context step_invariant
begin

lemma steps_inv: "step\<^sup>*\<^sup>* s t \<Longrightarrow> inv s \<Longrightarrow> inv t"
  using carried_over.steps_kept by blast

end

subsection \<open>Loops over distinct elements\<close>

text \<open>A loop over distinct elements that touch only their own part of the state.\<close>

lemma fold_frame:
  assumes "\<And>x s. x \<in> set xs \<Longrightarrow> view (f x s) = view s"
  shows "view (fold f xs s) = view s"
  using assms by (induction xs arbitrary: s) auto

lemma fold_local:
  assumes "distinct xs" "c \<in> set xs"
    and other: "\<And>x s. x \<noteq> c \<Longrightarrow> view (f x s) = view s"
    and self: "\<And>s. view (f c s) = g (view s)"
  shows "view (fold f xs s) = g (view s)"
proof -
  obtain ys zs where xs: "xs = ys @ c # zs" using assms(2) by (meson split_list)
  then have "c \<notin> set ys" "c \<notin> set zs" using assms(1) by auto
  then have "view (fold f ys s) = view s" for s by (intro fold_frame) (metis other)
  moreover have "view (fold f zs s) = view s" for s
    using \<open>c \<notin> set zs\<close> by (intro fold_frame) (metis other)
  ultimately show ?thesis by (simp add: xs self)
qed

subsection \<open>Integer division\<close>

text \<open>
  \<^verbatim>\<open>math.Int.Quo\<close> and Go's \<^verbatim>\<open>/\<close> truncate towards zero, where HOL's \<open>div\<close>
  rounds down. The two agree on the non-negative amounts the module computes with.
\<close>

definition quo :: "int \<Rightarrow> int \<Rightarrow> int" where
  "quo a b = sgn a * sgn b * (\<bar>a\<bar> div \<bar>b\<bar>)"

lemma quo_nonneg: "0 \<le> a \<Longrightarrow> 0 \<le> b \<Longrightarrow> quo a b = a div b"
  by (cases "a = 0"; cases "b = 0") (simp_all add: quo_def)

lemma quo_ge_0: "0 \<le> a \<Longrightarrow> 0 \<le> b \<Longrightarrow> 0 \<le> quo a b"
  by (simp add: quo_nonneg pos_imp_zdiv_nonneg_iff div_int_pos_iff)

lemma div_mult_le: "0 < (b::int) \<Longrightarrow> a div b * b \<le> a"
  by (metis Euclidean_Rings.pos_mod_sign add.commute div_mult_mod_eq le_add_same_cancel1)

text \<open>A share of \<open>s\<close> out of \<open>t\<close> of an amount never exceeds the amount.\<close>

lemma share_le: "0 \<le> s \<Longrightarrow> s \<le> t \<Longrightarrow> 0 < t \<Longrightarrow> 0 \<le> (a::int) \<Longrightarrow> s * a div t \<le> a"
proof -
  assume "0 \<le> s" "s \<le> t" "0 < t" "0 \<le> a"
  then have "s * a \<le> t * a" by (simp add: mult_right_mono)
  then have "s * a div t \<le> t * a div t" using \<open>0 < t\<close> by (rule zdiv_mono1)
  then show ?thesis using \<open>0 < t\<close> by simp
qed

lemma div_add_le: "0 < (c::int) \<Longrightarrow> a div c + b div c \<le> (a + b) div c"
proof -
  assume c: "0 < c"
  have "(a div c + b div c) * c = a div c * c + b div c * c" by (simp add: algebra_simps)
  also have "\<dots> \<le> a + b" using div_mult_le[OF c, of a] div_mult_le[OF c, of b] by simp
  finally have "(a div c + b div c) * c div c \<le> (a + b) div c" using c by (rule zdiv_mono1)
  then show ?thesis using c by simp
qed

text \<open>Floors of parts never add up to more than the floor of the whole.\<close>

lemma sum_list_div_le:
  "0 < (c::int) \<Longrightarrow> sum_list (map (\<lambda>x. f x div c) xs) \<le> sum_list (map f xs) div c"
proof (induction xs)
  case Nil
  then show ?case by simp
next
  case (Cons x xs)
  then have "sum_list (map (\<lambda>x. f x div c) (x # xs)) \<le> f x div c + sum_list (map f xs) div c"
    by simp
  also have "\<dots> \<le> sum_list (map f (x # xs)) div c"
    using div_add_le[OF Cons.prems] by simp
  finally show ?case .
qed

subsection \<open>Lists\<close>

lemma sum_list_filter_split:
  "sum_list (map f xs) =
     sum_list (map f (filter P xs)) + sum_list (map f (filter (\<lambda>x. \<not> P x) xs))"
  for f :: "'a \<Rightarrow> int"
  by (induction xs) auto

lemma sum_list_nonneg': "(\<And>x. x \<in> set xs \<Longrightarrow> 0 \<le> f x) \<Longrightarrow> 0 \<le> sum_list (map f xs)"
  for f :: "'a \<Rightarrow> int"
  by (induction xs) auto

lemma sum_list_const: "sum_list (map (\<lambda>_. c) xs) = int (length xs) * c"
  by (induction xs) (auto simp: algebra_simps)

subsection \<open>Decimal numerals\<close>

text \<open>\<^verbatim>\<open>%d\<close> of a consumer id, as it enters the name of a fee pool account.\<close>

definition digit :: "nat \<Rightarrow> char" where
  "digit d = char_of (48 + d)"

fun decimal :: "nat \<Rightarrow> string" where
  "decimal n = (if n < 10 then [digit n] else decimal (n div 10) @ [digit (n mod 10)])"

declare decimal.simps [simp del]

definition undecimal :: "string \<Rightarrow> nat" where
  "undecimal ds = foldl (\<lambda>a ch. a * 10 + (of_char ch - 48)) 0 ds"

lemma of_char_digit: "d < 10 \<Longrightarrow> (of_char (digit d) :: nat) = 48 + d"
  by (simp add: digit_def take_bit_eq_mod)

lemma undecimal_decimal: "undecimal (decimal n) = n"
proof (induction n rule: decimal.induct)
  case (1 n)
  show ?case
  proof (cases "n < 10")
    case True
    then show ?thesis by (simp add: decimal.simps[of n] undecimal_def of_char_digit)
  next
    case False
    then have "foldl (\<lambda>a ch. a * 10 + (of_char ch - 48)) 0 (decimal (n div 10)) = n div 10"
      using 1 by (simp add: undecimal_def)
    then show ?thesis
      using False by (simp add: decimal.simps[of n] undecimal_def of_char_digit)
  qed
qed

lemma decimal_inject: "decimal m = decimal n \<longleftrightarrow> m = n"
  by (metis undecimal_decimal)

end
