(* ===== verification/KVStore.thy ===== *)
theory KVStore
  imports Prelude
begin

text \<open>
  The representation of a module's state: a \<^verbatim>\<open>collections.Map\<close> is an ordered finite map,
  read by key and iterated in ascending key order. The type \<open>('k, 'v) store\<close> is the type of
  association lists with strictly ascending keys, so two stores with the same content are equal
  and no component has to carry an ordering invariant. The locale \<open>ordered_store\<close> names the
  laws the keepers rely on and proves once what follows from them: removing a list of keys,
  clearing a prefix range, and folding insertions.
\<close>

subsection \<open>Ascending association lists\<close>

fun ins_key :: "'k::linorder \<Rightarrow> 'v \<Rightarrow> ('k \<times> 'v) list \<Rightarrow> ('k \<times> 'v) list" where
  "ins_key k v [] = [(k, v)]"
| "ins_key k v ((a, b) # xs) =
     (if k < a then (k, v) # (a, b) # xs
      else if k = a then (k, v) # xs
      else (a, b) # ins_key k v xs)"

definition del_key :: "'k \<Rightarrow> ('k \<times> 'v) list \<Rightarrow> ('k \<times> 'v) list" where
  "del_key k = filter (\<lambda>p. fst p \<noteq> k)"

abbreviation ascending :: "('k::linorder \<times> 'v) list \<Rightarrow> bool" where
  "ascending xs \<equiv> sorted_wrt (<) (map fst xs)"

lemma set_ins_key: "fst ` set (ins_key k v xs) = insert k (fst ` set xs)"
  by (induction k v xs rule: ins_key.induct) auto

lemma ascending_ins_key: "ascending xs \<Longrightarrow> ascending (ins_key k v xs)"
proof (induction k v xs rule: ins_key.induct)
  case (1 k v)
  then show ?case by simp
next
  case (2 k v a b xs)
  have "fst ` set (ins_key k v xs) = insert k (fst ` set xs)" by (rule set_ins_key)
  with 2 show ?case by auto
qed

lemma ascending_filter: "ascending xs \<Longrightarrow> ascending (filter P xs)"
  by (induction xs) auto

lemma map_of_ins_key: "ascending xs \<Longrightarrow> map_of (ins_key k v xs) = (map_of xs)(k \<mapsto> v)"
  by (induction k v xs rule: ins_key.induct) (auto simp: fun_eq_iff)

lemma map_of_filter_keys:
  "map_of (filter (\<lambda>p. P (fst p)) xs) k = (if P k then map_of xs k else None)"
  by (induction xs) auto

lemma ascending_distinct: "ascending xs \<Longrightarrow> distinct (map fst xs)"
  by (simp add: strict_sorted_iff)

lemma ascending_ext:
  assumes "ascending xs" "ascending ys" "map_of xs = map_of ys"
  shows "xs = ys"
proof (rule map_sorted_distinct_set_unique[where f = fst])
  show "distinct (map fst xs)" "distinct (map fst ys)"
    using assms(1,2) by (simp_all add: ascending_distinct)
  then show eq: "set xs = set ys" using assms(3) by (metis map_of_inject_set)
  show "inj_on fst (set xs \<union> set ys)"
    using \<open>distinct (map fst xs)\<close> by (simp add: eq[symmetric] distinct_map)
  show "sorted (map fst xs)" "sorted (map fst ys)"
    using assms(1,2) by (simp_all add: strict_sorted_iff)
qed

subsection \<open>The type of stores\<close>

typedef (overloaded) ('k::linorder, 'v) store = "{xs :: ('k \<times> 'v) list. ascending xs}"
  morphisms entries Store
  by (rule exI[of _ "[]"]) simp

setup_lifting type_definition_store

lift_definition empty_store :: "('k::linorder, 'v) store" is "[]"
  by simp

lift_definition store_get :: "('k::linorder, 'v) store \<Rightarrow> 'k \<Rightarrow> 'v option" is map_of .

lift_definition store_set :: "'k::linorder \<Rightarrow> 'v \<Rightarrow> ('k, 'v) store \<Rightarrow> ('k, 'v) store" is ins_key
  by (rule ascending_ins_key)

lift_definition store_remove :: "'k::linorder \<Rightarrow> ('k, 'v) store \<Rightarrow> ('k, 'v) store" is del_key
  unfolding del_key_def by (rule ascending_filter)

text \<open>\<^verbatim>\<open>Clear\<close> over a prefix range drops every entry whose key is in the range.\<close>

lift_definition store_drop :: "('k \<Rightarrow> bool) \<Rightarrow> ('k::linorder, 'v) store \<Rightarrow> ('k, 'v) store"
  is "\<lambda>P. filter (\<lambda>p. \<not> P (fst p))"
  by (rule ascending_filter)

definition store_has :: "('k::linorder, 'v) store \<Rightarrow> 'k \<Rightarrow> bool" where
  "store_has s k \<longleftrightarrow> store_get s k \<noteq> None"

definition store_keys :: "('k::linorder, 'v) store \<Rightarrow> 'k list" where
  "store_keys s = map fst (entries s)"

text \<open>Iteration over a prefix range: the entries in the range, in ascending order.\<close>

definition store_range :: "('k \<Rightarrow> bool) \<Rightarrow> ('k::linorder, 'v) store \<Rightarrow> ('k \<times> 'v) list" where
  "store_range P s = filter (\<lambda>p. P (fst p)) (entries s)"

subsection \<open>The laws the keepers rely on\<close>

locale ordered_store =
  fixes emp :: "'s"
    and get :: "'s \<Rightarrow> 'k::linorder \<Rightarrow> 'v option"
    and put :: "'k \<Rightarrow> 'v \<Rightarrow> 's \<Rightarrow> 's"
    and remove :: "'k \<Rightarrow> 's \<Rightarrow> 's"
    and drop_keys :: "('k \<Rightarrow> bool) \<Rightarrow> 's \<Rightarrow> 's"
    and iter :: "'s \<Rightarrow> ('k \<times> 'v) list"
  assumes get_emp: "get emp k = None"
    and get_put: "get (put k v s) j = (if j = k then Some v else get s j)"
    and get_remove: "get (remove k s) j = (if j = k then None else get s j)"
    and get_drop: "get (drop_keys P s) j = (if P j then None else get s j)"
    and iter_get: "get s = map_of (iter s)"
    and iter_ascending: "ascending (iter s)"
    and ext: "get s = get t \<Longrightarrow> s = t"
begin

lemma iter_mem: "(k, v) \<in> set (iter s) \<longleftrightarrow> get s k = Some v"
  by (simp add: iter_get iter_ascending ascending_distinct)

lemma iter_distinct: "distinct (map fst (iter s))"
  by (simp add: iter_ascending ascending_distinct)

lemma get_fold_remove: "get (fold remove ks s) j = (if j \<in> set ks then None else get s j)"
  by (induction ks arbitrary: s) (auto simp: get_remove)

lemma get_fold_put:
  "distinct (map fst kvs) \<Longrightarrow>
     get (fold (\<lambda>(k, v). put k v) kvs s) j
       = (case map_of kvs j of None \<Rightarrow> get s j | Some v \<Rightarrow> Some v)"
proof (induction kvs arbitrary: s)
  case Nil
  then show ?case by simp
next
  case (Cons kv kvs)
  moreover have "map_of kvs (fst kv) = None"
    using Cons.prems by (simp add: map_of_eq_None_iff)
  ultimately show ?case by (cases kv) (auto simp: get_put split: option.splits)
qed

lemma put_same: "get s k = Some v \<Longrightarrow> put k v s = s"
  by (rule ext) (auto simp: get_put)

lemma remove_absent: "get s k = None \<Longrightarrow> remove k s = s"
  by (rule ext) (auto simp: get_remove)

lemma remove_put: "get s k = None \<Longrightarrow> remove k (put k v s) = s"
  by (rule ext) (auto simp: get_put get_remove)

lemma drop_none:
  assumes "\<And>k v. get s k = Some v \<Longrightarrow> \<not> P k"
  shows "drop_keys P s = s"
proof (rule ext, rule HOL.ext)
  fix k
  show "get (drop_keys P s) k = get s k"
    using assms[of k] by (cases "get s k") (auto simp: get_drop)
qed

end

lemma store_ext: "store_get s = store_get t \<Longrightarrow> s = t"
  by transfer (rule ascending_ext)

interpretation kv: ordered_store empty_store store_get store_set store_remove store_drop entries
proof
  fix s t :: "('k::linorder, 'v) store" and j k and v and P
  show "store_get (empty_store :: ('k, 'v) store) k = None" by transfer simp
  show "store_get (store_set k v s) j = (if j = k then Some v else store_get s j)"
    by transfer (simp add: map_of_ins_key)
  show "store_get (store_remove k s) j = (if j = k then None else store_get s j)"
    by transfer (simp add: del_key_def map_of_filter_keys[where P = "\<lambda>a. a \<noteq> _"])
  show "store_get (store_drop P s) j = (if P j then None else store_get s j)"
    by transfer (simp add: map_of_filter_keys[where P = "\<lambda>a. \<not> _ a"])
  show "store_get s = map_of (entries s)" by transfer simp
  show "ascending (entries s)" by transfer simp
  show "store_get s = store_get t \<Longrightarrow> s = t" by (rule store_ext)
qed

lemmas store_simps [simp] = kv.get_emp kv.get_put kv.get_remove kv.get_drop

subsection \<open>Evaluation of iteration\<close>

lemma entries_simps [simp]:
  "entries empty_store = []"
  "entries (store_set k v s) = ins_key k v (entries s)"
  "entries (store_remove k s) = del_key k (entries s)"
  "entries (store_drop P s) = filter (\<lambda>p. \<not> P (fst p)) (entries s)"
  by (transfer, simp)+

lemma del_key_simps [simp]:
  "del_key k [] = []"
  "del_key k ((a, b) # xs) = (if a = k then del_key k xs else (a, b) # del_key k xs)"
  by (simp_all add: del_key_def)

lemma store_has_simps [simp]:
  "store_has empty_store k = False"
  "store_has (store_set k v s) j = (j = k \<or> store_has s j)"
  "store_has (store_remove k s) j = (j \<noteq> k \<and> store_has s j)"
  "store_has (store_drop P s) j = (\<not> P j \<and> store_has s j)"
  by (simp_all add: store_has_def)

lemma mem_store_range: "(k, v) \<in> set (store_range P s) \<longleftrightarrow> P k \<and> store_get s k = Some v"
  by (auto simp: store_range_def kv.iter_mem)

lemma mem_store_keys: "k \<in> set (store_keys s) \<longleftrightarrow> store_has s k"
  by (force simp: store_keys_def store_has_def kv.iter_mem[symmetric])

lemma distinct_store_range: "distinct (map fst (store_range P s))"
  using ascending_filter[OF kv.iter_ascending[of s], of "\<lambda>p. P (fst p)"]
  by (simp add: store_range_def ascending_distinct)

lemma store_range_single:
  "store_range (\<lambda>k. k = j) s = (case store_get s j of None \<Rightarrow> [] | Some v \<Rightarrow> [(j, v)])"
proof (rule ascending_ext)
  show "ascending (store_range (\<lambda>k. k = j) s)"
    using ascending_filter[OF kv.iter_ascending[of s]] by (simp add: store_range_def)
  show "map_of (store_range (\<lambda>k. k = j) s) = map_of (case store_get s j of None \<Rightarrow> [] | Some v \<Rightarrow> [(j, v)])"
    by (auto simp: fun_eq_iff store_range_def map_of_filter_keys[where P = "\<lambda>a. a = j"] kv.iter_get split: option.splits)
qed (simp split: option.splits)

text \<open>Removing every key of a range one by one is clearing the range.\<close>

lemma range_keys: "k \<in> set (map fst (store_range P s)) \<longleftrightarrow> P k \<and> store_has s k"
  by (auto simp: store_has_def image_iff mem_store_range Bex_def)

lemma fold_remove_range:
  "fold store_remove (map fst (store_range P s)) s = store_drop P s"
proof (rule store_ext, rule ext)
  fix k
  show "store_get (fold store_remove (map fst (store_range P s)) s) k = store_get (store_drop P s) k"
    unfolding kv.get_fold_remove range_keys by (simp add: store_has_def)
qed

text \<open>
  The sum of a quantity over a range: what setting or removing one key does to it. The
  share ledger and the withheld-fee escrow are such sums.
\<close>

definition range_sum :: "('v \<Rightarrow> int) \<Rightarrow> ('k \<Rightarrow> bool) \<Rightarrow> ('k::linorder, 'v) store \<Rightarrow> int" where
  "range_sum f P s = sum_list (map (\<lambda>p. f (snd p)) (store_range P s))"

lemma sum_ins_key:
  fixes f :: "'v \<Rightarrow> int"
  assumes "ascending xs"
  shows "sum_list (map (\<lambda>p. f (snd p)) (filter (\<lambda>p. P (fst p)) (ins_key k v xs)))
     = sum_list (map (\<lambda>p. f (snd p)) (filter (\<lambda>p. P (fst p)) xs))
       + (if P k then f v - (case map_of xs k of None \<Rightarrow> 0 | Some w \<Rightarrow> f w) else 0)"
  using assms
proof (induction k v xs rule: ins_key.induct)
  case (1 k v)
  then show ?case by simp
next
  case (2 k v a b xs)
  have "k \<le> a \<Longrightarrow> map_of xs k = None"
    using "2.prems" by (fastforce simp: map_of_eq_None_iff)
  with 2 show ?case by auto
qed

lemma sum_del_key:
  fixes f :: "'v \<Rightarrow> int"
  assumes "distinct (map fst xs)"
  shows "sum_list (map (\<lambda>p. f (snd p)) (filter (\<lambda>p. P (fst p)) (del_key k xs)))
     = sum_list (map (\<lambda>p. f (snd p)) (filter (\<lambda>p. P (fst p)) xs))
       - (if P k then (case map_of xs k of None \<Rightarrow> 0 | Some w \<Rightarrow> f w) else 0)"
  using assms
proof (induction xs)
  case Nil
  then show ?case by simp
next
  case (Cons ab xs)
  obtain a b where ab: "ab = (a, b)" by force
  have "a = k \<Longrightarrow> map_of xs k = None"
    using Cons.prems by (auto simp: ab map_of_eq_None_iff)
  moreover have "map_of xs k = None \<Longrightarrow> del_key k xs = xs"
    by (auto simp: del_key_def map_of_eq_None_iff intro!: filter_True)
  ultimately show ?case using Cons by (auto simp: ab)
qed

lemma range_sum_empty [simp]: "range_sum f P empty_store = 0"
  by (simp add: range_sum_def store_range_def)

lemma range_sum_set:
  "range_sum f P (store_set k v s) =
     range_sum f P s
       + (if P k then f v - (case store_get s k of None \<Rightarrow> 0 | Some w \<Rightarrow> f w) else 0)"
  by (simp add: range_sum_def store_range_def kv.iter_get kv.iter_ascending sum_ins_key)

lemma range_sum_remove:
  "range_sum f P (store_remove k s) =
     range_sum f P s - (if P k then (case store_get s k of None \<Rightarrow> 0 | Some w \<Rightarrow> f w) else 0)"
  by (simp add: range_sum_def store_range_def kv.iter_get sum_del_key ascending_distinct
      kv.iter_ascending)

lemma range_sum_drop: "range_sum f P (store_drop Q s) = range_sum f (\<lambda>k. P k \<and> \<not> Q k) s"
  by (simp add: range_sum_def store_range_def conj_commute)

lemma range_sum_nonneg:
  "(\<And>k v. P k \<Longrightarrow> store_get s k = Some v \<Longrightarrow> 0 \<le> f v) \<Longrightarrow> 0 \<le> range_sum f P s"
  unfolding range_sum_def by (rule sum_list_nonneg') (auto simp: mem_store_range)

lemma member_le_sum_list:
  "x \<in> set xs \<Longrightarrow> (\<And>y. y \<in> set xs \<Longrightarrow> 0 \<le> f y) \<Longrightarrow> f x \<le> sum_list (map f xs)"
  for f :: "'a \<Rightarrow> int"
proof (induction xs)
  case Nil
  then show ?case by simp
next
  case (Cons y xs)
  have "0 \<le> sum_list (map f xs)" using Cons.prems(2) by (intro sum_list_nonneg') auto
  with Cons show ?case by force
qed

lemma range_sum_ge:
  assumes "P k" "store_get s k = Some v"
    and "\<And>k v. P k \<Longrightarrow> store_get s k = Some v \<Longrightarrow> 0 \<le> f v"
  shows "f v \<le> range_sum f P s"
proof -
  have "(k, v) \<in> set (store_range P s)" using assms by (simp add: mem_store_range)
  then have "f (snd (k, v)) \<le> range_sum f P s"
    unfolding range_sum_def
    by (rule member_le_sum_list) (auto simp: mem_store_range assms(3))
  then show ?thesis by simp
qed

lemma range_sum_cong:
  assumes "\<And>k. P k \<Longrightarrow> store_get s k = store_get t k"
  shows "range_sum f P s = range_sum f P t"
proof -
  have "store_drop (\<lambda>k. \<not> P k) s = store_drop (\<lambda>k. \<not> P k) t"
    by (rule store_ext) (auto simp: fun_eq_iff assms)
  then have "entries (store_drop (\<lambda>k. \<not> P k) s) = entries (store_drop (\<lambda>k. \<not> P k) t)"
    by simp
  then show ?thesis by (simp add: range_sum_def store_range_def)
qed

subsection \<open>Rebuilding a store\<close>

lemma rebuild_store: "fold (\<lambda>e. store_set (fst e) (snd e)) (entries m) empty_store = m"
proof (rule store_ext, rule ext)
  fix j
  have "fold (\<lambda>(k, v). store_set k v) (entries m) empty_store = fold (\<lambda>e. store_set (fst e) (snd e)) (entries m) empty_store"
    by (rule fold_cong) auto
  then show "store_get (fold (\<lambda>e. store_set (fst e) (snd e)) (entries m) empty_store) j = store_get m j"
    using kv.get_fold_put[OF kv.iter_distinct[of m], of empty_store j] kv.iter_get[of m]
    by (auto split: option.splits)
qed

text \<open>Writes that some of the keys do not get, as an import makes them.\<close>

definition opt_set :: "'k::linorder \<Rightarrow> 'v option \<Rightarrow> ('k, 'v) store \<Rightarrow> ('k, 'v) store" where
  "opt_set key v m = (case v of None \<Rightarrow> m | Some x \<Rightarrow> store_set key x m)"

lemma get_opt_fold:
  assumes "distinct ids"
  shows "store_get (fold (\<lambda>c. opt_set c (h c)) ids m) j = (if j \<in> set ids \<and> h j \<noteq> None then h j else store_get m j)"
  using assms by (induction ids arbitrary: m) (auto simp: opt_set_def split: option.split)

end
