(* ===== verification/ProviderState.thy ===== *)
theory ProviderState
  imports KVStore
begin

text \<open>
  The data of the provider module: the enums and messages of
  \<^verbatim>\<open>proto/vaas/provider/v1/provider.proto\<close> and \<^verbatim>\<open>proto/vaas/v1/wire.proto\<close>, the
  keeper's collections (\<^verbatim>\<open>x/vaas/provider/keeper/keeper.go\<close>), the block context, and the
  interfaces the keeper is wired with (\<^verbatim>\<open>x/vaas/types/expected_keepers.go\<close>).

  Conventions. A time is a number of nanoseconds since Go's zero time, so \<open>zero_time\<close> is what
  \<^verbatim>\<open>time.Time{}\<close> is and \<^verbatim>\<open>IsZero\<close> is equality with it; a duration is a number of
  nanoseconds. A \<^verbatim>\<open>LegacyDec\<close> is its integer mantissa, scaled by \<open>10 ^ 18\<close>. Consumer ids and
  valset-update ids are \<open>nat\<close>: they are counters that start at zero and are advanced by one.
  Addresses and public keys are byte strings; strings (chain ids, client ids, denoms) are
  \<open>string\<close>. A JSON or protobuf encoding is the encoded value.
\<close>

type_synonym addr = bytes
type_synonym pubkey = bytes
type_synonym time = int
type_synonym duration = int
type_synonym dec = int
type_synonym consumer_id = nat
type_synonym denom = string

abbreviation (input) zero_time :: time where "zero_time \<equiv> 0"

abbreviation (input) dec_one :: dec where "dec_one \<equiv> 10 ^ 18"

subsection \<open>Errors\<close>

text \<open>
  The sentinel errors of \<^verbatim>\<open>x/vaas/provider/types/errors.go\<close> and
  \<^verbatim>\<open>x/vaas/types/errors.go\<close> that the modelled operations return; \<open>ErrPlain\<close> stands for an
  error made by \<^verbatim>\<open>fmt.Errorf\<close> or passed through from another module.
\<close>

datatype error =
    ErrUnknownConsumerId | ErrConsumerKeyInUse | ErrCannotAssignDefaultKeyAssignment
  | ErrInvalidConsumerClient | ErrNoUnbondingTime | ErrUnauthorized | ErrInvalidPhase
  | ErrInvalidConsumerInitializationParameters | ErrNoOwnerAddress | ErrInvalidNewOwnerAddress
  | ErrInvalidMsgUpdateConsumer | ErrDuplicateChainId | ErrPoolEmpty | ErrUnsolicitedFeePoolDeposit
  | ErrInvalidFundDenom | ErrDepositTooSmall | ErrSubShareWithdraw | ErrNoSharesForDepositor
  | ErrDepositBelowMinimum | ErrFeePoolLocked | ErrDowntimeChallengeFailed
  | ErrConsumerClientNotActive | ErrForkEvidenceStillVerifiable | ErrProviderChainId
  | ErrInvalidPacketData | ErrInvalidConsumerState | ErrInvalidDoubleVotingEvidence
  | ErrValidatorTombstoned | ErrNoValidatorForAddress | ErrNoUnbondingDelegation
  | ErrInvalidSigner | ErrInvalidMisbehaviour | ErrInvalidRequest
  | ErrInvalidProviderClient | ErrEmptyValidatorSet | ErrClientNotFound
  | ErrInvalidConsumerMetadata | ErrInvalidMsgCreateConsumer | ErrInvalidMsgAssignConsumerKey
  | ErrInvalidMsgSubmitConsumerMisbehaviour | ErrInvalidMsgSubmitConsumerDoubleVoting
  | ErrInvalidAddress | ErrNoValidatorFound | ErrValidatorPubKeyTypeNotSupported
  | ErrConsumerInDebt | ErrInvalidFeeDenom | ErrInsufficientFee | ErrInvalidGenesis | ErrTxDecode
  | ErrPlain

type_synonym 'a result = "(error, 'a) res"

subsection \<open>Enums and messages\<close>

datatype ConsumerPhase =
    CONSUMER_PHASE_UNSPECIFIED | CONSUMER_PHASE_REGISTERED | CONSUMER_PHASE_INITIALIZED
  | CONSUMER_PHASE_LAUNCHED | CONSUMER_PHASE_STOPPED | CONSUMER_PHASE_DELETED
  | CONSUMER_PHASE_PAUSED

datatype PauseReason =
    PAUSE_REASON_UNSPECIFIED | PAUSE_REASON_DOWNTIME_CHALLENGE | PAUSE_REASON_LIGHT_CLIENT_ATTACK

datatype Infraction = INFRACTION_UNSPECIFIED | INFRACTION_DOUBLE_SIGN | INFRACTION_DOWNTIME

definition Prelaunched :: "ConsumerPhase \<Rightarrow> bool" where
  "Prelaunched p \<longleftrightarrow> p = CONSUMER_PHASE_REGISTERED \<or> p = CONSUMER_PHASE_INITIALIZED"

record Coin =
  Denom :: denom
  Amount :: int

record ProviderParams =
  TrustingPeriodFraction :: string
  LivenessGraceFraction :: string
  VaasTimeoutPeriod :: duration
  BlocksPerEpoch :: int
  FeesPerBlockAmount :: int
  MinDepositBlocks :: nat
  MaxPauseDuration :: duration

record SlashJailParameters =
  SlashFraction :: dec
  JailDuration :: duration
  Tombstone :: bool

record InfractionParameters =
  DoubleSign :: SlashJailParameters
  Downtime :: SlashJailParameters
  DowntimeGracePeriod :: duration
  SignedBlocksWindow :: int
  MinSignedPerWindow :: dec
  DowntimeChallengeWindow :: duration
  DowntimeEvidenceMaxAge :: duration

record DowntimeParams =
  dp_SignedBlocksWindow :: int
  dp_MinSignedPerWindow :: dec

record PrevDowntimeParams =
  prev_Params :: DowntimeParams
  prev_ChangedAt :: time

record ConsumerInitializationParameters =
  InitialHeight :: "nat \<times> nat"  \<comment> \<open>revision number and revision height\<close>
  GenesisHash :: bytes
  BinaryHash :: bytes
  SpawnTime :: time
  init_UnbondingPeriod :: duration
  init_VaasTimeoutPeriod :: duration
  HistoricalEntries :: int
  SafeModeThreshold :: duration

record ConsumerMetadata =
  meta_Name :: string
  meta_Description :: string
  meta_Metadata :: string

record ConsensusValidator =
  ProviderConsAddr :: addr
  cv_Power :: int
  PublicKey :: pubkey
  JoinHeight :: int

record ValidatorUpdate =
  PubKey :: pubkey
  Power :: int

record ValidatorSetChangePacketData =
  ValidatorUpdates :: "ValidatorUpdate list"
  ValsetUpdateId :: nat
  ConsumerInDebt :: bool
  IsSnapshot :: bool
  vsc_DowntimeParams :: "DowntimeParams option"

record PendingDowntimeSlash =
  pds_ConsumerId :: consumer_id
  pds_ProviderConsAddr :: addr
  pds_ConsumerConsAddr :: addr
  pds_WindowStartHeight :: int
  pds_Span :: int
  pds_MissedCount :: int
  pds_MissedBlocksBitmap :: bytes
  SlashTokens :: int
  MaturesAt :: time

record AcceptedDowntimeWindow =
  WindowStart :: int
  AcceptedAt :: time

record WithheldFeeRecord =
  wfr_ConsumerId :: consumer_id
  wfr_ProviderConsAddr :: addr
  wfr_Amount :: Coin
  ExpiresAt :: time

subsection \<open>The block context and the state of light clients\<close>

record sdk_ctx =
  BlockTime :: time
  BlockHeight :: int
  ChainID :: string

datatype client_status = Active | Frozen | Expired | Unknown | Unauthorized

record tm_client =
  tm_ChainId :: string
  tm_LatestHeight :: "nat \<times> nat"
  tm_TrustingPeriod :: duration
  tm_UnbondingPeriod :: duration
  tm_MaxClockDrift :: duration

datatype client_state = TmClient tm_client | OtherClient

record ConsensusState =
  cs_Timestamp :: time
  cs_Root :: bytes
  cs_NextValidatorsHash :: bytes

record ConsumerParams =
  cp_VaasTimeoutPeriod :: duration
  cp_HistoricalEntries :: int
  cp_UnbondingPeriod :: duration
  cp_SafeModeThreshold :: duration
  cp_SignedBlocksWindow :: int
  cp_MinSignedPerWindow :: dec
  cp_OwnerAddress :: string
  cp_PhotonFeesEnabled :: bool

record ConsumerGenesisState =
  gen_ClientState :: tm_client
  gen_ConsensusState :: ConsensusState
  gen_InitialValSet :: "ValidatorUpdate list"
  gen_Params :: ConsumerParams
  gen_NewChain :: bool

record StakingValidator =
  OperatorAddress :: string
  val_ConsensusPubkey :: pubkey
  val_Tokens :: int
  val_Unbonded :: bool
  val_Jailed :: bool

subsection \<open>The keeper's collections\<close>

text \<open>
  One field per collection of \<^verbatim>\<open>Keeper\<close>. \<open>world\<close> is the state of the other modules of the
  chain, which the keeper reaches only through the interfaces below. \<^verbatim>\<open>Params\<close> and
  \<^verbatim>\<open>InfractionParams\<close> are written at genesis and never removed. The unique index
  \<^verbatim>\<open>ByClientId\<close> of \<^verbatim>\<open>ConsumerClients\<close> is derived from it (see \<open>GetClientIdToConsumerId\<close>).
\<close>

record 'w pstate =
  Params :: ProviderParams
  InfractionParams :: InfractionParameters
  PreviousDowntimeParams :: "PrevDowntimeParams option"
  ValidatorSetUpdateId :: nat
  ConsumerId :: nat
  ConsumerClients :: "(consumer_id, string) store"
  ConsumerGenesis :: "(consumer_id, ConsumerGenesisState) store"
  InitChainHeight :: "(consumer_id, nat) store"
  PendingVSCPackets :: "(consumer_id, ValidatorSetChangePacketData list) store"
  ConsumerChainId :: "(consumer_id, string) store"
  ConsumerOwnerAddress :: "(consumer_id, string) store"
  ConsumerMetadata :: "(consumer_id, ConsumerMetadata) store"
  ConsumerInitParams :: "(consumer_id, ConsumerInitializationParameters) store"
  phase_of :: "(consumer_id, ConsumerPhase) store"
  ConsumerDebt :: "(consumer_id, bool) store"
  ConsumerFeesPerBlockOverride :: "(consumer_id, int) store"
  EquivocationEvidenceMinHeight :: "(consumer_id, nat) store"
  ConsumerRemovalTime :: "(consumer_id, time) store"
  ConsumerLastAckTime :: "(consumer_id, time) store"
  ConsumerHighestSentVscId :: "(consumer_id, nat) store"
  ConsumerHighestAckedVscId :: "(consumer_id, nat) store"
  SpawnTimeToConsumerIds :: "(time, consumer_id list) store"
  RemovalTimeToConsumerIds :: "(time, consumer_id list) store"
  ConsumerPauseExpirationTime :: "(consumer_id, time) store"
  PauseExpirationTimeToConsumerIds :: "(time, consumer_id list) store"
  ConsumerPauseReason :: "(consumer_id, PauseReason) store"
  ConsumerPausedAt :: "(consumer_id, time) store"
  ValidatorConsumerPubKey :: "(consumer_id \<times> addr, pubkey) store"
  ValidatorByConsumerAddr :: "(consumer_id \<times> addr, addr) store"
  ConsumerAddrsToPrune :: "(consumer_id \<times> time, addr list) store"
  ConsumerValidators :: "(consumer_id \<times> addr, ConsensusValidator) store"
  LastProviderConsensusVals :: "(addr, ConsensusValidator) store"
  ConsumerFeePoolShares :: "(consumer_id \<times> denom \<times> addr, int) store"
  ConsumerFeePoolTotalShares :: "(consumer_id \<times> denom, int) store"
  FeePoolAddressToConsumerId :: "(addr, consumer_id) store"
  EpochDowntime :: "(consumer_id \<times> addr, bool) store"
  EpochShareRecords :: "(consumer_id \<times> time, int) store"
  PendingDowntimeSlashes :: "(consumer_id \<times> addr \<times> int, PendingDowntimeSlash) store"
  AcceptedDowntimeWindows :: "(consumer_id \<times> addr \<times> int, AcceptedDowntimeWindow) store"
  DowntimeWindowFloors :: "(consumer_id \<times> addr, int) store"
  PunishedEquivocations :: "(string \<times> addr \<times> int, unit) store"
  WithheldFeeRecords :: "(consumer_id \<times> addr, WithheldFeeRecord) store"
  world :: 'w

end
