(* ===== verification/Keeper.thy ===== *)
theory Keeper
  imports ProviderState
begin

text \<open>
  The accessors of the provider keeper over its collections
  (\<^verbatim>\<open>keeper.go\<close>, \<^verbatim>\<open>permissionless.go\<close>, \<^verbatim>\<open>debt.go\<close>, \<^verbatim>\<open>params.go\<close>) and the
  record of what the keeper is wired with. The other modules of the chain (staking, slashing,
  bank, distribution, IBC, photon) are not part of the repository: each of their methods is a
  function field of \<open>'w keeper\<close>, over the state \<open>'w\<close> those modules keep. A method that may fail
  returns an option; one that writes returns the new state. Logging and events change no state
  and are left out, and so are the store and codec failures of the collections library, which
  the code answers with a panic.
\<close>

named_theorems keeper_simps \<open>the accessors of the keeper\<close>

record 'w keeper =
  feeDenom :: denom
  authority :: string
  \<comment> \<open>x/staking and x/slashing\<close>
  UnbondingTime :: "'w \<Rightarrow> duration option"
  GetBondedValidatorsByPower :: "'w \<Rightarrow> StakingValidator list option"
  MaxValidators :: "'w \<Rightarrow> nat option"
  GetLastValidatorPower :: "'w \<Rightarrow> addr \<Rightarrow> int option"
  GetValidator :: "'w \<Rightarrow> addr \<Rightarrow> StakingValidator option"
  GetValidatorByConsAddr :: "'w \<Rightarrow> addr \<Rightarrow> StakingValidator option"
  GetBlockConsPubKeyRotationHistory :: "'w \<Rightarrow> addr option list option"
    \<comment> \<open>the address of each rotation's new key, or \<open>None\<close> where it does not decode\<close>
  GetUnbondingDelegationsFromValidator :: "'w \<Rightarrow> addr \<Rightarrow> nat list option"
  GetRedelegationsFromSrcValidator :: "'w \<Rightarrow> addr \<Rightarrow> nat list option"
    \<comment> \<open>a delegation record is a handle the other two methods take\<close>
  SlashUnbondingDelegation :: "'w \<Rightarrow> nat \<Rightarrow> int \<Rightarrow> dec \<Rightarrow> int \<times> 'w"
  SlashRedelegation :: "'w \<Rightarrow> StakingValidator \<Rightarrow> nat \<Rightarrow> int \<Rightarrow> dec \<Rightarrow> int \<times> 'w"
  PowerReduction :: "'w \<Rightarrow> int"
  SlashWithInfractionReason :: "'w \<Rightarrow> addr \<Rightarrow> int \<Rightarrow> int \<Rightarrow> dec \<Rightarrow> Infraction \<Rightarrow> bool \<times> 'w"
  IsTombstoned :: "'w \<Rightarrow> addr \<Rightarrow> bool"
  Jail :: "'w \<Rightarrow> addr \<Rightarrow> 'w option"
  JailUntil :: "'w \<Rightarrow> addr \<Rightarrow> time \<Rightarrow> 'w option"
  TombstoneValidator :: "'w \<Rightarrow> addr \<Rightarrow> 'w option"  \<comment> \<open>\<^verbatim>\<open>slashingKeeper.Tombstone\<close>\<close>
  GetHistoricalInfo :: "'w \<Rightarrow> int \<Rightarrow> ConsensusState option"
  GetConsAddr :: "StakingValidator \<Rightarrow> addr option"
  CmtConsPublicKey :: "StakingValidator \<Rightarrow> pubkey option"
  ValAddressFromBech32 :: "string \<Rightarrow> addr option"
  PubKeyConsAddr :: "pubkey \<Rightarrow> addr option"
  \<comment> \<open>x/bank, x/distribution and the account addresses\<close>
  GetBalance :: "'w \<Rightarrow> addr \<Rightarrow> denom \<Rightarrow> int"
  GetAllBalances :: "'w \<Rightarrow> addr \<Rightarrow> Coin list"
  InputOutputCoins :: "'w \<Rightarrow> addr \<times> Coin \<Rightarrow> (addr \<times> Coin) list \<Rightarrow> bool \<times> 'w"
    \<comment> \<open>whether it succeeded, and the state it leaves behind either way\<close>
  SendCoinsFromAccountToModule :: "'w \<Rightarrow> addr \<Rightarrow> string \<Rightarrow> Coin list \<Rightarrow> 'w option"
  SendCoinsFromModuleToAccount :: "'w \<Rightarrow> string \<Rightarrow> addr \<Rightarrow> Coin list \<Rightarrow> 'w option"
  FundCommunityPool :: "'w \<Rightarrow> Coin list \<Rightarrow> addr \<Rightarrow> 'w option"
  DistributeFromFeePool :: "'w \<Rightarrow> Coin list \<Rightarrow> addr \<Rightarrow> 'w option"
  AccAddressFromBech32 :: "string \<Rightarrow> addr option"
  AddressCodecStringToBytes :: "string \<Rightarrow> addr option"
  NewModuleAddress :: "string \<Rightarrow> addr"
  \<comment> \<open>IBC\<close>
  GetClientState :: "'w \<Rightarrow> string \<Rightarrow> client_state option"
  GetClientStatus :: "'w \<Rightarrow> string \<Rightarrow> client_status"
  GetClientCounterparty :: "'w \<Rightarrow> string \<Rightarrow> string option"
  ConsensusStateHeights :: "'w \<Rightarrow> string \<Rightarrow> (nat \<times> nat) list"
    \<comment> \<open>ascending, as \<^verbatim>\<open>IterateConsensusStateAscending\<close> visits them\<close>
  ConsensusStateTimestamp :: "'w \<Rightarrow> string \<Rightarrow> nat \<times> nat \<Rightarrow> time option"
  HasChannelKeeperV2 :: bool
  SendPacket :: "'w \<Rightarrow> string \<Rightarrow> int \<Rightarrow> ValidatorSetChangePacketData \<Rightarrow> bool \<times> 'w"
    \<comment> \<open>client, timeout timestamp, payload; whether it succeeded, and the state either way\<close>
  MaxTimeoutDelta :: duration
  ParseChainID :: "string \<Rightarrow> nat"
  \<comment> \<open>x/photon and the fixed-point arithmetic of cosmossdk.io/math\<close>
  ConversionRate :: "'w \<Rightarrow> dec option"
  DecFromStr :: "string \<Rightarrow> dec option"
  IntFromString :: "string \<Rightarrow> int option"
  DecMul :: "dec \<Rightarrow> dec \<Rightarrow> dec"
  DecQuo :: "dec \<Rightarrow> dec \<Rightarrow> dec"
  \<comment> \<open>the decoding of a consumer key: its JSON object (type, key) and base64\<close>
  UnmarshalPubKeyJSON :: "string \<Rightarrow> (string \<times> string) option"
  Base64DecodeString :: "string \<Rightarrow> bytes option"
  \<comment> \<open>constants of x/staking and CometBFT\<close>
  StakingDefaultUnbondingTime :: duration
  StakingDefaultHistoricalEntries :: int
  MaxChainIDLen :: nat

subsection \<open>Identifiers and phases\<close>

definition GetConsumerId :: "'w pstate \<Rightarrow> nat option" where
  "GetConsumerId s = (if ConsumerId s = 0 then None else Some (ConsumerId s))"

definition FetchAndIncrementConsumerId :: "'w pstate \<Rightarrow> nat \<times> 'w pstate" where
  "FetchAndIncrementConsumerId s = (ConsumerId s, s\<lparr>ConsumerId := ConsumerId s + 1\<rparr>)"

definition GetConsumerPhase :: "'w pstate \<Rightarrow> consumer_id \<Rightarrow> ConsumerPhase" where
  "GetConsumerPhase s c =
     (case store_get (phase_of s) c of None \<Rightarrow> CONSUMER_PHASE_UNSPECIFIED | Some p \<Rightarrow> p)"

definition SetConsumerPhase :: "consumer_id \<Rightarrow> ConsumerPhase \<Rightarrow> 'w pstate \<Rightarrow> 'w pstate" where
  "SetConsumerPhase c p s = s\<lparr>phase_of := store_set c p (phase_of s)\<rparr>"

definition IsConsumerPrelaunched :: "'w pstate \<Rightarrow> consumer_id \<Rightarrow> bool" where
  "IsConsumerPrelaunched s c = Prelaunched (GetConsumerPhase s c)"

definition IsConsumerActive :: "'w pstate \<Rightarrow> consumer_id \<Rightarrow> bool" where
  "IsConsumerActive s c \<longleftrightarrow>
     (let phase = GetConsumerPhase s c in
        phase = CONSUMER_PHASE_REGISTERED \<or> phase = CONSUMER_PHASE_INITIALIZED \<or>
        phase = CONSUMER_PHASE_LAUNCHED \<or> phase = CONSUMER_PHASE_PAUSED)"

definition GetAllConsumerIds :: "'w pstate \<Rightarrow> consumer_id list" where
  "GetAllConsumerIds s = (case GetConsumerId s of None \<Rightarrow> [] | Some n \<Rightarrow> [0..<n])"

definition GetAllActiveConsumerIds :: "'w pstate \<Rightarrow> consumer_id list" where
  "GetAllActiveConsumerIds s = filter (IsConsumerActive s) (GetAllConsumerIds s)"

definition GetAllLaunchedConsumerIds :: "'w pstate \<Rightarrow> consumer_id list" where
  "GetAllLaunchedConsumerIds s =
     filter (\<lambda>c. GetConsumerPhase s c = CONSUMER_PHASE_LAUNCHED) (GetAllConsumerIds s)"

definition nonDeletedConsumerIds :: "'w pstate \<Rightarrow> consumer_id list" where
  "nonDeletedConsumerIds s =
     filter (\<lambda>c. GetConsumerPhase s c \<notin> {CONSUMER_PHASE_UNSPECIFIED, CONSUMER_PHASE_DELETED})
       (GetAllConsumerIds s)"

lemma GetConsumerPhase_Set [simp]:
  "GetConsumerPhase (SetConsumerPhase c p s) d = (if d = c then p else GetConsumerPhase s d)"
  by (simp add: GetConsumerPhase_def SetConsumerPhase_def)

subsection \<open>Registration records\<close>

definition GetConsumerChainId :: "'w pstate \<Rightarrow> consumer_id \<Rightarrow> string option" where
  [keeper_simps]: "GetConsumerChainId s c = store_get (ConsumerChainId s) c"

definition SetConsumerChainId :: "consumer_id \<Rightarrow> string \<Rightarrow> 'w pstate \<Rightarrow> 'w pstate" where
  [keeper_simps]: "SetConsumerChainId c chainId s =
     s\<lparr>ConsumerChainId := store_set c chainId (ConsumerChainId s)\<rparr>"

definition DeleteConsumerChainId :: "consumer_id \<Rightarrow> 'w pstate \<Rightarrow> 'w pstate" where
  [keeper_simps]: "DeleteConsumerChainId c s =
     s\<lparr>ConsumerChainId := store_remove c (ConsumerChainId s)\<rparr>"

definition ChainIdInUse :: "'w pstate \<Rightarrow> string \<Rightarrow> bool" where
  "ChainIdInUse s chainId \<longleftrightarrow> list_ex (\<lambda>e. snd e = chainId) (entries (ConsumerChainId s))"

definition ValidateConsumerChainIdFree :: "sdk_ctx \<Rightarrow> string \<Rightarrow> 'w pstate \<Rightarrow> unit result" where
  "ValidateConsumerChainIdFree ctx chainId s =
     guard_res (chainId \<noteq> ChainID ctx) ErrProviderChainId
       (guard_res (\<not> ChainIdInUse s chainId) ErrDuplicateChainId (Ok ()))"

definition GetConsumerOwnerAddress :: "'w pstate \<Rightarrow> consumer_id \<Rightarrow> string option" where
  [keeper_simps]: "GetConsumerOwnerAddress s c = store_get (ConsumerOwnerAddress s) c"

definition SetConsumerOwnerAddress :: "consumer_id \<Rightarrow> string \<Rightarrow> 'w pstate \<Rightarrow> 'w pstate" where
  [keeper_simps]: "SetConsumerOwnerAddress c owner s =
     s\<lparr>ConsumerOwnerAddress := store_set c owner (ConsumerOwnerAddress s)\<rparr>"

definition SetConsumerMetadata :: "consumer_id \<Rightarrow> ConsumerMetadata \<Rightarrow> 'w pstate \<Rightarrow> 'w pstate" where
  [keeper_simps]: "SetConsumerMetadata c m s =
     s\<lparr>ConsumerMetadata := store_set c m (ConsumerMetadata s)\<rparr>"

definition GetConsumerInitializationParameters ::
    "'w pstate \<Rightarrow> consumer_id \<Rightarrow> ConsumerInitializationParameters option" where
  [keeper_simps]: "GetConsumerInitializationParameters s c = store_get (ConsumerInitParams s) c"

definition ValidateInitialHeight :: "'w keeper \<Rightarrow> nat \<times> nat \<Rightarrow> string \<Rightarrow> unit result" where
  "ValidateInitialHeight k h chainId =
     guard_res (fst h = ParseChainID k chainId) ErrPlain (Ok ())"

definition SetConsumerInitializationParameters ::
    "'w keeper \<Rightarrow> consumer_id \<Rightarrow> ConsumerInitializationParameters \<Rightarrow> 'w pstate \<Rightarrow> 'w pstate result"
  where
  "SetConsumerInitializationParameters k c ps s =
     bind_res
       (if GetConsumerPhase s c \<noteq> CONSUMER_PHASE_DELETED
        then bind_res (of_option ErrPlain (GetConsumerChainId s c))
               (\<lambda>chainId. ValidateInitialHeight k (InitialHeight ps) chainId)
        else Ok ())
       (\<lambda>_. Ok (s\<lparr>ConsumerInitParams := store_set c ps (ConsumerInitParams s)\<rparr>))"

subsection \<open>Clients\<close>

definition GetConsumerClientId :: "'w pstate \<Rightarrow> consumer_id \<Rightarrow> string option" where
  [keeper_simps]: "GetConsumerClientId s c = store_get (ConsumerClients s) c"

definition GetClientIdToConsumerId :: "'w pstate \<Rightarrow> string \<Rightarrow> consumer_id option" where
  "GetClientIdToConsumerId s clientId =
     map_option fst (find (\<lambda>e. snd e = clientId) (entries (ConsumerClients s)))"

text \<open>The unique index refuses a client id another consumer holds; the setter panics on it.\<close>

definition SetConsumerClientId :: "consumer_id \<Rightarrow> string \<Rightarrow> 'w pstate \<Rightarrow> 'w pstate result" where
  "SetConsumerClientId c clientId s =
     (if list_ex (\<lambda>e. snd e = clientId \<and> fst e \<noteq> c) (entries (ConsumerClients s)) then Panic
      else Ok (s\<lparr>ConsumerClients := store_set c clientId (ConsumerClients s)\<rparr>))"

definition DeleteConsumerClientId :: "consumer_id \<Rightarrow> 'w pstate \<Rightarrow> 'w pstate" where
  [keeper_simps]: "DeleteConsumerClientId c s =
     s\<lparr>ConsumerClients := store_remove c (ConsumerClients s)\<rparr>"

subsection \<open>Genesis, heights, pending packets\<close>

definition SetConsumerGenesis :: "consumer_id \<Rightarrow> ConsumerGenesisState \<Rightarrow> 'w pstate \<Rightarrow> 'w pstate" where
  [keeper_simps]: "SetConsumerGenesis c g s = s\<lparr>ConsumerGenesis := store_set c g (ConsumerGenesis s)\<rparr>"

definition DeleteConsumerGenesis :: "consumer_id \<Rightarrow> 'w pstate \<Rightarrow> 'w pstate" where
  [keeper_simps]: "DeleteConsumerGenesis c s = s\<lparr>ConsumerGenesis := store_remove c (ConsumerGenesis s)\<rparr>"

definition IncrementValidatorSetUpdateId :: "'w pstate \<Rightarrow> 'w pstate" where
  [keeper_simps]: "IncrementValidatorSetUpdateId s =
     s\<lparr>ValidatorSetUpdateId := ValidatorSetUpdateId s + 1\<rparr>"

definition DeleteInitChainHeight :: "consumer_id \<Rightarrow> 'w pstate \<Rightarrow> 'w pstate" where
  [keeper_simps]: "DeleteInitChainHeight c s = s\<lparr>InitChainHeight := store_remove c (InitChainHeight s)\<rparr>"

definition GetPendingVSCPackets ::
    "'w pstate \<Rightarrow> consumer_id \<Rightarrow> ValidatorSetChangePacketData list" where
  "GetPendingVSCPackets s c =
     (case store_get (PendingVSCPackets s) c of None \<Rightarrow> [] | Some ps \<Rightarrow> ps)"

definition AppendPendingVSCPackets ::
    "consumer_id \<Rightarrow> ValidatorSetChangePacketData list \<Rightarrow> 'w pstate \<Rightarrow> 'w pstate" where
  "AppendPendingVSCPackets c new s =
     s\<lparr>PendingVSCPackets :=
         store_set c (GetPendingVSCPackets s c @ new) (PendingVSCPackets s)\<rparr>"

definition DeletePendingVSCPackets :: "consumer_id \<Rightarrow> 'w pstate \<Rightarrow> 'w pstate" where
  [keeper_simps]: "DeletePendingVSCPackets c s =
     s\<lparr>PendingVSCPackets := store_remove c (PendingVSCPackets s)\<rparr>"

definition SetEquivocationEvidenceMinHeight :: "consumer_id \<Rightarrow> nat \<Rightarrow> 'w pstate \<Rightarrow> 'w pstate" where
  [keeper_simps]: "SetEquivocationEvidenceMinHeight c h s =
     s\<lparr>EquivocationEvidenceMinHeight := store_set c h (EquivocationEvidenceMinHeight s)\<rparr>"

definition GetEquivocationEvidenceMinHeight :: "'w pstate \<Rightarrow> consumer_id \<Rightarrow> nat" where
  "GetEquivocationEvidenceMinHeight s c =
     (case store_get (EquivocationEvidenceMinHeight s) c of None \<Rightarrow> 0 | Some h \<Rightarrow> h)"

definition DeleteEquivocationEvidenceMinHeight :: "consumer_id \<Rightarrow> 'w pstate \<Rightarrow> 'w pstate" where
  [keeper_simps]: "DeleteEquivocationEvidenceMinHeight c s =
     s\<lparr>EquivocationEvidenceMinHeight := store_remove c (EquivocationEvidenceMinHeight s)\<rparr>"

subsection \<open>Removal, acknowledgements\<close>

definition SetConsumerRemovalTime :: "consumer_id \<Rightarrow> time \<Rightarrow> 'w pstate \<Rightarrow> 'w pstate" where
  [keeper_simps]: "SetConsumerRemovalTime c t s =
     s\<lparr>ConsumerRemovalTime := store_set c t (ConsumerRemovalTime s)\<rparr>"

definition DeleteConsumerRemovalTime :: "consumer_id \<Rightarrow> 'w pstate \<Rightarrow> 'w pstate" where
  [keeper_simps]: "DeleteConsumerRemovalTime c s =
     s\<lparr>ConsumerRemovalTime := store_remove c (ConsumerRemovalTime s)\<rparr>"

definition SetConsumerLastAckTime :: "consumer_id \<Rightarrow> time \<Rightarrow> 'w pstate \<Rightarrow> 'w pstate" where
  [keeper_simps]: "SetConsumerLastAckTime c t s =
     s\<lparr>ConsumerLastAckTime := store_set c t (ConsumerLastAckTime s)\<rparr>"

definition GetConsumerLastAckTime :: "sdk_ctx \<Rightarrow> 'w pstate \<Rightarrow> consumer_id \<Rightarrow> time" where
  "GetConsumerLastAckTime ctx s c =
     (case store_get (ConsumerLastAckTime s) c of None \<Rightarrow> BlockTime ctx | Some t \<Rightarrow> t)"

definition DeleteConsumerLastAckTime :: "consumer_id \<Rightarrow> 'w pstate \<Rightarrow> 'w pstate" where
  [keeper_simps]: "DeleteConsumerLastAckTime c s =
     s\<lparr>ConsumerLastAckTime := store_remove c (ConsumerLastAckTime s)\<rparr>"

definition SetConsumerHighestSentVscId :: "consumer_id \<Rightarrow> nat \<Rightarrow> 'w pstate \<Rightarrow> 'w pstate" where
  [keeper_simps]: "SetConsumerHighestSentVscId c v s =
     s\<lparr>ConsumerHighestSentVscId := store_set c v (ConsumerHighestSentVscId s)\<rparr>"

definition GetConsumerHighestSentVscId :: "'w pstate \<Rightarrow> consumer_id \<Rightarrow> nat" where
  "GetConsumerHighestSentVscId s c =
     (case store_get (ConsumerHighestSentVscId s) c of None \<Rightarrow> 0 | Some v \<Rightarrow> v)"

definition DeleteConsumerHighestSentVscId :: "consumer_id \<Rightarrow> 'w pstate \<Rightarrow> 'w pstate" where
  [keeper_simps]: "DeleteConsumerHighestSentVscId c s =
     s\<lparr>ConsumerHighestSentVscId := store_remove c (ConsumerHighestSentVscId s)\<rparr>"

definition SetConsumerHighestAckedVscId :: "consumer_id \<Rightarrow> nat \<Rightarrow> 'w pstate \<Rightarrow> 'w pstate" where
  [keeper_simps]: "SetConsumerHighestAckedVscId c v s =
     s\<lparr>ConsumerHighestAckedVscId := store_set c v (ConsumerHighestAckedVscId s)\<rparr>"

definition GetConsumerHighestAckedVscId :: "'w pstate \<Rightarrow> consumer_id \<Rightarrow> nat" where
  "GetConsumerHighestAckedVscId s c =
     (case store_get (ConsumerHighestAckedVscId s) c of None \<Rightarrow> 0 | Some v \<Rightarrow> v)"

definition DeleteConsumerHighestAckedVscId :: "consumer_id \<Rightarrow> 'w pstate \<Rightarrow> 'w pstate" where
  [keeper_simps]: "DeleteConsumerHighestAckedVscId c s =
     s\<lparr>ConsumerHighestAckedVscId := store_remove c (ConsumerHighestAckedVscId s)\<rparr>"

subsection \<open>The pause\<close>

definition SetConsumerPauseExpirationTime :: "consumer_id \<Rightarrow> time \<Rightarrow> 'w pstate \<Rightarrow> 'w pstate" where
  [keeper_simps]: "SetConsumerPauseExpirationTime c t s =
     s\<lparr>ConsumerPauseExpirationTime := store_set c t (ConsumerPauseExpirationTime s)\<rparr>"

definition GetConsumerPauseExpirationTime :: "'w pstate \<Rightarrow> consumer_id \<Rightarrow> time option" where
  [keeper_simps]: "GetConsumerPauseExpirationTime s c = store_get (ConsumerPauseExpirationTime s) c"

definition DeleteConsumerPauseExpirationTime :: "consumer_id \<Rightarrow> 'w pstate \<Rightarrow> 'w pstate" where
  [keeper_simps]: "DeleteConsumerPauseExpirationTime c s =
     s\<lparr>ConsumerPauseExpirationTime := store_remove c (ConsumerPauseExpirationTime s)\<rparr>"

definition SetConsumerPauseReason :: "consumer_id \<Rightarrow> PauseReason \<Rightarrow> 'w pstate \<Rightarrow> 'w pstate" where
  [keeper_simps]: "SetConsumerPauseReason c r s =
     s\<lparr>ConsumerPauseReason := store_set c r (ConsumerPauseReason s)\<rparr>"

definition GetConsumerPauseReason :: "'w pstate \<Rightarrow> consumer_id \<Rightarrow> PauseReason" where
  "GetConsumerPauseReason s c =
     (case store_get (ConsumerPauseReason s) c of None \<Rightarrow> PAUSE_REASON_UNSPECIFIED | Some r \<Rightarrow> r)"

definition DeleteConsumerPauseReason :: "consumer_id \<Rightarrow> 'w pstate \<Rightarrow> 'w pstate" where
  [keeper_simps]: "DeleteConsumerPauseReason c s =
     s\<lparr>ConsumerPauseReason := store_remove c (ConsumerPauseReason s)\<rparr>"

definition SetConsumerPausedAt :: "consumer_id \<Rightarrow> time \<Rightarrow> 'w pstate \<Rightarrow> 'w pstate" where
  [keeper_simps]: "SetConsumerPausedAt c t s =
     s\<lparr>ConsumerPausedAt := store_set c t (ConsumerPausedAt s)\<rparr>"

definition GetConsumerPausedAt :: "'w pstate \<Rightarrow> consumer_id \<Rightarrow> time option" where
  [keeper_simps]: "GetConsumerPausedAt s c = store_get (ConsumerPausedAt s) c"

definition DeleteConsumerPausedAt :: "consumer_id \<Rightarrow> 'w pstate \<Rightarrow> 'w pstate" where
  [keeper_simps]: "DeleteConsumerPausedAt c s =
     s\<lparr>ConsumerPausedAt := store_remove c (ConsumerPausedAt s)\<rparr>"

subsection \<open>Debt\<close>

definition IsConsumerInDebt :: "'w pstate \<Rightarrow> consumer_id \<Rightarrow> bool" where
  "IsConsumerInDebt s c = (case store_get (ConsumerDebt s) c of None \<Rightarrow> False | Some b \<Rightarrow> b)"

definition SetConsumerInDebt :: "consumer_id \<Rightarrow> bool \<Rightarrow> 'w pstate \<Rightarrow> 'w pstate" where
  [keeper_simps]: "SetConsumerInDebt c b s = s\<lparr>ConsumerDebt := store_set c b (ConsumerDebt s)\<rparr>"

definition DeleteConsumerDebt :: "consumer_id \<Rightarrow> 'w pstate \<Rightarrow> 'w pstate" where
  [keeper_simps]: "DeleteConsumerDebt c s = s\<lparr>ConsumerDebt := store_remove c (ConsumerDebt s)\<rparr>"

definition UpdateConsumerDebtStatus :: "consumer_id \<Rightarrow> bool \<Rightarrow> 'w pstate \<Rightarrow> 'w pstate" where
  "UpdateConsumerDebtStatus c inDebt s =
     (if IsConsumerInDebt s c = inDebt then s else SetConsumerInDebt c inDebt s)"

lemma IsConsumerInDebt_Update [simp]:
  "IsConsumerInDebt (UpdateConsumerDebtStatus c b s) d = (if d = c then b else IsConsumerInDebt s d)"
  by (simp add: UpdateConsumerDebtStatus_def IsConsumerInDebt_def SetConsumerInDebt_def)

subsection \<open>Parameters\<close>

definition GetFeesPerBlock :: "'w keeper \<Rightarrow> 'w pstate \<Rightarrow> Coin" where
  "GetFeesPerBlock k s = \<lparr>Denom = feeDenom k, Amount = FeesPerBlockAmount (Params s)\<rparr>"

definition effectiveFeesPerBlock :: "'w pstate \<Rightarrow> consumer_id \<Rightarrow> Coin \<Rightarrow> Coin \<times> bool" where
  "effectiveFeesPerBlock s c dflt =
     (case store_get (ConsumerFeesPerBlockOverride s) c of
        None \<Rightarrow> (dflt, False)
      | Some amt \<Rightarrow> (\<lparr>Denom = Denom dflt, Amount = amt\<rparr>, True))"

definition GetEffectiveFeesPerBlock :: "'w keeper \<Rightarrow> 'w pstate \<Rightarrow> consumer_id \<Rightarrow> Coin \<times> bool" where
  "GetEffectiveFeesPerBlock k s c = effectiveFeesPerBlock s c (GetFeesPerBlock k s)"

definition effectiveFeesPerEpoch :: "'w pstate \<Rightarrow> consumer_id \<Rightarrow> Coin \<Rightarrow> Coin \<Rightarrow> Coin \<times> bool" where
  "effectiveFeesPerEpoch s c defaultEpochFee defaultFeePerBlock =
     (case store_get (ConsumerFeesPerBlockOverride s) c of
        None \<Rightarrow> (defaultEpochFee, False)
      | Some amt \<Rightarrow>
          (\<lparr>Denom = Denom defaultFeePerBlock, Amount = amt * BlocksPerEpoch (Params s)\<rparr>, True))"

definition reconcileFeesPerBlockOverrides :: "int \<Rightarrow> 'w pstate \<Rightarrow> 'w pstate" where
  "reconcileFeesPerBlockOverrides floor s =
     (let toRemove = map fst (filter (\<lambda>e. \<not> snd e > floor)
                       (entries (ConsumerFeesPerBlockOverride s)))
      in s\<lparr>ConsumerFeesPerBlockOverride := fold store_remove toRemove (ConsumerFeesPerBlockOverride s)\<rparr>)"

definition ChallengeableInterval :: "InfractionParameters \<Rightarrow> duration" where
  "ChallengeableInterval ip = DowntimeEvidenceMaxAge ip + DowntimeChallengeWindow ip"

definition CurrentDowntimeParams :: "'w pstate \<Rightarrow> DowntimeParams" where
  "CurrentDowntimeParams s =
     \<lparr>dp_SignedBlocksWindow = SignedBlocksWindow (InfractionParams s),
      dp_MinSignedPerWindow = MinSignedPerWindow (InfractionParams s)\<rparr>"

definition SetInfractionParams ::
    "sdk_ctx \<Rightarrow> InfractionParameters \<Rightarrow> 'w pstate \<Rightarrow> 'w pstate" where
  "SetInfractionParams ctx ps s =
     (let old = InfractionParams s;
          s1 = (if SignedBlocksWindow old \<noteq> SignedBlocksWindow ps \<or>
                   MinSignedPerWindow old \<noteq> MinSignedPerWindow ps
                then s\<lparr>PreviousDowntimeParams := Some
                        \<lparr>prev_Params = \<lparr>dp_SignedBlocksWindow = SignedBlocksWindow old,
                                        dp_MinSignedPerWindow = MinSignedPerWindow old\<rparr>,
                         prev_ChangedAt = BlockTime ctx\<rparr>\<rparr>
                else s)
      in s1\<lparr>InfractionParams := ps\<rparr>)"

definition AcceptableDowntimeParams :: "sdk_ctx \<Rightarrow> 'w pstate \<Rightarrow> DowntimeParams \<Rightarrow> bool" where
  "AcceptableDowntimeParams ctx s echoed \<longleftrightarrow>
     (if echoed = CurrentDowntimeParams s then True
      else case PreviousDowntimeParams s of
        None \<Rightarrow> False
      | Some previous \<Rightarrow>
          if echoed \<noteq> prev_Params previous then False
          else (let ip = InfractionParams s;
                    horizon = DowntimeEvidenceMaxAge ip + DowntimeChallengeWindow ip
                in BlockTime ctx - prev_ChangedAt previous \<le> horizon))"

definition CalculateTrustPeriod :: "'w keeper \<Rightarrow> duration \<Rightarrow> string \<Rightarrow> duration result" where
  "CalculateTrustPeriod k unbondingPeriod fraction =
     bind_res (of_option ErrPlain (DecFromStr k fraction))
       (\<lambda>trustDec. Ok (quo (trustDec * unbondingPeriod) dec_one))"

text \<open>Seconds since 1970, as \<^verbatim>\<open>Time.Unix\<close> gives them.\<close>

definition Unix :: "time \<Rightarrow> int" where
  "Unix t = t div 10 ^ 9 - 62135596800"

definition LivenessGracePeriod :: "'w keeper \<Rightarrow> 'w pstate \<Rightarrow> duration result" where
  "LivenessGracePeriod k s =
     bind_res (of_option ErrPlain (UnbondingTime k (world s)))
       (\<lambda>unbonding. CalculateTrustPeriod k unbonding (LivenessGraceFraction (Params s)))"

subsection \<open>A wiring to evaluate the model on\<close>

text \<open>
  The empty state of a chain that has just started, and a wiring in which the other modules
  know nothing and refuse everything. The examples of the development extend it by the answers
  they need.
\<close>

definition blank_params :: ProviderParams where
  "blank_params = \<lparr>TrustingPeriodFraction = ''0.66'', LivenessGraceFraction = ''0.66'',
     VaasTimeoutPeriod = 100, BlocksPerEpoch = 10, FeesPerBlockAmount = 1, MinDepositBlocks = 0,
     MaxPauseDuration = 1000\<rparr>"

definition blank_slash_jail :: SlashJailParameters where
  "blank_slash_jail = \<lparr>SlashFraction = 10 ^ 16, JailDuration = 0, Tombstone = False\<rparr>"

definition blank_infraction_params :: InfractionParameters where
  "blank_infraction_params = \<lparr>DoubleSign = blank_slash_jail, Downtime = blank_slash_jail,
     DowntimeGracePeriod = 0, SignedBlocksWindow = 10, MinSignedPerWindow = 5 * 10 ^ 17,
     DowntimeChallengeWindow = 100, DowntimeEvidenceMaxAge = 100\<rparr>"

definition blank_pstate :: "'w \<Rightarrow> 'w pstate" where
  "blank_pstate w = \<lparr>Params = blank_params, InfractionParams = blank_infraction_params,
     PreviousDowntimeParams = None, ValidatorSetUpdateId = 0, ConsumerId = 0,
     ConsumerClients = empty_store, ConsumerGenesis = empty_store, InitChainHeight = empty_store,
     PendingVSCPackets = empty_store, ConsumerChainId = empty_store,
     ConsumerOwnerAddress = empty_store, ConsumerMetadata = empty_store,
     ConsumerInitParams = empty_store, phase_of = empty_store, ConsumerDebt = empty_store,
     ConsumerFeesPerBlockOverride = empty_store, EquivocationEvidenceMinHeight = empty_store,
     ConsumerRemovalTime = empty_store, ConsumerLastAckTime = empty_store,
     ConsumerHighestSentVscId = empty_store, ConsumerHighestAckedVscId = empty_store,
     SpawnTimeToConsumerIds = empty_store, RemovalTimeToConsumerIds = empty_store,
     ConsumerPauseExpirationTime = empty_store, PauseExpirationTimeToConsumerIds = empty_store,
     ConsumerPauseReason = empty_store, ConsumerPausedAt = empty_store,
     ValidatorConsumerPubKey = empty_store, ValidatorByConsumerAddr = empty_store,
     ConsumerAddrsToPrune = empty_store, ConsumerValidators = empty_store,
     LastProviderConsensusVals = empty_store, ConsumerFeePoolShares = empty_store,
     ConsumerFeePoolTotalShares = empty_store, FeePoolAddressToConsumerId = empty_store,
     EpochDowntime = empty_store, EpochShareRecords = empty_store,
     PendingDowntimeSlashes = empty_store, AcceptedDowntimeWindows = empty_store,
     DowntimeWindowFloors = empty_store, PunishedEquivocations = empty_store,
     WithheldFeeRecords = empty_store, world = w\<rparr>"

definition blank_keeper :: "'w keeper" where
  "blank_keeper = \<lparr>feeDenom = ''uphoton'', authority = ''gov'',
     UnbondingTime = (\<lambda>_. None), GetBondedValidatorsByPower = (\<lambda>_. None),
     MaxValidators = (\<lambda>_. None), GetLastValidatorPower = (\<lambda>_ _. None),
     GetValidator = (\<lambda>_ _. None), GetValidatorByConsAddr = (\<lambda>_ _. None), GetBlockConsPubKeyRotationHistory = (\<lambda>_. Some []),
     GetUnbondingDelegationsFromValidator = (\<lambda>_ _. None),
     GetRedelegationsFromSrcValidator = (\<lambda>_ _. None),
     SlashUnbondingDelegation = (\<lambda>w _ _ _. (0, w)), SlashRedelegation = (\<lambda>w _ _ _ _. (0, w)),
     PowerReduction = (\<lambda>_. 1), SlashWithInfractionReason = (\<lambda>w _ _ _ _ _. (False, w)),
     IsTombstoned = (\<lambda>_ _. False), Jail = (\<lambda>_ _. None), JailUntil = (\<lambda>_ _ _. None),
     TombstoneValidator = (\<lambda>_ _. None), GetHistoricalInfo = (\<lambda>_ _. None),
     GetConsAddr = (\<lambda>v. Some (val_ConsensusPubkey v)),
     CmtConsPublicKey = (\<lambda>v. Some (val_ConsensusPubkey v)),
     ValAddressFromBech32 = (\<lambda>_. None), PubKeyConsAddr = Some,
     GetBalance = (\<lambda>_ _ _. 0), GetAllBalances = (\<lambda>_ _. []), InputOutputCoins = (\<lambda>w _ _. (False, w)),
     SendCoinsFromAccountToModule = (\<lambda>_ _ _ _. None),
     SendCoinsFromModuleToAccount = (\<lambda>_ _ _ _. None), FundCommunityPool = (\<lambda>_ _ _. None),
     DistributeFromFeePool = (\<lambda>_ _ _. None), AccAddressFromBech32 = (\<lambda>_. None),
     AddressCodecStringToBytes = (\<lambda>_. None),
     NewModuleAddress = (\<lambda>n. map (\<lambda>ch. of_nat (of_char ch)) n),
     GetClientState = (\<lambda>_ _. None), GetClientStatus = (\<lambda>_ _. Unknown),
     GetClientCounterparty = (\<lambda>_ _. None), ConsensusStateHeights = (\<lambda>_ _. []),
     ConsensusStateTimestamp = (\<lambda>_ _ _. None), HasChannelKeeperV2 = True,
     SendPacket = (\<lambda>w _ _ _. (False, w)),
     MaxTimeoutDelta = 86400, ParseChainID = (\<lambda>_. 0), ConversionRate = (\<lambda>_. None),
     DecFromStr = (\<lambda>_. None), IntFromString = (\<lambda>_. None), DecMul = (\<lambda>x y. x * y div 10 ^ 18),
     DecQuo = (\<lambda>x y. x * 10 ^ 18 div y), UnmarshalPubKeyJSON = (\<lambda>_. None),
     Base64DecodeString = (\<lambda>_. None), StakingDefaultUnbondingTime = 1814400 * 10 ^ 9,
     StakingDefaultHistoricalEntries = 10000, MaxChainIDLen = 50\<rparr>"

lemmas blank_simps = blank_params_def blank_slash_jail_def blank_infraction_params_def
  blank_pstate_def blank_keeper_def

end
