(* ===== verification/ValSet.thy ===== *)
theory ValSet
  imports Keeper
begin

text \<open>
  The validator set a consumer is given (\<^verbatim>\<open>validator_set_update.go\<close>, the validator-set
  storage of \<^verbatim>\<open>keeper.go\<close>, \<^verbatim>\<open>x/vaas/types/utils.go\<close>): the computation of the next set
  from the bonded validators, the removal of colliding consensus addresses, and the diff that is
  sent. The diff is specified by the update semantics of the consensus engine: applying
  the diff to the current set gives the next set.
\<close>

subsection \<open>Diffs\<close>

text \<open>
  \<^verbatim>\<open>isCurrentValidator\<close> and \<^verbatim>\<open>isNextValidator\<close> are Go maps filled in list order, keyed by the
  public key: a later entry overwrites an earlier one, so a lookup is \<open>map_of\<close> of the reversed
  list.
\<close>

definition by_key :: "ConsensusValidator list \<Rightarrow> pubkey \<rightharpoonup> ConsensusValidator" where
  "by_key vals = map_of (rev (map (\<lambda>v. (PublicKey v, v)) vals))"

definition DiffValidators ::
    "ConsensusValidator list \<Rightarrow> ConsensusValidator list \<Rightarrow> ValidatorUpdate list" where
  "DiffValidators currentValidators nextValidators =
     (let isCurrent = by_key currentValidators; isNext = by_key nextValidators in
      concat (map (\<lambda>cur.
          case isNext (PublicKey cur) of
            None \<Rightarrow> [\<lparr>PubKey = PublicKey cur, Power = 0\<rparr>]
          | Some nxt \<Rightarrow>
              if cv_Power cur \<noteq> cv_Power nxt
              then [\<lparr>PubKey = PublicKey nxt, Power = cv_Power nxt\<rparr>] else [])
        currentValidators)
      @ concat (map (\<lambda>nxt.
          if isCurrent (PublicKey nxt) = None
          then [\<lparr>PubKey = PublicKey nxt, Power = cv_Power nxt\<rparr>] else [])
        nextValidators))"

definition FullValSetUpdates :: "ConsensusValidator list \<Rightarrow> ValidatorUpdate list" where
  "FullValSetUpdates vals = map (\<lambda>v. \<lparr>PubKey = PublicKey v, Power = cv_Power v\<rparr>) vals"

subsection \<open>Consumer validators\<close>

definition GetValidatorConsumerPubKey :: "'w pstate \<Rightarrow> consumer_id \<Rightarrow> addr \<Rightarrow> pubkey option" where
  [keeper_simps]: "GetValidatorConsumerPubKey s c a = store_get (ValidatorConsumerPubKey s) (c, a)"

definition GetConsumerValidator :: "'w pstate \<Rightarrow> consumer_id \<Rightarrow> addr \<Rightarrow> ConsensusValidator option" where
  [keeper_simps]: "GetConsumerValidator s c a = store_get (ConsumerValidators s) (c, a)"

definition IsConsumerValidator :: "'w pstate \<Rightarrow> consumer_id \<Rightarrow> addr \<Rightarrow> bool" where
  [keeper_simps]: "IsConsumerValidator s c a = store_has (ConsumerValidators s) (c, a)"

definition SetConsumerValidator ::
    "consumer_id \<Rightarrow> ConsensusValidator \<Rightarrow> 'w pstate \<Rightarrow> 'w pstate" where
  [keeper_simps]: "SetConsumerValidator c v s =
     s\<lparr>ConsumerValidators := store_set (c, ProviderConsAddr v) v (ConsumerValidators s)\<rparr>"

definition GetConsumerValSet :: "'w pstate \<Rightarrow> consumer_id \<Rightarrow> ConsensusValidator list" where
  "GetConsumerValSet s c = map snd (store_range (\<lambda>k. fst k = c) (ConsumerValidators s))"

definition DeleteConsumerValSet :: "consumer_id \<Rightarrow> 'w pstate \<Rightarrow> 'w pstate" where
  "DeleteConsumerValSet c s =
     (let keysToDel = map fst (store_range (\<lambda>k. fst k = c) (ConsumerValidators s))
      in s\<lparr>ConsumerValidators := fold store_remove keysToDel (ConsumerValidators s)\<rparr>)"

definition SetConsumerValSet ::
    "consumer_id \<Rightarrow> ConsensusValidator list \<Rightarrow> 'w pstate \<Rightarrow> 'w pstate" where
  "SetConsumerValSet c nextValidators s =
     fold (SetConsumerValidator c) nextValidators (DeleteConsumerValSet c s)"

definition SetLastProviderConsensusValSet ::
    "ConsensusValidator list \<Rightarrow> 'w pstate \<Rightarrow> 'w pstate" where
  "SetLastProviderConsensusValSet nextValidators s =
     (let keysToDel = store_keys (LastProviderConsensusVals s);
          cleared = fold store_remove keysToDel (LastProviderConsensusVals s)
      in s\<lparr>LastProviderConsensusVals :=
             fold (\<lambda>v. store_set (ProviderConsAddr v) v) nextValidators cleared\<rparr>)"

definition GetLastProviderConsensusValSet :: "'w pstate \<Rightarrow> ConsensusValidator list" where
  "GetLastProviderConsensusValSet s = map snd (entries (LastProviderConsensusVals s))"

definition CreateProviderConsensusValidator ::
    "'w keeper \<Rightarrow> 'w pstate \<Rightarrow> StakingValidator \<Rightarrow> ConsensusValidator result" where
  "CreateProviderConsensusValidator k s val =
     bind_res (of_option ErrPlain (GetConsAddr k val)) (\<lambda>consAddr.
     bind_res (of_option ErrPlain (CmtConsPublicKey k val)) (\<lambda>pk.
     bind_res (of_option ErrPlain (ValAddressFromBech32 k (OperatorAddress val))) (\<lambda>valAddr.
     bind_res (of_option ErrPlain (GetLastValidatorPower k (world s) valAddr)) (\<lambda>power.
     Ok \<lparr>ProviderConsAddr = consAddr, cv_Power = power, PublicKey = pk, JoinHeight = 0\<rparr>))))"

definition CreateConsumerValidator ::
    "'w keeper \<Rightarrow> sdk_ctx \<Rightarrow> 'w pstate \<Rightarrow> consumer_id \<Rightarrow> StakingValidator \<Rightarrow> ConsensusValidator result"
  where
  "CreateConsumerValidator k ctx s c validator =
     bind_res (of_option ErrPlain (ValAddressFromBech32 k (OperatorAddress validator))) (\<lambda>valAddr.
     bind_res (of_option ErrPlain (GetLastValidatorPower k (world s) valAddr)) (\<lambda>power.
     bind_res (of_option ErrPlain (GetConsAddr k validator)) (\<lambda>consAddr.
     bind_res
       (case GetValidatorConsumerPubKey s c consAddr of
          Some pk \<Rightarrow> Ok pk
        | None \<Rightarrow> of_option ErrPlain (CmtConsPublicKey k validator)) (\<lambda>consumerPublicKey.
     let height = (case GetConsumerValidator s c consAddr of
                     Some v \<Rightarrow> JoinHeight v | None \<Rightarrow> BlockHeight ctx)
     in Ok \<lparr>ProviderConsAddr = consAddr, cv_Power = power,
            PublicKey = consumerPublicKey, JoinHeight = height\<rparr>))))"

text \<open>
  \<^verbatim>\<open>indexByConsumerAddr\<close> maps a consumer consensus address to the index of the entry kept for
  it; on a collision the entry whose provider consensus address sorts first stays.
\<close>

fun create_loop ::
    "'w keeper \<Rightarrow> sdk_ctx \<Rightarrow> 'w pstate \<Rightarrow> consumer_id \<Rightarrow> StakingValidator list
       \<Rightarrow> ConsensusValidator list \<Rightarrow> (addr \<rightharpoonup> nat) \<Rightarrow> ConsensusValidator list result" where
  "create_loop k ctx s c [] nextValidators indexByConsumerAddr = Ok nextValidators"
| "create_loop k ctx s c (val # vals) nextValidators indexByConsumerAddr =
     bind_res (CreateConsumerValidator k ctx s c val) (\<lambda>nextValidator.
     bind_res (of_option ErrPlain (PubKeyConsAddr k (PublicKey nextValidator))) (\<lambda>consumerAddr.
     case indexByConsumerAddr consumerAddr of
       Some i \<Rightarrow>
         create_loop k ctx s c vals
           (if ProviderConsAddr nextValidator < ProviderConsAddr (nextValidators ! i)
            then nextValidators[i := nextValidator] else nextValidators)
           indexByConsumerAddr
     | None \<Rightarrow>
         create_loop k ctx s c vals (nextValidators @ [nextValidator])
           (indexByConsumerAddr(consumerAddr \<mapsto> length nextValidators))))"

definition CreateConsumerValidators ::
    "'w keeper \<Rightarrow> sdk_ctx \<Rightarrow> 'w pstate \<Rightarrow> consumer_id \<Rightarrow> StakingValidator list
       \<Rightarrow> ConsensusValidator list result" where
  "CreateConsumerValidators k ctx s c bonded = create_loop k ctx s c bonded [] Map.empty"

definition GetLastBondedValidators :: "'w keeper \<Rightarrow> 'w pstate \<Rightarrow> StakingValidator list result" where
  "GetLastBondedValidators k s =
     bind_res (of_option ErrPlain (MaxValidators k (world s))) (\<lambda>maxVals.
     bind_res (of_option ErrPlain (GetBondedValidatorsByPower k (world s))) (\<lambda>bonded.
     if length bonded < maxVals then Ok bonded else Ok (take maxVals bonded)))"

definition ComputeConsumerNextValSet ::
    "'w keeper \<Rightarrow> sdk_ctx \<Rightarrow> StakingValidator list \<Rightarrow> consumer_id \<Rightarrow> ConsensusValidator list \<Rightarrow> bool
       \<Rightarrow> 'w pstate \<Rightarrow> (ValidatorUpdate list \<times> 'w pstate) result" where
  "ComputeConsumerNextValSet k ctx bonded c currentConsumerValSet isSnapshot s =
     bind_res (CreateConsumerValidators k ctx s c bonded) (\<lambda>nextValidators.
     let s1 = SetConsumerValSet c nextValidators s in
     if isSnapshot then Ok (FullValSetUpdates nextValidators, s1)
     else Ok (DiffValidators currentConsumerValSet nextValidators, s1))"

definition ProviderValidatorUpdates ::
    "'w keeper \<Rightarrow> 'w pstate \<Rightarrow> (ValidatorUpdate list \<times> 'w pstate) result" where
  "ProviderValidatorUpdates k s =
     bind_res (of_option ErrPlain (GetBondedValidatorsByPower k (world s))) (\<lambda>bonded.
     let currentValidators = GetLastProviderConsensusValSet s in
     bind_res (fold_res (\<lambda>val acc. bind_res (CreateProviderConsensusValidator k s val)
                          (\<lambda>v. Ok (acc @ [v]))) bonded []) (\<lambda>nextValidators.
     Ok (DiffValidators currentValidators nextValidators,
         SetLastProviderConsensusValSet nextValidators s)))"

subsection \<open>What the consensus engine does with updates\<close>

text \<open>
  A validator set of the consensus engine is a partial function from public keys to powers.
  An update with power zero removes the key, any other power sets it.
\<close>

definition apply_update :: "ValidatorUpdate \<Rightarrow> (pubkey \<rightharpoonup> int) \<Rightarrow> (pubkey \<rightharpoonup> int)" where
  "apply_update u m = m(PubKey u := (if Power u = 0 then None else Some (Power u)))"

definition apply_updates :: "ValidatorUpdate list \<Rightarrow> (pubkey \<rightharpoonup> int) \<Rightarrow> (pubkey \<rightharpoonup> int)" where
  "apply_updates us m = fold apply_update us m"

definition powers :: "ConsensusValidator list \<Rightarrow> (pubkey \<rightharpoonup> int)" where
  "powers vals = map_of (map (\<lambda>v. (PublicKey v, cv_Power v)) vals)"

text \<open>A set the engine can hold: distinct keys, positive powers.\<close>

definition proper_set :: "ConsensusValidator list \<Rightarrow> bool" where
  "proper_set vals \<longleftrightarrow> distinct (map PublicKey vals) \<and> (\<forall>v\<in>set vals. cv_Power v > 0)"

lemma apply_updates_simps [simp]:
  "apply_updates [] m = m"
  "apply_updates (u # us) m = apply_updates us (apply_update u m)"
  "apply_updates (us @ vs) m = apply_updates vs (apply_updates us m)"
  by (simp_all add: apply_updates_def)

lemma apply_updates_local: "m p = m' p \<Longrightarrow> apply_updates us m p = apply_updates us m' p"
proof (induction us arbitrary: m m')
  case Nil
  then show ?case by simp
next
  case (Cons u us)
  then have "apply_update u m p = apply_update u m' p" by (simp add: apply_update_def)
  from Cons.IH[of "apply_update u m" "apply_update u m'", OF this] show ?case by simp
qed

lemma apply_updates_other: "\<forall>u\<in>set us. PubKey u \<noteq> p \<Longrightarrow> apply_updates us m p = m p"
  by (induction us arbitrary: m) (auto simp: apply_update_def)

lemma by_key_distinct:
  "distinct (map PublicKey vals) \<Longrightarrow> by_key vals = map_of (map (\<lambda>v. (PublicKey v, v)) vals)"
  unfolding by_key_def
  by (subst map_of_inject_set) (simp_all add: rev_map[symmetric] o_def)

lemma by_key_Some:
  "distinct (map PublicKey vals) \<Longrightarrow> by_key vals p = Some v \<longleftrightarrow> v \<in> set vals \<and> PublicKey v = p"
  by (subst by_key_distinct, assumption, subst map_of_eq_Some_iff) (auto simp: o_def)

lemma by_key_None: "by_key vals p = None \<longleftrightarrow> p \<notin> PublicKey ` set vals"
  by (auto simp: by_key_def map_of_eq_None_iff image_image)

lemma powers_Some:
  "distinct (map PublicKey vals) \<Longrightarrow>
     powers vals p = Some w \<longleftrightarrow> (\<exists>v\<in>set vals. PublicKey v = p \<and> cv_Power v = w)"
  unfolding powers_def by (subst map_of_eq_Some_iff) (auto simp: o_def)

lemma powers_None: "powers vals p = None \<longleftrightarrow> p \<notin> PublicKey ` set vals"
  by (auto simp: powers_def map_of_eq_None_iff image_image)

text \<open>A batch in which every validator contributes updates of its own key only.\<close>

lemma apply_batch:
  assumes "distinct (map PublicKey xs)" "\<forall>x\<in>set xs. \<forall>u\<in>set (f x). PubKey u = PublicKey x"
  shows "v \<in> set xs \<Longrightarrow> apply_updates (concat (map f xs)) m (PublicKey v)
           = apply_updates (f v) m (PublicKey v)"
    and "p \<notin> PublicKey ` set xs \<Longrightarrow> apply_updates (concat (map f xs)) m p = m p"
proof -
  show "apply_updates (concat (map f xs)) m p = m p" if "p \<notin> PublicKey ` set xs"
    using that assms(2) by (intro apply_updates_other) auto
  show "apply_updates (concat (map f xs)) m (PublicKey v) = apply_updates (f v) m (PublicKey v)"
    if "v \<in> set xs"
    using that assms
  proof (induction xs arbitrary: m)
    case Nil
    then show ?case by simp
  next
    case (Cons x xs)
    show ?case
    proof (cases "v = x")
      case True
      have "PubKey u \<noteq> PublicKey v" if "y \<in> set xs" "u \<in> set (f y)" for y u
      proof -
        have "PubKey u = PublicKey y" using that Cons.prems(3) by simp
        moreover have "PublicKey y \<in> PublicKey ` set xs" using that(1) by simp
        ultimately show ?thesis using Cons.prems(2) True by auto
      qed
      then have "\<forall>u\<in>set (concat (map f xs)). PubKey u \<noteq> PublicKey v" by auto
      then show ?thesis using True by (simp add: apply_updates_other)
    next
      case False
      then have v: "v \<in> set xs" using Cons.prems by simp
      then have "PublicKey v \<in> PublicKey ` set xs" by simp
      then have "PublicKey v \<noteq> PublicKey x" using Cons.prems(2) by auto
      then have "apply_updates (f x) m (PublicKey v) = m (PublicKey v)"
        using Cons.prems by (intro apply_updates_other) auto
      then have "apply_updates (f v) (apply_updates (f x) m) (PublicKey v)
          = apply_updates (f v) m (PublicKey v)" 
        by (rule apply_updates_local[of "apply_updates (f x) m" "PublicKey v" m])
      moreover have "apply_updates (concat (map f xs)) (apply_updates (f x) m) (PublicKey v)
          = apply_updates (f v) (apply_updates (f x) m) (PublicKey v)"
        by (rule Cons.IH[OF v]) (use Cons.prems in auto)
      ultimately show ?thesis by (simp only: list.map concat.simps apply_updates_simps)
    qed
  qed
qed

lemma diff_correct:
  assumes "proper_set cur" "proper_set nxt"
  shows "apply_updates (DiffValidators cur nxt) (powers cur) = powers nxt"
proof (rule ext)
  fix p
  have dc: "distinct (map PublicKey cur)" and dn: "distinct (map PublicKey nxt)"
    and pos: "\<And>v. v \<in> set nxt \<Longrightarrow> cv_Power v \<noteq> 0"
    using assms by (auto simp: proper_set_def)
  define f :: "ConsensusValidator \<Rightarrow> ValidatorUpdate list" where "f = (\<lambda>c. case by_key nxt (PublicKey c) of
      None \<Rightarrow> [\<lparr>PubKey = PublicKey c, Power = 0\<rparr>]
    | Some n \<Rightarrow> if cv_Power c \<noteq> cv_Power n then [\<lparr>PubKey = PublicKey n, Power = cv_Power n\<rparr>] else [])"
  define g :: "ConsensusValidator \<Rightarrow> ValidatorUpdate list" where "g = (\<lambda>n. if by_key cur (PublicKey n) = None
      then [\<lparr>PubKey = PublicKey n, Power = cv_Power n\<rparr>] else [])"
  have D: "DiffValidators cur nxt = concat (map f cur) @ concat (map g nxt)"
    by (simp add: DiffValidators_def f_def g_def Let_def)
  have lf: "\<forall>x\<in>set cur. \<forall>u\<in>set (f x). PubKey u = PublicKey x"
    by (auto simp: f_def by_key_Some[OF dn] split: option.splits)
  have lg: "\<forall>x\<in>set nxt. \<forall>u\<in>set (g x). PubKey u = PublicKey x"
    by (auto simp: g_def)
  let ?m = "apply_updates (concat (map f cur)) (powers cur)"
  have split: "apply_updates (DiffValidators cur nxt) (powers cur) p
      = apply_updates (concat (map g nxt)) ?m p" by (simp add: D)
  show "apply_updates (DiffValidators cur nxt) (powers cur) p = powers nxt p"
  proof (cases "p \<in> PublicKey ` set nxt")
    case True
    then obtain n where n: "n \<in> set nxt" "PublicKey n = p" by auto
    have "powers nxt p = Some (cv_Power n)" using n by (auto simp: powers_Some[OF dn])
    moreover have "apply_updates (concat (map g nxt)) ?m p = apply_updates (g n) ?m p"
      using apply_batch(1)[OF dn lg n(1)] n(2) by simp
    moreover have "apply_updates (g n) ?m p = Some (cv_Power n)"
    proof (cases "p \<in> PublicKey ` set cur")
      case True
      then obtain c where c: "c \<in> set cur" "PublicKey c = p" by auto
      have "by_key nxt (PublicKey c) = Some n" using n c by (simp add: by_key_Some[OF dn])
      moreover have "powers cur p = Some (cv_Power c)" using c by (auto simp: powers_Some[OF dc])
      ultimately have "apply_updates (f c) (powers cur) p = Some (cv_Power n)"
        using pos[OF n(1)] n(2) by (auto simp: f_def apply_update_def)
      then have "?m p = Some (cv_Power n)"
        using apply_batch(1)[OF dc lf c(1)] c(2) by metis
      moreover have "g n = []" using True n(2) by (simp add: g_def by_key_None)
      ultimately show ?thesis by simp
    next
      case False
      then have "by_key cur (PublicKey n) = None" using n(2) by (simp add: by_key_None)
      then show ?thesis using pos[OF n(1)] n(2) by (simp add: g_def apply_update_def)
    qed
    ultimately show ?thesis using split by simp
  next
    case notn: False
    then have "powers nxt p = None" by (simp add: powers_None)
    moreover have "apply_updates (concat (map g nxt)) ?m p = ?m p"
      by (rule apply_batch(2)[OF dn lg notn])
    moreover have "?m p = None"
    proof (cases "p \<in> PublicKey ` set cur")
      case True
      then obtain c where c: "c \<in> set cur" "PublicKey c = p" by auto
      have "by_key nxt (PublicKey c) = None" using notn c by (simp add: by_key_None)
      then have "apply_updates (f c) (powers cur) p = None"
        using c by (simp add: f_def apply_update_def)
      then show ?thesis using apply_batch(1)[OF dc lf c(1)] c(2) by metis
    next
      case False
      then show ?thesis using apply_batch(2)[OF dc lf False] by (simp add: powers_None)
    qed
    ultimately show ?thesis using split by simp
  qed
qed

lemma full_updates_correct:
  assumes "proper_set vals"
  shows "apply_updates (FullValSetUpdates vals) Map.empty = powers vals"
proof (rule ext)
  fix p
  have d: "distinct (map PublicKey vals)" using assms by (simp add: proper_set_def)
  define f :: "ConsensusValidator \<Rightarrow> ValidatorUpdate list" where "f = (\<lambda>v. [\<lparr>PubKey = PublicKey v, Power = cv_Power v\<rparr>])"
  have F: "FullValSetUpdates vals = concat (map f vals)"
    by (induction vals) (auto simp: FullValSetUpdates_def f_def)
  have l: "\<forall>x\<in>set vals. \<forall>u\<in>set (f x). PubKey u = PublicKey x" by (simp add: f_def)
  show "apply_updates (FullValSetUpdates vals) Map.empty p = powers vals p"
  proof (cases "p \<in> PublicKey ` set vals")
    case True
    then obtain v where v: "v \<in> set vals" "PublicKey v = p" by auto
    then have "powers vals p = Some (cv_Power v)" by (auto simp: powers_Some[OF d])
    moreover have "cv_Power v \<noteq> 0" using v assms by (auto simp: proper_set_def)
    ultimately show ?thesis
      using apply_batch(1)[OF d l v(1), of Map.empty] v(2) by (simp add: F f_def apply_update_def)
  next
    case False
    then have "powers vals p = None" by (simp add: powers_None)
    then show ?thesis using apply_batch(2)[OF d l False] by (simp add: F)
  qed
qed

subsection \<open>No two validators of a set share a consumer consensus address\<close>

text \<open>
  The consumer consensus address of an entry. \<open>loop_ok\<close> is the invariant of the loop: the index
  maps exactly the addresses of the entries kept so far to their positions.
\<close>

definition consumer_addr :: "'w keeper \<Rightarrow> ConsensusValidator \<Rightarrow> addr option" where
  "consumer_addr k v = PubKeyConsAddr k (PublicKey v)"

definition loop_ok :: "'w keeper \<Rightarrow> ConsensusValidator list \<Rightarrow> (addr \<rightharpoonup> nat) \<Rightarrow> bool" where
  "loop_ok k vals ix \<longleftrightarrow>
     (\<forall>a i. ix a = Some i \<longrightarrow> i < length vals \<and> consumer_addr k (vals ! i) = Some a) \<and>
     (\<forall>i < length vals. \<exists>a. consumer_addr k (vals ! i) = Some a \<and> ix a = Some i)"

lemma loop_ok_empty: "loop_ok k [] Map.empty"
  by (simp add: loop_ok_def)

lemma loop_ok_append:
  assumes "loop_ok k vals ix" "consumer_addr k v = Some a" "ix a = None"
  shows "loop_ok k (vals @ [v]) (ix(a \<mapsto> length vals))"
  unfolding loop_ok_def
proof (intro conjI allI impI)
  fix b i assume "(ix(a \<mapsto> length vals)) b = Some i"
  then show "i < length (vals @ [v])" "consumer_addr k ((vals @ [v]) ! i) = Some b"
    using assms by (fastforce simp: loop_ok_def nth_append split: if_splits)+
next
  fix i assume i: "i < length (vals @ [v])"
  show "\<exists>b. consumer_addr k ((vals @ [v]) ! i) = Some b \<and> (ix(a \<mapsto> length vals)) b = Some i"
  proof (cases "i < length vals")
    case True
    then obtain b where "consumer_addr k (vals ! i) = Some b" "ix b = Some i"
      using assms(1) by (auto simp: loop_ok_def)
    then show ?thesis using True assms(3) by (auto simp: nth_append)
  next
    case False
    then show ?thesis using i assms(2) by (auto simp: nth_append)
  qed
qed

lemma loop_ok_replace:
  assumes "loop_ok k vals ix" "consumer_addr k v = Some a" "ix a = Some i"
  shows "loop_ok k (vals[i := v]) ix"
proof -
  have 1: "\<And>b j. ix b = Some j \<Longrightarrow> j < length vals \<and> consumer_addr k (vals ! j) = Some b"
    and 2: "\<And>j. j < length vals \<Longrightarrow> \<exists>b. consumer_addr k (vals ! j) = Some b \<and> ix b = Some j"
    using assms(1) by (simp_all add: loop_ok_def)
  have "b = a" if "ix b = Some i" for b
    using 1[OF that] 1[OF assms(3)] by simp
  then have "consumer_addr k (vals[i := v] ! j) = Some b" if "ix b = Some j" for b j
    using 1[OF that] that assms(2) by (cases "j = i") auto
  moreover have "\<exists>b. consumer_addr k (vals[i := v] ! j) = Some b \<and> ix b = Some j"
    if "j < length vals" for j
    using 2[OF that] that assms(2,3) by (cases "j = i") auto
  ultimately show ?thesis using 1 by (simp add: loop_ok_def)
qed

lemma loop_ok_distinct:
  assumes "loop_ok k vals ix"
  shows "distinct (map (consumer_addr k) vals)" "\<forall>v\<in>set vals. consumer_addr k v \<noteq> None"
proof -
  have inj: "i = j" if "i < length vals" "j < length vals"
    "consumer_addr k (vals ! i) = consumer_addr k (vals ! j)" for i j
    using assms that unfolding loop_ok_def by (metis option.inject)
  then show "distinct (map (consumer_addr k) vals)" by (auto simp: distinct_conv_nth)
  show "\<forall>v\<in>set vals. consumer_addr k v \<noteq> None"
    using assms by (fastforce simp: loop_ok_def in_set_conv_nth)
qed

lemma create_loop_ok:
  "create_loop k ctx s c vals acc ix = Ok out \<Longrightarrow> loop_ok k acc ix \<Longrightarrow> \<exists>ix'. loop_ok k out ix'"
proof (induction vals arbitrary: acc ix)
  case Nil
  then show ?case by auto
next
  case (Cons val vals)
  then obtain v a where v: "CreateConsumerValidator k ctx s c val = Ok v"
    and a: "PubKeyConsAddr k (PublicKey v) = Some a" by (auto simp: res_simps)
  show ?case
  proof (cases "ix a")
    case None
    then have "loop_ok k (acc @ [v]) (ix(a \<mapsto> length acc))"
      using Cons.prems a by (simp add: loop_ok_append consumer_addr_def)
    then show ?thesis using Cons None v a by simp
  next
    case (Some i)
    then have "loop_ok k (acc[i := v]) ix"
      using Cons.prems a by (simp add: loop_ok_replace consumer_addr_def)
    then show ?thesis using Cons Some v a by (simp split: if_splits)
  qed
qed

lemma CreateConsumerValidators_distinct:
  assumes "CreateConsumerValidators k ctx s c bonded = Ok vals"
  shows "distinct (map (consumer_addr k) vals)" "\<forall>v\<in>set vals. consumer_addr k v \<noteq> None"
proof -
  obtain ix where "loop_ok k vals ix"
    using assms create_loop_ok[OF _ loop_ok_empty] unfolding CreateConsumerValidators_def by blast
  then show "distinct (map (consumer_addr k) vals)" "\<forall>v\<in>set vals. consumer_addr k v \<noteq> None"
    by (rule loop_ok_distinct)+
qed

text \<open>Distinct consensus addresses mean distinct keys: the set is one the engine accepts.\<close>

lemma distinct_addr_keys:
  "distinct (map (consumer_addr k) vals) \<Longrightarrow> distinct (map PublicKey vals)"
  unfolding consumer_addr_def by (simp add: distinct_conv_nth) metis

text \<open>Every entry of the set is the entry of a bonded validator, and no validator has two.\<close>

lemma CreateConsumerValidator_addr:
  assumes "CreateConsumerValidator k ctx s c val = Ok v"
  shows "GetConsAddr k val = Some (ProviderConsAddr v)"
    "\<exists>valAddr. ValAddressFromBech32 k (OperatorAddress val) = Some valAddr \<and>
       GetLastValidatorPower k (world s) valAddr = Some (cv_Power v)"
  using assms by (auto simp: CreateConsumerValidator_def res_simps)

lemma distinct_update_map:
  assumes "distinct (map f xs)" "f v \<notin> f ` set xs"
  shows "distinct (map f (xs[i := v]))"
  using assms by (auto simp: map_update intro!: distinct_list_update)

lemma create_loop_sources:
  assumes "create_loop k ctx s c vals acc ix = Ok out" "loop_ok k acc ix"
    and "distinct (map (GetConsAddr k) vals)" "distinct (map ProviderConsAddr acc)"
    and "\<And>v val. v \<in> set acc \<Longrightarrow> val \<in> set vals \<Longrightarrow> GetConsAddr k val \<noteq> Some (ProviderConsAddr v)"
  shows "distinct (map ProviderConsAddr out) \<and>
    (\<forall>v \<in> set out. v \<in> set acc \<or> (\<exists>val \<in> set vals. CreateConsumerValidator k ctx s c val = Ok v))"
  using assms
proof (induction vals arbitrary: acc ix)
  case Nil
  then show ?case by auto
next
  case (Cons val vals)
  then obtain v a where v: "CreateConsumerValidator k ctx s c val = Ok v"
    and a: "PubKeyConsAddr k (PublicKey v) = Some a" by (auto simp: res_simps)
  have va: "GetConsAddr k val = Some (ProviderConsAddr v)" by (rule CreateConsumerValidator_addr(1)[OF v])
  have new: "ProviderConsAddr v \<notin> ProviderConsAddr ` set acc" using Cons.prems(5) va by (metis imageE list.set_intros(1))
  have rest: "GetConsAddr k x \<noteq> Some (ProviderConsAddr v)" if "x \<in> set vals" for x
    using Cons.prems(3) va that by (auto simp: image_iff)
  have step: ?case if run: "create_loop k ctx s c vals acc' ix' = Ok out" and ok: "loop_ok k acc' ix'"
    and d: "distinct (map ProviderConsAddr acc')" and sub: "set acc' \<subseteq> insert v (set acc)" for acc' ix'
  proof -
    have "distinct (map ProviderConsAddr out) \<and>
      (\<forall>u \<in> set out. u \<in> set acc' \<or> (\<exists>val \<in> set vals. CreateConsumerValidator k ctx s c val = Ok u))"
      using Cons.prems(3,5) rest sub by (intro Cons.IH[OF run ok _ d]) (auto dest!: subsetD[OF sub])
    then show ?thesis using sub v by auto
  qed
  show ?case
  proof (cases "ix a")
    case None
    then have "loop_ok k (acc @ [v]) (ix(a \<mapsto> length acc))"
      using Cons.prems a by (simp add: loop_ok_append consumer_addr_def)
    then show ?thesis using Cons.prems(1,4) None v a new by (intro step[of "acc @ [v]" "ix(a \<mapsto> length acc)"]) auto
  next
    case (Some i)
    then have ok: "loop_ok k (acc[i := v]) ix"
      using Cons.prems a by (simp add: loop_ok_replace consumer_addr_def)
    define acc' where "acc' = (if ProviderConsAddr v < ProviderConsAddr (acc ! i) then acc[i := v] else acc)"
    have "create_loop k ctx s c vals acc' ix = Ok out"
      using Cons.prems(1) v a Some by (simp add: acc'_def)
    moreover have "loop_ok k acc' ix" using ok Cons.prems(2) by (simp add: acc'_def)
    moreover have "distinct (map ProviderConsAddr acc')"
      using distinct_update_map[OF Cons.prems(4) new] Cons.prems(4) by (simp add: acc'_def)
    moreover have "set acc' \<subseteq> insert v (set acc)" using set_update_subset_insert[of acc i v] by (auto simp: acc'_def)
    ultimately show ?thesis by (rule step)
  qed
qed

text \<open>
  What the staking module promises about the validators it reports as bonded: each has its own
  consensus address and a positive last power.
\<close>

definition staking_laws :: "'w keeper \<Rightarrow> 'w \<Rightarrow> bool" where
  "staking_laws k w \<longleftrightarrow>
     (\<forall>vals. GetBondedValidatorsByPower k w = Some vals \<longrightarrow>
        distinct (map (GetConsAddr k) vals) \<and>
        (\<forall>val \<in> set vals. \<forall>a p. ValAddressFromBech32 k (OperatorAddress val) = Some a \<longrightarrow>
           GetLastValidatorPower k w a = Some p \<longrightarrow> 0 < p))"

lemma last_bonded_laws:
  assumes "staking_laws k (world s)" "GetLastBondedValidators k s = Ok bonded"
  shows "distinct (map (GetConsAddr k) bonded)"
    and "val \<in> set bonded \<Longrightarrow> ValAddressFromBech32 k (OperatorAddress val) = Some a \<Longrightarrow>
      GetLastValidatorPower k (world s) a = Some p \<Longrightarrow> 0 < p"
proof -
  from assms(2) obtain vals n where b: "GetBondedValidatorsByPower k (world s) = Some vals"
    "bonded = vals \<or> bonded = take n vals"
    by (auto simp: GetLastBondedValidators_def res_simps split: if_splits)
  have "distinct (map (GetConsAddr k) vals)" using assms(1) b(1) by (simp add: staking_laws_def)
  then show "distinct (map (GetConsAddr k) bonded)" using b(2) by (auto simp: take_map[symmetric])
  show "0 < p" if "val \<in> set bonded" "ValAddressFromBech32 k (OperatorAddress val) = Some a"
    "GetLastValidatorPower k (world s) a = Some p"
    using assms(1) b that by (auto simp: staking_laws_def dest: in_set_takeD)
qed

lemma next_set_proper:
  assumes "CreateConsumerValidators k ctx s c bonded = Ok vals"
    and "distinct (map (GetConsAddr k) bonded)"
    and "\<And>val a p. val \<in> set bonded \<Longrightarrow> ValAddressFromBech32 k (OperatorAddress val) = Some a \<Longrightarrow>
      GetLastValidatorPower k (world s) a = Some p \<Longrightarrow> 0 < p"
  shows "proper_set vals" "distinct (map ProviderConsAddr vals)"
proof -
  have src: "distinct (map ProviderConsAddr vals) \<and>
      (\<forall>v \<in> set vals. v \<in> set [] \<or> (\<exists>val \<in> set bonded. CreateConsumerValidator k ctx s c val = Ok v))"
    using assms(1,2) unfolding CreateConsumerValidators_def
    by (intro create_loop_sources[OF _ loop_ok_empty]) auto
  then show "distinct (map ProviderConsAddr vals)" by simp
  have "0 < cv_Power v" if "v \<in> set vals" for v
    using src that CreateConsumerValidator_addr(2) assms(3) by (metis empty_iff empty_set)
  then show "proper_set vals"
    using distinct_addr_keys[OF CreateConsumerValidators_distinct(1)[OF assms(1)]] by (simp add: proper_set_def)
qed

subsection \<open>Storing the set\<close>

lemma DeleteConsumerValSet_eq:
  "DeleteConsumerValSet c s =
     s\<lparr>ConsumerValidators := store_drop (\<lambda>k. fst k = c) (ConsumerValidators s)\<rparr>"
  by (simp add: DeleteConsumerValSet_def fold_remove_range)

lemma fold_SetConsumerValidator:
  "fold (SetConsumerValidator c) vals s =
     s\<lparr>ConsumerValidators :=
        fold (\<lambda>v. store_set (c, ProviderConsAddr v) v) vals (ConsumerValidators s)\<rparr>"
  by (induction vals arbitrary: s) (simp_all add: SetConsumerValidator_def)

lemma SetConsumerValSet_eq:
  "SetConsumerValSet c vals s =
     s\<lparr>ConsumerValidators := fold (\<lambda>v. store_set (c, ProviderConsAddr v) v) vals
        (store_drop (\<lambda>k. fst k = c) (ConsumerValidators s))\<rparr>"
  by (simp add: SetConsumerValSet_def DeleteConsumerValSet_eq fold_SetConsumerValidator)

lemma get_fold_valset:
  assumes "distinct (map ProviderConsAddr vals)"
  shows "store_get (fold (\<lambda>v. store_set (c, ProviderConsAddr v) v) vals m) (d, a) =
     (case find (\<lambda>v. ProviderConsAddr v = a) vals of
        Some v \<Rightarrow> if d = c then Some v else store_get m (d, a)
      | None \<Rightarrow> store_get m (d, a))"
  using assms
proof (induction vals arbitrary: m)
  case Nil
  then show ?case by simp
next
  case (Cons v vals)
  have "find (\<lambda>w. ProviderConsAddr w = ProviderConsAddr v) vals = None"
    using Cons.prems unfolding find_None_iff by (simp add: image_iff) metis
  then show ?case using Cons by (auto split: option.splits)
qed

text \<open>Reading the stored set back gives the same validators, and only them.\<close>

lemma GetConsumerValSet_Set:
  assumes "distinct (map ProviderConsAddr vals)"
  shows "set (GetConsumerValSet (SetConsumerValSet c vals s) c) = set vals"
    and "d \<noteq> c \<Longrightarrow> GetConsumerValSet (SetConsumerValSet c vals s) d = GetConsumerValSet s d"
proof -
  let ?m = "fold (\<lambda>v. store_set (c, ProviderConsAddr v) v) vals
        (store_drop (\<lambda>k. fst k = c) (ConsumerValidators s))"
  have find: "find (\<lambda>v. ProviderConsAddr v = a) vals = Some v \<longleftrightarrow> v \<in> set vals \<and> ProviderConsAddr v = a"
    for a v
    using assms by (induction vals) (auto simp: find_Some_iff)
  have "v \<in> set (GetConsumerValSet (SetConsumerValSet c vals s) c) \<longleftrightarrow>
      (\<exists>a. store_get ?m (c, a) = Some v)" for v
    by (auto simp: GetConsumerValSet_def SetConsumerValSet_eq image_iff mem_store_range Bex_def)
  also have "\<dots> v \<longleftrightarrow> v \<in> set vals" for v
    using find[of "ProviderConsAddr v" v] by (auto simp: get_fold_valset[OF assms] split: option.splits)
      (auto simp: find intro!: exI[of _ "ProviderConsAddr v"])
  finally show "set (GetConsumerValSet (SetConsumerValSet c vals s) c) = set vals" by blast
  show "GetConsumerValSet (SetConsumerValSet c vals s) d = GetConsumerValSet s d" if "d \<noteq> c"
  proof -
    have "store_get ?m k = store_get (ConsumerValidators s) k" if "fst k = d" for k
      using that \<open>d \<noteq> c\<close> by (cases k) (auto simp: get_fold_valset[OF assms] split: option.splits)
    then have "store_drop (\<lambda>k. fst k \<noteq> d) ?m = store_drop (\<lambda>k. fst k \<noteq> d) (ConsumerValidators s)"
      by (intro store_ext) (auto simp: fun_eq_iff)
    then have "entries (store_drop (\<lambda>k. fst k \<noteq> d) ?m)
        = entries (store_drop (\<lambda>k. fst k \<noteq> d) (ConsumerValidators s))" by simp
    then show ?thesis by (simp add: GetConsumerValSet_def SetConsumerValSet_eq store_range_def)
  qed
qed

lemma powers_set_eq:
  assumes "set vals = set vals'" "distinct (map PublicKey vals)" "distinct (map PublicKey vals')"
  shows "powers vals = powers vals'"
  unfolding powers_def by (subst map_of_inject_set) (use assms in \<open>simp_all add: o_def\<close>)

end
