(* ===== verification/Wire.thy ===== *)
theory Wire
  imports ValSet "HOL-Library.Multiset"
begin

text \<open>
  The packets on the wire and their checks (\<^verbatim>\<open>x/vaas/types/wire.go\<close>,
  \<^verbatim>\<open>x/vaas/types/utils.go\<close>): the missed-block bitmap, the downtime threshold, the
  validation of evidence and validator-set packets, and the accumulation of validator updates.
  Heights are \<^verbatim>\<open>int64\<close> and are modelled as \<open>int\<close>: the guards admit positive heights only,
  so no difference of two heights leaves the range.
\<close>

unbundle bit_operations_syntax

subsection \<open>Bitmaps\<close>

definition BitmapIsSet :: "bytes \<Rightarrow> int \<Rightarrow> bool" where
  "BitmapIsSet bitmap i =
     (let byteIdx = quo i 8 in
      if i < 0 \<or> byteIdx \<ge> int (length bitmap) then False
      else (bitmap ! nat byteIdx) AND push_bit (nat (i mod 8)) 1 \<noteq> 0)"

text \<open>An index outside the slice is a runtime panic.\<close>

definition BitmapSet :: "bytes \<Rightarrow> int \<Rightarrow> bytes result" where
  "BitmapSet bitmap i =
     (if i < 0 \<or> quo i 8 \<ge> int (length bitmap) then Panic
      else let byteIdx = nat (quo i 8) in
        Ok (bitmap[byteIdx := (bitmap ! byteIdx) OR push_bit (nat (i mod 8)) 1]))"

subsection \<open>Evidence packets\<close>

record EvidencePacketData =
  ValidatorAddr :: addr
  WindowEndHeight :: int
  ev_Infraction :: Infraction
  WindowStartHeight :: int
  MissedBlocksBitmap :: bytes
  ev_SignedBlocksWindow :: int
  ev_MinSignedPerWindow :: "dec option"  \<comment> \<open>nil when the JSON omits it\<close>

definition NewEvidencePacketData ::
    "addr \<Rightarrow> int \<Rightarrow> bytes \<Rightarrow> int \<Rightarrow> int \<Rightarrow> dec \<Rightarrow> EvidencePacketData" where
  "NewEvidencePacketData validatorAddr windowStart bitmap span window minSigned =
     \<lparr>ValidatorAddr = validatorAddr, WindowEndHeight = windowStart + span - 1,
      ev_Infraction = INFRACTION_DOWNTIME, WindowStartHeight = windowStart,
      MissedBlocksBitmap = bitmap, ev_SignedBlocksWindow = window,
      ev_MinSignedPerWindow = Some minSigned\<rparr>"

definition Span :: "EvidencePacketData \<Rightarrow> int" where
  "Span e = WindowEndHeight e - WindowStartHeight e + 1"

definition MissedCount :: "EvidencePacketData \<Rightarrow> int" where
  "MissedCount e =
     int (length (filter (\<lambda>i. BitmapIsSet (MissedBlocksBitmap e) (int i)) [0..<nat (Span e)]))"

text \<open>\<^verbatim>\<open>Ceil\<close> of a decimal rounds its mantissa up to the next multiple of \<open>10 ^ 18\<close>.\<close>

definition dec_ceil :: "dec \<Rightarrow> int" where
  "dec_ceil x = - ((- x) div dec_one)"

definition DowntimeParams_MaxMissed :: "DowntimeParams \<Rightarrow> int" where
  "DowntimeParams_MaxMissed p =
     dp_SignedBlocksWindow p - dec_ceil (dp_MinSignedPerWindow p * dp_SignedBlocksWindow p)"

definition MaxMissed :: "EvidencePacketData \<Rightarrow> int" where
  "MaxMissed e =
     DowntimeParams_MaxMissed
       \<lparr>dp_SignedBlocksWindow = ev_SignedBlocksWindow e,
        dp_MinSignedPerWindow = (case ev_MinSignedPerWindow e of None \<Rightarrow> 0 | Some m \<Rightarrow> m)\<rparr>"

definition EvidencePacketData_Validate :: "EvidencePacketData \<Rightarrow> unit result" where
  "EvidencePacketData_Validate e =
     guard_res (ValidatorAddr e \<noteq> []) ErrInvalidPacketData (
     guard_res (\<not> WindowEndHeight e \<le> 0) ErrInvalidPacketData (
     guard_res (ev_Infraction e = INFRACTION_DOWNTIME) ErrPlain (
     guard_res (\<not> WindowStartHeight e \<le> 0) ErrInvalidPacketData (
     guard_res (\<not> WindowEndHeight e < WindowStartHeight e) ErrInvalidPacketData (
     guard_res (\<not> ev_SignedBlocksWindow e \<le> 0) ErrInvalidPacketData (
     guard_res (\<not> Span e > ev_SignedBlocksWindow e) ErrInvalidPacketData (
     guard_res (int (length (MissedBlocksBitmap e)) = quo (Span e + 7) 8) ErrInvalidPacketData (
     bind_res (of_option ErrInvalidPacketData (ev_MinSignedPerWindow e)) (\<lambda>minSigned.
     guard_res (\<not> (minSigned \<le> 0 \<or> minSigned \<ge> dec_one)) ErrInvalidPacketData (
     guard_res (\<not> MissedCount e \<le> 0) ErrInvalidPacketData (Ok ())))))))))))"

subsection \<open>Validator-set packets\<close>

text \<open>\<open>PubKeyFromProto\<close> is CometBFT's check that a key decodes.\<close>

definition ValidatorSetChangePacketData_Validate ::
    "(pubkey \<Rightarrow> bool) \<Rightarrow> ValidatorSetChangePacketData \<Rightarrow> unit result" where
  "ValidatorSetChangePacketData_Validate PubKeyFromProto vsc =
     guard_res (ValsetUpdateId vsc \<noteq> 0) ErrInvalidPacketData (
       fold_res (\<lambda>update _.
           guard_res (PubKeyFromProto (PubKey update)) ErrInvalidPacketData (
           guard_res (\<not> Power update < 0) ErrInvalidPacketData (Ok ())))
         (ValidatorUpdates vsc) ())"

text \<open>
  \<^verbatim>\<open>AccumulateChanges\<close> collects both lists in a Go map keyed by public key, whose iteration
  order is unspecified, and sorts the values by power and then key, descending. \<open>values\<close>
  lists the values of the map in the order of their keys' first insertion;
  \<open>sort_changes\<close> is the sort.
\<close>

definition change_key :: "ValidatorUpdate \<Rightarrow> int \<times> pubkey" where
  "change_key u = (Power u, PubKey u)"

definition sort_changes :: "ValidatorUpdate list \<Rightarrow> ValidatorUpdate list" where
  "sort_changes us = rev (sort_key change_key us)"

definition last_changes :: "ValidatorUpdate list \<Rightarrow> ValidatorUpdate list" where
  "last_changes us =
     map (\<lambda>pk. the (find (\<lambda>u. PubKey u = pk) (rev us))) (remdups (map PubKey us))"

definition AccumulateChanges ::
    "ValidatorUpdate list \<Rightarrow> ValidatorUpdate list \<Rightarrow> ValidatorUpdate list" where
  "AccumulateChanges currentChanges newChanges = sort_changes (last_changes (currentChanges @ newChanges))"

subsection \<open>The bitmap behaves as a set of heights\<close>

lemma byte_bit: "(w :: 8 word) AND 2 ^ n = 0 \<longleftrightarrow> \<not> bit w n"
  by (rule and_exp_eq_0_iff_not_bit)

lemma byte_power_bit: "n < 8 \<Longrightarrow> bit (2 ^ m :: 8 word) n \<longleftrightarrow> m = n"
  by (auto simp: bit_exp_iff)

lemma BitmapIsSet_nat:
  "BitmapIsSet bs (int i) \<longleftrightarrow> i div 8 < length bs \<and> bit (bs ! (i div 8)) (i mod 8)"
proof -
  have "quo (int i) 8 = int (i div 8)" by (simp add: quo_nonneg zdiv_int)
  moreover have "nat (int i mod 8) = i mod 8" by (simp add: nat_mod_distrib)
  ultimately show ?thesis
    by (auto simp: BitmapIsSet_def Let_def byte_bit)
qed

lemma BitmapSet_nat:
  "BitmapSet bs (int i) =
     (if i div 8 < length bs
      then Ok (bs[i div 8 := (bs ! (i div 8)) OR push_bit (i mod 8) 1]) else Panic)"
proof -
  have "quo (int i) 8 = int (i div 8)" by (simp add: quo_nonneg zdiv_int)
  moreover have "nat (int i mod 8) = i mod 8" by (simp add: nat_mod_distrib)
  ultimately show ?thesis by (simp add: BitmapSet_def Let_def)
qed

lemma BitmapSet_get:
  assumes "BitmapSet bs (int i) = Ok bs'"
  shows "length bs' = length bs" "BitmapIsSet bs' (int j) \<longleftrightarrow> j = i \<or> BitmapIsSet bs (int j)"
proof -
  from assms have i: "i div 8 < length bs"
    and bs': "bs' = bs[i div 8 := (bs ! (i div 8)) OR push_bit (i mod 8) 1]"
    by (auto simp: BitmapSet_nat split: if_splits)
  show "length bs' = length bs" by (simp add: bs')
  have eq: "j = i \<longleftrightarrow> j div 8 = i div 8 \<and> j mod 8 = i mod 8" by (metis div_mult_mod_eq)
  show "BitmapIsSet bs' (int j) \<longleftrightarrow> j = i \<or> BitmapIsSet bs (int j)"
    unfolding BitmapIsSet_nat eq bs' using i
    by (cases "j div 8 = i div 8") (auto simp: bit_or_iff byte_power_bit)
qed

lemma MissedCount_bounds: "0 \<le> MissedCount e" "0 \<le> Span e \<Longrightarrow> MissedCount e \<le> Span e"
proof -
  show "0 \<le> MissedCount e" by (simp add: MissedCount_def)
  have "length (filter P [0..<nat (Span e)]) \<le> nat (Span e)" for P
    by (rule order_trans[OF length_filter_le]) simp
  then show "0 \<le> Span e \<Longrightarrow> MissedCount e \<le> Span e"
    unfolding MissedCount_def by (simp add: le_nat_iff)
qed

subsection \<open>The threshold\<close>

lemma dec_ceil_bounds: "x \<le> dec_ceil x * dec_one" "dec_ceil x * dec_one < x + dec_one"
proof -
  have "(- x) div 10 ^ 18 * 10 ^ 18 \<le> - x" by (rule div_mult_le) simp
  then show "x \<le> dec_ceil x * dec_one" by (simp add: dec_ceil_def)
  have "- x < (- x) div 10 ^ 18 * 10 ^ 18 + 10 ^ 18"
    using pos_mod_bound[of "10 ^ 18" "- x"] div_mult_mod_eq[of "- x" "10 ^ 18"] by simp
  then show "dec_ceil x * dec_one < x + dec_one" by (simp add: dec_ceil_def)
qed

lemma dec_ceil_pos: "0 < x \<Longrightarrow> 0 < dec_ceil x"
  using dec_ceil_bounds(1)[of x] by (cases "dec_ceil x \<le> 0") auto

lemma dec_ceil_le: "x \<le> n * dec_one \<Longrightarrow> dec_ceil x \<le> n"
proof -
  assume "x \<le> n * dec_one"
  then have "dec_ceil x * 10 ^ 18 < (n + 1) * 10 ^ 18" using dec_ceil_bounds(2)[of x] by (simp add: algebra_simps)
  then show ?thesis by (simp add: mult_less_cancel_right)
qed

lemma MaxMissed_bounds:
  assumes "0 < w" "0 < m" "m < dec_one"
  shows "0 \<le> w - dec_ceil (m * w)" "w - dec_ceil (m * w) < w"
proof -
  have "m * w \<le> w * dec_one" using assms by (simp add: mult.commute mult_left_mono)
  then show "0 \<le> w - dec_ceil (m * w)" using dec_ceil_le[of "m * w" w] by simp
  show "w - dec_ceil (m * w) < w" using dec_ceil_pos[of "m * w"] assms by simp
qed

subsection \<open>Accumulation of updates\<close>

definition latest :: "ValidatorUpdate list \<Rightarrow> pubkey \<Rightarrow> ValidatorUpdate option" where
  "latest us p = find (\<lambda>u. PubKey u = p) (rev us)"

lemma find_append: "find P (xs @ ys) = (case find P xs of None \<Rightarrow> find P ys | Some x \<Rightarrow> Some x)"
  by (induction xs) auto

lemma latest_None: "latest us p = None \<longleftrightarrow> p \<notin> PubKey ` set us"
  by (auto simp: latest_def find_None_iff)

lemma latest_SomeD: "latest us p = Some u \<Longrightarrow> u \<in> set us \<and> PubKey u = p"
proof -
  have "find P xs = Some x \<Longrightarrow> x \<in> set xs \<and> P x" for P xs and x :: ValidatorUpdate
    by (induction xs) (auto split: if_splits)
  then show "latest us p = Some u \<Longrightarrow> u \<in> set us \<and> PubKey u = p" by (force simp: latest_def)
qed

lemma apply_updates_latest:
  "apply_updates us m p =
     (case latest us p of None \<Rightarrow> m p | Some u \<Rightarrow> if Power u = 0 then None else Some (Power u))"
proof (induction us arbitrary: m)
  case Nil
  then show ?case by (simp add: apply_updates_def latest_def)
next
  case (Cons u us)
  have "latest (u # us) p = (case latest us p of None \<Rightarrow> if PubKey u = p then Some u else None | Some x \<Rightarrow> Some x)"
    by (simp add: latest_def find_append split: option.splits)
  moreover have "apply_update u m p =
      (if PubKey u = p then if Power u = 0 then None else Some (Power u) else m p)"
    by (simp add: apply_update_def)
  ultimately show ?case using Cons[of "apply_update u m"] by (cases "latest us p") simp_all
qed

lemma latest_distinct:
  assumes "distinct (map PubKey us)"
  shows "latest us p = Some u \<longleftrightarrow> u \<in> set us \<and> PubKey u = p"
proof
  assume "u \<in> set us \<and> PubKey u = p"
  then obtain v where v: "latest us p = Some v" using latest_None[of us p] by (cases "latest us p") auto
  then have "v = u" using latest_SomeD[OF v] \<open>u \<in> set us \<and> PubKey u = p\<close> assms
    by (auto simp: distinct_map inj_on_def)
  then show "latest us p = Some u" using v by simp
qed (rule latest_SomeD)

lemma last_changes_props:
  "distinct (map PubKey (last_changes us))"
  "u \<in> set (last_changes us) \<longleftrightarrow> latest us (PubKey u) = Some u"
proof -
  have get: "\<exists>u. latest us p = Some u \<and> PubKey u = p" if "p \<in> set (map PubKey us)" for p
    using that latest_None[of us p] latest_SomeD[of us p] by (cases "latest us p") auto
  have eq: "last_changes us = map (\<lambda>p. the (latest us p)) (remdups (map PubKey us))"
    by (simp add: last_changes_def latest_def)
  have "map PubKey (last_changes us) = remdups (map PubKey us)"
    unfolding eq map_map by (rule map_idI) (use get in force)
  then show "distinct (map PubKey (last_changes us))" by simp
  show "u \<in> set (last_changes us) \<longleftrightarrow> latest us (PubKey u) = Some u"
  proof
    assume "u \<in> set (last_changes us)"
    then obtain p where "p \<in> set (map PubKey us)" "u = the (latest us p)" by (auto simp: eq)
    then show "latest us (PubKey u) = Some u" using get[of p] by auto
  next
    assume l: "latest us (PubKey u) = Some u"
    then have "PubKey u \<in> set (map PubKey us)" using latest_SomeD[OF l] by auto
    then show "u \<in> set (last_changes us)" using l unfolding eq by force
  qed
qed

lemma set_sort_changes [simp]: "set (sort_changes us) = set us"
  by (simp add: sort_changes_def)

lemma distinct_sort_changes: "distinct (map PubKey us) \<Longrightarrow> distinct (map PubKey (sort_changes us))"
  by (simp add: sort_changes_def distinct_map)

lemma latest_accumulate: "latest (AccumulateChanges xs ys) p = latest (xs @ ys) p"
proof -
  let ?us = "xs @ ys" and ?out = "AccumulateChanges xs ys"
  have "distinct (map PubKey ?out)"
    by (simp add: AccumulateChanges_def distinct_sort_changes last_changes_props(1))
  then have "latest ?out p = Some u \<longleftrightarrow> latest ?us p = Some u" for u
    using latest_SomeD[of ?us p u]
    by (auto simp: latest_distinct AccumulateChanges_def last_changes_props(2))
  then show ?thesis by (metis option.exhaust)
qed

subsection \<open>Properties\<close>

text \<open>
  C31. Accumulating two batches of validator updates has the effect of applying them one after
  the other, lists every key once, and the result does not depend on the order in which the Go
  map is iterated.
\<close>

theorem accumulate_changes_correct:
  "apply_updates (AccumulateChanges xs ys) m = apply_updates ys (apply_updates xs m) \<and>
   distinct (map PubKey (AccumulateChanges xs ys)) \<and>
   (\<forall>vs. mset vs = mset (last_changes (xs @ ys)) \<longrightarrow> sort_changes vs = AccumulateChanges xs ys)"
proof (intro conjI allI impI)
  show "apply_updates (AccumulateChanges xs ys) m = apply_updates ys (apply_updates xs m)"
  proof -
    have "apply_updates ys (apply_updates xs m) = apply_updates (xs @ ys) m"
      by (simp add: apply_updates_def)
    then show ?thesis
      by (intro ext) (simp only: apply_updates_latest[of "AccumulateChanges xs ys"]
          apply_updates_latest[of "xs @ ys"] latest_accumulate)
  qed
  show "distinct (map PubKey (AccumulateChanges xs ys))"
    by (simp add: AccumulateChanges_def distinct_sort_changes last_changes_props(1))
  fix vs assume eq: "mset vs = mset (last_changes (xs @ ys))"
  have "distinct (last_changes (xs @ ys))" using last_changes_props(1)[of "xs @ ys"] by (simp add: distinct_map)
  moreover have "set vs = set (last_changes (xs @ ys))" using eq by (rule mset_eq_setD)
  moreover have "distinct vs" using eq \<open>distinct (last_changes (xs @ ys))\<close>
    by (metis mset_eq_imp_distinct_iff)
  moreover have "inj change_key" by (auto simp: inj_on_def change_key_def)
  ultimately have "sort_key change_key vs = sort_key change_key (last_changes (xs @ ys))"
    by (intro map_sorted_distinct_set_unique[where f = change_key])
      (auto simp: distinct_map inj_on_def)
  then show "sort_changes vs = AccumulateChanges xs ys"
    by (simp add: AccumulateChanges_def sort_changes_def)
qed

theorem accumulate_changes_correct_witness:
  "apply_updates (AccumulateChanges [\<lparr>PubKey = [1], Power = 5\<rparr>] [\<lparr>PubKey = [1], Power = 0\<rparr>]) Map.empty
     = apply_updates [\<lparr>PubKey = [1], Power = 0\<rparr>] (apply_updates [\<lparr>PubKey = [1], Power = 5\<rparr>] Map.empty) \<and>
   sort_changes [\<lparr>PubKey = [1], Power = 0\<rparr>] =
     AccumulateChanges [\<lparr>PubKey = [1], Power = 5\<rparr>] [\<lparr>PubKey = [1], Power = 0\<rparr>]"
  using accumulate_changes_correct[of "[\<lparr>PubKey = [1], Power = 5\<rparr>]" "[\<lparr>PubKey = [1], Power = 0\<rparr>]" Map.empty]
  by (simp add: last_changes_def)

text \<open>
  C32. A downtime packet that passes validation reports a window of at least one and at most
  \<^verbatim>\<open>signed_blocks_window\<close> heights, with at least one and at most that many missed blocks, and
  its threshold lies between zero and the window length.
\<close>

theorem validated_evidence_bounds:
  assumes "EvidencePacketData_Validate e = Ok ()"
  shows "0 < WindowStartHeight e \<and> 1 \<le> Span e \<and> Span e \<le> ev_SignedBlocksWindow e \<and>
    1 \<le> MissedCount e \<and> MissedCount e \<le> Span e \<and>
    0 \<le> MaxMissed e \<and> MaxMissed e < ev_SignedBlocksWindow e \<and>
    int (length (MissedBlocksBitmap e)) * 8 < Span e + 8"
proof -
  from assms obtain m where m: "ev_MinSignedPerWindow e = Some m" "0 < m" "m < dec_one"
    and g: "0 < WindowStartHeight e" "WindowStartHeight e \<le> WindowEndHeight e"
      "0 < ev_SignedBlocksWindow e" "Span e \<le> ev_SignedBlocksWindow e" "0 < MissedCount e"
    and len: "int (length (MissedBlocksBitmap e)) = quo (Span e + 7) 8"
    by (auto simp: EvidencePacketData_Validate_def res_simps not_le not_less)
  have sp: "1 \<le> Span e" using g by (simp add: Span_def)
  have "quo (Span e + 7) 8 = (Span e + 7) div 8" using sp by (simp add: quo_nonneg)
  then have "int (length (MissedBlocksBitmap e)) * 8 \<le> Span e + 7"
    using div_mult_le[of 8 "Span e + 7"] by (simp add: len)
  moreover have "MaxMissed e = ev_SignedBlocksWindow e - dec_ceil (m * ev_SignedBlocksWindow e)"
    by (simp add: MaxMissed_def DowntimeParams_MaxMissed_def m)
  ultimately show ?thesis
    using g sp MaxMissed_bounds[OF g(3) m(2,3)] MissedCount_bounds(2)[of e] by simp
qed

theorem validated_evidence_bounds_witness:
  "MissedCount (NewEvidencePacketData [1] 5 [3] 4 10 (5 * 10 ^ 17)) \<le> 4 \<and>
   MaxMissed (NewEvidencePacketData [1] 5 [3] 4 10 (5 * 10 ^ 17)) < 10"
proof -
  let ?e = "NewEvidencePacketData [1] 5 [3] 4 10 (5 * 10 ^ 17)"
  have "MissedCount ?e = 2"
    by (simp add: MissedCount_def NewEvidencePacketData_def Span_def BitmapIsSet_def quo_def
        upt_rec[of _ 4] numeral_nat)
  then have "EvidencePacketData_Validate ?e = Ok ()"
    by (simp add: EvidencePacketData_Validate_def NewEvidencePacketData_def Span_def quo_def)
  from validated_evidence_bounds[OF this] show ?thesis
    by (simp add: NewEvidencePacketData_def Span_def)
qed

text \<open>
  The bitmap is a set of positions: setting bit \<open>i\<close> of a bitmap that is long enough makes
  exactly \<open>i\<close> a member in addition and keeps the length.
\<close>

theorem bitmap_set_then_get:
  "(BitmapSet bs (int i) = Panic \<longleftrightarrow> length bs * 8 \<le> i) \<and>
   (\<forall>bs'. BitmapSet bs (int i) = Ok bs' \<longrightarrow>
      length bs' = length bs \<and> (\<forall>j. BitmapIsSet bs' (int j) \<longleftrightarrow> j = i \<or> BitmapIsSet bs (int j)))"
proof -
  have "\<not> i div 8 < length bs \<longleftrightarrow> length bs * 8 \<le> i" by auto
  then have "BitmapSet bs (int i) = Panic \<longleftrightarrow> length bs * 8 \<le> i"
    by (cases "i div 8 < length bs") (simp_all add: BitmapSet_nat)
  then show ?thesis using BitmapSet_get by blast
qed

theorem bitmap_set_then_get_witness:
  "BitmapIsSet [0, 8] 11 \<and> \<not> BitmapIsSet [0, 8] 10"
proof -
  have "BitmapSet [0, 0] (int 11) = Ok [0, 8]" by (simp add: BitmapSet_def quo_def)
  then have get: "BitmapIsSet [0, 8] (int j) \<longleftrightarrow> j = 11 \<or> BitmapIsSet [0, 0] (int j)" for j
    using bitmap_set_then_get[of "[0, 0]" 11] by blast
  have "\<not> BitmapIsSet [0, 0] 10" by (simp add: BitmapIsSet_def quo_def)
  then show ?thesis using get[of 11] get[of 10] by simp
qed

end
