(* ===== verification/FeePool.thy ===== *)
theory FeePool
  imports Keeper
begin

text \<open>
  The share ledger of the consumer fee pools (\<^verbatim>\<open>fee_pool_shares.go\<close>,
  \<^verbatim>\<open>send_restriction.go\<close>, \<^verbatim>\<open>invariants.go\<close>, and the escrow total of
  \<^verbatim>\<open>fees.go\<close>): depositors hold shares of a pool's balance, a draw burns shares, a sweep
  pays every holder and sends the rest to the community pool. Amounts are unbounded integers
  (\<^verbatim>\<open>math.Int\<close> panics beyond 256 bits).

  The invariant \<open>ledger_ok\<close> says that the shares of a pool are positive and add up to its
  recorded total; every operation keeps it. The bank is a parameter: \<open>bank_laws\<close> states what
  x/bank and x/distribution document about a transfer.
\<close>

definition ModuleName :: string where
  "ModuleName = ''vaasprovider''"

abbreviation distributionModule :: string where
  "distributionModule \<equiv> ''distribution''"

definition GetConsumerFeePoolAddress :: "'w keeper \<Rightarrow> consumer_id \<Rightarrow> addr" where
  "GetConsumerFeePoolAddress k c =
     NewModuleAddress k (ModuleName @ ''-consumer-fee-pool-'' @ decimal c)"

abbreviation pool_balance :: "'w keeper \<Rightarrow> 'w pstate \<Rightarrow> consumer_id \<Rightarrow> denom \<Rightarrow> int" where
  "pool_balance k s c d \<equiv> GetBalance k (world s) (GetConsumerFeePoolAddress k c) d"

subsection \<open>Operations\<close>

definition outstandingWithheldFees :: "sdk_ctx \<Rightarrow> 'w pstate \<Rightarrow> consumer_id \<Rightarrow> denom \<Rightarrow> int" where
  "outstandingWithheldFees ctx s c d =
     sum_list (map (\<lambda>e. Amount (wfr_Amount (snd e)))
       (filter (\<lambda>e. Denom (wfr_Amount (snd e)) = d \<and> ExpiresAt (snd e) > BlockTime ctx)
         (store_range (\<lambda>key. fst key = c) (WithheldFeeRecords s))))"

definition feePoolDraw :: "int \<Rightarrow> int \<Rightarrow> int \<Rightarrow> int \<Rightarrow> int \<times> int" where
  "feePoolDraw shares totalShares balance limit =
     (if \<not> (0 < shares \<and> 0 < totalShares \<and> 0 < balance \<and> 0 < limit) then (0, 0)
      else let claim = quo (shares * balance) totalShares in
        if claim \<le> limit then (shares, claim)
        else let sharesToBurn = quo (limit * totalShares) balance in
          if \<not> 0 < sharesToBurn then (0, 0)
          else (sharesToBurn, quo (sharesToBurn * balance) totalShares))"

definition ComputeClaim ::
    "'w keeper \<Rightarrow> sdk_ctx \<Rightarrow> 'w pstate \<Rightarrow> consumer_id \<Rightarrow> addr \<Rightarrow> denom \<Rightarrow> int" where
  "ComputeClaim k ctx s c depositor d =
     (let balance = pool_balance k s c d in
      if balance = 0 then 0
      else case store_get (ConsumerFeePoolShares s) (c, d, depositor) of
        None \<Rightarrow> 0
      | Some shares \<Rightarrow>
          (case store_get (ConsumerFeePoolTotalShares s) (c, d) of
             None \<Rightarrow> 0
           | Some totalShares \<Rightarrow>
               if totalShares = 0 then 0
               else snd (feePoolDraw shares totalShares balance
                           (balance - outstandingWithheldFees ctx s c d))))"

definition clearAllShares :: "consumer_id \<Rightarrow> denom \<Rightarrow> 'w pstate \<Rightarrow> 'w pstate" where
  "clearAllShares c d s =
     (let s1 = s\<lparr>ConsumerFeePoolShares :=
                  store_drop (\<lambda>key. fst key = c \<and> fst (snd key) = d) (ConsumerFeePoolShares s)\<rparr>
      in if \<not> store_has (ConsumerFeePoolTotalShares s1) (c, d) then s1
         else s1\<lparr>ConsumerFeePoolTotalShares :=
                  store_remove (c, d) (ConsumerFeePoolTotalShares s1)\<rparr>)"

definition absorbUnaccountedBalance ::
    "'w keeper \<Rightarrow> consumer_id \<Rightarrow> denom \<Rightarrow> int \<Rightarrow> 'w pstate \<Rightarrow> 'w pstate" where
  "absorbUnaccountedBalance k c d balance s =
     (let s1 = clearAllShares c d s;
          distrAddr = NewModuleAddress k distributionModule
      in s1\<lparr>ConsumerFeePoolShares :=
              store_set (c, d, distrAddr) balance (ConsumerFeePoolShares s1),
            ConsumerFeePoolTotalShares :=
              store_set (c, d) balance (ConsumerFeePoolTotalShares s1)\<rparr>)"

definition MintShares ::
    "'w keeper \<Rightarrow> consumer_id \<Rightarrow> addr \<Rightarrow> Coin \<Rightarrow> 'w pstate \<Rightarrow> 'w pstate result" where
  "MintShares k c depositor amount s =
     (let d = Denom amount;
          balance = pool_balance k s c d;
          total0 = (case store_get (ConsumerFeePoolTotalShares s) (c, d) of
                      None \<Rightarrow> 0 | Some t \<Rightarrow> t);
          (total1, s1) = (if balance = 0 \<and> 0 < total0 then (0, clearAllShares c d s)
                          else (total0, s));
          (totalShares, s2) = (if total1 = 0 \<and> 0 < balance
                         then (balance, absorbUnaccountedBalance k c d balance s1)
                         else (total1, s1));
          shares = (if totalShares = 0 then Amount amount
                    else quo (Amount amount * totalShares) balance)
      in guard_res (0 < shares) ErrDepositTooSmall (
         let existing = (case store_get (ConsumerFeePoolShares s2) (c, d, depositor) of
                           None \<Rightarrow> 0 | Some x \<Rightarrow> x)
         in Ok (s2\<lparr>ConsumerFeePoolShares :=
                     store_set (c, d, depositor) (existing + shares) (ConsumerFeePoolShares s2),
                   ConsumerFeePoolTotalShares :=
                     store_set (c, d) (totalShares + shares) (ConsumerFeePoolTotalShares s2)\<rparr>)))"

definition WithdrawShares ::
    "'w keeper \<Rightarrow> sdk_ctx \<Rightarrow> consumer_id \<Rightarrow> addr \<Rightarrow> Coin \<Rightarrow> 'w pstate \<Rightarrow> (Coin \<times> 'w pstate) result"
  where
  "WithdrawShares k ctx c depositor amount s =
     (let d = Denom amount in
      bind_res (of_option ErrNoSharesForDepositor
                  (store_get (ConsumerFeePoolShares s) (c, d, depositor))) (\<lambda>shares.
      bind_res (case store_get (ConsumerFeePoolTotalShares s) (c, d) of
                  None \<Rightarrow> Err ErrPoolEmpty
                | Some totalShares \<Rightarrow> if totalShares = 0 then Err ErrPoolEmpty else Ok totalShares) (\<lambda>totalShares.
      let balance = pool_balance k s c d;
          available = balance - outstandingWithheldFees ctx s c d
      in guard_res (0 < available) ErrPoolEmpty (
         let limit = (if available < Amount amount then available else Amount amount);
             (sharesToBurn, tokensToSend) = feePoolDraw shares totalShares balance limit
         in guard_res (0 < sharesToBurn) ErrSubShareWithdraw (
            let remainingShares = shares - sharesToBurn;
                newTotal = totalShares - sharesToBurn;
                sharesStore = (if remainingShares = 0
                               then store_remove (c, d, depositor) (ConsumerFeePoolShares s)
                               else store_set (c, d, depositor) remainingShares
                                      (ConsumerFeePoolShares s));
                totalStore = (if newTotal = 0
                              then store_remove (c, d) (ConsumerFeePoolTotalShares s)
                              else store_set (c, d) newTotal (ConsumerFeePoolTotalShares s))
            in Ok (\<lparr>Denom = d, Amount = tokensToSend\<rparr>,
                   s\<lparr>ConsumerFeePoolShares := sharesStore,
                     ConsumerFeePoolTotalShares := totalStore\<rparr>))))))"

text \<open>
  The sweep. A failed transfer is a panic: the code never returns an error from it. The loop
  pays one share record and adds the slice to what has been distributed.
\<close>

definition must :: "'a option \<Rightarrow> 'a result" where
  "must x = (case x of None \<Rightarrow> Panic | Some v \<Rightarrow> Ok v)"

definition pay_slice ::
    "'w keeper \<Rightarrow> denom \<Rightarrow> int \<Rightarrow> int \<Rightarrow> (consumer_id \<times> denom \<times> addr) \<times> int
       \<Rightarrow> 'w \<times> int \<Rightarrow> ('w \<times> int) result" where
  "pay_slice k d balance totalShares e acc =
     (let (w, distributed) = acc;
          slice = quo (snd e * balance) totalShares;
          coin = \<lparr>Denom = d, Amount = slice\<rparr>;
          addr = snd (snd (fst e));
          distrAddr = NewModuleAddress k distributionModule;
          providerAddr = NewModuleAddress k ModuleName
      in if slice = 0 then Ok acc
         else bind_res
           (if addr = distrAddr then must (FundCommunityPool k w [coin] providerAddr)
            else must (SendCoinsFromModuleToAccount k w ModuleName addr [coin]))
           (\<lambda>w'. Ok (w', distributed + slice)))"

definition SweepConsumerFeePoolDenom ::
    "'w keeper \<Rightarrow> consumer_id \<Rightarrow> denom \<Rightarrow> 'w pstate \<Rightarrow> 'w pstate result" where
  "SweepConsumerFeePoolDenom k c d s =
     (let poolAddr = GetConsumerFeePoolAddress k c;
          balance = GetBalance k (world s) poolAddr d;
          total0 = (case store_get (ConsumerFeePoolTotalShares s) (c, d) of
                      None \<Rightarrow> 0 | Some t \<Rightarrow> t)
      in if balance = 0 \<and> total0 = 0 then Ok s
         else let (totalShares, s1) = (if total0 = 0
                                 then (balance, absorbUnaccountedBalance k c d balance s)
                                 else (total0, s))
           in if balance = 0 then Ok (clearAllShares c d s1)
              else
                bind_res (must (SendCoinsFromAccountToModule k (world s1) poolAddr ModuleName
                            [\<lparr>Denom = d, Amount = balance\<rparr>])) (\<lambda>w1.
                bind_res (fold_res (pay_slice k d balance totalShares)
                            (store_range (\<lambda>key. fst key = c \<and> fst (snd key) = d)
                               (ConsumerFeePoolShares s1)) (w1, 0)) (\<lambda>(w2, distributed).
                let dust = balance - distributed in
                bind_res (if 0 < dust
                          then must (FundCommunityPool k w2 [\<lparr>Denom = d, Amount = dust\<rparr>]
                                  (NewModuleAddress k ModuleName))
                          else Ok w2) (\<lambda>w3.
                Ok (clearAllShares c d (s1\<lparr>world := w3\<rparr>))))))"

definition sweep_denoms :: "'w keeper \<Rightarrow> consumer_id \<Rightarrow> 'w pstate \<Rightarrow> denom list" where
  "sweep_denoms k c s =
     sort (remdups
       (map (\<lambda>e. snd (fst e)) (store_range (\<lambda>key. fst key = c) (ConsumerFeePoolTotalShares s))
        @ map Denom (GetAllBalances k (world s) (GetConsumerFeePoolAddress k c))))"

definition SweepConsumerFeePool ::
    "'w keeper \<Rightarrow> consumer_id \<Rightarrow> denom list \<Rightarrow> 'w pstate \<Rightarrow> 'w pstate result" where
  "SweepConsumerFeePool k c denoms s =
     (if denoms \<noteq> [] then fold_res (SweepConsumerFeePoolDenom k c) denoms s
      else fold_res (SweepConsumerFeePoolDenom k c) (sweep_denoms k c s) s)"

definition FeePoolSendRestriction ::
    "'w keeper \<Rightarrow> 'w pstate \<Rightarrow> addr \<Rightarrow> addr \<Rightarrow> addr result" where
  "FeePoolSendRestriction k s fromAddr toAddr =
     (if \<not> store_has (FeePoolAddressToConsumerId s) toAddr then Ok toAddr
      else if fromAddr = NewModuleAddress k ModuleName \<or>
              fromAddr = NewModuleAddress k distributionModule then Ok toAddr
      else Err ErrUnsolicitedFeePoolDeposit)"

text \<open>
  The registered invariant: \<open>True\<close> means broken, as for the route of x/crisis. The sums of the
  first pass are those of the share records with the pair's prefix.
\<close>

definition in_pool :: "consumer_id \<Rightarrow> denom \<Rightarrow> consumer_id \<times> denom \<times> addr \<Rightarrow> bool" where
  "in_pool c d key \<longleftrightarrow> fst key = c \<and> fst (snd key) = d"

definition FeePoolSharesConsistencyInvariant :: "'w keeper \<Rightarrow> 'w pstate \<Rightarrow> bool" where
  "FeePoolSharesConsistencyInvariant k s \<longleftrightarrow>
     list_ex (\<lambda>((c, d), totalShares).
        store_range (in_pool c d) (ConsumerFeePoolShares s) = [] \<or>
        sum_list (map snd (store_range (in_pool c d) (ConsumerFeePoolShares s))) \<noteq> totalShares \<or>
        0 < totalShares \<and> \<not> 0 < pool_balance k s c d)
      (entries (ConsumerFeePoolTotalShares s)) \<or>
     list_ex (\<lambda>((c, d, a), shares). \<not> store_has (ConsumerFeePoolTotalShares s) (c, d))
      (entries (ConsumerFeePoolShares s)) \<or>
     list_ex (\<lambda>(a, c).
        list_ex (\<lambda>coin. 0 < Amount coin \<and>
                   \<not> store_has (ConsumerFeePoolTotalShares s) (c, Denom coin))
          (GetAllBalances k (world s) a))
      (entries (FeePoolAddressToConsumerId s))"

subsection \<open>The arithmetic of a draw\<close>

lemma draw_cases:
  obtains "feePoolDraw sh t b l = (0, 0)"
  | "0 < sh" "0 < t" "0 < b" "0 < l" "sh * b div t \<le> l" "feePoolDraw sh t b l = (sh, sh * b div t)"
  | "0 < sh" "0 < t" "0 < b" "0 < l" "l < sh * b div t" "0 < l * t div b"
    "feePoolDraw sh t b l = (l * t div b, l * t div b * b div t)"
proof (cases "0 < sh \<and> 0 < t \<and> 0 < b \<and> 0 < l")
  case True
  then have q: "quo (sh * b) t = sh * b div t" "quo (l * t) b = l * t div b"
    by (simp_all add: quo_nonneg)
  define u where "u = l * t div b"
  have "quo (u * b) t = u * b div t" if "0 < u"
    using True that by (intro quo_nonneg) (simp_all add: mult_nonneg_nonneg)
  then have "feePoolDraw sh t b l =
      (if sh * b div t \<le> l then (sh, sh * b div t) else if 0 < u then (u, u * b div t) else (0, 0))"
    using True by (simp add: feePoolDraw_def Let_def q u_def)
  then show ?thesis using True that unfolding u_def
    by (metis not_le)
next
  case False
  then have "feePoolDraw sh t b l = (0, 0)" by (auto simp: feePoolDraw_def)
  then show ?thesis by (rule that(1))
qed

lemma burn_less:
  assumes "0 < t" "0 < b" "l < sh * b div t"
  shows "l * t div b < (sh::int)"
proof -
  have "l * t div b * b \<le> l * t" by (rule div_mult_le[OF assms(2)])
  also have "\<dots> < (sh * b div t) * t" using assms by simp
  also have "\<dots> \<le> sh * b" by (rule div_mult_le[OF assms(1)])
  finally show ?thesis using assms(2) by (simp add: mult_less_cancel_right)
qed

lemma draw_bounds:
  assumes "feePoolDraw sh t b l = (burn, tokens)"
  shows "0 \<le> burn" "0 \<le> tokens" "0 \<le> sh \<Longrightarrow> burn \<le> sh" "0 \<le> l \<Longrightarrow> tokens \<le> l"
    "tokens * t \<le> burn * b" "0 < tokens \<Longrightarrow> 0 < burn"
proof -
  have *: "0 \<le> burn \<and> 0 \<le> tokens \<and> (0 \<le> sh \<longrightarrow> burn \<le> sh) \<and> (0 \<le> l \<longrightarrow> tokens \<le> l) \<and>
    tokens * t \<le> burn * b \<and> (0 < tokens \<longrightarrow> 0 < burn)"
  proof (rule draw_cases[of sh t b l])
    assume "0 < sh" "0 < t" "0 < b" "0 < l" "sh * b div t \<le> l" "feePoolDraw sh t b l = (sh, sh * b div t)"
    then show ?thesis using assms div_mult_le[of t "sh * b"]
      by (auto simp: pos_imp_zdiv_nonneg_iff)
  next
    assume a: "0 < sh" "0 < t" "0 < b" "0 < l" "l < sh * b div t" "0 < l * t div b"
      "feePoolDraw sh t b l = (l * t div b, l * t div b * b div t)"
    have "l * t div b * b \<le> l * t" by (rule div_mult_le[OF a(3)])
    then have "l * t div b * b div t \<le> l * t div t" using a(2) by (rule zdiv_mono1)
    then have "l * t div b * b div t \<le> l" using a(2) by simp
    moreover have "0 \<le> l * t div b * b"
      using a(3,6) by (intro mult_nonneg_nonneg) simp_all
    then have "0 \<le> l * t div b * b div t" using a(2) by (simp add: pos_imp_zdiv_nonneg_iff)
    ultimately show ?thesis
      using assms a burn_less[OF a(2,3,5)] div_mult_le[OF a(2), of "l * t div b * b"] by auto
  qed (use assms in simp)
  then show "0 \<le> burn" "0 \<le> tokens" "0 \<le> sh \<Longrightarrow> burn \<le> sh" "0 \<le> l \<Longrightarrow> tokens \<le> l"
    "tokens * t \<le> burn * b" "0 < tokens \<Longrightarrow> 0 < burn" by auto
qed

lemma draw_le_claim: "0 < sh \<Longrightarrow> 0 < t \<Longrightarrow> 0 < b \<Longrightarrow> snd (feePoolDraw sh t b l) \<le> sh * b div t"
proof (rule draw_cases[of sh t b l])
  assume a: "0 < sh" "0 < t" "0 < b" "0 < l" "l < sh * b div t" "0 < l * t div b"
    "feePoolDraw sh t b l = (l * t div b, l * t div b * b div t)"
  have "l * t div b * b \<le> sh * b" using burn_less[OF a(2,3,5)] a(3) by simp
  then show ?thesis using a(2,7) by (simp add: zdiv_mono1)
qed (simp_all add: pos_imp_zdiv_nonneg_iff)

text \<open>A higher limit never yields less.\<close>

lemma draw_mono:
  assumes "l \<le> m"
  shows "snd (feePoolDraw sh t b l) \<le> snd (feePoolDraw sh t b m)"
proof (rule draw_cases[of sh t b l])
  assume "feePoolDraw sh t b l = (0, 0)"
  then show ?thesis using draw_bounds(2)[of sh t b m] by (cases "feePoolDraw sh t b m") auto
next
  assume a: "0 < sh" "0 < t" "0 < b" "0 < l" "sh * b div t \<le> l" "feePoolDraw sh t b l = (sh, sh * b div t)"
  then have "feePoolDraw sh t b m = (sh, sh * b div t)"
    using assms by (auto simp: feePoolDraw_def Let_def quo_nonneg)
  then show ?thesis using a by simp
next
  assume a: "0 < sh" "0 < t" "0 < b" "0 < l" "l < sh * b div t" "0 < l * t div b"
    "feePoolDraw sh t b l = (l * t div b, l * t div b * b div t)"
  show ?thesis
  proof (cases "sh * b div t \<le> m")
    case True
    then have "feePoolDraw sh t b m = (sh, sh * b div t)"
      using a assms by (auto simp: feePoolDraw_def Let_def quo_nonneg)
    then show ?thesis using draw_le_claim[OF a(1-3), of l] by simp
  next
    case False
    have le: "l * t div b \<le> m * t div b" using assms a(2,3) by (simp add: zdiv_mono1)
    then have "feePoolDraw sh t b m = (m * t div b, m * t div b * b div t)"
      using False a assms by (auto simp: feePoolDraw_def Let_def quo_nonneg)
    moreover have "l * t div b * b div t \<le> m * t div b * b div t"
      using le a(2,3) by (intro zdiv_mono1) simp_all
    ultimately show ?thesis using a by simp
  qed
qed

subsection \<open>The ledger invariant\<close>

definition total_of :: "'w pstate \<Rightarrow> consumer_id \<Rightarrow> denom \<Rightarrow> int" where
  "total_of s c d = (case store_get (ConsumerFeePoolTotalShares s) (c, d) of None \<Rightarrow> 0 | Some t \<Rightarrow> t)"

definition shares_sum :: "'w pstate \<Rightarrow> consumer_id \<Rightarrow> denom \<Rightarrow> int" where
  "shares_sum s c d = range_sum (\<lambda>x. x) (in_pool c d) (ConsumerFeePoolShares s)"

definition ledger_ok :: "'w pstate \<Rightarrow> bool" where
  "ledger_ok s \<longleftrightarrow>
     (\<forall>c d. shares_sum s c d = total_of s c d) \<and>
     (\<forall>key x. store_get (ConsumerFeePoolShares s) key = Some x \<longrightarrow> 0 < x) \<and>
     (\<forall>key t. store_get (ConsumerFeePoolTotalShares s) key = Some t \<longrightarrow> 0 < t)"

lemma ledger_okD:
  assumes "ledger_ok s"
  shows "shares_sum s c d = total_of s c d"
    and "store_get (ConsumerFeePoolShares s) key = Some x \<Longrightarrow> 0 < x"
    and "store_get (ConsumerFeePoolTotalShares s) pair = Some t \<Longrightarrow> 0 < t"
  using assms unfolding ledger_ok_def by blast+

lemma ledger_ok_cong:
  "ConsumerFeePoolShares s = ConsumerFeePoolShares t \<Longrightarrow>
   ConsumerFeePoolTotalShares s = ConsumerFeePoolTotalShares t \<Longrightarrow> ledger_ok s = ledger_ok t"
  by (simp add: ledger_ok_def shares_sum_def total_of_def)

lemma total_nonneg: "ledger_ok s \<Longrightarrow> 0 \<le> total_of s c d"
  using ledger_okD(3)[of s "(c, d)"] by (fastforce simp: total_of_def split: option.splits)

text \<open>A pool without a total has no share records.\<close>

lemma no_total_no_shares:
  assumes "ledger_ok s" "total_of s c d = 0"
  shows "store_get (ConsumerFeePoolShares s) (c, d, a) = None"
proof (rule ccontr)
  assume "\<not> ?thesis"
  then obtain x where x: "store_get (ConsumerFeePoolShares s) (c, d, a) = Some x" by auto
  have "x \<le> shares_sum s c d"
    unfolding shares_sum_def using ledger_okD(2)[OF assms(1)]
    by (intro range_sum_ge[where k = "(c, d, a)" and f = "\<lambda>x. x", OF _ x])
      (auto simp: in_pool_def less_imp_le)
  then show False using ledger_okD(1,2)[OF assms(1)] x assms(2) by fastforce
qed

lemma share_le_total:
  assumes "ledger_ok s" "store_get (ConsumerFeePoolShares s) (c, d, a) = Some x"
  shows "x \<le> total_of s c d"
proof -
  have "x \<le> shares_sum s c d"
    unfolding shares_sum_def using ledger_okD(2)[OF assms(1)]
    by (intro range_sum_ge[where k = "(c, d, a)" and f = "\<lambda>x. x", OF _ assms(2)])
      (auto simp: in_pool_def less_imp_le)
  then show ?thesis using ledger_okD(1)[OF assms(1)] by simp
qed

lemma clearAllShares_eq:
  "clearAllShares c d s =
     s\<lparr>ConsumerFeePoolShares := store_drop (in_pool c d) (ConsumerFeePoolShares s),
       ConsumerFeePoolTotalShares := store_remove (c, d) (ConsumerFeePoolTotalShares s)\<rparr>"
  by (simp add: clearAllShares_def Let_def in_pool_def[abs_def] store_has_def kv.remove_absent)

text \<open>
  Replacing the share of one holder and the total of its pool by the same amount keeps the
  ledger: minting, burning and absorbing are all of this form.
\<close>

lemma ledger_ok_adjust:
  assumes ok: "ledger_ok s"
    and old: "old = (case store_get (ConsumerFeePoolShares s) (c, d, a) of None \<Rightarrow> 0 | Some x \<Rightarrow> x)"
    and "0 < new" "0 < total_of s c d + (new - old)"
  shows "ledger_ok (s\<lparr>ConsumerFeePoolShares := store_set (c, d, a) new (ConsumerFeePoolShares s),
     ConsumerFeePoolTotalShares :=
       store_set (c, d) (total_of s c d + (new - old)) (ConsumerFeePoolTotalShares s)\<rparr>)"
    (is "ledger_ok ?t")
proof -
  have "shares_sum ?t e f = total_of ?t e f" for e f
  proof -
    have "in_pool e f (c, d, a) \<longleftrightarrow> e = c \<and> f = d" by (auto simp: in_pool_def)
    then show ?thesis using ledger_okD(1)[OF ok, of e f] old
      by (auto simp: shares_sum_def total_of_def range_sum_set split: option.splits)
  qed
  then show ?thesis using assms ledger_okD(2,3)[OF ok] by (auto simp: ledger_ok_def)
qed

lemma ledger_ok_burn_all:
  assumes ok: "ledger_ok s" and old: "store_get (ConsumerFeePoolShares s) (c, d, a) = Some old"
  shows "ledger_ok (s\<lparr>ConsumerFeePoolShares := store_remove (c, d, a) (ConsumerFeePoolShares s),
     ConsumerFeePoolTotalShares :=
       (if total_of s c d - old = 0 then store_remove (c, d) (ConsumerFeePoolTotalShares s)
        else store_set (c, d) (total_of s c d - old) (ConsumerFeePoolTotalShares s))\<rparr>)"
    (is "ledger_ok ?t")
proof -
  have "shares_sum ?t e f = total_of ?t e f" for e f
  proof -
    have "in_pool e f (c, d, a) \<longleftrightarrow> e = c \<and> f = d" by (auto simp: in_pool_def)
    then show ?thesis using ledger_okD(1)[OF ok, of e f] old
      by (auto simp: shares_sum_def total_of_def range_sum_remove split: option.splits)
  qed
  moreover have "0 \<le> total_of s c d - old" using share_le_total[OF ok old] by simp
  ultimately show ?thesis using ledger_okD(2,3)[OF ok] by (auto simp: ledger_ok_def split: if_splits)
qed

lemma ledger_ok_clear:
  assumes ok: "ledger_ok s"
  shows "ledger_ok (clearAllShares c d s)" "total_of (clearAllShares c d s) c d = 0"
    "store_get (ConsumerFeePoolShares (clearAllShares c d s)) (c, d, a) = None"
proof -
  have "shares_sum (clearAllShares c d s) e f = total_of (clearAllShares c d s) e f" for e f
  proof (cases "e = c \<and> f = d")
    case True
    have "range_sum (\<lambda>x. x) (\<lambda>k. in_pool c d k \<and> \<not> in_pool c d k) (ConsumerFeePoolShares s) = 0"
      by (simp add: range_sum_def store_range_def)
    then show ?thesis using True
      by (simp add: shares_sum_def total_of_def clearAllShares_eq range_sum_drop)
  next
    case False
    then have "(\<lambda>k. in_pool e f k \<and> \<not> in_pool c d k) = in_pool e f" by (auto simp: in_pool_def)
    then show ?thesis using False ledger_okD(1)[OF ok, of e f]
      by (auto simp: shares_sum_def total_of_def clearAllShares_eq range_sum_drop)
  qed
  then show "ledger_ok (clearAllShares c d s)"
    using ledger_okD(2,3)[OF ok] by (auto simp: ledger_ok_def clearAllShares_eq split: if_splits)
qed (simp_all add: total_of_def clearAllShares_eq in_pool_def)

lemma ledger_ok_absorb:
  assumes ok: "ledger_ok s" and "0 < b"
  shows "ledger_ok (absorbUnaccountedBalance k c d b s)"
    "total_of (absorbUnaccountedBalance k c d b s) c d = b"
proof -
  let ?s = "clearAllShares c d s"
  note cl = ledger_ok_clear[OF ok, of c d]
  show "ledger_ok (absorbUnaccountedBalance k c d b s)"
    using ledger_ok_adjust[OF cl(1), of 0 c d "NewModuleAddress k distributionModule" b] cl assms(2)
    by (simp add: absorbUnaccountedBalance_def Let_def)
  show "total_of (absorbUnaccountedBalance k c d b s) c d = b"
    by (simp add: absorbUnaccountedBalance_def total_of_def Let_def)
qed

text \<open>What minting does, in terms of the pool the shares are priced against.\<close>

definition mint_base :: "'w keeper \<Rightarrow> consumer_id \<Rightarrow> denom \<Rightarrow> 'w pstate \<Rightarrow> 'w pstate" where
  "mint_base k c d s =
     (let b = pool_balance k s c d;
          s1 = (if b = 0 \<and> 0 < total_of s c d then clearAllShares c d s else s)
      in if total_of s1 c d = 0 \<and> 0 < b then absorbUnaccountedBalance k c d b s1 else s1)"

definition minted :: "int \<Rightarrow> int \<Rightarrow> int \<Rightarrow> int" where
  "minted t b amount = (if t = 0 then amount else quo (amount * t) b)"

lemma MintShares_eq:
  "MintShares k c a amount s =
     (let d = Denom amount; u = mint_base k c d s; t = total_of u c d;
          n = minted t (pool_balance k s c d) (Amount amount);
          old = (case store_get (ConsumerFeePoolShares u) (c, d, a) of None \<Rightarrow> 0 | Some x \<Rightarrow> x)
      in guard_res (0 < n) ErrDepositTooSmall
           (Ok (u\<lparr>ConsumerFeePoolShares := store_set (c, d, a) (old + n) (ConsumerFeePoolShares u),
                  ConsumerFeePoolTotalShares := store_set (c, d) (t + n) (ConsumerFeePoolTotalShares u)\<rparr>)))"
proof -
  have [simp]: "total_of (clearAllShares c d u) c d = 0" for d and u :: "'a pstate"
    by (simp add: total_of_def clearAllShares_eq)
  have [simp]: "total_of (absorbUnaccountedBalance k c d b u) c d = b" for d b and u :: "'a pstate"
    by (simp add: absorbUnaccountedBalance_def total_of_def Let_def)
  show ?thesis
    by (cases "pool_balance k s c (Denom amount) = 0 \<and> 0 < total_of s c (Denom amount)")
      (auto simp add: MintShares_def mint_base_def minted_def Let_def total_of_def[symmetric])
qed

lemma ledger_ok_mint_base: "ledger_ok s \<Longrightarrow> ledger_ok (mint_base k c d s)"
  by (simp add: mint_base_def Let_def ledger_ok_absorb ledger_ok_clear)

lemma ledger_ok_mint:
  assumes "ledger_ok s" "MintShares k c a amount s = Ok t"
  shows "ledger_ok t"
proof -
  let ?d = "Denom amount" let ?u = "mint_base k c ?d s"
  let ?n = "minted (total_of ?u c ?d) (pool_balance k s c ?d) (Amount amount)"
  define old where "old = (case store_get (ConsumerFeePoolShares ?u) (c, ?d, a) of None \<Rightarrow> 0 | Some x \<Rightarrow> x)"
  have u: "ledger_ok ?u" by (rule ledger_ok_mint_base[OF assms(1)])
  have n: "0 < ?n" and t: "t = ?u\<lparr>ConsumerFeePoolShares := store_set (c, ?d, a) (old + ?n) (ConsumerFeePoolShares ?u),
      ConsumerFeePoolTotalShares :=
        store_set (c, ?d) (total_of ?u c ?d + ?n) (ConsumerFeePoolTotalShares ?u)\<rparr>"
    using assms(2) by (simp_all add: MintShares_eq Let_def res_simps old_def)
  have "0 \<le> old" using ledger_okD(2)[OF u] by (fastforce simp: old_def split: option.splits)
  then show ?thesis
    using ledger_ok_adjust[OF u old_def, of "old + ?n"] n total_nonneg[OF u, of c ?d] by (simp add: t)
qed

text \<open>A withdrawal that succeeds: what it burned, what it pays.\<close>

lemma WithdrawShares_Ok:
  assumes "WithdrawShares k ctx c a amount s = Ok (coin, t)"
  obtains shares burn where
    "store_get (ConsumerFeePoolShares s) (c, Denom amount, a) = Some shares"
    "0 < pool_balance k s c (Denom amount) - outstandingWithheldFees ctx s c (Denom amount)"
    "feePoolDraw shares (total_of s c (Denom amount)) (pool_balance k s c (Denom amount))
       (min (Amount amount)
         (pool_balance k s c (Denom amount) - outstandingWithheldFees ctx s c (Denom amount)))
       = (burn, Amount coin)"
    "Denom coin = Denom amount" "0 < burn"
    "t = s\<lparr>ConsumerFeePoolShares :=
         (if shares - burn = 0 then store_remove (c, Denom amount, a) (ConsumerFeePoolShares s)
          else store_set (c, Denom amount, a) (shares - burn) (ConsumerFeePoolShares s)),
       ConsumerFeePoolTotalShares :=
         (if total_of s c (Denom amount) - burn = 0
          then store_remove (c, Denom amount) (ConsumerFeePoolTotalShares s)
          else store_set (c, Denom amount) (total_of s c (Denom amount) - burn)
                 (ConsumerFeePoolTotalShares s))\<rparr>"
proof -
  let ?d = "Denom amount"
  let ?avail = "pool_balance k s c ?d - outstandingWithheldFees ctx s c ?d"
  obtain shares where sh: "store_get (ConsumerFeePoolShares s) (c, ?d, a) = Some shares"
    using assms by (auto simp: WithdrawShares_def Let_def res_simps)
  obtain tot where tot: "store_get (ConsumerFeePoolTotalShares s) (c, ?d) = Some tot" "tot \<noteq> 0"
    using assms by (auto simp: WithdrawShares_def Let_def res_simps split: option.splits if_splits)
  have t: "total_of s c ?d = tot" by (simp add: total_of_def tot)
  have m: "(if ?avail < Amount amount then ?avail else Amount amount) = min (Amount amount) ?avail"
    by (simp add: min_def)
  obtain burn tokens where dr: "feePoolDraw shares tot (pool_balance k s c ?d)
      (min (Amount amount) ?avail) = (burn, tokens)" by fastforce
  show thesis
    by (rule that[of shares burn])
      (use assms sh tot dr in \<open>auto simp: WithdrawShares_def Let_def res_simps m t\<close>)
qed

lemma ledger_ok_withdraw:
  assumes ok: "ledger_ok s" and "WithdrawShares k ctx c a amount s = Ok (coin, t)"
  shows "ledger_ok t"
  using assms(2)
proof (rule WithdrawShares_Ok)
  let ?d = "Denom amount"
  fix shares burn
  assume sh: "store_get (ConsumerFeePoolShares s) (c, ?d, a) = Some shares"
    and dr: "feePoolDraw shares (total_of s c ?d) (pool_balance k s c ?d)
       (min (Amount amount) (pool_balance k s c ?d - outstandingWithheldFees ctx s c ?d))
       = (burn, Amount coin)" and b: "0 < burn"
    and t: "t = s\<lparr>ConsumerFeePoolShares :=
         (if shares - burn = 0 then store_remove (c, ?d, a) (ConsumerFeePoolShares s)
          else store_set (c, ?d, a) (shares - burn) (ConsumerFeePoolShares s)),
       ConsumerFeePoolTotalShares :=
         (if total_of s c ?d - burn = 0 then store_remove (c, ?d) (ConsumerFeePoolTotalShares s)
          else store_set (c, ?d) (total_of s c ?d - burn) (ConsumerFeePoolTotalShares s))\<rparr>"
  have pos: "0 < shares" using ledger_okD(2)[OF ok sh] .
  have le: "burn \<le> shares" using draw_bounds(3)[OF dr] pos by simp
  have tot: "shares \<le> total_of s c ?d" by (rule share_le_total[OF ok sh])
  show ?thesis
  proof (cases "shares - burn = 0")
    case True
    then have "burn = shares" by simp
    then show ?thesis
      using ledger_ok_burn_all[OF ok sh] unfolding t by (cases "total_of s c ?d = shares") simp_all
  next
    case False
    then show ?thesis using ledger_ok_adjust[OF ok refl, of "shares - burn" c ?d a] sh le tot b
      by (simp add: t)
  qed
qed

subsection \<open>What the bank promises\<close>

text \<open>
  Hypotheses about x/bank and x/distribution, as their documentation states them: balances are
  never negative, a transfer of a positive amount the sender holds succeeds and moves exactly
  that amount. \<open>receives\<close> are the accounts the bank lets a module pay (it blocks module
  accounts). Module addresses are hashes of their names; \<open>addr_laws\<close> is their freedom from
  collisions.
\<close>

definition moved :: "'w keeper \<Rightarrow> 'w \<Rightarrow> addr \<Rightarrow> addr \<Rightarrow> denom \<Rightarrow> int \<Rightarrow> 'w \<Rightarrow> bool" where
  "moved k w a b d n w' \<longleftrightarrow>
     (\<forall>x e. GetBalance k w' x e = GetBalance k w x e
        - (if x = a \<and> e = d then n else 0) + (if x = b \<and> e = d then n else 0))"

definition bank_laws :: "'w keeper \<Rightarrow> (addr \<Rightarrow> bool) \<Rightarrow> bool" where
  "bank_laws k receives \<longleftrightarrow>
     (\<forall>w x e. 0 \<le> GetBalance k w x e) \<and>
     (\<forall>w a m d n. 0 < n \<and> n \<le> GetBalance k w a d \<longrightarrow>
        (\<exists>w'. SendCoinsFromAccountToModule k w a m [\<lparr>Denom = d, Amount = n\<rparr>] = Some w' \<and>
              moved k w a (NewModuleAddress k m) d n w')) \<and>
     (\<forall>w m b d n. 0 < n \<and> n \<le> GetBalance k w (NewModuleAddress k m) d \<and> receives b \<longrightarrow>
        (\<exists>w'. SendCoinsFromModuleToAccount k w m b [\<lparr>Denom = d, Amount = n\<rparr>] = Some w' \<and>
              moved k w (NewModuleAddress k m) b d n w')) \<and>
     (\<forall>w a d n. 0 < n \<and> n \<le> GetBalance k w a d \<longrightarrow>
        (\<exists>w'. FundCommunityPool k w [\<lparr>Denom = d, Amount = n\<rparr>] a = Some w' \<and>
              moved k w a (NewModuleAddress k distributionModule) d n w'))"

definition addr_laws :: "'w keeper \<Rightarrow> consumer_id \<Rightarrow> bool" where
  "addr_laws k c \<longleftrightarrow>
     distinct [GetConsumerFeePoolAddress k c, NewModuleAddress k ModuleName,
               NewModuleAddress k distributionModule]"

definition holders_ok :: "'w keeper \<Rightarrow> (addr \<Rightarrow> bool) \<Rightarrow> consumer_id \<Rightarrow> denom \<Rightarrow> 'w pstate \<Rightarrow> bool" where
  "holders_ok k receives c d s \<longleftrightarrow>
     (\<forall>a x. store_get (ConsumerFeePoolShares s) (c, d, a) = Some x \<longrightarrow>
        (a = NewModuleAddress k distributionModule \<or> receives a) \<and>
        a \<noteq> GetConsumerFeePoolAddress k c \<and> a \<noteq> NewModuleAddress k ModuleName)"

lemma bank_lawsD:
  assumes "bank_laws k R"
  shows "0 \<le> GetBalance k w x e"
    and "0 < n \<Longrightarrow> n \<le> GetBalance k w a d \<Longrightarrow>
      \<exists>w'. SendCoinsFromAccountToModule k w a m [\<lparr>Denom = d, Amount = n\<rparr>] = Some w' \<and>
           moved k w a (NewModuleAddress k m) d n w'"
    and "0 < n \<Longrightarrow> n \<le> GetBalance k w (NewModuleAddress k m) d \<Longrightarrow> R b \<Longrightarrow>
      \<exists>w'. SendCoinsFromModuleToAccount k w m b [\<lparr>Denom = d, Amount = n\<rparr>] = Some w' \<and>
           moved k w (NewModuleAddress k m) b d n w'"
    and "0 < n \<Longrightarrow> n \<le> GetBalance k w a d \<Longrightarrow>
      \<exists>w'. FundCommunityPool k w [\<lparr>Denom = d, Amount = n\<rparr>] a = Some w' \<and>
           moved k w a (NewModuleAddress k distributionModule) d n w'"
  using assms unfolding bank_laws_def by blast+

subsection \<open>The sweep pays everyone and cannot fail\<close>

definition slice_of :: "int \<Rightarrow> int \<Rightarrow> (consumer_id \<times> denom \<times> addr) \<times> int \<Rightarrow> int" where
  "slice_of b t e = quo (snd e * b) t"

definition slices :: "int \<Rightarrow> int \<Rightarrow> ((consumer_id \<times> denom \<times> addr) \<times> int) list \<Rightarrow> int" where
  "slices b t es = sum_list (map (slice_of b t) es)"

definition paid_to :: "int \<Rightarrow> int \<Rightarrow> ((consumer_id \<times> denom \<times> addr) \<times> int) list \<Rightarrow> addr \<Rightarrow> int" where
  "paid_to b t es x = slices b t (filter (\<lambda>e. snd (snd (fst e)) = x) es)"

lemma slices_simps [simp]:
  "slices b t [] = 0" "slices b t (e # es) = slice_of b t e + slices b t es"
  "paid_to b t [] x = 0"
  "paid_to b t (e # es) x = (if snd (snd (fst e)) = x then slice_of b t e else 0) + paid_to b t es x"
  by (simp_all add: slices_def paid_to_def)

lemma slice_of_nonneg: "0 \<le> b \<Longrightarrow> 0 < t \<Longrightarrow> 0 < snd e \<Longrightarrow> 0 \<le> slice_of b t e"
  unfolding slice_of_def by (intro quo_ge_0) simp_all

lemma slices_nonneg: "0 \<le> b \<Longrightarrow> 0 < t \<Longrightarrow> \<forall>e\<in>set es. 0 < snd e \<Longrightarrow> 0 \<le> slices b t es"
  unfolding slices_def by (intro sum_list_nonneg' slice_of_nonneg) auto

lemma pay_slice_ok:
  assumes bank: "bank_laws k R" and e: "snd (snd (fst e)) = a"
    and "a = NewModuleAddress k distributionModule \<or> R a"
    and "0 \<le> slice_of b t e" "slice_of b t e \<le> GetBalance k w (NewModuleAddress k ModuleName) d"
  shows "\<exists>w'. pay_slice k d b t e (w, n) = Ok (w', n + slice_of b t e) \<and>
    moved k w (NewModuleAddress k ModuleName) a d (slice_of b t e) w'"
proof (cases "slice_of b t e = 0")
  case True
  then show ?thesis by (simp add: pay_slice_def moved_def slice_of_def[symmetric])
next
  case False
  then have pos: "0 < slice_of b t e" using assms(4) by simp
  show ?thesis
  proof (cases "a = NewModuleAddress k distributionModule")
    case True
    then obtain w' where "FundCommunityPool k w [\<lparr>Denom = d, Amount = slice_of b t e\<rparr>]
        (NewModuleAddress k ModuleName) = Some w'"
      "moved k w (NewModuleAddress k ModuleName) a d (slice_of b t e) w'"
      using bank_lawsD(4)[OF bank pos assms(5)] by auto
    then show ?thesis using True e False
      by (auto simp: pay_slice_def slice_of_def[symmetric] must_def Let_def)
  next
    case other: False
    then obtain w' where "SendCoinsFromModuleToAccount k w ModuleName a [\<lparr>Denom = d, Amount = slice_of b t e\<rparr>]
        = Some w'" "moved k w (NewModuleAddress k ModuleName) a d (slice_of b t e) w'"
      using bank_lawsD(3)[OF bank pos assms(5)] assms(3) by auto
    then show ?thesis using other e False
      by (auto simp: pay_slice_def slice_of_def[symmetric] must_def Let_def)
  qed
qed

lemma pay_loop:
  assumes bank: "bank_laws k R" and "0 \<le> b" "0 < t"
    and "\<forall>e\<in>set es. 0 < snd e \<and> snd (snd (fst e)) \<noteq> NewModuleAddress k ModuleName \<and>
      (snd (snd (fst e)) = NewModuleAddress k distributionModule \<or> R (snd (snd (fst e))))"
    and "slices b t es \<le> GetBalance k w (NewModuleAddress k ModuleName) d"
  shows "\<exists>w'. fold_res (pay_slice k d b t) es (w, n) = Ok (w', n + slices b t es) \<and>
    (\<forall>x f. GetBalance k w' x f = GetBalance k w x f + (if f = d then paid_to b t es x else 0)
       - (if x = NewModuleAddress k ModuleName \<and> f = d then slices b t es else 0))"
  using assms(4,5)
proof (induction es arbitrary: w n)
  case Nil
  then show ?case by auto
next
  case (Cons e es)
  let ?p = "NewModuleAddress k ModuleName" let ?a = "snd (snd (fst e))"
  have se: "0 \<le> slice_of b t e" using Cons.prems(1) assms(2,3) by (intro slice_of_nonneg) auto
  have ses: "0 \<le> slices b t es" using Cons.prems(1) assms(2,3) by (intro slices_nonneg) auto
  have "slice_of b t e \<le> GetBalance k w ?p d" using Cons.prems(2) ses by simp
  with se obtain u where u: "pay_slice k d b t e (w, n) = Ok (u, n + slice_of b t e)"
    "moved k w ?p ?a d (slice_of b t e) u"
    using pay_slice_ok[OF bank refl, where e = e] Cons.prems(1) by fastforce
  have bal: "GetBalance k u x f = GetBalance k w x f - (if x = ?p \<and> f = d then slice_of b t e else 0)
      + (if x = ?a \<and> f = d then slice_of b t e else 0)" for x f
    using u(2) unfolding moved_def by blast
  have "slices b t es \<le> GetBalance k u ?p d"
    using Cons.prems unfolding bal by auto
  then obtain w' where w': "fold_res (pay_slice k d b t) es (u, n + slice_of b t e)
      = Ok (w', n + slice_of b t e + slices b t es)"
    "\<And>x f. GetBalance k w' x f = GetBalance k u x f + (if f = d then paid_to b t es x else 0)
       - (if x = ?p \<and> f = d then slices b t es else 0)"
    using Cons.IH[of u "n + slice_of b t e"] Cons.prems(1) by auto
  have "GetBalance k w' x f = GetBalance k w x f + (if f = d then paid_to b t (e # es) x else 0)
       - (if x = ?p \<and> f = d then slices b t (e # es) else 0)" for x f
    unfolding w'(2) bal by auto
  then show ?case using u(1) w'(1) by (auto simp: add.assoc)
qed

lemma slices_le:
  assumes "0 \<le> b" "0 < t" "\<forall>e\<in>set es. 0 < snd e" "sum_list (map snd es) = t"
  shows "slices b t es \<le> b"
proof -
  have "slices b t es = sum_list (map (\<lambda>e. snd e * b div t) es)"
    unfolding slices_def slice_of_def using assms(1-3)
    by (intro arg_cong[where f = sum_list] map_cong refl quo_nonneg) auto
  also have "\<dots> \<le> sum_list (map (\<lambda>e. snd e * b) es) div t" by (rule sum_list_div_le[OF assms(2)])
  also have "sum_list (map (\<lambda>e. snd e * b) es) = t * b"
    by (simp add: assms(4)[symmetric] sum_list_mult_const)
  finally show ?thesis using assms(2) by simp
qed

lemma paid_to_range:
  "paid_to b t (store_range (in_pool c d) m) a =
     (case store_get m (c, d, a) of None \<Rightarrow> 0 | Some x \<Rightarrow> quo (x * b) t)"
proof -
  have "filter (\<lambda>e. snd (snd (fst e)) = a) (store_range (in_pool c d) m) =
      store_range (\<lambda>k. k = (c, d, a)) m"
    by (auto simp: store_range_def in_pool_def intro!: filter_cong)
  then show ?thesis
    by (simp add: paid_to_def store_range_single slices_def slice_of_def split: option.splits)
qed

text \<open>The pool a sweep distributes: the shares after an unaccounted balance was absorbed.\<close>

definition sweep_base :: "'w keeper \<Rightarrow> consumer_id \<Rightarrow> denom \<Rightarrow> 'w pstate \<Rightarrow> 'w pstate" where
  "sweep_base k c d s =
     (if total_of s c d = 0 then absorbUnaccountedBalance k c d (pool_balance k s c d) s else s)"

lemma SweepConsumerFeePoolDenom_eq:
  assumes "0 < pool_balance k s c d"
  shows "SweepConsumerFeePoolDenom k c d s =
    (let b = pool_balance k s c d; s1 = sweep_base k c d s in
     bind_res (must (SendCoinsFromAccountToModule k (world s) (GetConsumerFeePoolAddress k c) ModuleName
                            [\<lparr>Denom = d, Amount = b\<rparr>])) (\<lambda>w1.
     bind_res (fold_res (pay_slice k d b (total_of s1 c d))
                 (store_range (in_pool c d) (ConsumerFeePoolShares s1)) (w1, 0)) (\<lambda>(w2, n).
     bind_res (if 0 < b - n
               then must (FundCommunityPool k w2 [\<lparr>Denom = d, Amount = b - n\<rparr>] (NewModuleAddress k ModuleName))
               else Ok w2) (\<lambda>w3.
     Ok (clearAllShares c d (s1\<lparr>world := w3\<rparr>))))))"
proof -
  have [simp]: "total_of (absorbUnaccountedBalance k c d b u) c d = b"
    "world (absorbUnaccountedBalance k c d b u) = world u" for b and u :: "'a pstate"
    by (simp_all add: absorbUnaccountedBalance_def total_of_def Let_def clearAllShares_eq)
  have [simp]: "(\<lambda>key. fst key = c \<and> fst (snd key) = d) = in_pool c d"
    by (simp add: in_pool_def[abs_def])
  show ?thesis
    using assms by (simp add: SweepConsumerFeePoolDenom_def sweep_base_def Let_def total_of_def[symmetric])
qed

lemma sweep_base_ok:
  assumes ok: "ledger_ok s" and addr: "addr_laws k c" and hold: "holders_ok k R c d s"
    and pos: "0 < pool_balance k s c d"
  defines "u \<equiv> sweep_base k c d s"
  shows "ledger_ok u" "0 < total_of u c d" "holders_ok k R c d u" "world u = world s"
    "0 < total_of s c d \<Longrightarrow> u = s"
proof -
  have "ledger_ok u \<and> 0 < total_of u c d \<and> holders_ok k R c d u \<and> world u = world s"
  proof (cases "total_of s c d = 0")
    case True
    then have u: "u = absorbUnaccountedBalance k c d (pool_balance k s c d) s"
      by (simp add: u_def sweep_base_def)
    have "store_get (ConsumerFeePoolShares u) (c, d, a) =
        (if a = NewModuleAddress k distributionModule then Some (pool_balance k s c d) else None)" for a
      by (simp add: u absorbUnaccountedBalance_def Let_def clearAllShares_eq in_pool_def)
    then have "holders_ok k R c d u" using addr by (auto simp: holders_ok_def addr_laws_def split: if_splits)
    moreover have "world u = world s"
      by (simp add: u absorbUnaccountedBalance_def Let_def clearAllShares_eq)
    ultimately show ?thesis using ledger_ok_absorb[OF ok pos, of k c d] pos by (simp add: u)
  next
    case False
    then show ?thesis using ok hold total_nonneg[OF ok, of c d] by (simp add: u_def sweep_base_def)
  qed
  then show "ledger_ok u" "0 < total_of u c d" "holders_ok k R c d u" "world u = world s" by auto
  show "u = s" if "0 < total_of s c d" using that by (simp add: u_def sweep_base_def)
qed

text \<open>
  The transfers of a sweep of a pool that holds something, from the drain to the dust: the
  pool is empty, the provider module account is back to what it held, every holder has its slice.
\<close>

lemma sweep_transfers:
  assumes bank: "bank_laws k R" and addr: "addr_laws k c" and ok: "ledger_ok s"
    and hold: "holders_ok k R c d s" and pos: "0 < pool_balance k s c d"
  defines "u \<equiv> sweep_base k c d s" and "b \<equiv> pool_balance k s c d"
  defines "paid \<equiv> \<lambda>a. case store_get (ConsumerFeePoolShares u) (c, d, a) of
      None \<Rightarrow> 0 | Some x \<Rightarrow> quo (x * b) (total_of u c d)"
  shows "\<exists>w3. SweepConsumerFeePoolDenom k c d s = Ok (clearAllShares c d (u\<lparr>world := w3\<rparr>)) \<and>
    (\<forall>x e. GetBalance k w3 x e = GetBalance k (world s) x e
       + (if e \<noteq> d then 0
          else paid x - (if x = GetConsumerFeePoolAddress k c then b else 0)
               + (if x = NewModuleAddress k distributionModule
                  then b - slices b (total_of u c d) (store_range (in_pool c d) (ConsumerFeePoolShares u))
                  else 0)))"
proof -
  let ?pool = "GetConsumerFeePoolAddress k c" and ?prov = "NewModuleAddress k ModuleName"
    and ?distr = "NewModuleAddress k distributionModule"
  let ?t = "total_of u c d" and ?es = "store_range (in_pool c d) (ConsumerFeePoolShares u)"
  note base = sweep_base_ok[OF ok addr hold pos, folded u_def]
  have ne: "?pool \<noteq> ?prov" "?prov \<noteq> ?distr" "?pool \<noteq> ?distr" using addr by (auto simp: addr_laws_def)
  have b: "0 < b" using pos by (simp add: b_def)
  obtain w1 where w1: "SendCoinsFromAccountToModule k (world s) ?pool ModuleName [\<lparr>Denom = d, Amount = b\<rparr>] = Some w1"
    "moved k (world s) ?pool ?prov d b w1"
    using bank_lawsD(2)[OF bank b, of "world s" ?pool d ModuleName] by (auto simp: b_def)
  have es: "\<forall>e\<in>set ?es. 0 < snd e \<and> snd (snd (fst e)) \<noteq> ?prov \<and> (snd (snd (fst e)) = ?distr \<or> R (snd (snd (fst e))))"
    using base(3) ledger_okD(2)[OF base(1)] by (force simp: mem_store_range in_pool_def holders_ok_def)
  have le: "slices b ?t ?es \<le> b"
    using ledger_okD(1)[OF base(1), of c d] es b base(2)
    by (intro slices_le) (auto simp: shares_sum_def range_sum_def)
  have "GetBalance k w1 ?prov d = GetBalance k (world s) ?prov d + b"
    using w1(2) ne unfolding moved_def by auto
  then have "slices b ?t ?es \<le> GetBalance k w1 ?prov d" using le bank_lawsD(1)[OF bank, of "world s" ?prov d] by simp
  then obtain w2 where w2: "fold_res (pay_slice k d b ?t) ?es (w1, 0) = Ok (w2, slices b ?t ?es)"
    "\<And>x f. GetBalance k w2 x f = GetBalance k w1 x f + (if f = d then paid x else 0)
       - (if x = ?prov \<and> f = d then slices b ?t ?es else 0)"
    using pay_loop[OF bank _ base(2) es, of b w1 d 0] b by (auto simp: paid_to_range paid_def)
  let ?dust = "b - slices b ?t ?es"
  have "paid ?prov = 0" using base(3) by (auto simp: paid_def holders_ok_def split: option.splits)
  then have "?dust \<le> GetBalance k w2 ?prov d"
    using w2(2)[of ?prov d] \<open>GetBalance k w1 ?prov d = GetBalance k (world s) ?prov d + b\<close>
      bank_lawsD(1)[OF bank, of "world s" ?prov d] by simp
  then obtain w3 where w3: "(if 0 < ?dust then must (FundCommunityPool k w2 [\<lparr>Denom = d, Amount = ?dust\<rparr>] ?prov) else Ok w2) = Ok w3"
    "moved k w2 ?prov ?distr d ?dust w3"
    using bank_lawsD(4)[OF bank, of ?dust w2 ?prov d] le
    by (cases "0 < ?dust") (auto simp: must_def moved_def)
  have run: "SweepConsumerFeePoolDenom k c d s = Ok (clearAllShares c d (u\<lparr>world := w3\<rparr>))"
    using SweepConsumerFeePoolDenom_eq[OF pos] w1(1) w2(1) w3(1)
    by (simp add: Let_def u_def[symmetric] b_def[symmetric] must_def)
  have "GetBalance k w3 x e = GetBalance k (world s) x e
       + (if e \<noteq> d then 0 else paid x - (if x = ?pool then b else 0) + (if x = ?distr then ?dust else 0))" for x e
    using w1(2) w3(2) w2(2) ne by (auto simp: moved_def)
  then show ?thesis using run by blast
qed

subsection \<open>Every reachable ledger adds up\<close>

lemma clear_absorb: "clearAllShares c d (absorbUnaccountedBalance k c d b s) = clearAllShares c d s"
proof -
  have "store_drop (in_pool c d) (store_set (c, d, a) b (store_drop (in_pool c d) m)) = store_drop (in_pool c d) m"
    for a and m :: "(nat \<times> string \<times> addr, int) store"
    by (rule store_ext) (auto simp: fun_eq_iff in_pool_def)
  moreover have "store_remove j (store_set j b (store_remove j m)) = store_remove j m"
    for j and m :: "(nat \<times> string, int) store"
    by (rule store_ext) auto
  ultimately show ?thesis by (simp add: absorbUnaccountedBalance_def clearAllShares_eq Let_def)
qed

lemma clear_world: "clearAllShares c d (s\<lparr>world := w\<rparr>) = (clearAllShares c d s)\<lparr>world := w\<rparr>"
  by (simp add: clearAllShares_eq)

lemma bind3_Ok:
  "bind_res x (\<lambda>w1. bind_res (f w1) (\<lambda>(w2, n). bind_res (g w2 n) (\<lambda>w3. Ok (h w3)))) = Ok t \<Longrightarrow>
     \<exists>w. t = h w"
  by (auto simp: res_simps)

text \<open>Whatever the bank answers, a sweep that returns has cleared the pool's shares or found none.\<close>

lemma sweep_result:
  assumes "SweepConsumerFeePoolDenom k c d s = Ok t"
  obtains "t = s" | w where "t = (clearAllShares c d s)\<lparr>world := w\<rparr>"
proof -
  define b where "b = pool_balance k s c d"
  define s1 where "s1 = (if total_of s c d = 0 then absorbUnaccountedBalance k c d b s else s)"
  define tot where "tot = (if total_of s c d = 0 then b else total_of s c d)"
  have cl: "clearAllShares c d s1 = clearAllShares c d s" by (simp add: s1_def clear_absorb)
  have run: "SweepConsumerFeePoolDenom k c d s =
     (if b = 0 \<and> total_of s c d = 0 then Ok s
      else if b = 0 then Ok (clearAllShares c d s1)
      else bind_res (must (SendCoinsFromAccountToModule k (world s1) (GetConsumerFeePoolAddress k c)
                              ModuleName [\<lparr>Denom = d, Amount = b\<rparr>])) (\<lambda>w1.
           bind_res (fold_res (pay_slice k d b tot)
                       (store_range (in_pool c d) (ConsumerFeePoolShares s1)) (w1, 0)) (\<lambda>(w2, n).
           bind_res (if 0 < b - n then must (FundCommunityPool k w2 [\<lparr>Denom = d, Amount = b - n\<rparr>]
                                               (NewModuleAddress k ModuleName)) else Ok w2) (\<lambda>w3.
           Ok (clearAllShares c d (s1\<lparr>world := w3\<rparr>))))))"
    unfolding SweepConsumerFeePoolDenom_def Let_def total_of_def[symmetric] b_def[symmetric]
      in_pool_def[abs_def] tot_def s1_def
    by (cases "total_of s c d = 0") simp_all
  show thesis
  proof (cases "b = 0")
    case True
    then have "t = s \<or> t = clearAllShares c d s1"
      using assms unfolding run by (simp split: if_split_asm)
    moreover have "clearAllShares c d s1 = (clearAllShares c d s)\<lparr>world := world s\<rparr>"
      unfolding cl by (simp add: clearAllShares_eq)
    ultimately show thesis using that(1) that(2)[of "world s"] by presburger
  next
    case False
    have "\<exists>w. t = clearAllShares c d (s1\<lparr>world := w\<rparr>)"
      by (rule bind3_Ok) (use assms False in \<open>simp only: run if_False simp_thms\<close>)
    then obtain w where "t = clearAllShares c d (s1\<lparr>world := w\<rparr>)" ..
    then show thesis using that(2)[of w] by (simp only: clear_world cl)
  qed
qed

lemma ledger_ok_sweep:
  assumes "ledger_ok s" "SweepConsumerFeePoolDenom k c d s = Ok t"
  shows "ledger_ok t"
  using assms(2)
proof (rule sweep_result)
  fix w assume "t = (clearAllShares c d s)\<lparr>world := w\<rparr>"
  then show ?thesis using ledger_ok_clear(1)[OF assms(1), of c d] ledger_ok_cong[of t "clearAllShares c d s"]
    by simp
qed (use assms(1) in simp)

inductive ledger_step :: "'w keeper \<Rightarrow> 'w pstate \<Rightarrow> 'w pstate \<Rightarrow> bool" for k where
  mint: "MintShares k c a amount s = Ok t \<Longrightarrow> ledger_step k s t"
| withdraw: "WithdrawShares k ctx c a amount s = Ok (coin, t) \<Longrightarrow> ledger_step k s t"
| sweep: "SweepConsumerFeePoolDenom k c d s = Ok t \<Longrightarrow> ledger_step k s t"
| other: "ConsumerFeePoolShares t = ConsumerFeePoolShares s \<Longrightarrow>
    ConsumerFeePoolTotalShares t = ConsumerFeePoolTotalShares s \<Longrightarrow> ledger_step k s t"

lemma ledger_step_ok: "ledger_step k s t \<Longrightarrow> ledger_ok s \<Longrightarrow> ledger_ok t"
proof (induction rule: ledger_step.induct)
  case (other t s)
  then show ?case using ledger_ok_cong by blast
qed (blast intro: ledger_ok_mint ledger_ok_withdraw ledger_ok_sweep)+

interpretation ledger_run: step_invariant "ledger_step k" ledger_ok for k
  by unfold_locales (rule ledger_step_ok)

lemma ledger_ok_blank: "ledger_ok (blank_pstate w)"
  by (simp add: ledger_ok_def shares_sum_def total_of_def blank_pstate_def)

subsection \<open>A bank to evaluate on\<close>

type_synonym ex_bank = "addr \<times> denom \<Rightarrow> nat"

definition ex_move :: "ex_bank \<Rightarrow> addr \<Rightarrow> addr \<Rightarrow> Coin \<Rightarrow> ex_bank option" where
  "ex_move w a b coin =
     (if 0 \<le> Amount coin \<and> Amount coin \<le> int (w (a, Denom coin))
      then let w1 = w((a, Denom coin) := w (a, Denom coin) - nat (Amount coin))
           in Some (w1((b, Denom coin) := w1 (b, Denom coin) + nat (Amount coin)))
      else None)"

fun ex_moves :: "ex_bank \<Rightarrow> addr \<Rightarrow> addr \<Rightarrow> Coin list \<Rightarrow> ex_bank option" where
  "ex_moves w a b [] = Some w"
| "ex_moves w a b [coin] = ex_move w a b coin"
| "ex_moves w a b (coin # coins) = Option.bind (ex_move w a b coin) (\<lambda>w'. ex_moves w' a b coins)"

definition ex_module :: "string \<Rightarrow> addr" where
  "ex_module n = map (\<lambda>ch. of_nat (of_char ch)) n"

definition ex_bank_keeper :: "ex_bank keeper" where
  "ex_bank_keeper = blank_keeper\<lparr>
     NewModuleAddress := ex_module,
     GetBalance := (\<lambda>w a d. int (w (a, d))),
     SendCoinsFromAccountToModule := (\<lambda>w a m coins. ex_moves w a (ex_module m) coins),
     SendCoinsFromModuleToAccount := (\<lambda>w m b coins. ex_moves w (ex_module m) b coins),
     FundCommunityPool := (\<lambda>w coins a. ex_moves w a (ex_module distributionModule) coins),
     DistributeFromFeePool := (\<lambda>w coins a. ex_moves w (ex_module distributionModule) a coins),
     InputOutputCoins := (\<lambda>w (a, coin) outs.
        if Amount coin \<le> int (w (a, Denom coin)) \<and> list_all (\<lambda>out. 0 \<le> Amount (snd out)) outs
        then (True, \<lambda>(x, e). nat (int (w (x, e)) - (if x = a \<and> e = Denom coin then Amount coin else 0)
               + sum_list (map (\<lambda>(b, out). if b = x \<and> Denom out = e then Amount out else 0) outs)))
        else (False, w))\<rparr>"

lemma ex_keeper_simps [simp]:
  "NewModuleAddress ex_bank_keeper = ex_module"
  "GetBalance ex_bank_keeper w a d = int (w (a, d))"
  "SendCoinsFromAccountToModule ex_bank_keeper w a m coins = ex_moves w a (ex_module m) coins"
  "SendCoinsFromModuleToAccount ex_bank_keeper w m b coins = ex_moves w (ex_module m) b coins"
  "FundCommunityPool ex_bank_keeper w coins a = ex_moves w a (ex_module distributionModule) coins"
  by (simp_all add: ex_bank_keeper_def)

lemma ex_move_moved:
  assumes "0 < n" "n \<le> int (w (a, d))"
  shows "\<exists>w'. ex_move w a b \<lparr>Denom = d, Amount = n\<rparr> = Some w' \<and> moved ex_bank_keeper w a b d n w'"
  using assms by (auto simp: ex_move_def moved_def Let_def)

lemma ex_bank_laws: "bank_laws ex_bank_keeper (\<lambda>_. True)"
  unfolding bank_laws_def by (simp add: ex_move_moved)

lemma ex_addr_laws: "addr_laws ex_bank_keeper 0"
  by (simp add: addr_laws_def GetConsumerFeePoolAddress_def ModuleName_def ex_module_def decimal.simps)

definition ex_pool :: addr where
  "ex_pool = GetConsumerFeePoolAddress ex_bank_keeper 0"

text \<open>Consumer 0 with a pool of 15 tokens and two depositors with 10 and 20 shares.\<close>

definition ex_pool_state :: "ex_bank pstate" where
  "ex_pool_state = (blank_pstate (\<lambda>x. if x = (ex_pool, ''uphoton'') then 15 else 0))\<lparr>
     ConsumerFeePoolShares := store_set (0, ''uphoton'', [1]) 10
       (store_set (0, ''uphoton'', [2]) 20 empty_store),
     ConsumerFeePoolTotalShares := store_set (0, ''uphoton'') 30 empty_store\<rparr>"

lemma ex_pool_state_simps [simp]:
  "store_get (ConsumerFeePoolShares ex_pool_state) key =
     (if key = (0, ''uphoton'', [1]) then Some 10 else if key = (0, ''uphoton'', [2]) then Some 20 else None)"
  "store_get (ConsumerFeePoolTotalShares ex_pool_state) pair = (if pair = (0, ''uphoton'') then Some 30 else None)"
  "world ex_pool_state x = (if x = (ex_pool, ''uphoton'') then 15 else 0)"
  by (auto simp: ex_pool_state_def blank_pstate_def)

lemma ex_ledger_ok: "ledger_ok ex_pool_state"
proof -
  have "in_pool c d (0, ''uphoton'', a) \<longleftrightarrow> c = 0 \<and> d = ''uphoton''" for c d a
    by (auto simp: in_pool_def)
  then have "shares_sum ex_pool_state c d = total_of ex_pool_state c d" for c d
    by (simp add: shares_sum_def total_of_def) (simp add: ex_pool_state_def range_sum_set)
  then show ?thesis by (simp add: ledger_ok_def)
qed

lemma ex_holders_ok: "holders_ok ex_bank_keeper (\<lambda>_. True) 0 ''uphoton'' ex_pool_state"
  by (auto simp: holders_ok_def GetConsumerFeePoolAddress_def ModuleName_def ex_module_def decimal.simps)

subsection \<open>Properties\<close>

text \<open>
  C5. In every state reachable by deposits, withdrawals and sweeps, in any order and with any
  bank, the shares of a pool add up to its recorded total, every share record and every total
  is positive, and a pool without a total has no share records.
\<close>

theorem fee_pool_ledger_adds_up:
  assumes "(ledger_step k)\<^sup>*\<^sup>* (blank_pstate w) s"
  shows "sum_list (map snd (store_range (in_pool c d) (ConsumerFeePoolShares s))) = total_of s c d \<and>
    (\<forall>e\<in>set (entries (ConsumerFeePoolShares s)). 0 < snd e) \<and>
    (total_of s c d = 0 \<longrightarrow> store_get (ConsumerFeePoolShares s) (c, d, a) = None)"
proof -
  have ok: "ledger_ok s" using ledger_run.steps_inv[OF assms ledger_ok_blank] .
  then have "sum_list (map snd (store_range (in_pool c d) (ConsumerFeePoolShares s))) = total_of s c d"
    using ledger_okD(1)[OF ok, of c d] by (simp add: shares_sum_def range_sum_def)
  then show ?thesis using no_total_no_shares[OF ok] ledger_okD(2)[OF ok] by (auto simp: kv.iter_mem)
qed

lemma ex_pool_reachable:
  "\<exists>s. (ledger_step ex_bank_keeper)\<^sup>*\<^sup>* (blank_pstate (\<lambda>_. 0)) s \<and> total_of s 0 ''uphoton'' = 7"
proof -
  let ?c = "\<lparr>Denom = ''uphoton'', Amount = 7\<rparr>"
  obtain t where t: "MintShares ex_bank_keeper 0 [1] ?c (blank_pstate (\<lambda>_. 0)) = Ok t"
    "total_of t 0 ''uphoton'' = 7"
    by (simp add: MintShares_def blank_pstate_def Let_def total_of_def)
  then show ?thesis using ledger_step.mint[of ex_bank_keeper 0 "[1]" ?c "blank_pstate (\<lambda>_. 0)" t] by blast
qed

theorem fee_pool_ledger_adds_up_witness:
  "\<exists>s. total_of s 0 ''uphoton'' = 7 \<and>
     sum_list (map snd (store_range (in_pool 0 ''uphoton'') (ConsumerFeePoolShares (s :: ex_bank pstate)))) = 7"
  using ex_pool_reachable fee_pool_ledger_adds_up[of ex_bank_keeper "\<lambda>_. 0" _ 0 "''uphoton''"]
  by (metis (no_types))

text \<open>
  C23. A withdrawal pays no more than was asked for and leaves the escrow of pending downtime
  challenges in the pool, and the tokens behind each remaining share do not become fewer.
\<close>

theorem withdrawal_respects_escrow_and_holders:
  assumes "WithdrawShares k ctx c a amount s = Ok (coin, t)" "ledger_ok s"
  shows "Amount coin \<le> Amount amount \<and>
    outstandingWithheldFees ctx s c (Denom amount) \<le> pool_balance k s c (Denom amount) - Amount coin \<and>
    pool_balance k s c (Denom amount) * total_of t c (Denom amount)
      \<le> (pool_balance k s c (Denom amount) - Amount coin) * total_of s c (Denom amount)"
  using assms(1)
proof (rule WithdrawShares_Ok)
  let ?d = "Denom amount" let ?b = "pool_balance k s c ?d"
  let ?av = "?b - outstandingWithheldFees ctx s c ?d"
  fix shares burn
  assume sh: "store_get (ConsumerFeePoolShares s) (c, ?d, a) = Some shares" and av: "0 < ?av"
    and dr: "feePoolDraw shares (total_of s c ?d) ?b (min (Amount amount) ?av) = (burn, Amount coin)"
    and b: "0 < burn"
    and t: "t = s\<lparr>ConsumerFeePoolShares :=
         (if shares - burn = 0 then store_remove (c, ?d, a) (ConsumerFeePoolShares s)
          else store_set (c, ?d, a) (shares - burn) (ConsumerFeePoolShares s)),
       ConsumerFeePoolTotalShares :=
         (if total_of s c ?d - burn = 0 then store_remove (c, ?d) (ConsumerFeePoolTotalShares s)
          else store_set (c, ?d) (total_of s c ?d - burn) (ConsumerFeePoolTotalShares s))\<rparr>"
  have "0 < min (Amount amount) ?av"
    using b dr by (rule_tac ccontr) (simp add: feePoolDraw_def)
  then have "Amount coin \<le> min (Amount amount) ?av" using draw_bounds(4)[OF dr] by simp
  moreover have "total_of t c ?d = total_of s c ?d - burn" by (simp add: t total_of_def)
  moreover have "Amount coin * total_of s c ?d \<le> burn * ?b" by (rule draw_bounds(5)[OF dr])
  ultimately show ?thesis by (simp add: left_diff_distrib right_diff_distrib mult.commute)
qed

lemma ex_withdraw:
  "\<exists>t. WithdrawShares ex_bank_keeper \<lparr>BlockTime = 5, BlockHeight = 1, ChainID = []\<rparr> 0 [1]
     \<lparr>Denom = ''uphoton'', Amount = 3\<rparr> ex_pool_state = Ok (\<lparr>Denom = ''uphoton'', Amount = 3\<rparr>, t)"
proof -
  have "WithheldFeeRecords ex_pool_state = empty_store" by (simp add: ex_pool_state_def blank_pstate_def)
  then have "outstandingWithheldFees ctx ex_pool_state 0 ''uphoton'' = 0" for ctx
    by (simp add: outstandingWithheldFees_def store_range_def)
  then show ?thesis
    by (simp add: WithdrawShares_def Let_def ex_pool_def[symmetric] feePoolDraw_def quo_def)
qed

theorem withdrawal_respects_escrow_and_holders_witness:
  "\<exists>t. outstandingWithheldFees \<lparr>BlockTime = 5, BlockHeight = 1, ChainID = []\<rparr> ex_pool_state 0 ''uphoton'' \<le> 15 - 3 \<and>
     15 * total_of t 0 ''uphoton'' \<le> (15 - 3) * 30 \<and> ledger_ok (t :: ex_bank pstate)"
proof -
  obtain t where w: "WithdrawShares ex_bank_keeper \<lparr>BlockTime = 5, BlockHeight = 1, ChainID = []\<rparr> 0 [1]
     \<lparr>Denom = ''uphoton'', Amount = 3\<rparr> ex_pool_state = Ok (\<lparr>Denom = ''uphoton'', Amount = 3\<rparr>, t)"
    using ex_withdraw by blast
  have "total_of ex_pool_state 0 ''uphoton'' = 30" by (simp add: total_of_def)
  then show ?thesis
    using withdrawal_respects_escrow_and_holders[OF w ex_ledger_ok] ledger_ok_withdraw[OF ex_ledger_ok w]
    by (auto simp: ex_pool_def[symmetric])
qed

text \<open>
  C24. The quote of a claim is honoured: a depositor with a positive quote who asks for at least
  the unreserved balance is paid exactly the quote.
\<close>

theorem claim_quote_is_delivered:
  assumes "0 < ComputeClaim k ctx s c a d"
    and "pool_balance k s c d - outstandingWithheldFees ctx s c d \<le> n"
  shows "\<exists>t. WithdrawShares k ctx c a \<lparr>Denom = d, Amount = n\<rparr> s
     = Ok (\<lparr>Denom = d, Amount = ComputeClaim k ctx s c a d\<rparr>, t)"
proof -
  let ?b = "pool_balance k s c d" let ?av = "?b - outstandingWithheldFees ctx s c d"
  obtain sh tot where g: "store_get (ConsumerFeePoolShares s) (c, d, a) = Some sh"
    "store_get (ConsumerFeePoolTotalShares s) (c, d) = Some tot" "tot \<noteq> 0"
    and q: "ComputeClaim k ctx s c a d = snd (feePoolDraw sh tot ?b ?av)"
    using assms(1) by (auto simp: ComputeClaim_def Let_def split: if_splits option.splits)
  obtain burn tokens where dr: "feePoolDraw sh tot ?b ?av = (burn, tokens)" by fastforce
  have "0 < burn" using draw_bounds(6)[OF dr] assms(1) by (simp add: q dr)
  moreover from this have "0 < ?av" using dr by (rule_tac ccontr) (simp add: feePoolDraw_def)
  ultimately show ?thesis
    using g dr assms(2) by (cases "?av = n") (simp_all add: WithdrawShares_def Let_def q)
qed

text \<open>A pool of 15 tokens, 13 of them escrowed, with one depositor who holds all 10 shares.\<close>

definition ex_escrow_state :: "ex_bank pstate" where
  "ex_escrow_state = (blank_pstate (\<lambda>x. if x = (ex_pool, ''uphoton'') then 15 else 0))\<lparr>
     ConsumerFeePoolShares := store_set (0, ''uphoton'', [1]) 10 empty_store,
     ConsumerFeePoolTotalShares := store_set (0, ''uphoton'') 10 empty_store,
     WithheldFeeRecords := store_set (0, [9])
       \<lparr>wfr_ConsumerId = 0, wfr_ProviderConsAddr = [9],
        wfr_Amount = \<lparr>Denom = ''uphoton'', Amount = 13\<rparr>, ExpiresAt = 100\<rparr> empty_store\<rparr>"

abbreviation ex_now :: sdk_ctx where
  "ex_now \<equiv> \<lparr>BlockTime = 5, BlockHeight = 1, ChainID = []\<rparr>"

lemma ex_escrow_facts:
  "pool_balance ex_bank_keeper ex_escrow_state 0 ''uphoton'' = 15"
  "outstandingWithheldFees ex_now ex_escrow_state 0 ''uphoton'' = 13"
  "store_get (ConsumerFeePoolShares ex_escrow_state) (0, ''uphoton'', [1]) = Some 10"
  "store_get (ConsumerFeePoolTotalShares ex_escrow_state) (0, ''uphoton'') = Some 10"
  by (simp_all add: ex_escrow_state_def blank_pstate_def ex_pool_def[symmetric]
      outstandingWithheldFees_def store_range_def)

lemma ex_escrow_claim: "ComputeClaim ex_bank_keeper ex_now ex_escrow_state 0 [1] ''uphoton'' = 1"
  using ex_escrow_facts by (simp add: ComputeClaim_def Let_def feePoolDraw_def quo_def)

theorem claim_quote_is_delivered_witness:
  "\<exists>t. WithdrawShares ex_bank_keeper ex_now 0 [1] \<lparr>Denom = ''uphoton'', Amount = 2\<rparr> ex_escrow_state
     = Ok (\<lparr>Denom = ''uphoton'', Amount = 1\<rparr>, t)"
  using claim_quote_is_delivered[of ex_bank_keeper ex_now ex_escrow_state 0 "[1]" "''uphoton''" 2]
    ex_escrow_facts ex_escrow_claim by simp

lemma WithdrawShares_draw:
  assumes "store_get (ConsumerFeePoolShares s) (c, d, a) = Some shares"
    and "store_get (ConsumerFeePoolTotalShares s) (c, d) = Some tot" "tot \<noteq> 0"
    and "0 < pool_balance k s c d - outstandingWithheldFees ctx s c d"
  shows "feePoolDraw shares tot (pool_balance k s c d) (min n (pool_balance k s c d - outstandingWithheldFees ctx s c d)) =
      (burn, tokens) \<Longrightarrow> 0 < burn \<Longrightarrow>
      \<exists>t. WithdrawShares k ctx c a \<lparr>Denom = d, Amount = n\<rparr> s = Ok (\<lparr>Denom = d, Amount = tokens\<rparr>, t)"
    and "feePoolDraw shares tot (pool_balance k s c d) (min n (pool_balance k s c d - outstandingWithheldFees ctx s c d)) =
      (burn, tokens) \<Longrightarrow> \<not> 0 < burn \<Longrightarrow>
      WithdrawShares k ctx c a \<lparr>Denom = d, Amount = n\<rparr> s = Err ErrSubShareWithdraw"
proof -
  let ?av = "pool_balance k s c d - outstandingWithheldFees ctx s c d"
  have "(if ?av < n then ?av else n) = min n ?av" by simp
  then show "feePoolDraw shares tot (pool_balance k s c d) (min n ?av) = (burn, tokens) \<Longrightarrow> 0 < burn \<Longrightarrow>
      \<exists>t. WithdrawShares k ctx c a \<lparr>Denom = d, Amount = n\<rparr> s = Ok (\<lparr>Denom = d, Amount = tokens\<rparr>, t)"
    "feePoolDraw shares tot (pool_balance k s c d) (min n ?av) = (burn, tokens) \<Longrightarrow> \<not> 0 < burn \<Longrightarrow>
      WithdrawShares k ctx c a \<lparr>Denom = d, Amount = n\<rparr> s = Err ErrSubShareWithdraw"
    using assms by (simp_all only: WithdrawShares_def Let_def Coin.simps) simp_all
qed

text \<open>
  C25. What a depositor gets who asks for exactly the quote of its claim, on every branch: the
  quote in full, when the whole claim fits into the unreserved balance; otherwise a draw is taken
  from the quote again, so that the request is refused as below one share exactly when the quote
  is worth less than a share, and else delivers what the shares that the quote buys are worth. So a positive
  quote can be refused, although the same depositor is paid the quote by asking for more.
\<close>

theorem asking_for_the_exact_quote:
  assumes q: "q = ComputeClaim k ctx s c a d" "0 < q"
    and "store_get (ConsumerFeePoolShares s) (c, d, a) = Some shares"
    and "store_get (ConsumerFeePoolTotalShares s) (c, d) = Some tot" and b: "b = pool_balance k s c d"
  shows "if shares * b div tot \<le> b - outstandingWithheldFees ctx s c d
    then \<exists>t. WithdrawShares k ctx c a \<lparr>Denom = d, Amount = q\<rparr> s = Ok (\<lparr>Denom = d, Amount = q\<rparr>, t)
    else if q * tot < b
    then WithdrawShares k ctx c a \<lparr>Denom = d, Amount = q\<rparr> s = Err ErrSubShareWithdraw
    else \<exists>t. WithdrawShares k ctx c a \<lparr>Denom = d, Amount = q\<rparr> s =
      Ok (\<lparr>Denom = d, Amount = q * tot div b * b div tot\<rparr>, t)"
proof -
  define av where "av = b - outstandingWithheldFees ctx s c d"
  have qd: "q = snd (feePoolDraw shares tot b av)" and nz: "tot \<noteq> 0"
    using q assms(3,4) by (auto simp: ComputeClaim_def Let_def av_def b split: if_splits)
  have pos: "0 < shares" "0 < tot" "0 < b" "0 < av"
    using q(2) unfolding qd by (auto simp: feePoolDraw_def split: if_splits)
  have le: "q \<le> av" using draw_bounds(4)[of shares tot b av] qd pos(4) by (cases "feePoolDraw shares tot b av") auto
  have m: "min q av = q" using le by simp
  note W = WithdrawShares_draw[OF assms(3,4) nz, of k ctx q, folded b, folded av_def, OF pos(4), unfolded m]
  show ?thesis
  proof (cases "shares * b div tot \<le> av")
    case True
    then have "q = shares * b div tot" using pos by (simp add: qd feePoolDraw_def quo_nonneg)
    then have "feePoolDraw shares tot b q = (shares, q)" using pos q(2) by (simp add: feePoolDraw_def quo_nonneg)
    then show ?thesis using W(1)[of shares q] True pos(1) by (simp add: av_def)
  next
    case False
    then have "feePoolDraw shares tot b q =
        (if 0 < q * tot div b then (q * tot div b, q * tot div b * b div tot) else (0, 0))"
      using le pos q(2) by (simp add: feePoolDraw_def quo_nonneg Let_def)
    moreover have "0 < q * tot div b \<longleftrightarrow> \<not> q * tot < b"
      using pos q(2) by (simp add: pos_imp_zdiv_pos_iff not_less)
    ultimately show ?thesis using W(1)[of "q * tot div b"] W(2)[of 0 0] False by (simp add: av_def split: if_splits)
  qed
qed

text \<open>
  The pool of the example is reached: a first deposit of 10 mints 10 shares, a spend of the community pool
  adds 5 tokens without shares, and a distribution holds back 13.
\<close>

lemma ex_escrow_reachable: "(ledger_step ex_bank_keeper)\<^sup>*\<^sup>* (blank_pstate (\<lambda>_. 0)) ex_escrow_state"
proof -
  obtain t where t: "MintShares ex_bank_keeper 0 [1] \<lparr>Denom = ''uphoton'', Amount = 10\<rparr> (blank_pstate (\<lambda>_. 0)) = Ok t"
    "ConsumerFeePoolShares t = store_set (0, ''uphoton'', [1]) 10 empty_store"
    "ConsumerFeePoolTotalShares t = store_set (0, ''uphoton'') 10 empty_store"
    by (simp add: MintShares_def blank_pstate_def Let_def)
  have "ledger_step ex_bank_keeper t ex_escrow_state"
    by (rule ledger_step.other) (simp_all add: t ex_escrow_state_def)
  then show ?thesis using ledger_step.mint[OF t(1)] by (meson converse_rtranclp_into_rtranclp r_into_rtranclp)
qed

theorem asking_for_the_exact_quote_witness:
  "(ledger_step ex_bank_keeper)\<^sup>*\<^sup>* (blank_pstate (\<lambda>_. 0)) ex_escrow_state \<and>
   ComputeClaim ex_bank_keeper ex_now ex_escrow_state 0 [1] ''uphoton'' = 1 \<and>
   WithdrawShares ex_bank_keeper ex_now 0 [1] \<lparr>Denom = ''uphoton'', Amount = 1\<rparr> ex_escrow_state
     = Err ErrSubShareWithdraw"
  using asking_for_the_exact_quote[OF ex_escrow_claim[symmetric] _ ex_escrow_facts(3,4) ex_escrow_facts(1)[symmetric]]
    ex_escrow_reachable ex_escrow_claim ex_escrow_facts(2) by simp

text \<open>C26. No withdrawal, whatever it asks for, pays more than the quote.\<close>

theorem withdrawal_at_most_quote:
  assumes "WithdrawShares k ctx c a amount s = Ok (coin, t)" "ledger_ok s"
  shows "Amount coin \<le> ComputeClaim k ctx s c a (Denom amount)"
  using assms(1)
proof (rule WithdrawShares_Ok)
  let ?d = "Denom amount" let ?b = "pool_balance k s c ?d"
  let ?av = "?b - outstandingWithheldFees ctx s c ?d"
  fix shares burn
  assume sh: "store_get (ConsumerFeePoolShares s) (c, ?d, a) = Some shares" and av: "0 < ?av"
    and dr: "feePoolDraw shares (total_of s c ?d) ?b (min (Amount amount) ?av) = (burn, Amount coin)"
    and b: "0 < burn"
  have t: "0 < total_of s c ?d" and b0: "0 < ?b"
    using b dr by (auto simp: feePoolDraw_def split: if_splits)
  then obtain tot where "store_get (ConsumerFeePoolTotalShares s) (c, ?d) = Some tot" "tot = total_of s c ?d"
    by (auto simp: total_of_def split: option.splits)
  then have "ComputeClaim k ctx s c a ?d = snd (feePoolDraw shares (total_of s c ?d) ?b ?av)"
    using sh t b0 by (simp add: ComputeClaim_def Let_def)
  moreover have "snd (feePoolDraw shares (total_of s c ?d) ?b (min (Amount amount) ?av))
      \<le> snd (feePoolDraw shares (total_of s c ?d) ?b ?av)" by (rule draw_mono) simp
  ultimately show ?thesis using dr by simp
qed

theorem withdrawal_at_most_quote_witness:
  "3 \<le> ComputeClaim ex_bank_keeper \<lparr>BlockTime = 5, BlockHeight = 1, ChainID = []\<rparr> ex_pool_state 0 [1] ''uphoton''"
proof -
  obtain t where w: "WithdrawShares ex_bank_keeper \<lparr>BlockTime = 5, BlockHeight = 1, ChainID = []\<rparr> 0 [1]
     \<lparr>Denom = ''uphoton'', Amount = 3\<rparr> ex_pool_state = Ok (\<lparr>Denom = ''uphoton'', Amount = 3\<rparr>, t)"
    using ex_withdraw by blast
  show ?thesis using withdrawal_at_most_quote[OF w ex_ledger_ok] by simp
qed

text \<open>
  C27. A deposit into a funded pool never takes from the holders: the tokens behind each share
  after the deposit are at least those before it, and the ledger grows by the minted shares.
\<close>

theorem deposit_never_dilutes:
  assumes "MintShares k c a amount s = Ok t" "ledger_ok s" "0 < pool_balance k s c (Denom amount)"
    and "0 < total_of s c (Denom amount)" "0 \<le> Amount amount"
  shows "total_of s c (Denom amount) < total_of t c (Denom amount) \<and>
    pool_balance k s c (Denom amount) * total_of t c (Denom amount)
      \<le> (pool_balance k s c (Denom amount) + Amount amount) * total_of s c (Denom amount)"
proof -
  let ?d = "Denom amount" let ?b = "pool_balance k s c ?d" let ?t = "total_of s c ?d"
  have base: "mint_base k c ?d s = s" using assms(3,4) by (simp add: mint_base_def Let_def)
  have n: "minted ?t ?b (Amount amount) = Amount amount * ?t div ?b"
    using assms(3,4,5) by (simp add: minted_def quo_nonneg)
  then have "0 < Amount amount * ?t div ?b" and "total_of t c ?d = ?t + Amount amount * ?t div ?b"
    using assms(1) by (auto simp: MintShares_eq Let_def res_simps base total_of_def[of t])
  moreover have "Amount amount * ?t div ?b * ?b \<le> Amount amount * ?t"
    by (rule div_mult_le[OF assms(3)])
  ultimately show ?thesis by (simp add: distrib_right distrib_left mult.commute)
qed

theorem deposit_never_dilutes_witness:
  "\<exists>t. 30 < total_of (t :: ex_bank pstate) 0 ''uphoton'' \<and>
     15 * total_of t 0 ''uphoton'' \<le> (15 + 4) * 30"
proof -
  let ?c = "\<lparr>Denom = ''uphoton'', Amount = 4\<rparr>"
  have tot: "total_of ex_pool_state 0 ''uphoton'' = 30" by (simp add: total_of_def)
  obtain t where t: "MintShares ex_bank_keeper 0 [3] ?c ex_pool_state = Ok t"
    by (simp add: MintShares_def Let_def ex_pool_def[symmetric] quo_def)
  show ?thesis using deposit_never_dilutes[OF t ex_ledger_ok] tot by (auto simp: ex_pool_def[symmetric])
qed

text \<open>
  C28. Sweeping a denom of a pool cannot fail: under the laws of the bank it always returns,
  empties the pool, clears every share of it, leaves the provider module account as it was, and
  pays every depositor its share of the balance, rounded down.
\<close>

theorem sweep_pays_every_holder:
  assumes "bank_laws k R" "addr_laws k c" "ledger_ok s" "holders_ok k R c d s"
  shows "\<exists>t. SweepConsumerFeePoolDenom k c d s = Ok t \<and> ledger_ok t \<and>
    pool_balance k t c d = 0 \<and> total_of t c d = 0 \<and>
    GetBalance k (world t) (NewModuleAddress k ModuleName) d
      = GetBalance k (world s) (NewModuleAddress k ModuleName) d \<and>
    (\<forall>a x. store_get (ConsumerFeePoolShares s) (c, d, a) = Some x \<and>
        a \<noteq> NewModuleAddress k distributionModule \<longrightarrow>
      GetBalance k (world t) a d
        = GetBalance k (world s) a d + x * pool_balance k s c d div total_of s c d)"
proof -
  let ?b = "pool_balance k s c d"
  have nn: "0 \<le> ?b" by (rule bank_lawsD(1)[OF assms(1)])
  consider (empty) "?b = 0" "total_of s c d = 0" | (orphan) "?b = 0" "0 < total_of s c d" | (pos) "0 < ?b"
    using nn total_nonneg[OF assms(3), of c d] by linarith
  then show ?thesis
  proof cases
    case empty
    then show ?thesis using assms(3) no_total_no_shares[OF assms(3) empty(2)]
      by (simp add: SweepConsumerFeePoolDenom_def Let_def total_of_def[symmetric])
  next
    case orphan
    then have "SweepConsumerFeePoolDenom k c d s = Ok (clearAllShares c d s)"
      by (simp add: SweepConsumerFeePoolDenom_def Let_def total_of_def[symmetric])
    moreover have "world (clearAllShares c d s) = world s" by (simp add: clearAllShares_eq)
    ultimately show ?thesis using orphan ledger_ok_clear(1,2)[OF assms(3), of c d] by simp
  next
    case pos
    let ?u = "sweep_base k c d s"
    note base = sweep_base_ok[OF assms(3,2,4) pos]
    obtain w3 where run: "SweepConsumerFeePoolDenom k c d s = Ok (clearAllShares c d (?u\<lparr>world := w3\<rparr>))"
      and bal: "\<And>x e. GetBalance k w3 x e = GetBalance k (world s) x e
       + (if e \<noteq> d then 0
          else (case store_get (ConsumerFeePoolShares ?u) (c, d, x) of None \<Rightarrow> 0 | Some y \<Rightarrow> quo (y * ?b) (total_of ?u c d))
               - (if x = GetConsumerFeePoolAddress k c then ?b else 0)
               + (if x = NewModuleAddress k distributionModule
                  then ?b - slices ?b (total_of ?u c d) (store_range (in_pool c d) (ConsumerFeePoolShares ?u))
                  else 0))"
      using sweep_transfers[OF assms(1-4) pos] by blast
    let ?t = "clearAllShares c d (?u\<lparr>world := w3\<rparr>)"
    have w: "world ?t = w3" by (simp add: clearAllShares_eq)
    have ok: "ledger_ok ?t" by (rule ledger_ok_sweep[OF assms(3) run])
    have none: "store_get (ConsumerFeePoolShares ?u) (c, d, x) = None"
      if "x = GetConsumerFeePoolAddress k c \<or> x = NewModuleAddress k ModuleName" for x
      using base(3) that by (cases "store_get (ConsumerFeePoolShares ?u) (c, d, x)") (auto simp: holders_ok_def)
    have ne: "GetConsumerFeePoolAddress k c \<noteq> NewModuleAddress k distributionModule"
      "NewModuleAddress k ModuleName \<noteq> NewModuleAddress k distributionModule"
      "NewModuleAddress k ModuleName \<noteq> GetConsumerFeePoolAddress k c"
      using assms(2) by (auto simp: addr_laws_def)
    have hold: "GetBalance k w3 a d = GetBalance k (world s) a d + x * ?b div total_of s c d"
      if "store_get (ConsumerFeePoolShares s) (c, d, a) = Some x" "a \<noteq> NewModuleAddress k distributionModule" for a x
    proof -
      have x: "0 < x" "0 < total_of s c d"
        using ledger_okD(2)[OF assms(3) that(1)] share_le_total[OF assms(3) that(1)] by linarith+
      then have "?u = s" by (rule_tac base(5))
      moreover have "a \<noteq> GetConsumerFeePoolAddress k c" using assms(4) that(1) by (auto simp: holders_ok_def)
      ultimately show ?thesis using bal[of a d] that x nn by (simp add: quo_nonneg)
    qed
    show ?thesis
      using run ok w none ne bal[of "GetConsumerFeePoolAddress k c" d]
        bal[of "NewModuleAddress k ModuleName" d] hold
      by (intro exI[of _ ?t]) (auto simp: total_of_def clearAllShares_eq)
  qed
qed

theorem sweep_pays_every_holder_witness:
  "\<exists>t. SweepConsumerFeePoolDenom ex_bank_keeper 0 ''uphoton'' ex_pool_state = Ok t \<and>
     pool_balance ex_bank_keeper t 0 ''uphoton'' = 0 \<and>
     world t ([1], ''uphoton'') = 5 \<and> world t ([2], ''uphoton'') = 10"
proof -
  have tot: "total_of ex_pool_state 0 ''uphoton'' = 30" by (simp add: total_of_def)
  have ne: "[1] \<noteq> ex_module distributionModule" "[2] \<noteq> ex_module distributionModule" "[1] \<noteq> ex_pool" "[2] \<noteq> ex_pool"
    by (simp_all add: ex_module_def ex_pool_def GetConsumerFeePoolAddress_def ModuleName_def)
  obtain t where t: "SweepConsumerFeePoolDenom ex_bank_keeper 0 ''uphoton'' ex_pool_state = Ok t"
    "pool_balance ex_bank_keeper t 0 ''uphoton'' = 0"
    and pay: "\<forall>a x. store_get (ConsumerFeePoolShares ex_pool_state) (0, ''uphoton'', a) = Some x \<and>
        a \<noteq> NewModuleAddress ex_bank_keeper distributionModule \<longrightarrow>
      GetBalance ex_bank_keeper (world t) a ''uphoton'' = GetBalance ex_bank_keeper (world ex_pool_state) a ''uphoton''
        + x * pool_balance ex_bank_keeper ex_pool_state 0 ''uphoton'' div total_of ex_pool_state 0 ''uphoton''"
    using sweep_pays_every_holder[OF ex_bank_laws ex_addr_laws ex_ledger_ok ex_holders_ok] by blast
  have "world t ([1], ''uphoton'') = 5" "world t ([2], ''uphoton'') = 10"
    using pay[rule_format, of "[1]" 10] pay[rule_format, of "[2]" 20] ne tot
    by (simp_all add: ex_pool_def[symmetric])
  then show ?thesis using t by blast
qed

text \<open>
  On a ledger that adds up, the registered crisis invariant reports a pool only because of
  its balance: a total without a balance behind it, or a balance without a total.
\<close>

theorem crisis_invariant_reports_balances_only:
  assumes "ledger_ok s"
  shows "FeePoolSharesConsistencyInvariant k s \<longleftrightarrow>
    (\<exists>c d t. store_get (ConsumerFeePoolTotalShares s) (c, d) = Some t \<and> pool_balance k s c d \<le> 0) \<or>
    (\<exists>a c coin. store_get (FeePoolAddressToConsumerId s) a = Some c \<and>
       coin \<in> set (GetAllBalances k (world s) a) \<and> 0 < Amount coin \<and> total_of s c (Denom coin) = 0)"
proof -
  have sum: "sum_list (map snd (store_range (in_pool c d) (ConsumerFeePoolShares s))) = t"
    and ne: "store_range (in_pool c d) (ConsumerFeePoolShares s) \<noteq> []" and pos: "0 < t"
    if "store_get (ConsumerFeePoolTotalShares s) (c, d) = Some t" for c d t
    using ledger_okD(1)[OF assms, of c d] ledger_okD(3)[OF assms that] that
    by (auto simp: shares_sum_def range_sum_def total_of_def)
  have "list_ex (\<lambda>((c, d), t). store_range (in_pool c d) (ConsumerFeePoolShares s) = [] \<or>
        sum_list (map snd (store_range (in_pool c d) (ConsumerFeePoolShares s))) \<noteq> t \<or>
        0 < t \<and> \<not> 0 < pool_balance k s c d) (entries (ConsumerFeePoolTotalShares s)) \<longleftrightarrow>
      (\<exists>c d t. store_get (ConsumerFeePoolTotalShares s) (c, d) = Some t \<and> pool_balance k s c d \<le> 0)"
    using sum ne pos by (fastforce simp: list_ex_iff kv.iter_mem)
  moreover have has: "\<not> store_has (ConsumerFeePoolTotalShares s) (c, d) \<longleftrightarrow> total_of s c d = 0" for c d
    using ledger_okD(3)[OF assms] by (fastforce simp: store_has_def total_of_def split: option.splits)
  moreover have "\<not> list_ex (\<lambda>((c, d, a), x). \<not> store_has (ConsumerFeePoolTotalShares s) (c, d))
      (entries (ConsumerFeePoolShares s))"
    unfolding has using no_total_no_shares[OF assms] by (auto simp: list_ex_iff kv.iter_mem)
  moreover have "list_ex (\<lambda>(a, c). list_ex (\<lambda>coin. 0 < Amount coin \<and> total_of s c (Denom coin) = 0)
          (GetAllBalances k (world s) a)) (entries (FeePoolAddressToConsumerId s)) \<longleftrightarrow>
      (\<exists>a c coin. store_get (FeePoolAddressToConsumerId s) a = Some c \<and>
       coin \<in> set (GetAllBalances k (world s) a) \<and> 0 < Amount coin \<and> total_of s c (Denom coin) = 0)"
    by (auto simp: list_ex_iff kv.iter_mem Bex_def)
  ultimately show ?thesis by (simp only: FeePoolSharesConsistencyInvariant_def simp_thms)
qed

theorem crisis_invariant_reports_balances_only_witness:
  "\<not> FeePoolSharesConsistencyInvariant ex_bank_keeper ex_pool_state"
  unfolding crisis_invariant_reports_balances_only[OF ex_ledger_ok]
  by (auto simp: ex_pool_def[symmetric] split: if_splits) (simp add: ex_pool_state_def blank_pstate_def)

end
