(* ===== verification/Fees.thy ===== *)
theory Fees
  imports FeePool Wire
begin

text \<open>
  Epoch fees (\<^verbatim>\<open>fees.go\<close>): the downtime marks of an epoch, the record of what each run
  paid per validator, the distribution itself, the escrow of withheld shares and its payment or
  release. The main result is solvency: a distribution never spends the funds that back the
  unexpired withheld-fee records of any consumer.
\<close>

subsection \<open>Marks and share records\<close>

definition MarkEpochDowntime :: "consumer_id \<Rightarrow> addr \<Rightarrow> 'w pstate \<Rightarrow> 'w pstate" where
  [keeper_simps]: "MarkEpochDowntime c providerConsAddr s =
     s\<lparr>EpochDowntime := store_set (c, providerConsAddr) True (EpochDowntime s)\<rparr>"

definition IsEpochDowntime :: "'w pstate \<Rightarrow> consumer_id \<Rightarrow> addr \<Rightarrow> bool" where
  [keeper_simps]: "IsEpochDowntime s c providerConsAddr = store_has (EpochDowntime s) (c, providerConsAddr)"

definition ClearEpochDowntime :: "'w pstate \<Rightarrow> 'w pstate" where
  [keeper_simps]: "ClearEpochDowntime s =
     s\<lparr>EpochDowntime := store_drop (\<lambda>_. True) (EpochDowntime s)\<rparr>"

definition SetEpochShareRecord :: "consumer_id \<Rightarrow> time \<Rightarrow> int \<Rightarrow> 'w pstate \<Rightarrow> 'w pstate" where
  [keeper_simps]: "SetEpochShareRecord c distributedAt share s =
     s\<lparr>EpochShareRecords := store_set (c, distributedAt) share (EpochShareRecords s)\<rparr>"

definition ResolveEpochShare :: "'w pstate \<Rightarrow> consumer_id \<Rightarrow> time \<Rightarrow> int option" where
  "ResolveEpochShare s c t =
     (case store_range (\<lambda>key. fst key = c \<and> t \<le> snd key) (EpochShareRecords s) of
        [] \<Rightarrow> None | e # _ \<Rightarrow> Some (snd e))"

definition PruneEpochShareRecords :: "time \<Rightarrow> 'w pstate \<Rightarrow> 'w pstate" where
  "PruneEpochShareRecords olderThan s =
     (let keysToDel = filter (\<lambda>key. snd key < olderThan) (store_keys (EpochShareRecords s))
      in s\<lparr>EpochShareRecords := fold store_remove keysToDel (EpochShareRecords s)\<rparr>)"

subsection \<open>Shares\<close>

definition GetBlocksPerEpoch :: "'w pstate \<Rightarrow> int" where
  [keeper_simps]: "GetBlocksPerEpoch s = BlocksPerEpoch (Params s)"

definition epochShareForConsumer ::
    "'w pstate \<Rightarrow> consumer_id \<Rightarrow> Coin \<Rightarrow> Coin \<Rightarrow> int \<Rightarrow> Coin \<times> int" where
  "epochShareForConsumer s c defaultFeePerEpoch defaultFeePerBlock numBonded =
     (let consumerFeePerEpoch = fst (effectiveFeesPerEpoch s c defaultFeePerEpoch defaultFeePerBlock)
      in (consumerFeePerEpoch, quo (Amount consumerFeePerEpoch) numBonded))"

definition defaultEpochFee :: "'w keeper \<Rightarrow> 'w pstate \<Rightarrow> Coin" where
  "defaultEpochFee k s =
     \<lparr>Denom = Denom (GetFeesPerBlock k s), Amount = Amount (GetFeesPerBlock k s) * GetBlocksPerEpoch s\<rparr>"

definition liveEpochShare :: "'w keeper \<Rightarrow> 'w pstate \<Rightarrow> consumer_id \<Rightarrow> int result" where
  "liveEpochShare k s c =
     bind_res (of_option ErrPlain (GetBondedValidatorsByPower k (world s))) (\<lambda>bonded.
     if bonded = [] then Ok 0
     else Ok (snd (epochShareForConsumer s c (defaultEpochFee k s) (GetFeesPerBlock k s)
                     (int (length bonded)))))"

definition ResolveDowntimeSlashTokens ::
    "'w keeper \<Rightarrow> 'w pstate \<Rightarrow> consumer_id \<Rightarrow> EvidencePacketData \<Rightarrow> time \<Rightarrow> int result" where
  "ResolveDowntimeSlashTokens k s c packet windowEndTime =
     bind_res (case ResolveEpochShare s c windowEndTime of
                 Some share \<Rightarrow> Ok share
               | None \<Rightarrow> liveEpochShare k s c) (\<lambda>share.
     let missedFraction = quo (MissedCount packet * dec_one) (Span packet) in
     bind_res (of_option ErrPlain (ConversionRate k (world s))) (\<lambda>conversionRate.
     guard_res (0 < conversionRate) ErrPlain
       (Ok (quo (DecQuo k (DecMul k (share * dec_one) missedFraction) conversionRate) dec_one))))"

subsection \<open>Withheld fees\<close>

text \<open>\<^verbatim>\<open>Coin.Add\<close> panics when the denoms differ.\<close>

definition recordWithheldFee ::
    "sdk_ctx \<Rightarrow> consumer_id \<Rightarrow> Coin \<Rightarrow> addr \<Rightarrow> 'w pstate \<Rightarrow> 'w pstate result" where
  "recordWithheldFee ctx c amount providerConsAddr s =
     (let key = (c, providerConsAddr);
          expiresAt = BlockTime ctx + DowntimeChallengeWindow (InfractionParams s)
      in bind_res
           (case store_get (WithheldFeeRecords s) key of
              None \<Rightarrow> Ok amount
            | Some existing \<Rightarrow>
                if ExpiresAt existing > BlockTime ctx
                then if Denom amount = Denom (wfr_Amount existing)
                     then Ok (amount\<lparr>Amount := Amount amount + Amount (wfr_Amount existing)\<rparr>)
                     else Panic
                else Ok amount)
           (\<lambda>total. Ok (s\<lparr>WithheldFeeRecords :=
              store_set key \<lparr>wfr_ConsumerId = c, wfr_ProviderConsAddr = providerConsAddr,
                             wfr_Amount = total, ExpiresAt = expiresAt\<rparr> (WithheldFeeRecords s)\<rparr>)))"

definition withheldFeePayee :: "'w keeper \<Rightarrow> 'w \<Rightarrow> addr \<Rightarrow> addr option" where
  "withheldFeePayee k w providerConsAddr =
     (case GetValidatorByConsAddr k w providerConsAddr of
        None \<Rightarrow> None
      | Some val \<Rightarrow> ValAddressFromBech32 k (OperatorAddress val))"

definition pay_record ::
    "'w keeper \<Rightarrow> sdk_ctx \<Rightarrow> consumer_id \<Rightarrow> (consumer_id \<times> addr) \<times> WithheldFeeRecord
       \<Rightarrow> 'w pstate \<Rightarrow> 'w pstate" where
  "pay_record k ctx c e s =
     (let key = fst e; r = snd e;
          s1 = s\<lparr>WithheldFeeRecords := store_remove key (WithheldFeeRecords s)\<rparr>;
          poolAddr = GetConsumerFeePoolAddress k c;
          d = Denom (wfr_Amount r);
          balance = GetBalance k (world s1) poolAddr d;
          payable = (if balance < Amount (wfr_Amount r) then balance else Amount (wfr_Amount r));
          coin = \<lparr>Denom = d, Amount = payable\<rparr>
      in if \<not> ExpiresAt r > BlockTime ctx then s1
         else if \<not> 0 < payable then s1
         else case withheldFeePayee k (world s1) (wfr_ProviderConsAddr r) of
             None \<Rightarrow> s1
           | Some accAddr \<Rightarrow>
               s1\<lparr>world := snd (InputOutputCoins k (world s1) (poolAddr, coin) [(accAddr, coin)])\<rparr>)"

definition PayWithheldFees :: "'w keeper \<Rightarrow> sdk_ctx \<Rightarrow> consumer_id \<Rightarrow> 'w pstate \<Rightarrow> 'w pstate" where
  "PayWithheldFees k ctx c s =
     fold (pay_record k ctx c) (store_range (\<lambda>key. fst key = c) (WithheldFeeRecords s)) s"

definition SweepExpiredWithheldFeeRecords :: "sdk_ctx \<Rightarrow> 'w pstate \<Rightarrow> 'w pstate" where
  "SweepExpiredWithheldFeeRecords ctx s =
     (let expiredKeys = map fst (filter (\<lambda>e. \<not> ExpiresAt (snd e) > BlockTime ctx)
                                   (entries (WithheldFeeRecords s)))
      in s\<lparr>WithheldFeeRecords := fold store_remove expiredKeys (WithheldFeeRecords s)\<rparr>)"

subsection \<open>Distribution\<close>

text \<open>One consumer of the loop. \<open>bondedVals\<close> pairs the consensus and account addresses.\<close>

definition distribute_one ::
    "'w keeper \<Rightarrow> sdk_ctx \<Rightarrow> Coin \<Rightarrow> Coin \<Rightarrow> (addr \<times> addr) list \<Rightarrow> consumer_id
       \<Rightarrow> 'w pstate \<Rightarrow> 'w pstate result" where
  "distribute_one k ctx defaultFeePerEpoch defaultFeePerBlock bondedVals c s =
     (if GetConsumerPhase s c \<noteq> CONSUMER_PHASE_LAUNCHED then Ok s
      else let
        (consumerFeePerEpoch, share) =
          epochShareForConsumer s c defaultFeePerEpoch defaultFeePerBlock (int (length bondedVals));
        d = Denom consumerFeePerEpoch;
        shareCoin = \<lparr>Denom = d, Amount = share\<rparr>;
        excludedConsAddrs = map fst (filter (\<lambda>bv. IsEpochDowntime s c (fst bv)) bondedVals);
        eligibleAddrs = map snd (filter (\<lambda>bv. \<not> IsEpochDowntime s c (fst bv)) bondedVals)
      in
        if share = 0 then
          (let s1 = (if 0 < Amount consumerFeePerEpoch then UpdateConsumerDebtStatus c True s else s)
           in Ok (SetEpochShareRecord c (BlockTime ctx) share s1))
        else let
          poolAddr = GetConsumerFeePoolAddress k c;
          available = GetBalance k (world s) poolAddr d - outstandingWithheldFees ctx s c d
        in
          if available < Amount consumerFeePerEpoch then
            Ok (SetEpochShareRecord c (BlockTime ctx) 0 (UpdateConsumerDebtStatus c True s))
          else let
            (paid, w) = (if eligibleAddrs = [] then (True, world s)
              else InputOutputCoins k (world s)
                     (poolAddr, \<lparr>Denom = d, Amount = share * int (length eligibleAddrs)\<rparr>)
                     (map (\<lambda>a. (a, shareCoin)) eligibleAddrs))
          in
            if \<not> paid then Ok (SetEpochShareRecord c (BlockTime ctx) 0 s)
            else fold_res (recordWithheldFee ctx c shareCoin) excludedConsAddrs
                   (SetEpochShareRecord c (BlockTime ctx) share
                     (UpdateConsumerDebtStatus c False (s\<lparr>world := w\<rparr>))))"

definition bonded_addrs :: "'w keeper \<Rightarrow> StakingValidator list \<Rightarrow> (addr \<times> addr) list result" where
  "bonded_addrs k bonded =
     fold_res (\<lambda>val acc.
         bind_res (of_option ErrPlain (GetConsAddr k val)) (\<lambda>consAddr.
         bind_res (of_option ErrPlain (ValAddressFromBech32 k (OperatorAddress val))) (\<lambda>valAddr.
         Ok (acc @ [(consAddr, valAddr)])))) bonded []"

definition DistributeConsumerFees :: "'w keeper \<Rightarrow> sdk_ctx \<Rightarrow> 'w pstate \<Rightarrow> 'w pstate result" where
  "DistributeConsumerFees k ctx s =
     bind_res (of_option ErrPlain (GetBondedValidatorsByPower k (world s))) (\<lambda>bonded.
     if bonded = [] then Ok s
     else bind_res (bonded_addrs k bonded) (\<lambda>bondedVals.
       fold_res (distribute_one k ctx (defaultEpochFee k s) (GetFeesPerBlock k s) bondedVals)
         (GetAllActiveConsumerIds s) s))"

subsection \<open>The cases of a distribution\<close>

lemma debt_frame [frame_simps]:
  "WithheldFeeRecords (UpdateConsumerDebtStatus c b s) = WithheldFeeRecords s"
  "world (UpdateConsumerDebtStatus c b s) = world s"
  "Params (UpdateConsumerDebtStatus c b s) = Params s"
  "InfractionParams (UpdateConsumerDebtStatus c b s) = InfractionParams s"
  "phase_of (UpdateConsumerDebtStatus c b s) = phase_of s"
  "EpochShareRecords (UpdateConsumerDebtStatus c b s) = EpochShareRecords s"
  "ConsumerFeesPerBlockOverride (UpdateConsumerDebtStatus c b s) = ConsumerFeesPerBlockOverride s"
  by (simp_all add: UpdateConsumerDebtStatus_def SetConsumerInDebt_def)

definition epoch_fee :: "'w pstate \<Rightarrow> consumer_id \<Rightarrow> Coin \<Rightarrow> Coin \<Rightarrow> Coin" where
  "epoch_fee s c fe fb = fst (effectiveFeesPerEpoch s c fe fb)"

definition eligible :: "'w pstate \<Rightarrow> consumer_id \<Rightarrow> (addr \<times> addr) list \<Rightarrow> addr list" where
  "eligible s c bvs = map snd (filter (\<lambda>bv. \<not> IsEpochDowntime s c (fst bv)) bvs)"

definition excluded :: "'w pstate \<Rightarrow> consumer_id \<Rightarrow> (addr \<times> addr) list \<Rightarrow> addr list" where
  "excluded s c bvs = map fst (filter (\<lambda>bv. IsEpochDowntime s c (fst bv)) bvs)"

lemma eligible_excluded: "length (eligible s c bvs) + length (excluded s c bvs) = length bvs"
  using sum_length_filter_compl[of "\<lambda>bv. \<not> IsEpochDowntime s c (fst bv)" bvs]
  by (simp add: eligible_def excluded_def)

definition epoch_share :: "'w pstate \<Rightarrow> consumer_id \<Rightarrow> Coin \<Rightarrow> Coin \<Rightarrow> (addr \<times> addr) list \<Rightarrow> int" where
  "epoch_share s c fe fb bvs = quo (Amount (epoch_fee s c fe fb)) (int (length bvs))"

lemma distribute_one_cases [consumes 1, case_names idle unpaid paid]:
  assumes "distribute_one k ctx fe fb bvs c s = Ok t"
  obtains "GetConsumerPhase s c \<noteq> CONSUMER_PHASE_LAUNCHED" "t = s"
  | s1 where "GetConsumerPhase s c = CONSUMER_PHASE_LAUNCHED"
      "s1 = s \<or> s1 = UpdateConsumerDebtStatus c True s"
      "t = SetEpochShareRecord c (BlockTime ctx) 0 s1"
  | w where "GetConsumerPhase s c = CONSUMER_PHASE_LAUNCHED"
      "epoch_share s c fe fb bvs \<noteq> 0"
      "Amount (epoch_fee s c fe fb) \<le> pool_balance k s c (Denom (epoch_fee s c fe fb))
          - outstandingWithheldFees ctx s c (Denom (epoch_fee s c fe fb))"
      "if eligible s c bvs = [] then w = world s
       else InputOutputCoins k (world s) (GetConsumerFeePoolAddress k c,
              \<lparr>Denom = Denom (epoch_fee s c fe fb),
               Amount = epoch_share s c fe fb bvs * int (length (eligible s c bvs))\<rparr>)
              (map (\<lambda>a. (a, \<lparr>Denom = Denom (epoch_fee s c fe fb),
                             Amount = epoch_share s c fe fb bvs\<rparr>)) (eligible s c bvs)) = (True, w)"
      "fold_res (recordWithheldFee ctx c \<lparr>Denom = Denom (epoch_fee s c fe fb),
            Amount = epoch_share s c fe fb bvs\<rparr>) (excluded s c bvs)
         (SetEpochShareRecord c (BlockTime ctx) (epoch_share s c fe fb bvs)
           (UpdateConsumerDebtStatus c False (s\<lparr>world := w\<rparr>))) = Ok t"
proof -
  let ?fee = "epoch_fee s c fe fb" and ?sh = "epoch_share s c fe fb bvs"
  let ?d = "Denom ?fee" and ?coin = "\<lparr>Denom = Denom ?fee, Amount = ?sh\<rparr>"
  let ?el = "eligible s c bvs"
  let ?io = "if ?el = [] then (True, world s)
     else InputOutputCoins k (world s) (GetConsumerFeePoolAddress k c,
            \<lparr>Denom = ?d, Amount = ?sh * int (length ?el)\<rparr>) (map (\<lambda>a. (a, ?coin)) ?el)"
  have ep: "epochShareForConsumer s c fe fb (int (length bvs)) = (?fee, ?sh)"
    by (simp add: epochShareForConsumer_def epoch_fee_def epoch_share_def Let_def)
  have run: "distribute_one k ctx fe fb bvs c s =
    (if GetConsumerPhase s c \<noteq> CONSUMER_PHASE_LAUNCHED then Ok s
     else if ?sh = 0 then Ok (SetEpochShareRecord c (BlockTime ctx) 0
            (if 0 < Amount ?fee then UpdateConsumerDebtStatus c True s else s))
     else if pool_balance k s c ?d - outstandingWithheldFees ctx s c ?d < Amount ?fee
       then Ok (SetEpochShareRecord c (BlockTime ctx) 0 (UpdateConsumerDebtStatus c True s))
     else if \<not> fst ?io then Ok (SetEpochShareRecord c (BlockTime ctx) 0 s)
     else fold_res (recordWithheldFee ctx c ?coin) (excluded s c bvs)
            (SetEpochShareRecord c (BlockTime ctx) ?sh
               (UpdateConsumerDebtStatus c False (s\<lparr>world := snd ?io\<rparr>))))"
    unfolding distribute_one_def ep Let_def split_beta eligible_def excluded_def fst_conv snd_conv
    by (cases "?sh = 0") simp_all
  consider "GetConsumerPhase s c \<noteq> CONSUMER_PHASE_LAUNCHED"
    | "GetConsumerPhase s c = CONSUMER_PHASE_LAUNCHED"
      "?sh = 0 \<or> pool_balance k s c ?d - outstandingWithheldFees ctx s c ?d < Amount ?fee \<or> \<not> fst ?io"
    | "GetConsumerPhase s c = CONSUMER_PHASE_LAUNCHED" "?sh \<noteq> 0"
      "Amount ?fee \<le> pool_balance k s c ?d - outstandingWithheldFees ctx s c ?d" "fst ?io"
    by linarith
  then show thesis
  proof cases
    case 1
    then have "t = s" using assms unfolding run by simp
    then show thesis using 1 that(1) by blast
  next
    case 2
    then have "\<exists>s1. (s1 = s \<or> s1 = UpdateConsumerDebtStatus c True s) \<and>
        t = SetEpochShareRecord c (BlockTime ctx) 0 s1"
      using assms unfolding run by (auto split: if_splits)
    then show thesis using 2(1) that(2) by blast
  next
    case 3
    have "if ?el = [] then snd ?io = world s else InputOutputCoins k (world s)
        (GetConsumerFeePoolAddress k c, \<lparr>Denom = ?d, Amount = ?sh * int (length ?el)\<rparr>)
        (map (\<lambda>a. (a, ?coin)) ?el) = (True, snd ?io)"
      using 3(4) by (cases "?el = []") (simp_all add: prod_eq_iff)
    then show thesis using 3 assms that(3)[of "snd ?io"] unfolding run by simp
  qed
qed

subsection \<open>The escrow\<close>

text \<open>What an unexpired record of a denom reserves.\<close>

definition reserved :: "sdk_ctx \<Rightarrow> denom \<Rightarrow> WithheldFeeRecord \<Rightarrow> int" where
  "reserved ctx d r =
     (if Denom (wfr_Amount r) = d \<and> ExpiresAt r > BlockTime ctx then Amount (wfr_Amount r) else 0)"

lemma outstanding_range_sum:
  "outstandingWithheldFees ctx s c d = range_sum (reserved ctx d) (\<lambda>key. fst key = c) (WithheldFeeRecords s)"
proof -
  have "sum_list (map (\<lambda>e. Amount (wfr_Amount (snd e)))
      (filter (\<lambda>e. Denom (wfr_Amount (snd e)) = d \<and> ExpiresAt (snd e) > BlockTime ctx) es))
     = sum_list (map (\<lambda>e. reserved ctx d (snd e)) es)" for es :: "((nat \<times> addr) \<times> WithheldFeeRecord) list"
    by (induction es) (auto simp: reserved_def)
  then show ?thesis by (simp add: outstandingWithheldFees_def range_sum_def)
qed

lemma outstanding_cong:
  "WithheldFeeRecords s = WithheldFeeRecords t \<Longrightarrow>
     outstandingWithheldFees ctx s c d = outstandingWithheldFees ctx t c d"
  by (simp add: outstandingWithheldFees_def)

definition reserved_at :: "sdk_ctx \<Rightarrow> 'w pstate \<Rightarrow> consumer_id \<times> addr \<Rightarrow> denom \<Rightarrow> int" where
  "reserved_at ctx s key d =
     (case store_get (WithheldFeeRecords s) key of None \<Rightarrow> 0 | Some r \<Rightarrow> reserved ctx d r)"

lemma recordWithheldFee_Ok:
  assumes "recordWithheldFee ctx c coin a s = Ok t"
  shows "t = s\<lparr>WithheldFeeRecords := store_set (c, a)
      \<lparr>wfr_ConsumerId = c, wfr_ProviderConsAddr = a,
       wfr_Amount = coin\<lparr>Amount := Amount coin + reserved_at ctx s (c, a) (Denom coin)\<rparr>,
       ExpiresAt = BlockTime ctx + DowntimeChallengeWindow (InfractionParams s)\<rparr> (WithheldFeeRecords s)\<rparr>"
    and "d \<noteq> Denom coin \<Longrightarrow> reserved_at ctx s (c, a) d = 0"
proof -
  have "t = s\<lparr>WithheldFeeRecords := store_set (c, a)
      \<lparr>wfr_ConsumerId = c, wfr_ProviderConsAddr = a,
       wfr_Amount = coin\<lparr>Amount := Amount coin + reserved_at ctx s (c, a) (Denom coin)\<rparr>,
       ExpiresAt = BlockTime ctx + DowntimeChallengeWindow (InfractionParams s)\<rparr> (WithheldFeeRecords s)\<rparr> \<and>
    (d \<noteq> Denom coin \<longrightarrow> reserved_at ctx s (c, a) d = 0)"
  proof (cases "store_get (WithheldFeeRecords s) (c, a)")
    case None
    then show ?thesis using assms by (simp add: recordWithheldFee_def Let_def reserved_at_def)
  next
    case (Some r)
    then show ?thesis using assms
      by (cases "ExpiresAt r > BlockTime ctx"; cases "Denom coin = Denom (wfr_Amount r)")
        (simp_all add: recordWithheldFee_def Let_def reserved_at_def reserved_def)
  qed
  then show "t = s\<lparr>WithheldFeeRecords := store_set (c, a)
      \<lparr>wfr_ConsumerId = c, wfr_ProviderConsAddr = a,
       wfr_Amount = coin\<lparr>Amount := Amount coin + reserved_at ctx s (c, a) (Denom coin)\<rparr>,
       ExpiresAt = BlockTime ctx + DowntimeChallengeWindow (InfractionParams s)\<rparr> (WithheldFeeRecords s)\<rparr>"
    "d \<noteq> Denom coin \<Longrightarrow> reserved_at ctx s (c, a) d = 0" by blast+
qed

lemma record_outstanding:
  assumes "recordWithheldFee ctx c coin a s = Ok t" "0 < DowntimeChallengeWindow (InfractionParams s)"
  shows "outstandingWithheldFees ctx t e d =
      outstandingWithheldFees ctx s e d + (if e = c \<and> d = Denom coin then Amount coin else 0)"
    and "t = s\<lparr>WithheldFeeRecords := WithheldFeeRecords t\<rparr>"
proof -
  note t = recordWithheldFee_Ok(1)[OF assms(1)]
  have "outstandingWithheldFees ctx t e d = outstandingWithheldFees ctx s e d
      + (if e = c then (if d = Denom coin then Amount coin + reserved_at ctx s (c, a) d else 0)
           - reserved_at ctx s (c, a) d else 0)"
    unfolding outstanding_range_sum by (subst t) (use assms(2) in
      \<open>simp add: range_sum_set reserved_at_def[symmetric] reserved_def\<close>)
  then show "outstandingWithheldFees ctx t e d =
      outstandingWithheldFees ctx s e d + (if e = c \<and> d = Denom coin then Amount coin else 0)"
    using recordWithheldFee_Ok(2)[OF assms(1), of d] by simp
  show "t = s\<lparr>WithheldFeeRecords := WithheldFeeRecords t\<rparr>" by (simp add: t)
qed

lemma records_outstanding:
  assumes "fold_res (recordWithheldFee ctx c coin) as s = Ok t"
    and "0 < DowntimeChallengeWindow (InfractionParams s)"
  shows "outstandingWithheldFees ctx t e d = outstandingWithheldFees ctx s e d
      + (if e = c \<and> d = Denom coin then Amount coin * int (length as) else 0)
    \<and> t = s\<lparr>WithheldFeeRecords := WithheldFeeRecords t\<rparr>"
  using assms
proof (induction as arbitrary: s)
  case Nil
  then show ?case by simp
next
  case (Cons a as)
  then obtain u where u: "recordWithheldFee ctx c coin a s = Ok u"
    "fold_res (recordWithheldFee ctx c coin) as u = Ok t" by (auto simp: res_simps)
  note r = record_outstanding[OF u(1) Cons.prems(2)]
  have "InfractionParams u = InfractionParams s" by (subst r(2)) simp
  then have IH: "outstandingWithheldFees ctx t e d = outstandingWithheldFees ctx u e d
      + (if e = c \<and> d = Denom coin then Amount coin * int (length as) else 0)"
    "t = u\<lparr>WithheldFeeRecords := WithheldFeeRecords t\<rparr>"
    using Cons.IH[OF u(2)] Cons.prems(2) by auto
  have "u\<lparr>WithheldFeeRecords := WithheldFeeRecords t\<rparr> = s\<lparr>WithheldFeeRecords := WithheldFeeRecords t\<rparr>"
    by (subst r(2)) simp
  then show ?case using IH r(1)[of e d] by (simp add: algebra_simps)
qed

subsection \<open>Solvency\<close>

text \<open>
  What x/bank documents of \<^verbatim>\<open>InputOutputCoins\<close>: when it succeeds, the input address has paid
  the input and every output address has received its outputs.
\<close>

definition multi_send_laws :: "'w keeper \<Rightarrow> bool" where
  "multi_send_laws k \<longleftrightarrow>
     (\<forall>w a d n outs w' x e. InputOutputCoins k w (a, \<lparr>Denom = d, Amount = n\<rparr>) outs = (True, w') \<longrightarrow>
        GetBalance k w' x e = GetBalance k w x e - (if x = a \<and> e = d then n else 0)
          + sum_list (map (\<lambda>(b, coin). if b = x \<and> Denom coin = e then Amount coin else 0) outs))"

definition pools_apart :: "'w keeper \<Rightarrow> addr list \<Rightarrow> bool" where
  "pools_apart k accs \<longleftrightarrow> inj (GetConsumerFeePoolAddress k) \<and>
     (\<forall>c. GetConsumerFeePoolAddress k c \<notin> set accs)"

definition solvent :: "'w keeper \<Rightarrow> sdk_ctx \<Rightarrow> 'w pstate \<Rightarrow> bool" where
  "solvent k ctx s \<longleftrightarrow> (\<forall>c d. outstandingWithheldFees ctx s c d \<le> pool_balance k s c d)"

definition fees_ok :: "'w pstate \<Rightarrow> bool" where
  "fees_ok s \<longleftrightarrow> 0 \<le> FeesPerBlockAmount (Params s) \<and> 0 \<le> BlocksPerEpoch (Params s) \<and>
     0 < DowntimeChallengeWindow (InfractionParams s) \<and>
     (\<forall>c n. store_get (ConsumerFeesPerBlockOverride s) c = Some n \<longrightarrow> 0 \<le> n)"

lemma epoch_fee_nonneg:
  "fees_ok s \<Longrightarrow> 0 \<le> Amount fe \<Longrightarrow> 0 \<le> Amount (epoch_fee s c fe fb)"
  by (auto simp: fees_ok_def epoch_fee_def effectiveFeesPerEpoch_def split: option.splits)

lemma epoch_share_le:
  assumes "fees_ok s" "0 \<le> Amount fe" "bvs \<noteq> []"
  shows "0 \<le> epoch_share s c fe fb bvs"
    "epoch_share s c fe fb bvs * int (length bvs) \<le> Amount (epoch_fee s c fe fb)"
  using epoch_fee_nonneg[OF assms(1,2), of c fb] assms(3) div_mult_le[of "int (length bvs)"]
  by (simp_all add: epoch_share_def quo_nonneg pos_imp_zdiv_nonneg_iff)

lemma distribute_one_frame:
  assumes "distribute_one k ctx fe fb bvs c s = Ok t" "fees_ok s"
  shows "phase_of t = phase_of s" "Params t = Params s" "InfractionParams t = InfractionParams s"
    "ConsumerFeesPerBlockOverride t = ConsumerFeesPerBlockOverride s"
    "(e, u) \<noteq> (c, BlockTime ctx) \<Longrightarrow>
      store_get (EpochShareRecords t) (e, u) = store_get (EpochShareRecords s) (e, u)"
    "GetConsumerPhase s c = CONSUMER_PHASE_LAUNCHED \<Longrightarrow>
      \<exists>x \<in> {0, epoch_share s c fe fb bvs}. store_get (EpochShareRecords t) (c, BlockTime ctx) = Some x"
proof -
  let ?P = "\<lambda>t. phase_of t = phase_of s \<and> Params t = Params s \<and> InfractionParams t = InfractionParams s \<and>
    ConsumerFeesPerBlockOverride t = ConsumerFeesPerBlockOverride s \<and>
    (\<forall>e u. (e, u) \<noteq> (c, BlockTime ctx) \<longrightarrow>
      store_get (EpochShareRecords t) (e, u) = store_get (EpochShareRecords s) (e, u)) \<and>
    (GetConsumerPhase s c = CONSUMER_PHASE_LAUNCHED \<longrightarrow>
      (\<exists>x \<in> {0, epoch_share s c fe fb bvs}. store_get (EpochShareRecords t) (c, BlockTime ctx) = Some x))"
  have "?P t"
    using assms(1)
  proof (cases rule: distribute_one_cases)
    case idle
    then show ?thesis by simp
  next
    case (unpaid s1)
    then show ?thesis by (auto simp: SetEpochShareRecord_def frame_simps)
  next
    case (paid w)
    let ?u = "SetEpochShareRecord c (BlockTime ctx) (epoch_share s c fe fb bvs)
      (UpdateConsumerDebtStatus c False (s\<lparr>world := w\<rparr>))"
    have "0 < DowntimeChallengeWindow (InfractionParams ?u)"
      using assms(2) by (simp add: fees_ok_def SetEpochShareRecord_def frame_simps)
    then have t: "t = ?u\<lparr>WithheldFeeRecords := WithheldFeeRecords t\<rparr>"
      using records_outstanding[OF paid(5)] by blast
    have "?P (?u\<lparr>WithheldFeeRecords := WithheldFeeRecords t\<rparr>)"
      by (simp add: SetEpochShareRecord_def frame_simps)
    then show ?thesis unfolding t[symmetric] .
  qed
  then show "phase_of t = phase_of s" "Params t = Params s" "InfractionParams t = InfractionParams s"
    "ConsumerFeesPerBlockOverride t = ConsumerFeesPerBlockOverride s"
    "(e, u) \<noteq> (c, BlockTime ctx) \<Longrightarrow>
      store_get (EpochShareRecords t) (e, u) = store_get (EpochShareRecords s) (e, u)"
    "GetConsumerPhase s c = CONSUMER_PHASE_LAUNCHED \<Longrightarrow>
      \<exists>x \<in> {0, epoch_share s c fe fb bvs}. store_get (EpochShareRecords t) (c, BlockTime ctx) = Some x"
    by blast+
qed

lemma fees_ok_distribute:
  "distribute_one k ctx fe fb bvs c s = Ok t \<Longrightarrow> fees_ok s \<Longrightarrow> fees_ok t"
  using distribute_one_frame(2-4)[of k ctx fe fb bvs c s t] by (simp add: fees_ok_def)

lemma outputs_elsewhere:
  "x \<notin> set as \<Longrightarrow> sum_list (map (\<lambda>(b, coin). if b = x \<and> Denom coin = e then Amount coin else (0::int))
     (map (\<lambda>a. (a, coin)) as)) = 0"
  by (induction as) auto

text \<open>The balances of the pools after the payment of one consumer's fees.\<close>

lemma pool_after_payment:
  assumes laws: "multi_send_laws k" and apart: "pools_apart k (map snd bvs)"
    and w: "if eligible s c bvs = [] then w = world s
       else InputOutputCoins k (world s) (GetConsumerFeePoolAddress k c,
              \<lparr>Denom = f, Amount = n * int (length (eligible s c bvs))\<rparr>)
              (map (\<lambda>a. (a, \<lparr>Denom = f, Amount = n\<rparr>)) (eligible s c bvs)) = (True, w)"
  shows "GetBalance k w (GetConsumerFeePoolAddress k e) d = pool_balance k s e d
    - (if e = c \<and> d = f then n * int (length (eligible s c bvs)) else 0)"
proof (cases "eligible s c bvs = []")
  case True
  then show ?thesis using w by simp
next
  case False
  have none: "GetConsumerFeePoolAddress k e \<notin> set (eligible s c bvs)"
    using apart by (auto simp: pools_apart_def eligible_def)
  have eq: "GetConsumerFeePoolAddress k e = GetConsumerFeePoolAddress k c \<longleftrightarrow> e = c"
    using apart by (auto simp: pools_apart_def inj_def)
  have io: "InputOutputCoins k (world s) (GetConsumerFeePoolAddress k c,
              \<lparr>Denom = f, Amount = n * int (length (eligible s c bvs))\<rparr>)
              (map (\<lambda>a. (a, \<lparr>Denom = f, Amount = n\<rparr>)) (eligible s c bvs)) = (True, w)"
    using w False by simp
  show ?thesis
    by (simp only: laws[unfolded multi_send_laws_def, rule_format, OF io] outputs_elsewhere[OF none] eq)
qed

lemma solvent_distribute_one:
  assumes laws: "multi_send_laws k" and apart: "pools_apart k (map snd bvs)" and "bvs \<noteq> []"
    and fees: "fees_ok s" "0 \<le> Amount fe" and sol: "solvent k ctx s"
    and run: "distribute_one k ctx fe fb bvs c s = Ok t"
  shows "solvent k ctx t"
  using run
proof (cases rule: distribute_one_cases)
  case idle
  then show ?thesis using sol by simp
next
  case (unpaid s1)
  then have "WithheldFeeRecords t = WithheldFeeRecords s" "world t = world s"
    by (auto simp: SetEpochShareRecord_def frame_simps)
  then show ?thesis using sol outstanding_cong[of t s ctx] by (simp add: solvent_def)
next
  case (paid w)
  let ?fee = "epoch_fee s c fe fb" and ?n = "epoch_share s c fe fb bvs"
  let ?u = "SetEpochShareRecord c (BlockTime ctx) ?n (UpdateConsumerDebtStatus c False (s\<lparr>world := w\<rparr>))"
  have win: "0 < DowntimeChallengeWindow (InfractionParams ?u)"
    using fees(1) by (simp add: fees_ok_def SetEpochShareRecord_def frame_simps)
  have rec: "outstandingWithheldFees ctx t e d = outstandingWithheldFees ctx s e d
      + (if e = c \<and> d = Denom ?fee then ?n * int (length (excluded s c bvs)) else 0)" for e d
    using records_outstanding[OF paid(5) win, of e d] outstanding_cong[of ?u s ctx e d]
    by (simp add: SetEpochShareRecord_def frame_simps)
  have "world t = world ?u" using records_outstanding[OF paid(5) win] by (metis pstate.ext_inject pstate.surjective pstate.update_convs(42))
  then have wt: "world t = w" by (simp add: SetEpochShareRecord_def frame_simps)
  have bal: "GetBalance k w (GetConsumerFeePoolAddress k e) d = pool_balance k s e d
    - (if e = c \<and> d = Denom ?fee then ?n * int (length (eligible s c bvs)) else 0)" for e d
    by (rule pool_after_payment[OF laws apart paid(4)])
  have "?n * int (length (eligible s c bvs)) + ?n * int (length (excluded s c bvs)) \<le> Amount ?fee"
    using epoch_share_le(2)[OF fees assms(3), of c fb] eligible_excluded[of s c bvs]
    by (simp add: distrib_left[symmetric] del: of_nat_add) (metis of_nat_add)
  then show ?thesis
    using sol paid(3) unfolding solvent_def rec wt bal by auto
qed

lemma bonded_addrs_props:
  assumes "bonded_addrs k bonded = Ok bvs"
  shows "length bvs = length bonded"
    "\<And>bv. bv \<in> set bvs \<Longrightarrow> \<exists>v\<in>set bonded. ValAddressFromBech32 k (OperatorAddress v) = Some (snd bv)"
proof -
  have "fold_res (\<lambda>val acc.
         bind_res (of_option ErrPlain (GetConsAddr k val)) (\<lambda>consAddr.
         bind_res (of_option ErrPlain (ValAddressFromBech32 k (OperatorAddress val))) (\<lambda>valAddr.
         Ok (acc @ [(consAddr, valAddr)])))) bonded acc = Ok bvs \<Longrightarrow>
     length bvs = length acc + length bonded \<and>
     (\<forall>bv\<in>set bvs. bv \<in> set acc \<or> (\<exists>v\<in>set bonded. ValAddressFromBech32 k (OperatorAddress v) = Some (snd bv)))"
    for acc
    by (induction bonded arbitrary: acc) (fastforce simp: res_simps)+
  from this[of "[]"] assms show "length bvs = length bonded"
    "\<And>bv. bv \<in> set bvs \<Longrightarrow> \<exists>v\<in>set bonded. ValAddressFromBech32 k (OperatorAddress v) = Some (snd bv)"
    by (auto simp: bonded_addrs_def)
qed

lemma defaultEpochFee_nonneg: "fees_ok s \<Longrightarrow> 0 \<le> Amount (defaultEpochFee k s)"
  by (simp add: fees_ok_def defaultEpochFee_def GetFeesPerBlock_def GetBlocksPerEpoch_def)

lemma GetAllConsumerIds_distinct: "distinct (GetAllConsumerIds s)" "distinct (GetAllActiveConsumerIds s)"
  unfolding GetAllActiveConsumerIds_def GetAllConsumerIds_def
  by (simp_all split: option.splits)

lemma DistributeConsumerFees_Ok:
  assumes "DistributeConsumerFees k ctx s = Ok t"
  obtains "GetBondedValidatorsByPower k (world s) = Some []" "t = s"
  | bonded bvs where "GetBondedValidatorsByPower k (world s) = Some bonded" "bonded \<noteq> []"
      "bonded_addrs k bonded = Ok bvs" "bvs \<noteq> []"
      "fold_res (distribute_one k ctx (defaultEpochFee k s) (GetFeesPerBlock k s) bvs)
         (GetAllActiveConsumerIds s) s = Ok t"
proof -
  obtain bonded where b: "GetBondedValidatorsByPower k (world s) = Some bonded"
    using assms by (auto simp: DistributeConsumerFees_def res_simps)
  show thesis
  proof (cases "bonded = []")
    case True
    then have "t = s" using assms b by (simp add: DistributeConsumerFees_def)
    then show thesis using True b that(1) by blast
  next
    case False
    then obtain bvs where bvs: "bonded_addrs k bonded = Ok bvs"
      "fold_res (distribute_one k ctx (defaultEpochFee k s) (GetFeesPerBlock k s) bvs)
         (GetAllActiveConsumerIds s) s = Ok t"
      using assms b by (auto simp: DistributeConsumerFees_def res_simps)
    then have "bvs \<noteq> []" using bonded_addrs_props(1)[OF bvs(1)] False by auto
    then show thesis using that(2) b False bvs by blast
  qed
qed

text \<open>
  The run over a list of distinct consumers writes the share record of the launched ones at
  the block time, and no other record.
\<close>

lemma distribute_loop_records:
  assumes "fold_res (distribute_one k ctx fe fb bvs) cs s = Ok t" "fees_ok s" "distinct cs"
  shows "phase_of t = phase_of s \<and>
    (\<forall>e u. store_get (EpochShareRecords t) (e, u) \<noteq> store_get (EpochShareRecords s) (e, u) \<longrightarrow>
       e \<in> set cs \<and> u = BlockTime ctx \<and> GetConsumerPhase s e = CONSUMER_PHASE_LAUNCHED) \<and>
    (\<forall>e\<in>set cs. GetConsumerPhase s e = CONSUMER_PHASE_LAUNCHED \<longrightarrow>
       store_has (EpochShareRecords t) (e, BlockTime ctx))"
  using assms
proof (induction cs arbitrary: s)
  case Nil
  then show ?case by simp
next
  case (Cons c cs)
  then obtain u where u: "distribute_one k ctx fe fb bvs c s = Ok u"
    "fold_res (distribute_one k ctx fe fb bvs) cs u = Ok t" by (auto simp: res_simps)
  note fr = distribute_one_frame[OF u(1) Cons.prems(2)]
  have ph: "GetConsumerPhase u e = GetConsumerPhase s e" for e by (simp add: GetConsumerPhase_def fr(1))
  have idle: "u = s" if "GetConsumerPhase s c \<noteq> CONSUMER_PHASE_LAUNCHED"
    using u(1) that by (simp add: distribute_one_def)
  have IH: "phase_of t = phase_of u"
    "\<And>e v. store_get (EpochShareRecords t) (e, v) \<noteq> store_get (EpochShareRecords u) (e, v) \<Longrightarrow>
       e \<in> set cs \<and> v = BlockTime ctx \<and> GetConsumerPhase s e = CONSUMER_PHASE_LAUNCHED"
    "\<And>e. e \<in> set cs \<Longrightarrow> GetConsumerPhase s e = CONSUMER_PHASE_LAUNCHED \<Longrightarrow>
       store_has (EpochShareRecords t) (e, BlockTime ctx)"
    using Cons.IH[OF u(2) fees_ok_distribute[OF u(1) Cons.prems(2)]] Cons.prems(3) by (auto simp: ph)
  have c: "store_get (EpochShareRecords t) (c, v) = store_get (EpochShareRecords u) (c, v)" for v
    using IH(2)[of c v] Cons.prems(3) by auto
  have "store_has (EpochShareRecords t) (c, BlockTime ctx)" if "GetConsumerPhase s c = CONSUMER_PHASE_LAUNCHED"
    using fr(6)[OF that] c by (auto simp: store_has_def)
  moreover have "e \<in> set (c # cs) \<and> v = BlockTime ctx \<and> GetConsumerPhase s e = CONSUMER_PHASE_LAUNCHED"
    if "store_get (EpochShareRecords t) (e, v) \<noteq> store_get (EpochShareRecords s) (e, v)" for e v
    using that IH(2)[of e v] fr(5)[of e v] idle by (cases "e = c") (auto simp: c)
  ultimately show ?case using IH fr(1) by auto
qed

subsection \<open>Paying and releasing the escrow\<close>

lemma pay_record_records:
  "WithheldFeeRecords (pay_record k ctx c e s) = store_remove (fst e) (WithheldFeeRecords s)"
  by (simp add: pay_record_def Let_def split: option.splits)

lemma pay_record_frame:
  "pay_record k ctx c e s = s\<lparr>WithheldFeeRecords := store_remove (fst e) (WithheldFeeRecords s),
     world := world (pay_record k ctx c e s)\<rparr>"
  by (simp add: pay_record_def Let_def split: option.splits)

lemma PayWithheldFees_records:
  "WithheldFeeRecords (PayWithheldFees k ctx c s) = store_drop (\<lambda>key. fst key = c) (WithheldFeeRecords s)"
proof -
  have "WithheldFeeRecords (fold (pay_record k ctx c) es s) =
      fold store_remove (map fst es) (WithheldFeeRecords s)" for es s
    by (induction es arbitrary: s) (simp_all add: pay_record_records)
  then show ?thesis by (simp add: PayWithheldFees_def fold_remove_range)
qed

lemma pay_record_expired:
  "\<not> ExpiresAt (snd e) > BlockTime ctx \<Longrightarrow> world (pay_record k ctx c e s) = world s"
  by (simp add: pay_record_def Let_def)

lemma SweepExpired_records:
  "WithheldFeeRecords (SweepExpiredWithheldFeeRecords ctx s) =
     store_drop (\<lambda>key. \<exists>r. store_get (WithheldFeeRecords s) key = Some r \<and> \<not> ExpiresAt r > BlockTime ctx)
       (WithheldFeeRecords s)"
proof -
  have "key \<in> set (map fst (filter (\<lambda>e. \<not> ExpiresAt (snd e) > BlockTime ctx) (entries (WithheldFeeRecords s))))
      \<longleftrightarrow> (\<exists>r. store_get (WithheldFeeRecords s) key = Some r \<and> \<not> ExpiresAt r > BlockTime ctx)" for key
    by (cases key) (auto simp: image_iff kv.iter_mem Bex_def)
  then show ?thesis
    by (intro store_ext) (auto simp: SweepExpiredWithheldFeeRecords_def Let_def fun_eq_iff kv.get_fold_remove)
qed

text \<open>Releasing expired records frees nothing that was still reserved.\<close>

lemma outstanding_sweep: "outstandingWithheldFees ctx (SweepExpiredWithheldFeeRecords ctx s) c d = outstandingWithheldFees ctx s c d"
proof -
  let ?P = "\<lambda>key. \<exists>r. store_get (WithheldFeeRecords s) key = Some r \<and> \<not> ExpiresAt r > BlockTime ctx"
  let ?es = "store_range (\<lambda>key. fst key = c) (WithheldFeeRecords s)"
  have "filter (\<lambda>p. \<not> ?P (fst p) \<and> Denom (wfr_Amount (snd p)) = d \<and> ExpiresAt (snd p) > BlockTime ctx) ?es
      = filter (\<lambda>p. Denom (wfr_Amount (snd p)) = d \<and> ExpiresAt (snd p) > BlockTime ctx) ?es"
    by (rule filter_cong[OF refl]) (auto simp: mem_store_range)
  moreover have "store_range (\<lambda>key. fst key = c) (store_drop ?P (WithheldFeeRecords s)) = filter (\<lambda>p. \<not> ?P (fst p)) ?es"
    by (simp add: store_range_def conj_commute)
  ultimately show ?thesis
    unfolding outstandingWithheldFees_def SweepExpired_records by (simp add: conj_commute conj_left_commute)
qed

subsection \<open>A chain to evaluate on\<close>

text \<open>Two bonded validators, the second marked with downtime; consumer 0 is launched.\<close>

definition ex_fee_keeper :: "ex_bank keeper" where
  "ex_fee_keeper = ex_bank_keeper\<lparr>
     GetBondedValidatorsByPower := (\<lambda>_. Some
       [\<lparr>OperatorAddress = ''v1'', val_ConsensusPubkey = [11], val_Tokens = 10, val_Unbonded = False, val_Jailed = False\<rparr>,
        \<lparr>OperatorAddress = ''v2'', val_ConsensusPubkey = [22], val_Tokens = 10, val_Unbonded = False, val_Jailed = False\<rparr>]),
     ValAddressFromBech32 := (\<lambda>op. Some (if op = ''v1'' then [1] else [2]))\<rparr>"

definition ex_fee_state :: "ex_bank pstate" where
  "ex_fee_state = (blank_pstate (\<lambda>x. if x = (ex_pool, ''uphoton'') then 100 else 0))\<lparr>
     ConsumerId := 1, phase_of := store_set 0 CONSUMER_PHASE_LAUNCHED empty_store,
     EpochDowntime := store_set (0, [22]) True empty_store\<rparr>"

lemma ex_fee_keeper_simps [simp]:
  "GetBalance ex_fee_keeper w a d = int (w (a, d))"
  "NewModuleAddress ex_fee_keeper = ex_module"
  "GetConsumerFeePoolAddress ex_fee_keeper 0 = ex_pool"
  "GetConsAddr ex_fee_keeper v = Some (val_ConsensusPubkey v)"
  "ValAddressFromBech32 ex_fee_keeper op = Some (if op = ''v1'' then [1] else [2])"
  "GetBondedValidatorsByPower ex_fee_keeper w = Some
       [\<lparr>OperatorAddress = ''v1'', val_ConsensusPubkey = [11], val_Tokens = 10, val_Unbonded = False, val_Jailed = False\<rparr>,
        \<lparr>OperatorAddress = ''v2'', val_ConsensusPubkey = [22], val_Tokens = 10, val_Unbonded = False, val_Jailed = False\<rparr>]"
  "InputOutputCoins ex_fee_keeper w (a, coin) outs =
     (if Amount coin \<le> int (w (a, Denom coin)) \<and> list_all (\<lambda>out. 0 \<le> Amount (snd out)) outs
      then (True, \<lambda>(x, e). nat (int (w (x, e)) - (if x = a \<and> e = Denom coin then Amount coin else 0)
             + sum_list (map (\<lambda>(b, out). if b = x \<and> Denom out = e then Amount out else 0) outs)))
      else (False, w))"
  by (simp_all add: ex_fee_keeper_def ex_pool_def GetConsumerFeePoolAddress_def)
    (simp_all add: ex_bank_keeper_def blank_keeper_def)

lemma ex_module_inj: "inj ex_module"
proof -
  have "inj (\<lambda>ch. of_nat (of_char ch) :: 8 word)"
  proof (rule injI)
    fix x y :: char assume "(of_nat (of_char x) :: 8 word) = of_nat (of_char y)"
    then have "unat (of_nat (of_char x) :: 8 word) = unat (of_nat (of_char y) :: 8 word)" by simp
    then have "of_char x = (of_char y :: nat)" by (simp add: unat_of_nat)
    then show "x = y" by simp
  qed
  then show ?thesis unfolding ex_module_def by simp
qed

lemma ex_pools_inj: "inj (GetConsumerFeePoolAddress ex_fee_keeper)"
  by (rule injI) (auto simp: GetConsumerFeePoolAddress_def inj_eq[OF ex_module_inj] decimal_inject)

lemma ex_multi_send: "multi_send_laws ex_fee_keeper"
proof -
  have "0 \<le> sum_list (map (\<lambda>(b, out). if b = x \<and> Denom out = e then Amount out else 0) outs)"
    if "list_all (\<lambda>out. 0 \<le> Amount (snd out)) outs" for outs :: "(addr \<times> Coin) list" and x e
    using that by (intro sum_list_nonneg') (auto simp: list_all_iff)
  then show ?thesis
    by (auto simp: multi_send_laws_def ex_fee_keeper_def ex_bank_keeper_def split: if_splits)
qed

lemma ex_distribute:
  "\<exists>t. DistributeConsumerFees ex_fee_keeper ex_now ex_fee_state = Ok t \<and>
     pool_balance ex_fee_keeper t 0 ''uphoton'' = 95 \<and> outstandingWithheldFees ex_now t 0 ''uphoton'' = 5"
proof -
  have ids: "GetAllActiveConsumerIds ex_fee_state = [0]"
    by (simp add: GetAllActiveConsumerIds_def GetAllConsumerIds_def GetConsumerId_def IsConsumerActive_def
        GetConsumerPhase_def ex_fee_state_def)
  have fee: "defaultEpochFee ex_fee_keeper ex_fee_state = \<lparr>Denom = ''uphoton'', Amount = 10\<rparr>"
    "GetFeesPerBlock ex_fee_keeper ex_fee_state = \<lparr>Denom = ''uphoton'', Amount = 1\<rparr>"
    by (simp_all add: defaultEpochFee_def GetFeesPerBlock_def GetBlocksPerEpoch_def ex_fee_state_def
        ex_fee_keeper_def ex_bank_keeper_def blank_simps)
  have "[1] \<noteq> ex_pool" by (simp add: ex_pool_def GetConsumerFeePoolAddress_def ModuleName_def ex_module_def)
  then show ?thesis unfolding DistributeConsumerFees_def ids fee
    by (simp add: bonded_addrs_def)
      (simp add: ex_fee_state_def distribute_one_def GetConsumerPhase_def blank_simps
        epochShareForConsumer_def effectiveFeesPerEpoch_def Let_def quo_def IsEpochDowntime_def
        outstandingWithheldFees_def store_range_def recordWithheldFee_def SetEpochShareRecord_def
        UpdateConsumerDebtStatus_def IsConsumerInDebt_def SetConsumerInDebt_def)
qed

lemma ex_fees_ok: "fees_ok ex_fee_state"
  by (simp add: fees_ok_def ex_fee_state_def blank_simps)

lemma ex_solvent: "solvent ex_fee_keeper ex_now ex_fee_state"
  by (simp add: solvent_def outstandingWithheldFees_def ex_fee_state_def blank_pstate_def store_range_def)

lemma ex_payees: "[1] \<notin> range (GetConsumerFeePoolAddress ex_fee_keeper)"
  "[2] \<notin> range (GetConsumerFeePoolAddress ex_fee_keeper)"
  by (auto simp: GetConsumerFeePoolAddress_def ModuleName_def ex_module_def)

subsection \<open>Properties\<close>

text \<open>
  C6. A distribution run never spends the escrow: if every pool covers the unexpired withheld
  fees of its consumer before the run, every pool covers them after it, including the shares
  the run itself withheld, for every consumer and denom.
\<close>

theorem distribution_preserves_solvency:
  assumes "multi_send_laws k" "fees_ok s" "solvent k ctx s"
    and "\<And>bonded v a. GetBondedValidatorsByPower k (world s) = Some bonded \<Longrightarrow> v \<in> set bonded \<Longrightarrow>
       ValAddressFromBech32 k (OperatorAddress v) = Some a \<Longrightarrow> a \<notin> range (GetConsumerFeePoolAddress k)"
    and "inj (GetConsumerFeePoolAddress k)"
    and "DistributeConsumerFees k ctx s = Ok t"
  shows "solvent k ctx t"
  using assms(6)
proof (rule DistributeConsumerFees_Ok)
  fix bonded bvs
  assume b: "GetBondedValidatorsByPower k (world s) = Some bonded" "bonded_addrs k bonded = Ok bvs" "bvs \<noteq> []"
    and run: "fold_res (distribute_one k ctx (defaultEpochFee k s) (GetFeesPerBlock k s) bvs)
         (GetAllActiveConsumerIds s) s = Ok t"
  have "snd bv \<notin> range (GetConsumerFeePoolAddress k)" if "bv \<in> set bvs" for bv
    using bonded_addrs_props(2)[OF b(2) that] assms(4)[OF b(1)] by blast
  then have apart: "pools_apart k (map snd bvs)"
    using assms(5) by (fastforce simp: pools_apart_def)
  have "fees_ok t \<and> solvent k ctx t"
    using run
    by (rule fold_res_invariant[where P = "\<lambda>s. fees_ok s \<and> solvent k ctx s"])
      (use assms(2,3) defaultEpochFee_nonneg[OF assms(2)] in
        \<open>auto intro: fees_ok_distribute solvent_distribute_one[OF assms(1) apart b(3)]\<close>)
  then show ?thesis by simp
qed (use assms(3) in simp)

theorem distribution_preserves_solvency_witness:
  "\<exists>t. DistributeConsumerFees ex_fee_keeper ex_now ex_fee_state = Ok t \<and>
     outstandingWithheldFees ex_now t 0 ''uphoton'' = 5 \<and> solvent ex_fee_keeper ex_now t"
proof -
  obtain t where t: "DistributeConsumerFees ex_fee_keeper ex_now ex_fee_state = Ok t"
    "outstandingWithheldFees ex_now t 0 ''uphoton'' = 5" using ex_distribute by blast
  have "solvent ex_fee_keeper ex_now t"
    by (rule distribution_preserves_solvency[OF ex_multi_send ex_fees_ok ex_solvent _ ex_pools_inj t(1)])
      (use ex_payees in \<open>auto split: if_splits\<close>)
  then show ?thesis using t by blast
qed

text \<open>
  C29. A distribution run records the per-validator share of every launched consumer under the
  block time, once, and touches no other share record.
\<close>

theorem distribution_records_every_launched_consumer:
  assumes "DistributeConsumerFees k ctx s = Ok t" "fees_ok s"
    and "GetBondedValidatorsByPower k (world s) \<noteq> Some []"
  shows "(\<forall>c\<in>set (GetAllLaunchedConsumerIds s). store_has (EpochShareRecords t) (c, BlockTime ctx)) \<and>
    (\<forall>c u. store_get (EpochShareRecords t) (c, u) \<noteq> store_get (EpochShareRecords s) (c, u) \<longrightarrow>
       u = BlockTime ctx \<and> GetConsumerPhase s c = CONSUMER_PHASE_LAUNCHED)"
  using assms(1)
proof (rule DistributeConsumerFees_Ok)
  fix bonded bvs
  assume run: "fold_res (distribute_one k ctx (defaultEpochFee k s) (GetFeesPerBlock k s) bvs)
         (GetAllActiveConsumerIds s) s = Ok t"
  have "set (GetAllLaunchedConsumerIds s) \<subseteq> set (GetAllActiveConsumerIds s)"
    by (auto simp: GetAllLaunchedConsumerIds_def GetAllActiveConsumerIds_def IsConsumerActive_def)
  then show ?thesis
    using distribute_loop_records[OF run assms(2) GetAllConsumerIds_distinct(2)]
    by (fastforce simp: GetAllLaunchedConsumerIds_def)
qed (use assms(3) in simp)

theorem distribution_records_every_launched_consumer_witness:
  "\<exists>t. DistributeConsumerFees ex_fee_keeper ex_now ex_fee_state = Ok t \<and>
     store_has (EpochShareRecords t) (0, BlockTime ex_now)"
proof -
  obtain t where t: "DistributeConsumerFees ex_fee_keeper ex_now ex_fee_state = Ok t"
    using ex_distribute by blast
  have "0 \<in> set (GetAllLaunchedConsumerIds ex_fee_state)"
    by (simp add: GetAllLaunchedConsumerIds_def GetAllConsumerIds_def GetConsumerId_def
        GetConsumerPhase_def ex_fee_state_def)
  then show ?thesis
    using distribution_records_every_launched_consumer[OF t ex_fees_ok] t by auto
qed

text \<open>
  The share that prices downtime evidence is the one of the earliest run at or after the
  end of the window, and there is none exactly when no such run was recorded.
\<close>

theorem resolve_epoch_share_earliest:
  "(ResolveEpochShare s c t = None \<longleftrightarrow> (\<forall>u \<ge> t. store_get (EpochShareRecords s) (c, u) = None)) \<and>
   (ResolveEpochShare s c t = Some x \<longrightarrow>
      (\<exists>u \<ge> t. store_get (EpochShareRecords s) (c, u) = Some x \<and>
         (\<forall>v \<ge> t. store_has (EpochShareRecords s) (c, v) \<longrightarrow> u \<le> v)))"
proof -
  let ?es = "store_range (\<lambda>key. fst key = c \<and> t \<le> snd key) (EpochShareRecords s)"
  have mem: "((e, u), y) \<in> set ?es \<longleftrightarrow> e = c \<and> t \<le> u \<and> store_get (EpochShareRecords s) (e, u) = Some y" for e u y
    by (auto simp: mem_store_range)
  have asc: "ascending ?es"
    using ascending_filter[OF kv.iter_ascending[of "EpochShareRecords s"]] by (simp add: store_range_def)
  show ?thesis
  proof (cases ?es)
    case Nil
    then have "store_get (EpochShareRecords s) (c, u) = None" if "t \<le> u" for u
      using mem[of c u] that by (cases "store_get (EpochShareRecords s) (c, u)") auto
    then show ?thesis using Nil by (simp add: ResolveEpochShare_def)
  next
    case (Cons e es)
    obtain u y where e: "e = ((c, u), y)" "t \<le> u" "store_get (EpochShareRecords s) (c, u) = Some y"
      using mem Cons by (metis list.set_intros(1) surj_pair)
    have "u \<le> v" if "t \<le> v" "store_get (EpochShareRecords s) (c, v) = Some z" for v z
    proof -
      have "((c, v), z) \<in> set (e # es)" using mem[of c v z] that Cons by simp
      then show ?thesis using asc Cons e(1) by (auto simp: less_imp_le)
    qed
    then show ?thesis using Cons e by (auto simp: ResolveEpochShare_def store_has_def)
  qed
qed

theorem resolve_epoch_share_earliest_witness:
  "ResolveEpochShare (SetEpochShareRecord 0 10 7 (SetEpochShareRecord 0 20 8 (blank_pstate ()))) 0 5 = Some 7 \<and>
   (\<exists>u \<ge> 5. store_get (EpochShareRecords
      (SetEpochShareRecord 0 10 7 (SetEpochShareRecord 0 20 8 (blank_pstate ())))) (0, u) = Some (7 :: int))"
proof -
  let ?s = "SetEpochShareRecord 0 10 7 (SetEpochShareRecord 0 20 8 (blank_pstate ()))"
  have "ResolveEpochShare ?s 0 5 = Some 7"
    by (simp add: ResolveEpochShare_def SetEpochShareRecord_def blank_pstate_def store_range_def)
  then show ?thesis using resolve_epoch_share_earliest[of ?s 0 5 7] by blast
qed

text \<open>
  C30. After a successful challenge the escrow of the consumer is gone: paying withheld fees
  removes every record of the consumer and none of another, and releasing expired records
  changes no reserved amount.
\<close>

theorem withheld_fees_cleared_or_kept:
  "store_get (WithheldFeeRecords (PayWithheldFees k ctx c s)) (e, a) =
     (if e = c then None else store_get (WithheldFeeRecords s) (e, a)) \<and>
   outstandingWithheldFees ctx (PayWithheldFees k ctx c s) c d = 0 \<and>
   outstandingWithheldFees ctx (SweepExpiredWithheldFeeRecords ctx s) e d = outstandingWithheldFees ctx s e d"
proof -
  have "outstandingWithheldFees ctx (PayWithheldFees k ctx c s) c d = 0"
    by (simp add: outstanding_range_sum PayWithheldFees_records range_sum_drop)
      (simp add: range_sum_def store_range_def)
  then show ?thesis by (simp add: PayWithheldFees_records outstanding_sweep)
qed

end
