(* ===== verification/Validation.thy ===== *)
theory Validation
  imports Keeper
begin

text \<open>
  The checks on parameters and on the shape of registration data
  (\<^verbatim>\<open>x/vaas/types/shared_params.go\<close>, \<^verbatim>\<open>x/vaas/types/params.go\<close>,
  \<^verbatim>\<open>x/vaas/provider/types/params.go\<close>, \<^verbatim>\<open>x/vaas/provider/types/msg.go\<close>) and the
  defaults. The records hold the values of the fields the messages point to, so the checks for a
  nil pointer, a nil \<^verbatim>\<open>math.Int\<close> and a nil \<^verbatim>\<open>LegacyDec\<close> have no counterpart.
\<close>

subsection \<open>Strings of the Go library\<close>

text \<open>
  \<^verbatim>\<open>strings.TrimSpace(x) == ""\<close>: the bytes are the UTF-8 encodings of white space
  (\<^verbatim>\<open>unicode.IsSpace\<close>) and nothing else.
\<close>

fun blank_bytes :: "nat list \<Rightarrow> bool" where
  "blank_bytes [] = True"
| "blank_bytes (b # bs) =
     (if b \<in> {9, 10, 11, 12, 13, 32} then blank_bytes bs
      else if b = 194 \<and> take 1 bs \<in> {[133], [160]} then blank_bytes (drop 1 bs)
      else if (b = 225 \<and> take 2 bs = [154, 128]) \<or>
              (b = 226 \<and> take 2 bs \<in> set (map (\<lambda>n. [128, n]) ([128..<139] @ [168, 169, 175]))) \<or>
              (b = 226 \<and> take 2 bs = [129, 159]) \<or> (b = 227 \<and> take 2 bs = [128, 128])
      then blank_bytes (drop 2 bs)
      else False)"

definition blank :: "string \<Rightarrow> bool" where
  "blank str = blank_bytes (map of_char str)"

text \<open>
  \<^verbatim>\<open>strings.EqualFold\<close> on the ASCII strings a bech32 address is made of: upper and lower case
  letters are the same.
\<close>

definition fold_char :: "char \<Rightarrow> nat" where
  "fold_char ch = (let n = of_char ch in if 65 \<le> n \<and> n \<le> 90 then n + 32 else n)"

definition EqualFold :: "string \<Rightarrow> string \<Rightarrow> bool" where
  "EqualFold a b \<longleftrightarrow> map fold_char a = map fold_char b"

lemma EqualFold_refl [simp]: "EqualFold a a"
  by (simp add: EqualFold_def)

lemma EqualFold_sym: "EqualFold a b \<Longrightarrow> EqualFold b a"
  by (simp add: EqualFold_def)

definition IsAuthority :: "'w keeper \<Rightarrow> string \<Rightarrow> bool" where
  "IsAuthority k a = EqualFold a (authority k)"

subsection \<open>Shared checks\<close>

definition ValidateDuration :: "duration \<Rightarrow> unit result" where
  "ValidateDuration d = guard_res (\<not> d \<le> 0) ErrPlain (Ok ())"

definition ValidateVAASTimeoutPeriod :: "duration \<Rightarrow> duration \<Rightarrow> unit result" where
  "ValidateVAASTimeoutPeriod d maxTimeoutDelta =
     guard_res (\<not> d \<le> 0) ErrPlain (guard_res (\<not> d > maxTimeoutDelta) ErrPlain (Ok ()))"

definition ValidatePositiveInt64 :: "int \<Rightarrow> unit result" where
  "ValidatePositiveInt64 n = guard_res (\<not> n \<le> 0) ErrPlain (Ok ())"

definition ValidateStringFractionNonZero :: "'w keeper \<Rightarrow> string \<Rightarrow> unit result" where
  "ValidateStringFractionNonZero k str =
     bind_res (of_option ErrPlain (DecFromStr k str)) (\<lambda>dec.
     guard_res (\<not> dec < 0) ErrPlain (
     guard_res (\<not> dec \<ge> dec_one) ErrPlain (
     guard_res (dec \<noteq> 0) ErrPlain (Ok ()))))"

definition ValidateFraction :: "dec \<Rightarrow> unit result" where
  "ValidateFraction dec =
     guard_res (\<not> dec < 0) ErrPlain (guard_res (\<not> dec - dec_one > 0) ErrPlain (Ok ()))"

subsection \<open>Provider parameters\<close>

definition SlashJailParameters_Validate :: "SlashJailParameters \<Rightarrow> unit result" where
  "SlashJailParameters_Validate sjp =
     bind_res (ValidateFraction (SlashFraction sjp)) (\<lambda>_.
     guard_res (\<not> JailDuration sjp < 0) ErrPlain (Ok ()))"

definition InfractionParameters_Validate :: "InfractionParameters \<Rightarrow> unit result" where
  "InfractionParameters_Validate ip =
     bind_res (SlashJailParameters_Validate (DoubleSign ip)) (\<lambda>_.
     guard_res (SlashFraction (DoubleSign ip) > 0) ErrPlain (
     bind_res (SlashJailParameters_Validate (Downtime ip)) (\<lambda>_.
     guard_res (\<not> DowntimeGracePeriod ip < 0) ErrPlain (
     bind_res (ValidatePositiveInt64 (SignedBlocksWindow ip)) (\<lambda>_.
     guard_res (\<not> (\<not> MinSignedPerWindow ip > 0 \<or> \<not> MinSignedPerWindow ip < dec_one)) ErrPlain (
     bind_res (ValidateDuration (DowntimeChallengeWindow ip)) (\<lambda>_.
     bind_res (ValidateDuration (DowntimeEvidenceMaxAge ip)) (\<lambda>_.
     guard_res (\<not> DowntimeEvidenceMaxAge ip > DowntimeChallengeWindow ip) ErrPlain (Ok ())))))))))"

definition DefaultConsumerUnbondingPeriod :: "'w keeper \<Rightarrow> duration" where
  "DefaultConsumerUnbondingPeriod k = StakingDefaultUnbondingTime k - 24 * 3600 * 10 ^ 9"

definition ValidateInfractionParamsAgainst :: "'w keeper \<Rightarrow> InfractionParameters \<Rightarrow> string \<Rightarrow> unit result" where
  "ValidateInfractionParamsAgainst k ip trustingPeriodFraction =
     bind_res (of_option ErrPlain (DecFromStr k trustingPeriodFraction)) (\<lambda>frac.
     let trusting = quo (frac * DefaultConsumerUnbondingPeriod k) dec_one in
     guard_res (\<not> DowntimeEvidenceMaxAge ip + DowntimeChallengeWindow ip \<ge> trusting) ErrPlain (Ok ()))"

definition validateFeesPerBlockAmount :: "int \<Rightarrow> unit result" where
  "validateFeesPerBlockAmount amount = guard_res (amount > 0) ErrPlain (Ok ())"

definition Params_Validate :: "'w keeper \<Rightarrow> ProviderParams \<Rightarrow> unit result" where
  "Params_Validate k p =
     bind_res (ValidateStringFractionNonZero k (TrustingPeriodFraction p)) (\<lambda>_.
     bind_res (ValidateVAASTimeoutPeriod (VaasTimeoutPeriod p) (MaxTimeoutDelta k)) (\<lambda>_.
     bind_res (ValidatePositiveInt64 (BlocksPerEpoch p)) (\<lambda>_.
     bind_res (validateFeesPerBlockAmount (FeesPerBlockAmount p)) (\<lambda>_.
     bind_res (ValidateStringFractionNonZero k (LivenessGraceFraction p)) (\<lambda>_.
     ValidateDuration (MaxPauseDuration p))))))"

subsection \<open>Defaults\<close>

definition DefaultParams :: ProviderParams where
  "DefaultParams = \<lparr>TrustingPeriodFraction = ''0.66'', LivenessGraceFraction = ''0.66'',
     VaasTimeoutPeriod = 3600 * 10 ^ 9, BlocksPerEpoch = 600, FeesPerBlockAmount = 1000,
     MinDepositBlocks = 14400, MaxPauseDuration = 1080 * 3600 * 10 ^ 9\<rparr>"

text \<open>The fractions \<^verbatim>\<open>"0.05"\<close>, \<^verbatim>\<open>"0.0001"\<close> and \<^verbatim>\<open>"0.5"\<close> as mantissas.\<close>

definition DefaultInfractionParameters :: InfractionParameters where
  "DefaultInfractionParameters =
     \<lparr>DoubleSign = \<lparr>SlashFraction = 5 * 10 ^ 16, JailDuration = 2 ^ 63 - 1, Tombstone = True\<rparr>,
      Downtime = \<lparr>SlashFraction = 10 ^ 14, JailDuration = 0, Tombstone = False\<rparr>,
      DowntimeGracePeriod = 7 * 24 * 3600 * 10 ^ 9, SignedBlocksWindow = 600,
      MinSignedPerWindow = 5 * 10 ^ 17, DowntimeChallengeWindow = 7 * 24 * 3600 * 10 ^ 9,
      DowntimeEvidenceMaxAge = 72 * 3600 * 10 ^ 9\<rparr>"

definition DefaultConsumerInitializationParameters :: "'w keeper \<Rightarrow> ConsumerInitializationParameters" where
  "DefaultConsumerInitializationParameters k =
     \<lparr>InitialHeight = (1, 1), GenesisHash = [], BinaryHash = [], SpawnTime = zero_time,
      init_UnbondingPeriod = DefaultConsumerUnbondingPeriod k,
      init_VaasTimeoutPeriod = 3600 * 10 ^ 9,
      HistoricalEntries = StakingDefaultHistoricalEntries k,
      SafeModeThreshold = 3 * 3600 * 10 ^ 9\<rparr>"

subsection \<open>Registration data\<close>

definition ValidateStringField :: "string \<Rightarrow> nat \<Rightarrow> unit result" where
  "ValidateStringField field maxLength =
     (if blank field then Err ErrPlain else if length field > maxLength then Err ErrPlain else Ok ())"

definition ValidateChainId :: "'w keeper \<Rightarrow> string \<Rightarrow> unit result" where
  "ValidateChainId k chainId =
     (case ValidateStringField chainId (MaxChainIDLen k) of
        Ok _ \<Rightarrow> Ok () | _ \<Rightarrow> Err ErrInvalidMsgCreateConsumer)"

definition ValidateConsumerMetadata :: "ConsumerMetadata \<Rightarrow> unit result" where
  "ValidateConsumerMetadata m =
     bind_res (as_error ErrInvalidConsumerMetadata (ValidateStringField (meta_Name m) 50)) (\<lambda>_.
     bind_res (as_error ErrInvalidConsumerMetadata (ValidateStringField (meta_Description m) 10000)) (\<lambda>_.
     as_error ErrInvalidConsumerMetadata (ValidateStringField (meta_Metadata m) 255)))"

definition ValidateByteSlice :: "bytes \<Rightarrow> nat \<Rightarrow> unit result" where
  "ValidateByteSlice hash maxLength = guard_res (\<not> length hash > maxLength) ErrPlain (Ok ())"

definition ValidateInitializationParameters ::
    "'w keeper \<Rightarrow> ConsumerInitializationParameters \<Rightarrow> unit result" where
  "ValidateInitializationParameters k p =
     guard_res (InitialHeight p \<noteq> (0, 0)) ErrInvalidConsumerInitializationParameters (
     as_error ErrInvalidConsumerInitializationParameters (
       bind_res (ValidateByteSlice (GenesisHash p) 64) (\<lambda>_.
       bind_res (ValidateByteSlice (BinaryHash p) 64) (\<lambda>_.
       bind_res (ValidatePositiveInt64 (HistoricalEntries p)) (\<lambda>_.
       bind_res (ValidateVAASTimeoutPeriod (init_VaasTimeoutPeriod p) (MaxTimeoutDelta k)) (\<lambda>_.
       bind_res (ValidateDuration (init_UnbondingPeriod p)) (\<lambda>_.
       ValidateDuration (SafeModeThreshold p))))))))"

lemmas validate_defs = ValidateDuration_def ValidateVAASTimeoutPeriod_def ValidatePositiveInt64_def
  ValidateStringFractionNonZero_def ValidateFraction_def SlashJailParameters_Validate_def
  InfractionParameters_Validate_def ValidateInfractionParamsAgainst_def
  validateFeesPerBlockAmount_def Params_Validate_def

subsection \<open>What the checks guarantee\<close>

lemma Params_Validate_Ok:
  assumes "Params_Validate k p = Ok ()"
  shows "0 < BlocksPerEpoch p" "0 < FeesPerBlockAmount p" "0 < MaxPauseDuration p"
    "0 < VaasTimeoutPeriod p" "VaasTimeoutPeriod p \<le> MaxTimeoutDelta k"
    "\<exists>f. DecFromStr k (TrustingPeriodFraction p) = Some f \<and> 0 < f \<and> f < dec_one"
    "\<exists>f. DecFromStr k (LivenessGraceFraction p) = Some f \<and> 0 < f \<and> f < dec_one"
  using assms by (auto simp: validate_defs res_simps)

lemma InfractionParameters_Validate_Ok:
  assumes "InfractionParameters_Validate ip = Ok ()"
  shows "0 < SlashFraction (DoubleSign ip)" "SlashFraction (DoubleSign ip) \<le> dec_one"
    "0 \<le> SlashFraction (Downtime ip)" "SlashFraction (Downtime ip) \<le> dec_one"
    "0 < SignedBlocksWindow ip" "0 < MinSignedPerWindow ip" "MinSignedPerWindow ip < dec_one"
    "0 < DowntimeEvidenceMaxAge ip" "DowntimeEvidenceMaxAge ip \<le> DowntimeChallengeWindow ip"
  using assms by (auto simp: validate_defs res_simps)

text \<open>A fraction inside (0, 1) scales a period to a strictly shorter one.\<close>

lemma scaled_period_shorter:
  assumes "0 < f" "f < dec_one" "0 < u"
  shows "0 \<le> quo (f * u) dec_one" "quo (f * u) dec_one < u"
proof -
  have "quo (f * u) dec_one = f * u div dec_one" using assms by (intro quo_nonneg) auto
  moreover have "f * u div dec_one * dec_one < u * dec_one"
  proof -
    have "f * u div dec_one * dec_one \<le> f * u" by (rule div_mult_le) simp
    also have "\<dots> < u * dec_one" using assms by (simp add: mult.commute)
    finally show ?thesis .
  qed
  ultimately show "quo (f * u) dec_one < u" by (simp add: mult_less_cancel_right)
  show "0 \<le> quo (f * u) dec_one" using assms by (intro quo_ge_0) auto
qed

end
