(* ===== verification/KeyAssignment.thy ===== *)
theory KeyAssignment
  imports ValSet
begin

text \<open>
  Consumer keys of validators (\<^verbatim>\<open>key_assignment.go\<close>, the key-assignment storage of
  \<^verbatim>\<open>keeper.go\<close>, the staking hooks of \<^verbatim>\<open>hooks.go\<close> and the key-assignment part of
  \<^verbatim>\<open>cons_pubkey_rotation.go\<close>). Three collections are kept: the key a validator has
  on a consumer (forward), the validator behind a consumer address (reverse), and the
  addresses waiting to be pruned. The invariant \<open>key_inv\<close> ties them together and every
  operation that writes one of them keeps it, so an address a consumer reports always resolves
  to one validator.
\<close>

subsection \<open>Storage\<close>

definition SetValidatorConsumerPubKey :: "consumer_id \<Rightarrow> addr \<Rightarrow> pubkey \<Rightarrow> 'w pstate \<Rightarrow> 'w pstate" where
  [keeper_simps]: "SetValidatorConsumerPubKey c p pk s =
     s\<lparr>ValidatorConsumerPubKey := store_set (c, p) pk (ValidatorConsumerPubKey s)\<rparr>"

definition DeleteValidatorConsumerPubKey :: "consumer_id \<Rightarrow> addr \<Rightarrow> 'w pstate \<Rightarrow> 'w pstate" where
  [keeper_simps]: "DeleteValidatorConsumerPubKey c p s =
     s\<lparr>ValidatorConsumerPubKey := store_remove (c, p) (ValidatorConsumerPubKey s)\<rparr>"

definition GetAllValidatorConsumerPubKeys ::
    "consumer_id option \<Rightarrow> 'w pstate \<Rightarrow> ((consumer_id \<times> addr) \<times> pubkey) list" where
  "GetAllValidatorConsumerPubKeys oc s =
     (case oc of None \<Rightarrow> entries (ValidatorConsumerPubKey s)
      | Some c \<Rightarrow> store_range (\<lambda>key. fst key = c) (ValidatorConsumerPubKey s))"

definition GetValidatorByConsumerAddr :: "'w pstate \<Rightarrow> consumer_id \<Rightarrow> addr \<Rightarrow> addr option" where
  [keeper_simps]: "GetValidatorByConsumerAddr s c a = store_get (ValidatorByConsumerAddr s) (c, a)"

definition SetValidatorByConsumerAddr :: "consumer_id \<Rightarrow> addr \<Rightarrow> addr \<Rightarrow> 'w pstate \<Rightarrow> 'w pstate" where
  [keeper_simps]: "SetValidatorByConsumerAddr c a p s =
     s\<lparr>ValidatorByConsumerAddr := store_set (c, a) p (ValidatorByConsumerAddr s)\<rparr>"

definition DeleteValidatorByConsumerAddr :: "consumer_id \<Rightarrow> addr \<Rightarrow> 'w pstate \<Rightarrow> 'w pstate" where
  [keeper_simps]: "DeleteValidatorByConsumerAddr c a s =
     s\<lparr>ValidatorByConsumerAddr := store_remove (c, a) (ValidatorByConsumerAddr s)\<rparr>"

definition GetAllValidatorsByConsumerAddr ::
    "consumer_id option \<Rightarrow> 'w pstate \<Rightarrow> ((consumer_id \<times> addr) \<times> addr) list" where
  "GetAllValidatorsByConsumerAddr oc s =
     (case oc of None \<Rightarrow> entries (ValidatorByConsumerAddr s)
      | Some c \<Rightarrow> store_range (\<lambda>key. fst key = c) (ValidatorByConsumerAddr s))"

definition GetConsumerAddrsToPrune :: "'w pstate \<Rightarrow> consumer_id \<Rightarrow> time \<Rightarrow> addr list" where
  "GetConsumerAddrsToPrune s c ts =
     (case store_get (ConsumerAddrsToPrune s) (c, ts) of None \<Rightarrow> [] | Some as \<Rightarrow> as)"

definition AppendConsumerAddrsToPrune :: "consumer_id \<Rightarrow> time \<Rightarrow> addr \<Rightarrow> 'w pstate \<Rightarrow> 'w pstate" where
  "AppendConsumerAddrsToPrune c ts a s =
     s\<lparr>ConsumerAddrsToPrune :=
         store_set (c, ts) (GetConsumerAddrsToPrune s c ts @ [a]) (ConsumerAddrsToPrune s)\<rparr>"

definition DeleteConsumerAddrsToPrune :: "consumer_id \<Rightarrow> time \<Rightarrow> 'w pstate \<Rightarrow> 'w pstate" where
  [keeper_simps]: "DeleteConsumerAddrsToPrune c ts s =
     s\<lparr>ConsumerAddrsToPrune := store_remove (c, ts) (ConsumerAddrsToPrune s)\<rparr>"

definition GetAllConsumerAddrsToPrune ::
    "consumer_id \<Rightarrow> 'w pstate \<Rightarrow> ((consumer_id \<times> time) \<times> addr list) list" where
  "GetAllConsumerAddrsToPrune c s = store_range (\<lambda>key. fst key = c) (ConsumerAddrsToPrune s)"

definition ConsumeConsumerAddrsToPrune ::
    "consumer_id \<Rightarrow> time \<Rightarrow> 'w pstate \<Rightarrow> addr list \<times> 'w pstate" where
  "ConsumeConsumerAddrsToPrune c ts s =
     (let matured = filter (\<lambda>e. \<not> snd (fst e) > ts)
                      (store_range (\<lambda>key. fst key = c) (ConsumerAddrsToPrune s));
          keysToDel = map fst matured
      in (concat (map snd matured),
          s\<lparr>ConsumerAddrsToPrune := fold store_remove keysToDel (ConsumerAddrsToPrune s)\<rparr>))"

subsection \<open>Operations\<close>

definition pendingRotationClaims :: "'w keeper \<Rightarrow> 'w pstate \<Rightarrow> addr \<Rightarrow> bool result" where
  "pendingRotationClaims k s consAddr =
     bind_res (of_option ErrPlain (GetBlockConsPubKeyRotationHistory k (world s)))
       (\<lambda>rotations. Ok (list_ex (\<lambda>r. r = Some consAddr) rotations))"

text \<open>What happens to the address of the key that is replaced.\<close>

definition retire_old_key ::
    "'w keeper \<Rightarrow> sdk_ctx \<Rightarrow> consumer_id \<Rightarrow> pubkey \<Rightarrow> 'w pstate \<Rightarrow> 'w pstate result" where
  "retire_old_key k ctx c oldConsumerKey s =
     bind_res (of_option ErrPlain (PubKeyConsAddr k oldConsumerKey)) (\<lambda>oldConsumerAddr.
       if GetConsumerPhase s c = CONSUMER_PHASE_LAUNCHED \<or> GetConsumerPhase s c = CONSUMER_PHASE_PAUSED
       then bind_res (of_option ErrPlain (UnbondingTime k (world s))) (\<lambda>unbondingPeriod.
              Ok (AppendConsumerAddrsToPrune c (BlockTime ctx + unbondingPeriod) oldConsumerAddr s))
       else Ok (DeleteValidatorByConsumerAddr c oldConsumerAddr s))"

definition AssignConsumerKey ::
    "'w keeper \<Rightarrow> sdk_ctx \<Rightarrow> consumer_id \<Rightarrow> StakingValidator \<Rightarrow> pubkey \<Rightarrow> 'w pstate \<Rightarrow> 'w pstate result"
  where
  "AssignConsumerKey k ctx c validator consumerKey s =
     guard_res (IsConsumerActive s c) ErrInvalidPhase (
     bind_res (of_option ErrPlain (PubKeyConsAddr k consumerKey)) (\<lambda>consumerAddr.
     bind_res (of_option ErrPlain (GetConsAddr k validator)) (\<lambda>providerAddr.
     bind_res (pendingRotationClaims k s consumerAddr) (\<lambda>claimed.
     guard_res (\<not> claimed) ErrConsumerKeyInUse (
     bind_res
       (case GetValidatorByConsAddr k (world s) consumerAddr of
          None \<Rightarrow> Ok ()
        | Some existingVal \<Rightarrow>
            guard_res (OperatorAddress existingVal = OperatorAddress validator) ErrConsumerKeyInUse (
            guard_res (GetValidatorConsumerPubKey s c providerAddr \<noteq> None)
              ErrCannotAssignDefaultKeyAssignment (Ok ()))) (\<lambda>_.
     guard_res (GetValidatorByConsumerAddr s c consumerAddr = None) ErrConsumerKeyInUse (
     bind_res
       (case GetValidatorConsumerPubKey s c providerAddr of
          None \<Rightarrow> Ok s
        | Some oldConsumerKey \<Rightarrow> retire_old_key k ctx c oldConsumerKey s) (\<lambda>s1.
     Ok (SetValidatorByConsumerAddr c consumerAddr providerAddr
          (SetValidatorConsumerPubKey c providerAddr consumerKey s1))))))))))"

definition GetProviderAddrFromConsumerAddr :: "'w pstate \<Rightarrow> consumer_id \<Rightarrow> addr \<Rightarrow> addr" where
  "GetProviderAddrFromConsumerAddr s c consumerAddr =
     (case GetValidatorByConsumerAddr s c consumerAddr of
        Some providerConsAddr \<Rightarrow> providerConsAddr
      | None \<Rightarrow> consumerAddr)"

definition PruneKeyAssignments :: "sdk_ctx \<Rightarrow> consumer_id \<Rightarrow> 'w pstate \<Rightarrow> 'w pstate" where
  "PruneKeyAssignments ctx c s =
     (let (consumerAddrs, s1) = ConsumeConsumerAddrsToPrune c (BlockTime ctx) s
      in fold (DeleteValidatorByConsumerAddr c) consumerAddrs s1)"

definition DeleteKeyAssignments :: "consumer_id \<Rightarrow> 'w pstate \<Rightarrow> 'w pstate" where
  "DeleteKeyAssignments c s =
     (let s1 = fold (\<lambda>e. DeleteValidatorConsumerPubKey c (snd (fst e)))
                 (GetAllValidatorConsumerPubKeys (Some c) s) s;
          s2 = fold (\<lambda>e. DeleteValidatorByConsumerAddr c (snd (fst e)))
                 (GetAllValidatorsByConsumerAddr (Some c) s1) s1
      in fold (\<lambda>e. DeleteConsumerAddrsToPrune c (snd (fst e)))
           (GetAllConsumerAddrsToPrune c s2) s2)"

definition IsConsumerConsAddrInUse :: "'w pstate \<Rightarrow> addr \<Rightarrow> bool" where
  "IsConsumerConsAddrInUse s consAddr \<longleftrightarrow>
     list_ex (\<lambda>c. GetValidatorByConsumerAddr s c consAddr \<noteq> None) (nonDeletedConsumerIds s)"

definition ValidatorConsensusKeyInUse ::
    "'w keeper \<Rightarrow> 'w pstate \<Rightarrow> StakingValidator option \<Rightarrow> bool result" where
  "ValidatorConsensusKeyInUse k s val =
     (case val of
        None \<Rightarrow> Panic
      | Some v \<Rightarrow> (case GetConsAddr k v of
                    None \<Rightarrow> Panic
                  | Some consensusAddr \<Rightarrow> Ok (IsConsumerConsAddrInUse s consensusAddr)))"

text \<open>
  The hooks x/staking calls. \<open>val\<close> is what \<^verbatim>\<open>stakingKeeper.GetValidator\<close> returns for the
  operator address of the hook.
\<close>

definition AfterValidatorCreated ::
    "'w keeper \<Rightarrow> StakingValidator option \<Rightarrow> 'w pstate \<Rightarrow> 'w pstate result" where
  "AfterValidatorCreated k val s =
     bind_res (ValidatorConsensusKeyInUse k s val) (\<lambda>used. if used then Panic else Ok s)"

definition remove_key_of ::
    "'w keeper \<Rightarrow> addr \<Rightarrow> (consumer_id \<times> addr) \<times> pubkey \<Rightarrow> 'w pstate \<Rightarrow> 'w pstate result" where
  "remove_key_of k valConsAddr e s =
     (case e of ((c, providerAddr), consumerKey) \<Rightarrow>
        if providerAddr = valConsAddr
        then (case PubKeyConsAddr k consumerKey of
                None \<Rightarrow> Panic
              | Some consumerAddr \<Rightarrow>
                  Ok (DeleteValidatorConsumerPubKey c providerAddr
                       (DeleteValidatorByConsumerAddr c consumerAddr s)))
        else Ok s)"

definition AfterValidatorRemoved :: "'w keeper \<Rightarrow> addr \<Rightarrow> 'w pstate \<Rightarrow> 'w pstate result" where
  "AfterValidatorRemoved k valConsAddr s =
     fold_res (remove_key_of k valConsAddr) (GetAllValidatorConsumerPubKeys None s) s"

definition migrateKeyAssignment ::
    "consumer_id \<Rightarrow> addr \<Rightarrow> addr \<Rightarrow> 'w pstate \<Rightarrow> bool \<times> 'w pstate" where
  "migrateKeyAssignment c oldProviderAddr newProviderAddr s =
     (case GetValidatorConsumerPubKey s c oldProviderAddr of
        None \<Rightarrow> (False, s)
      | Some consumerKey \<Rightarrow>
          let s1 = SetValidatorConsumerPubKey c newProviderAddr consumerKey
                     (DeleteValidatorConsumerPubKey c oldProviderAddr s);
              s2 = fold (\<lambda>e s. if snd e = oldProviderAddr
                               then SetValidatorByConsumerAddr c (snd (fst e)) newProviderAddr s
                               else s)
                     (GetAllValidatorsByConsumerAddr (Some c) s1) s1
          in (True, s2))"

subsection \<open>Closed forms\<close>

text \<open>
  Deleting the keys of a list one by one is clearing them at once.
\<close>

lemma fold_remove_set:
  "fold store_remove ks m = store_drop (\<lambda>key. key \<in> set ks) m"
  by (rule store_ext) (auto simp: fun_eq_iff kv.get_fold_remove)

lemma fold_DeleteValidatorByConsumerAddr:
  "fold (DeleteValidatorByConsumerAddr c) as s =
     s\<lparr>ValidatorByConsumerAddr :=
        store_drop (\<lambda>key. fst key = c \<and> snd key \<in> set as) (ValidatorByConsumerAddr s)\<rparr>"
proof -
  have "fold (DeleteValidatorByConsumerAddr c) as s =
     s\<lparr>ValidatorByConsumerAddr := fold store_remove (map (Pair c) as) (ValidatorByConsumerAddr s)\<rparr>"
    by (induction as arbitrary: s) (simp_all add: keeper_simps)
  moreover have "fold store_remove (map (Pair c) as) m
      = store_drop (\<lambda>key. fst key = c \<and> snd key \<in> set as) m" for m :: "(nat \<times> addr, addr) store"
    by (rule store_ext) (auto simp: fun_eq_iff kv.get_fold_remove)
  ultimately show ?thesis by simp
qed

lemma prune_range:
  "filter (\<lambda>e. \<not> snd (fst e) > ts) (store_range (\<lambda>key. fst key = c) m)
     = store_range (\<lambda>key. fst key = c \<and> snd key \<le> ts) m"
  by (auto simp: store_range_def intro!: filter_cong)

lemma ConsumeConsumerAddrsToPrune_eq:
  "ConsumeConsumerAddrsToPrune c ts s =
     (concat (map snd (store_range (\<lambda>key. fst key = c \<and> snd key \<le> ts) (ConsumerAddrsToPrune s))),
      s\<lparr>ConsumerAddrsToPrune :=
          store_drop (\<lambda>key. fst key = c \<and> snd key \<le> ts) (ConsumerAddrsToPrune s)\<rparr>)"
  by (simp add: ConsumeConsumerAddrsToPrune_def prune_range fold_remove_range)

definition prunable :: "consumer_id \<Rightarrow> time \<Rightarrow> 'w pstate \<Rightarrow> addr set" where
  "prunable c ts s = {a. \<exists>t \<le> ts. a \<in> set (GetConsumerAddrsToPrune s c t)}"

lemma set_consumed:
  "set (fst (ConsumeConsumerAddrsToPrune c ts s)) = prunable c ts s"
proof -
  have "a \<in> set (GetConsumerAddrsToPrune s c t) \<longleftrightarrow>
      (\<exists>as. store_get (ConsumerAddrsToPrune s) (c, t) = Some as \<and> a \<in> set as)" for a t
    by (cases "store_get (ConsumerAddrsToPrune s) (c, t)") (simp_all add: GetConsumerAddrsToPrune_def)
  moreover have "a \<in> set (fst (ConsumeConsumerAddrsToPrune c ts s)) \<longleftrightarrow>
      (\<exists>t\<le>ts. \<exists>as. store_get (ConsumerAddrsToPrune s) (c, t) = Some as \<and> a \<in> set as)" for a
    by (auto simp: ConsumeConsumerAddrsToPrune_eq mem_store_range Bex_def)
  ultimately show ?thesis by (simp add: prunable_def set_eq_iff)
qed

lemma PruneKeyAssignments_eq:
  "PruneKeyAssignments ctx c s =
     s\<lparr>ConsumerAddrsToPrune :=
         store_drop (\<lambda>key. fst key = c \<and> snd key \<le> BlockTime ctx) (ConsumerAddrsToPrune s),
       ValidatorByConsumerAddr :=
         store_drop (\<lambda>key. fst key = c \<and> snd key \<in> prunable c (BlockTime ctx) s)
           (ValidatorByConsumerAddr s)\<rparr>"
  using set_consumed[of c "BlockTime ctx" s]
  by (simp add: PruneKeyAssignments_def ConsumeConsumerAddrsToPrune_eq
      fold_DeleteValidatorByConsumerAddr)

lemma DeleteKeyAssignments_eq:
  "DeleteKeyAssignments c s =
     s\<lparr>ValidatorConsumerPubKey := store_drop (\<lambda>key. fst key = c) (ValidatorConsumerPubKey s),
       ValidatorByConsumerAddr := store_drop (\<lambda>key. fst key = c) (ValidatorByConsumerAddr s),
       ConsumerAddrsToPrune := store_drop (\<lambda>key. fst key = c) (ConsumerAddrsToPrune s)\<rparr>"
proof -
  have 1: "fold (\<lambda>e. DeleteValidatorConsumerPubKey c (snd (fst e))) es s =
      s\<lparr>ValidatorConsumerPubKey := fold store_remove (map fst es) (ValidatorConsumerPubKey s)\<rparr>"
    if "\<forall>e\<in>set es. fst (fst e) = c" for es :: "((nat \<times> addr) \<times> pubkey) list" and s :: "'w pstate"
    using that by (induction es arbitrary: s) (auto simp: keeper_simps)
  have 2: "fold (\<lambda>e. DeleteValidatorByConsumerAddr c (snd (fst e))) es s =
      s\<lparr>ValidatorByConsumerAddr := fold store_remove (map fst es) (ValidatorByConsumerAddr s)\<rparr>"
    if "\<forall>e\<in>set es. fst (fst e) = c" for es :: "((nat \<times> addr) \<times> addr) list" and s :: "'w pstate"
    using that by (induction es arbitrary: s) (auto simp: keeper_simps)
  have 3: "fold (\<lambda>e. DeleteConsumerAddrsToPrune c (snd (fst e))) es s =
      s\<lparr>ConsumerAddrsToPrune := fold store_remove (map fst es) (ConsumerAddrsToPrune s)\<rparr>"
    if "\<forall>e\<in>set es. fst (fst e) = c" for es :: "((nat \<times> time) \<times> addr list) list" and s :: "'w pstate"
    using that by (induction es arbitrary: s) (auto simp: keeper_simps)
  have mem: "\<forall>e\<in>set (store_range (\<lambda>key. fst key = c) m). fst (fst e) = c"
    for m :: "(nat \<times> 'b::linorder, 'v) store"
    by (auto simp: store_range_def)
  show ?thesis
    by (simp add: DeleteKeyAssignments_def GetAllValidatorConsumerPubKeys_def
        GetAllValidatorsByConsumerAddr_def GetAllConsumerAddrsToPrune_def 1[OF mem] 2[OF mem]
        3[OF mem] fold_remove_range)
qed

subsection \<open>The invariant\<close>

text \<open>
  Every assigned key has an address, and that address leads back to the validator that assigned
  it. An address waiting to be pruned still resolves, is not the address of a key in use, and
  waits under one deadline only.
\<close>

definition key_inv :: "'w keeper \<Rightarrow> 'w pstate \<Rightarrow> bool" where
  "key_inv k s \<longleftrightarrow>
     (\<forall>c p pk. GetValidatorConsumerPubKey s c p = Some pk \<longrightarrow>
        (\<exists>a. PubKeyConsAddr k pk = Some a \<and> GetValidatorByConsumerAddr s c a = Some p)) \<and>
     (\<forall>c t a. a \<in> set (GetConsumerAddrsToPrune s c t) \<longrightarrow>
        GetValidatorByConsumerAddr s c a \<noteq> None \<and>
        (\<forall>p pk. GetValidatorConsumerPubKey s c p = Some pk \<longrightarrow> PubKeyConsAddr k pk \<noteq> Some a)) \<and>
     (\<forall>c t u a. a \<in> set (GetConsumerAddrsToPrune s c t) \<and>
        a \<in> set (GetConsumerAddrsToPrune s c u) \<longrightarrow> t = u)"

lemma key_invD:
  assumes "key_inv k s"
  shows "GetValidatorConsumerPubKey s c p = Some pk \<Longrightarrow>
      \<exists>a. PubKeyConsAddr k pk = Some a \<and> GetValidatorByConsumerAddr s c a = Some p"
    and "a \<in> set (GetConsumerAddrsToPrune s c t) \<Longrightarrow> GetValidatorByConsumerAddr s c a \<noteq> None"
    and "a \<in> set (GetConsumerAddrsToPrune s c t) \<Longrightarrow> GetValidatorConsumerPubKey s c p = Some pk \<Longrightarrow>
      PubKeyConsAddr k pk \<noteq> Some a"
    and "a \<in> set (GetConsumerAddrsToPrune s c t) \<Longrightarrow> a \<in> set (GetConsumerAddrsToPrune s c u) \<Longrightarrow> t = u"
  using assms unfolding key_inv_def by blast+

lemma key_inv_forward:
  "key_inv k s \<Longrightarrow> GetValidatorConsumerPubKey s c p = Some pk \<Longrightarrow> PubKeyConsAddr k pk = Some a \<Longrightarrow>
     GetValidatorByConsumerAddr s c a = Some p"
  using key_invD(1)[of k s c p pk] by auto

text \<open>No two validators have the same consumer address on a consumer.\<close>

lemma key_inv_injective:
  assumes "key_inv k s"
    and "GetValidatorConsumerPubKey s c p = Some pk" "GetValidatorConsumerPubKey s c q = Some qk"
    and "PubKeyConsAddr k pk = PubKeyConsAddr k qk"
  shows "p = q"
  using key_invD(1)[OF assms(1,2)] key_invD(1)[OF assms(1,3)] assms(4) by auto

text \<open>The three collections are all the invariant reads.\<close>

lemma key_inv_cong:
  assumes "ValidatorConsumerPubKey s = ValidatorConsumerPubKey t"
    and "ValidatorByConsumerAddr s = ValidatorByConsumerAddr t"
    and "ConsumerAddrsToPrune s = ConsumerAddrsToPrune t"
  shows "key_inv k s = key_inv k t"
  using assms unfolding key_inv_def keeper_simps GetConsumerAddrsToPrune_def by simp

lemma ToPrune_Append [simp]:
  "GetConsumerAddrsToPrune (AppendConsumerAddrsToPrune c t a s) d u =
     (if d = c \<and> u = t then GetConsumerAddrsToPrune s c t @ [a] else GetConsumerAddrsToPrune s d u)"
  by (simp add: AppendConsumerAddrsToPrune_def GetConsumerAddrsToPrune_def)

lemma ToPrune_drop:
  "GetConsumerAddrsToPrune (s\<lparr>ConsumerAddrsToPrune := store_drop P (ConsumerAddrsToPrune s)\<rparr>) c t =
     (if P (c, t) then [] else GetConsumerAddrsToPrune s c t)"
  by (simp add: GetConsumerAddrsToPrune_def)

lemma key_inv_prune:
  assumes "key_inv k s"
  shows "key_inv k (PruneKeyAssignments ctx c s)"
proof -
  let ?t = "PruneKeyAssignments ctx c s" and ?P = "prunable c (BlockTime ctx) s"
  have fwd: "GetValidatorConsumerPubKey ?t d p = GetValidatorConsumerPubKey s d p" for d p
    by (simp add: PruneKeyAssignments_eq keeper_simps)
  have rev: "GetValidatorByConsumerAddr ?t d a =
      (if d = c \<and> a \<in> ?P then None else GetValidatorByConsumerAddr s d a)" for d a
    by (simp add: PruneKeyAssignments_eq keeper_simps)
  have wait: "GetConsumerAddrsToPrune ?t d u =
      (if d = c \<and> u \<le> BlockTime ctx then [] else GetConsumerAddrsToPrune s d u)" for d u
    by (simp add: PruneKeyAssignments_eq GetConsumerAddrsToPrune_def)
  have notin: "a \<notin> ?P" if "GetValidatorConsumerPubKey s c p = Some pk" "PubKeyConsAddr k pk = Some a"
    for p pk a using key_invD(3)[OF assms] that by (fastforce simp: prunable_def)
  have other: "a \<notin> ?P" if "a \<in> set (GetConsumerAddrsToPrune s c u)" "BlockTime ctx < u" for a u
    using key_invD(4)[OF assms] that by (fastforce simp: prunable_def)
  show ?thesis
    unfolding key_inv_def fwd rev wait
    using key_invD[OF assms] notin other by (auto split: if_splits) fastforce+
qed

lemma key_inv_delete:
  assumes "key_inv k s"
  shows "key_inv k (DeleteKeyAssignments c s)"
proof -
  let ?t = "DeleteKeyAssignments c s"
  have fwd: "GetValidatorConsumerPubKey ?t d p =
      (if d = c then None else GetValidatorConsumerPubKey s d p)" for d p
    by (simp add: DeleteKeyAssignments_eq keeper_simps)
  have rev: "GetValidatorByConsumerAddr ?t d a =
      (if d = c then None else GetValidatorByConsumerAddr s d a)" for d a
    by (simp add: DeleteKeyAssignments_eq keeper_simps)
  have wait: "GetConsumerAddrsToPrune ?t d u =
      (if d = c then [] else GetConsumerAddrsToPrune s d u)" for d u
    by (simp add: DeleteKeyAssignments_eq GetConsumerAddrsToPrune_def)
  show ?thesis
    unfolding key_inv_def fwd rev wait
    using key_invD[OF assms] by (auto split: if_splits)
qed

text \<open>
  Assigning a key is three updates: the address of the replaced key is queued for pruning or
  dropped, then the two mappings of the new key are written.
\<close>

lemma retire_old_key_Ok:
  "retire_old_key k ctx c old s = Ok t \<longleftrightarrow>
     (\<exists>b. PubKeyConsAddr k old = Some b \<and>
        (if GetConsumerPhase s c \<in> {CONSUMER_PHASE_LAUNCHED, CONSUMER_PHASE_PAUSED}
         then \<exists>u. UnbondingTime k (world s) = Some u \<and>
                t = AppendConsumerAddrsToPrune c (BlockTime ctx + u) b s
         else t = DeleteValidatorByConsumerAddr c b s))"
  by (cases "PubKeyConsAddr k old"; cases "UnbondingTime k (world s)")
    (auto simp: retire_old_key_def)

lemma retire_old_key_free:
  assumes "retire_old_key k ctx c old s = Ok t" "GetValidatorByConsumerAddr s c a = None"
  shows "GetValidatorByConsumerAddr t c a = None"
proof -
  obtain b where "if GetConsumerPhase s c \<in> {CONSUMER_PHASE_LAUNCHED, CONSUMER_PHASE_PAUSED}
         then \<exists>u. UnbondingTime k (world s) = Some u \<and>
                t = AppendConsumerAddrsToPrune c (BlockTime ctx + u) b s
         else t = DeleteValidatorByConsumerAddr c b s"
    using assms(1) unfolding retire_old_key_Ok by blast
  then show ?thesis
    using assms(2) by (auto simp: keeper_simps AppendConsumerAddrsToPrune_def split: if_splits)
qed

lemma AssignConsumerKey_cases:
  assumes "AssignConsumerKey k ctx c v pk s = Ok t"
  obtains a p s1 where "PubKeyConsAddr k pk = Some a" "GetConsAddr k v = Some p"
    "GetValidatorByConsumerAddr s c a = None" "IsConsumerActive s c"
    "t = SetValidatorByConsumerAddr c a p (SetValidatorConsumerPubKey c p pk s1)"
    "(case GetValidatorConsumerPubKey s c p of None \<Rightarrow> Ok s
      | Some old \<Rightarrow> retire_old_key k ctx c old s) = Ok s1"
  using assms unfolding AssignConsumerKey_def by (auto simp: res_simps)

lemma key_inv_set:
  assumes inv: "key_inv k s" and addr: "PubKeyConsAddr k pk = Some a"
    and free: "GetValidatorByConsumerAddr s c a = None"
    and none: "GetValidatorConsumerPubKey s c p = None"
  shows "key_inv k (SetValidatorByConsumerAddr c a p (SetValidatorConsumerPubKey c p pk s))"
    (is "key_inv k ?t")
proof -
  have fwd: "GetValidatorConsumerPubKey ?t d q =
      (if d = c \<and> q = p then Some pk else GetValidatorConsumerPubKey s d q)" for d q
    by (simp add: keeper_simps)
  have rev: "GetValidatorByConsumerAddr ?t d b =
      (if d = c \<and> b = a then Some p else GetValidatorByConsumerAddr s d b)" for d b
    by (simp add: keeper_simps)
  have wait: "GetConsumerAddrsToPrune ?t d u = GetConsumerAddrsToPrune s d u" for d u
    by (simp add: GetConsumerAddrsToPrune_def keeper_simps)
  have "a \<notin> set (GetConsumerAddrsToPrune s c u)" for u
    using key_invD(2)[OF inv] free by blast
  moreover have "PubKeyConsAddr k qk \<noteq> Some a" if "GetValidatorConsumerPubKey s c q = Some qk" for q qk
    using key_inv_forward[OF inv that] free by auto
  ultimately show ?thesis
    unfolding key_inv_def fwd rev wait
    using key_invD[OF inv] addr by (auto split: if_splits) fastforce+
qed

text \<open>Forgetting the key of a validator, its address queued or dropped, keeps the invariant.\<close>

lemma key_inv_forget:
  assumes inv: "key_inv k s" and old: "GetValidatorConsumerPubKey s c p = Some old"
    and addr: "PubKeyConsAddr k old = Some b"
  shows "key_inv k (DeleteValidatorConsumerPubKey c p (DeleteValidatorByConsumerAddr c b s))"
    and "key_inv k (DeleteValidatorConsumerPubKey c p (AppendConsumerAddrsToPrune c t b s))"
proof -
  let ?d = "DeleteValidatorConsumerPubKey c p (DeleteValidatorByConsumerAddr c b s)"
  let ?q = "DeleteValidatorConsumerPubKey c p (AppendConsumerAddrsToPrune c t b s)"
  have only: "q = p" if "GetValidatorConsumerPubKey s c q = Some qk" "PubKeyConsAddr k qk = Some b" for q qk
    using key_inv_injective[OF inv that(1) old] that(2) addr by simp
  have rb: "GetValidatorByConsumerAddr s c b = Some p" by (rule key_inv_forward[OF inv old addr])
  have nb: "b \<notin> set (GetConsumerAddrsToPrune s c u)" for u
    using key_invD(3)[OF inv _ old] addr by blast
  have fwd: "GetValidatorConsumerPubKey ?d d q =
      (if d = c \<and> q = p then None else GetValidatorConsumerPubKey s d q)"
    "GetValidatorConsumerPubKey ?q d q =
      (if d = c \<and> q = p then None else GetValidatorConsumerPubKey s d q)" for d q
    by (simp_all add: keeper_simps AppendConsumerAddrsToPrune_def)
  have rev: "GetValidatorByConsumerAddr ?d d x =
      (if d = c \<and> x = b then None else GetValidatorByConsumerAddr s d x)"
    "GetValidatorByConsumerAddr ?q d x = GetValidatorByConsumerAddr s d x" for d x
    by (simp_all add: keeper_simps AppendConsumerAddrsToPrune_def)
  have wait: "GetConsumerAddrsToPrune ?d d u = GetConsumerAddrsToPrune s d u"
    "GetConsumerAddrsToPrune ?q d u = GetConsumerAddrsToPrune (AppendConsumerAddrsToPrune c t b s) d u" for d u
    by (simp_all add: GetConsumerAddrsToPrune_def keeper_simps)
  show "key_inv k ?d"
    unfolding key_inv_def fwd rev wait
    using key_invD[OF inv] only nb by (auto split: if_splits) fastforce+
  show "key_inv k ?q"
    unfolding key_inv_def fwd rev wait ToPrune_Append
    using key_invD[OF inv] only nb rb by (auto split: if_splits)
qed

lemma SetValidatorConsumerPubKey_overwrite:
  "SetValidatorConsumerPubKey c p pk (DeleteValidatorConsumerPubKey c p s) =
     SetValidatorConsumerPubKey c p pk s"
proof -
  have "store_set k v (store_remove k m) = store_set k v m" for k v and m :: "(nat \<times> addr, pubkey) store"
    by (rule store_ext) auto
  then show ?thesis by (simp add: keeper_simps)
qed

lemma key_inv_assign:
  assumes inv: "key_inv k s" and ok: "AssignConsumerKey k ctx c v pk s = Ok t"
  shows "key_inv k t"
  using ok
proof (rule AssignConsumerKey_cases)
  fix a p s1
  assume addr: "PubKeyConsAddr k pk = Some a" and free: "GetValidatorByConsumerAddr s c a = None"
    and t: "t = SetValidatorByConsumerAddr c a p (SetValidatorConsumerPubKey c p pk s1)"
    and s1: "(case GetValidatorConsumerPubKey s c p of None \<Rightarrow> Ok s
      | Some old \<Rightarrow> retire_old_key k ctx c old s) = Ok s1"
  let ?f = "DeleteValidatorConsumerPubKey c p s1"
  have "key_inv k ?f"
  proof (cases "GetValidatorConsumerPubKey s c p")
    case None
    then have "?f = s" using s1 by (simp add: keeper_simps kv.remove_absent)
    then show ?thesis using inv by simp
  next
    case (Some old)
    then show ?thesis using s1 key_inv_forget[OF inv Some]
      by (auto simp: retire_old_key_Ok split: if_splits)
  qed
  moreover have "GetValidatorByConsumerAddr ?f c a = None"
  proof (cases "GetValidatorConsumerPubKey s c p")
    case None
    then show ?thesis using free s1 by (simp add: keeper_simps)
  next
    case (Some old)
    then have "retire_old_key k ctx c old s = Ok s1" using s1 by simp
    from retire_old_key_free[OF this free] show ?thesis by (simp add: keeper_simps)
  qed
  moreover have "GetValidatorConsumerPubKey ?f c p = None" by (simp add: keeper_simps)
  ultimately show ?thesis
    using key_inv_set[of k ?f pk a c p] addr by (simp add: t SetValidatorConsumerPubKey_overwrite)
qed

text \<open>The hook of a removed validator never panics, and leaves it no assigned key.\<close>

lemma remove_keys_loop:
  assumes "key_inv k s" "distinct (map fst es)"
    "\<And>c q pk. ((c, q), pk) \<in> set es \<Longrightarrow> GetValidatorConsumerPubKey s c q = Some pk"
  shows "\<exists>t. fold_res (remove_key_of k p) es s = Ok t \<and> key_inv k t \<and>
      (\<forall>c. GetValidatorConsumerPubKey t c p =
         (if (c, p) \<in> fst ` set es then None else GetValidatorConsumerPubKey s c p))"
  using assms
proof (induction es arbitrary: s)
  case Nil
  then show ?case by simp
next
  case (Cons e es)
  obtain c q pk where e: "e = ((c, q), pk)" by (metis surj_pair)
  have get: "GetValidatorConsumerPubKey s c q = Some pk" using Cons.prems(3) e by simp
  obtain a where a: "PubKeyConsAddr k pk = Some a" using key_invD(1)[OF Cons.prems(1) get] by auto
  define u where "u = (if q = p then DeleteValidatorConsumerPubKey c q (DeleteValidatorByConsumerAddr c a s) else s)"
  have st: "remove_key_of k p e s = Ok u" by (simp add: remove_key_of_def e a u_def)
  have u_get: "GetValidatorConsumerPubKey u d x =
      (if q = p \<and> d = c \<and> x = q then None else GetValidatorConsumerPubKey s d x)" for d x
    by (simp add: keeper_simps u_def)
  have "key_inv k u"
    using key_inv_forget(1)[OF Cons.prems(1) get a] Cons.prems(1)
    unfolding u_def by presburger
  moreover have "GetValidatorConsumerPubKey u d x = Some xk" if "((d, x), xk) \<in> set es" for d x xk
  proof -
    have "(d, x) \<noteq> (c, q)" using that Cons.prems(2) e by (force simp: image_iff)
    then show ?thesis using that Cons.prems(3) unfolding u_get by auto
  qed
  moreover have "distinct (map fst es)" using Cons.prems(2) by simp
  ultimately obtain t where t: "fold_res (remove_key_of k p) es u = Ok t" "key_inv k t"
    "\<And>d. GetValidatorConsumerPubKey t d p =
       (if (d, p) \<in> fst ` set es then None else GetValidatorConsumerPubKey u d p)"
    using Cons.IH[of u] by blast
  have "GetValidatorConsumerPubKey t d p =
      (if (d, p) \<in> fst ` set (e # es) then None else GetValidatorConsumerPubKey s d p)" for d
  proof -
    have "(d, p) \<in> fst ` set (e # es) \<longleftrightarrow> d = c \<and> p = q \<or> (d, p) \<in> fst ` set es"
      by (simp add: e)
    then show ?thesis unfolding t(3) u_get by metis
  qed
  moreover have "fold_res (remove_key_of k p) (e # es) s = Ok t"
    by (simp only: fold_res.simps st bind_res.simps t(1))
  ultimately show ?case using t(2) by blast
qed

lemma key_inv_removed:
  assumes inv: "key_inv k s"
  shows "\<exists>t. AfterValidatorRemoved k p s = Ok t \<and> key_inv k t \<and>
    (\<forall>c. GetValidatorConsumerPubKey t c p = None)"
proof -
  have mem: "GetValidatorConsumerPubKey s c q = Some pk"
    if "((c, q), pk) \<in> set (entries (ValidatorConsumerPubKey s))" for c q pk
    using that by (simp add: kv.iter_mem keeper_simps)
  obtain t where t: "fold_res (remove_key_of k p) (entries (ValidatorConsumerPubKey s)) s = Ok t"
    "key_inv k t"
    "\<And>c. GetValidatorConsumerPubKey t c p =
       (if (c, p) \<in> fst ` set (entries (ValidatorConsumerPubKey s)) then None
        else GetValidatorConsumerPubKey s c p)"
    using remove_keys_loop[OF inv kv.iter_distinct mem] by blast
  have "GetValidatorConsumerPubKey t c p = None" for c
    using t(3)[of c] mem_store_keys[of "(c, p)" "ValidatorConsumerPubKey s"]
    by (simp add: store_keys_def store_has_def keeper_simps split: if_splits)
  then show ?thesis
    using t(1,2) by (simp add: AfterValidatorRemoved_def GetAllValidatorConsumerPubKeys_def)
qed

text \<open>A rotation moves the assigned key and repoints every address of the validator.\<close>

lemma fold_repoint:
  "distinct (map fst es) \<Longrightarrow> \<forall>e\<in>set es. fst (fst e) = c \<Longrightarrow>
   fold (\<lambda>e s. if snd e = old then SetValidatorByConsumerAddr c (snd (fst e)) new s else s) es s =
     s\<lparr>ValidatorByConsumerAddr :=
        fold (\<lambda>e. store_set (fst e) new) (filter (\<lambda>e. snd e = old) es) (ValidatorByConsumerAddr s)\<rparr>"
  by (induction es arbitrary: s) (auto simp: keeper_simps)

lemma get_fold_set_const:
  "store_get (fold (\<lambda>e. store_set (fst e) v) es m) j =
     (if j \<in> fst ` set es then Some v else store_get m j)"
  by (induction es arbitrary: m) auto

lemma migrateKeyAssignment_None:
  "GetValidatorConsumerPubKey s c old = None \<Longrightarrow> migrateKeyAssignment c old new s = (False, s)"
  by (simp add: migrateKeyAssignment_def)

lemma migrateKeyAssignment_Some:
  assumes "GetValidatorConsumerPubKey s c old = Some pk"
    and t_def: "t = snd (migrateKeyAssignment c old new s)"
  shows "GetValidatorConsumerPubKey t d p =
      (if d = c \<and> p = new then Some pk
       else if d = c \<and> p = old then None else GetValidatorConsumerPubKey s d p)"
    and "GetValidatorByConsumerAddr t d a =
      (if d = c \<and> GetValidatorByConsumerAddr s d a = Some old then Some new
       else GetValidatorByConsumerAddr s d a)"
    and "ConsumerAddrsToPrune t = ConsumerAddrsToPrune s"
proof -
  let ?es = "store_range (\<lambda>key. fst key = c) (ValidatorByConsumerAddr s)"
  have c: "\<forall>e\<in>set ?es. fst (fst e) = c" by (auto simp: store_range_def)
  have t: "t = s\<lparr>ValidatorConsumerPubKey :=
        store_set (c, new) pk (store_remove (c, old) (ValidatorConsumerPubKey s)),
      ValidatorByConsumerAddr := fold (\<lambda>e. store_set (fst e) new) (filter (\<lambda>e. snd e = old) ?es)
        (ValidatorByConsumerAddr s)\<rparr>"
    using assms(1) by (simp add: t_def migrateKeyAssignment_def GetAllValidatorsByConsumerAddr_def
        fold_repoint[OF distinct_store_range c] Let_def SetValidatorConsumerPubKey_def
        DeleteValidatorConsumerPubKey_def)
  have mem: "(d, a) \<in> fst ` set (filter (\<lambda>e. snd e = old) ?es) \<longleftrightarrow>
      d = c \<and> GetValidatorByConsumerAddr s d a = Some old" for d a
    by (auto simp: image_iff Bex_def mem_store_range keeper_simps)
  show "GetValidatorConsumerPubKey t d p =
      (if d = c \<and> p = new then Some pk
       else if d = c \<and> p = old then None else GetValidatorConsumerPubKey s d p)"
    by (simp add: t keeper_simps)
  show "GetValidatorByConsumerAddr t d a =
      (if d = c \<and> GetValidatorByConsumerAddr s d a = Some old then Some new
       else GetValidatorByConsumerAddr s d a)"
  proof -
    have "ValidatorByConsumerAddr t = fold (\<lambda>e. store_set (fst e) new) (filter (\<lambda>e. snd e = old) ?es)
        (ValidatorByConsumerAddr s)" by (simp add: t)
    then have "GetValidatorByConsumerAddr t d a =
        store_get (fold (\<lambda>e. store_set (fst e) new) (filter (\<lambda>e. snd e = old) ?es)
          (ValidatorByConsumerAddr s)) (d, a)" by (simp add: GetValidatorByConsumerAddr_def)
    then show ?thesis
      unfolding get_fold_set_const mem GetValidatorByConsumerAddr_def[of s, symmetric] .
  qed
  show "ConsumerAddrsToPrune t = ConsumerAddrsToPrune s" by (simp add: t)
qed

lemma key_inv_migrate:
  assumes inv: "key_inv k s"
  shows "key_inv k (snd (migrateKeyAssignment c old new s))"
proof (cases "GetValidatorConsumerPubKey s c old")
  case None
  then show ?thesis using inv by (simp add: migrateKeyAssignment_None)
next
  case (Some pk)
  note m = migrateKeyAssignment_Some[OF Some refl, where new = new]
  have wait: "GetConsumerAddrsToPrune (snd (migrateKeyAssignment c old new s)) d u =
      GetConsumerAddrsToPrune s d u" for d u
    by (simp add: GetConsumerAddrsToPrune_def m(3))
  obtain a where a: "PubKeyConsAddr k pk = Some a" "GetValidatorByConsumerAddr s c a = Some old"
    using key_invD(1)[OF inv Some] by auto
  have "PubKeyConsAddr k qk \<noteq> Some b"
    if "b \<in> set (GetConsumerAddrsToPrune s d u)"
       "(if d = c \<and> q = new then Some pk
         else if d = c \<and> q = old then None else GetValidatorConsumerPubKey s d q) = Some qk"
    for b d u q qk
    using that key_invD(3)[OF inv that(1)] Some by (auto split: if_splits)
  moreover have "\<exists>b. PubKeyConsAddr k qk = Some b \<and>
      (if d = c \<and> GetValidatorByConsumerAddr s d b = Some old then Some new
       else GetValidatorByConsumerAddr s d b) = Some q"
    if "(if d = c \<and> q = new then Some pk
         else if d = c \<and> q = old then None else GetValidatorConsumerPubKey s d q) = Some qk"
    for d q qk
    using that key_invD(1)[OF inv, of d q qk] a by (auto split: if_splits)
  ultimately show ?thesis
    unfolding key_inv_def m wait using key_invD(2,4)[OF inv] by (auto split: if_splits)
qed

subsection \<open>Every reachable assignment state is consistent\<close>

text \<open>
  The transitions that write the key-assignment collections: a validator assigns a key, a block
  prunes, staking removes or rotates a validator, a consumer is deleted. Any other transition
  leaves the three collections alone.
\<close>

inductive key_step :: "'w keeper \<Rightarrow> 'w pstate \<Rightarrow> 'w pstate \<Rightarrow> bool" for k where
  assign: "AssignConsumerKey k ctx c v pk s = Ok t \<Longrightarrow> key_step k s t"
| prune: "key_step k s (PruneKeyAssignments ctx c s)"
| removed: "AfterValidatorRemoved k p s = Ok t \<Longrightarrow> key_step k s t"
| rotated: "key_step k s (snd (migrateKeyAssignment c old new s))"
| deleted: "key_step k s (DeleteKeyAssignments c s)"
| other: "ValidatorConsumerPubKey t = ValidatorConsumerPubKey s \<Longrightarrow>
    ValidatorByConsumerAddr t = ValidatorByConsumerAddr s \<Longrightarrow>
    ConsumerAddrsToPrune t = ConsumerAddrsToPrune s \<Longrightarrow> key_step k s t"

lemma key_step_inv: "key_step k s t \<Longrightarrow> key_inv k s \<Longrightarrow> key_inv k t"
proof (induction rule: key_step.induct)
  case (removed p s t)
  then show ?case using key_inv_removed[of k s p] by auto
next
  case (other t s)
  then show ?case using key_inv_cong by blast
qed (simp_all add: key_inv_assign key_inv_prune key_inv_migrate key_inv_delete)

interpretation key_run: step_invariant "key_step k" "key_inv k" for k
  by unfold_locales (rule key_step_inv)

lemma key_inv_blank: "key_inv k (blank_pstate w)"
  by (simp add: key_inv_def keeper_simps GetConsumerAddrsToPrune_def blank_pstate_def)

subsection \<open>Properties\<close>

text \<open>
  C2. In every state reachable from genesis, whatever the order of assignments, prunings,
  rotations, validator removals and consumer deletions: the address of an assigned consumer key
  resolves to the validator that assigned it, and to no other validator.
\<close>

theorem assigned_key_resolves:
  assumes "(key_step k)\<^sup>*\<^sup>* (blank_pstate w) s"
    and "GetValidatorConsumerPubKey s c p = Some pk"
  shows "(\<exists>a. PubKeyConsAddr k pk = Some a \<and> GetProviderAddrFromConsumerAddr s c a = p) \<and>
    (\<forall>q qk. GetValidatorConsumerPubKey s c q = Some qk \<and>
       PubKeyConsAddr k qk = PubKeyConsAddr k pk \<longrightarrow> q = p)"
proof -
  have inv: "key_inv k s" using key_run.steps_inv[OF assms(1) key_inv_blank] .
  then show ?thesis
    using key_invD(1)[OF inv assms(2)] key_inv_injective[OF inv _ assms(2)]
    by (auto simp: GetProviderAddrFromConsumerAddr_def)
qed

definition ex_validator :: StakingValidator where
  "ex_validator = \<lparr>OperatorAddress = ''val'', val_ConsensusPubkey = [1], val_Tokens = 10,
     val_Unbonded = False, val_Jailed = False\<rparr>"

definition ex_key_keeper :: "unit keeper" where
  "ex_key_keeper = blank_keeper\<lparr>UnbondingTime := (\<lambda>_. Some 100)\<rparr>"

definition ex_key_state :: "unit pstate" where
  "ex_key_state = SetConsumerPhase 0 CONSUMER_PHASE_LAUNCHED (blank_pstate ())"

definition ex_ctx :: "time \<Rightarrow> sdk_ctx" where
  "ex_ctx t = \<lparr>BlockTime = t, BlockHeight = 1, ChainID = ''provider''\<rparr>"

definition ex_key_state1 :: "unit pstate" where
  "ex_key_state1 = SetValidatorByConsumerAddr 0 [2] [1] (SetValidatorConsumerPubKey 0 [1] [2] ex_key_state)"

lemma ex_assign1: "AssignConsumerKey ex_key_keeper (ex_ctx 5) 0 ex_validator [2] ex_key_state = Ok ex_key_state1"
  by (simp add: AssignConsumerKey_def ex_key_keeper_def ex_key_state_def ex_key_state1_def
      ex_validator_def ex_ctx_def blank_keeper_def blank_pstate_def pendingRotationClaims_def
      IsConsumerActive_def GetConsumerPhase_def keeper_simps SetConsumerPhase_def)

theorem assigned_key_resolves_witness:
  "\<exists>a. PubKeyConsAddr ex_key_keeper [2] = Some a \<and>
      GetProviderAddrFromConsumerAddr ex_key_state1 0 a = [1]"
proof (rule assigned_key_resolves[THEN conjunct1])
  have "key_step ex_key_keeper (blank_pstate ()) ex_key_state"
    by (rule key_step.other) (simp_all add: ex_key_state_def SetConsumerPhase_def)
  moreover have "key_step ex_key_keeper ex_key_state ex_key_state1"
    by (rule key_step.assign[OF ex_assign1])
  ultimately show "(key_step ex_key_keeper)\<^sup>*\<^sup>* (blank_pstate ()) ex_key_state1" by auto
  show "GetValidatorConsumerPubKey ex_key_state1 0 [1] = Some [2]"
    by (simp add: ex_key_state1_def keeper_simps)
qed

text \<open>
  C16. On a launched or paused consumer the address of a replaced key keeps resolving to its
  validator until the unbonding period has passed: pruning before that deadline does not touch
  it, pruning at or after it removes it.
\<close>

theorem replaced_key_resolves_until_unbonding:
  assumes "key_inv k s"
    and "GetConsumerPhase s c \<in> {CONSUMER_PHASE_LAUNCHED, CONSUMER_PHASE_PAUSED}"
    and "GetConsAddr k v = Some p" "GetValidatorConsumerPubKey s c p = Some old"
    and "PubKeyConsAddr k old = Some b" "UnbondingTime k (world s) = Some u"
    and "AssignConsumerKey k ctx c v pk s = Ok t"
  shows "GetValidatorByConsumerAddr (PruneKeyAssignments later c t) c b =
    (if BlockTime later < BlockTime ctx + u then Some p else None)"
proof -
  from assms(7) obtain a s1 where a: "PubKeyConsAddr k pk = Some a"
    and free: "GetValidatorByConsumerAddr s c a = None"
    and t: "t = SetValidatorByConsumerAddr c a p (SetValidatorConsumerPubKey c p pk s1)"
    and "retire_old_key k ctx c old s = Ok s1"
    by (rule AssignConsumerKey_cases) (use assms(3,4) in simp)
  then have s1: "s1 = AppendConsumerAddrsToPrune c (BlockTime ctx + u) b s"
    using assms(2,5,6) by (auto simp: retire_old_key_Ok)
  have rb: "GetValidatorByConsumerAddr s c b = Some p"
    by (rule key_inv_forward[OF assms(1,4,5)])
  have "GetConsumerAddrsToPrune t c x =
      (if x = BlockTime ctx + u then GetConsumerAddrsToPrune s c x @ [b] else GetConsumerAddrsToPrune s c x)" for x
    by (simp add: t s1 keeper_simps GetConsumerAddrsToPrune_def AppendConsumerAddrsToPrune_def)
  moreover have "b \<notin> set (GetConsumerAddrsToPrune s c x)" for x
    using key_invD(3)[OF assms(1) _ assms(4)] assms(5) by blast
  ultimately have "b \<in> prunable c (BlockTime later) t \<longleftrightarrow> BlockTime ctx + u \<le> BlockTime later"
    by (auto simp: prunable_def)
  moreover have "GetValidatorByConsumerAddr t c b = Some p"
    using rb free by (auto simp: t s1 keeper_simps AppendConsumerAddrsToPrune_def)
  ultimately show ?thesis by (simp add: PruneKeyAssignments_eq keeper_simps)
qed

theorem replaced_key_resolves_until_unbonding_witness:
  "\<exists>t. AssignConsumerKey ex_key_keeper (ex_ctx 5) 0 ex_validator [3] ex_key_state1 = Ok t \<and>
     GetValidatorByConsumerAddr (PruneKeyAssignments (ex_ctx 104) 0 t) 0 [2] = Some [1] \<and>
     GetValidatorByConsumerAddr (PruneKeyAssignments (ex_ctx 105) 0 t) 0 [2] = None"
proof -
  let ?k = ex_key_keeper and ?s = ex_key_state1
  obtain t where ok: "AssignConsumerKey ?k (ex_ctx 5) 0 ex_validator [3] ?s = Ok t"
    by (simp add: AssignConsumerKey_def ex_key_keeper_def ex_key_state_def ex_key_state1_def
      ex_validator_def ex_ctx_def blank_keeper_def blank_pstate_def pendingRotationClaims_def
      IsConsumerActive_def GetConsumerPhase_def keeper_simps SetConsumerPhase_def retire_old_key_def)
  have inv: "key_inv ?k ?s"
    using key_inv_assign[OF _ ex_assign1] key_inv_cong[of ex_key_state "blank_pstate ()" ?k]
    by (simp add: key_inv_blank ex_key_state_def SetConsumerPhase_def)
  have facts: "GetConsumerPhase ?s 0 = CONSUMER_PHASE_LAUNCHED"
    "GetConsAddr ?k ex_validator = Some [1]" "GetValidatorConsumerPubKey ?s 0 [1] = Some [2]"
    "PubKeyConsAddr ?k [2] = Some [2]" "UnbondingTime ?k (world ?s) = Some 100"
    by (simp_all add: ex_key_keeper_def ex_validator_def blank_keeper_def ex_key_state1_def
      ex_key_state_def SetConsumerPhase_def GetConsumerPhase_def keeper_simps)
  have "GetValidatorByConsumerAddr (PruneKeyAssignments later 0 t) 0 [2] =
      (if BlockTime later < BlockTime (ex_ctx 5) + 100 then Some [1] else None)" for later
    by (rule replaced_key_resolves_until_unbonding[OF inv _ facts(2,3,4,5) ok])
      (simp add: facts(1))
  then show ?thesis using ok by (auto simp: ex_ctx_def)
qed

end
