(* ===== verification/Relay.thy ===== *)
theory Relay
  imports KeyAssignment
begin

text \<open>
  The validator-set relay of the provider (\<^verbatim>\<open>relay.go\<close>): queueing and sending of the
  validator-set packets at an epoch boundary, the immediate snapshot, acknowledgements. The
  central result follows the reason the code gives for snapshots: whatever the consumer has
  applied so far, the packet queued for it brings it to the set the provider has stored.
\<close>

subsection \<open>Acknowledgements\<close>

definition OnAcknowledgementPacketV2 ::
    "sdk_ctx \<Rightarrow> string \<Rightarrow> nat \<Rightarrow> string \<Rightarrow> 'w pstate \<Rightarrow> 'w pstate" where
  "OnAcknowledgementPacketV2 ctx sourceClientID ackVscId ackError s =
     (case GetClientIdToConsumerId s sourceClientID of
        None \<Rightarrow> s
      | Some c \<Rightarrow>
          if ackError \<noteq> '''' then s
          else let s1 = SetConsumerLastAckTime c (BlockTime ctx) s in
            if ackVscId > GetConsumerHighestAckedVscId s1 c
            then SetConsumerHighestAckedVscId c ackVscId s1 else s1)"

definition OnTimeoutPacketV2 :: "string \<Rightarrow> 'w pstate \<Rightarrow> 'w pstate" where
  "OnTimeoutPacketV2 sourceClientID s = s"

subsection \<open>Epochs\<close>

text \<open>Go's \<^verbatim>\<open>%\<close> keeps the sign of the dividend and panics on zero.\<close>

definition BlocksUntilNextEpoch :: "sdk_ctx \<Rightarrow> 'w pstate \<Rightarrow> int result" where
  "BlocksUntilNextEpoch ctx s =
     (let bpe = BlocksPerEpoch (Params s) in
      if bpe = 0 then Panic
      else let blocksSinceEpochStart = BlockHeight ctx - quo (BlockHeight ctx) bpe * bpe in
        if blocksSinceEpochStart = 0 then Ok 0 else Ok (bpe - blocksSinceEpochStart))"

subsection \<open>Sending\<close>

text \<open>
  The loop over the pending packets stops at the first send error. What it has written by then
  stays, because the end-block caller drops the error.
\<close>

fun send_loop ::
    "'w keeper \<Rightarrow> consumer_id \<Rightarrow> string \<Rightarrow> int \<Rightarrow> ValidatorSetChangePacketData list \<Rightarrow> 'w pstate
       \<Rightarrow> bool \<times> 'w pstate" where
  "send_loop k c clientId timeoutTimestamp [] s = (True, s)"
| "send_loop k c clientId timeoutTimestamp (data # rest) s =
     (case SendPacket k (world s) clientId timeoutTimestamp data of
        (False, w) \<Rightarrow> (False, s\<lparr>world := w\<rparr>)
      | (True, w) \<Rightarrow>
          let s1 = s\<lparr>world := w\<rparr>;
              s2 = (if ValsetUpdateId data > GetConsumerHighestSentVscId s1 c
                    then SetConsumerHighestSentVscId c (ValsetUpdateId data) s1 else s1)
          in send_loop k c clientId timeoutTimestamp rest s2)"

definition sendVSCPacketsToChainStrict ::
    "'w keeper \<Rightarrow> sdk_ctx \<Rightarrow> consumer_id \<Rightarrow> string \<Rightarrow> 'w pstate \<Rightarrow> bool \<times> 'w pstate" where
  "sendVSCPacketsToChainStrict k ctx c clientId s =
     (if \<not> HasChannelKeeperV2 k then (False, s)
      else let timeoutPeriod = min (VaasTimeoutPeriod (Params s)) (MaxTimeoutDelta k);
               timeoutTimestamp = Unix (BlockTime ctx + timeoutPeriod) mod 2 ^ 64
           in case send_loop k c clientId timeoutTimestamp (GetPendingVSCPackets s c) s of
                (True, s1) \<Rightarrow> (True, DeletePendingVSCPackets c s1)
              | (False, s1) \<Rightarrow> (False, s1))"

definition SendVSCPacketsToChain ::
    "'w keeper \<Rightarrow> sdk_ctx \<Rightarrow> consumer_id \<Rightarrow> string \<Rightarrow> 'w pstate \<Rightarrow> 'w pstate" where
  "SendVSCPacketsToChain k ctx c clientId s = snd (sendVSCPacketsToChainStrict k ctx c clientId s)"

definition SendVSCPackets :: "'w keeper \<Rightarrow> sdk_ctx \<Rightarrow> 'w pstate \<Rightarrow> 'w pstate" where
  "SendVSCPackets k ctx s =
     fold (\<lambda>c s. case GetConsumerClientId s c of
             None \<Rightarrow> s
           | Some clientId \<Rightarrow> if clientId = '''' then s else SendVSCPacketsToChain k ctx c clientId s)
       (GetAllLaunchedConsumerIds s) s"

subsection \<open>Queueing\<close>

definition buildVSCPacket ::
    "'w pstate \<Rightarrow> consumer_id \<Rightarrow> ValidatorUpdate list \<Rightarrow> nat \<Rightarrow> bool \<Rightarrow> ValidatorSetChangePacketData" where
  "buildVSCPacket s c valUpdates valUpdateID isSnapshot =
     \<lparr>ValidatorUpdates = valUpdates, ValsetUpdateId = valUpdateID,
      ConsumerInDebt = IsConsumerInDebt s c, IsSnapshot = isSnapshot,
      vsc_DowntimeParams = Some (CurrentDowntimeParams s)\<rparr>"

definition queue_one ::
    "'w keeper \<Rightarrow> sdk_ctx \<Rightarrow> nat \<Rightarrow> StakingValidator list \<Rightarrow> consumer_id \<Rightarrow> 'w pstate \<Rightarrow> 'w pstate result" where
  "queue_one k ctx valUpdateID bondedValidators c s =
     (let currentValSet = GetConsumerValSet s c;
          isSnapshot = (length currentValSet = 0 \<or>
            GetConsumerHighestAckedVscId s c < GetConsumerHighestSentVscId s c \<or>
            length (GetPendingVSCPackets s c) > 0)
      in bind_res (ComputeConsumerNextValSet k ctx bondedValidators c currentValSet isSnapshot s)
           (\<lambda>(valUpdates, s1).
            Ok (AppendPendingVSCPackets c [buildVSCPacket s1 c valUpdates valUpdateID isSnapshot] s1)))"

definition QueueVSCPackets :: "'w keeper \<Rightarrow> sdk_ctx \<Rightarrow> 'w pstate \<Rightarrow> 'w pstate result" where
  "QueueVSCPackets k ctx s =
     (let valUpdateID = ValidatorSetUpdateId s in
      bind_res (GetLastBondedValidators k s) (\<lambda>bondedValidators.
      bind_res (fold_res (queue_one k ctx valUpdateID bondedValidators) (GetAllLaunchedConsumerIds s) s)
        (\<lambda>s1. Ok (IncrementValidatorSetUpdateId s1))))"

definition QueueImmediateSnapshotVSCPacket ::
    "'w keeper \<Rightarrow> sdk_ctx \<Rightarrow> consumer_id \<Rightarrow> 'w pstate \<Rightarrow> 'w pstate result" where
  "QueueImmediateSnapshotVSCPacket k ctx c s =
     (let valUpdateID = ValidatorSetUpdateId s in
      bind_res (GetLastBondedValidators k s) (\<lambda>bondedValidators.
      let currentValSet = GetConsumerValSet s c in
      bind_res (ComputeConsumerNextValSet k ctx bondedValidators c currentValSet True s)
        (\<lambda>(valUpdates, s1).
         Ok (IncrementValidatorSetUpdateId
              (AppendPendingVSCPackets c [buildVSCPacket s1 c valUpdates valUpdateID True] s1)))))"

text \<open>A snapshot that cannot be computed is logged and skipped; nothing has been written then.\<close>

definition rotation_snapshot ::
    "'w keeper \<Rightarrow> sdk_ctx \<Rightarrow> addr \<Rightarrow> consumer_id \<Rightarrow> 'w pstate \<Rightarrow> 'w pstate result" where
  "rotation_snapshot k ctx newProviderAddr c s =
     (if GetValidatorConsumerPubKey s c newProviderAddr \<noteq> None then Ok s
      else case QueueImmediateSnapshotVSCPacket k ctx c s of
        Err _ \<Rightarrow> Ok s
      | Panic \<Rightarrow> Panic
      | Ok s1 \<Rightarrow> (case GetConsumerClientId s1 c of
                   None \<Rightarrow> Ok s1
                 | Some clientId \<Rightarrow> Ok (SendVSCPacketsToChain k ctx c clientId s1)))"

definition QueueConsPubKeyRotationSnapshots ::
    "'w keeper \<Rightarrow> sdk_ctx \<Rightarrow> addr \<Rightarrow> 'w pstate \<Rightarrow> 'w pstate result" where
  "QueueConsPubKeyRotationSnapshots k ctx newProviderAddr s =
     fold_res (rotation_snapshot k ctx newProviderAddr) (GetAllLaunchedConsumerIds s) s"

definition EndBlockPruneKeyAssignments :: "sdk_ctx \<Rightarrow> 'w pstate \<Rightarrow> 'w pstate" where
  "EndBlockPruneKeyAssignments ctx s =
     fold (PruneKeyAssignments ctx) (GetAllLaunchedConsumerIds s) s"

definition EndBlockVSU :: "'w keeper \<Rightarrow> sdk_ctx \<Rightarrow> 'w pstate \<Rightarrow> (ValidatorUpdate list \<times> 'w pstate) result" where
  "EndBlockVSU k ctx s =
     bind_res (ProviderValidatorUpdates k s) (\<lambda>(valUpdates, s1).
     bind_res (BlocksUntilNextEpoch ctx s1) (\<lambda>n.
     if n = 0
     then bind_res (QueueVSCPackets k ctx s1) (\<lambda>s2. Ok (valUpdates, SendVSCPackets k ctx s2))
     else Ok (valUpdates, s1)))"

subsection \<open>What the consumer does with a packet\<close>

text \<open>
  A snapshot replaces the consumer's set, a diff is applied to it. The set is the consensus
  engine's, as in \<open>apply_updates\<close>.
\<close>

definition apply_packet :: "ValidatorSetChangePacketData \<Rightarrow> (pubkey \<rightharpoonup> int) \<Rightarrow> (pubkey \<rightharpoonup> int)" where
  "apply_packet p m = apply_updates (ValidatorUpdates p) (if IsSnapshot p then Map.empty else m)"

text \<open>The stored sets of a state are sets the engine can hold.\<close>

definition valsets_ok :: "'w pstate \<Rightarrow> bool" where
  "valsets_ok s \<longleftrightarrow> (\<forall>c. proper_set (GetConsumerValSet s c))"

lemma GetConsumerValSet_cong:
  "ConsumerValidators t = ConsumerValidators s \<Longrightarrow> GetConsumerValSet t c = GetConsumerValSet s c"
  by (simp add: GetConsumerValSet_def)

lemma GetConsumerValSet_distinct:
  assumes "set (GetConsumerValSet s c) = set vals" "distinct (map PublicKey vals)"
  shows "distinct (GetConsumerValSet s c) \<Longrightarrow> distinct (map PublicKey (GetConsumerValSet s c))"
  using assms by (metis distinct_map)

lemma valset_entries_keyed:
  assumes "distinct (map ProviderConsAddr vals)"
  shows "distinct (GetConsumerValSet (SetConsumerValSet c vals s) c)"
proof -
  let ?m = "ConsumerValidators (SetConsumerValSet c vals s)"
  let ?r = "store_range (\<lambda>k. fst k = c) ?m"
  have get: "store_get ?m (c, a) = (case find (\<lambda>v. ProviderConsAddr v = a) vals of
      None \<Rightarrow> None | Some v \<Rightarrow> Some v)" for a
    by (simp add: SetConsumerValSet_eq get_fold_valset[OF assms] split: option.splits)
  have keyed: "snd (fst e) = ProviderConsAddr (snd e) \<and> fst (fst e) = c" if "e \<in> set ?r" for e
  proof -
    obtain d a v where e: "e = ((d, a), v)" by (metis surj_pair)
    with that have "d = c" "store_get ?m (c, a) = Some v" by (auto simp: mem_store_range)
    then have "find (\<lambda>v. ProviderConsAddr v = a) vals = Some v" by (simp add: get split: option.splits)
    then have "ProviderConsAddr v = a" by (auto simp: find_Some_iff)
    then show ?thesis using \<open>d = c\<close> e by simp
  qed
  have "inj_on snd (set ?r)"
    by (rule inj_onI) (metis keyed prod.collapse)
  moreover have "distinct ?r" using distinct_store_range[of "\<lambda>k. fst k = c" ?m] by (simp add: distinct_map)
  ultimately show ?thesis unfolding GetConsumerValSet_def by (simp add: distinct_map)
qed

lemma stored_set_powers:
  assumes "proper_set vals" "distinct (map ProviderConsAddr vals)"
  shows "powers (GetConsumerValSet (SetConsumerValSet c vals s) c) = powers vals"
    "proper_set (GetConsumerValSet (SetConsumerValSet c vals s) c)"
proof -
  let ?vs = "GetConsumerValSet (SetConsumerValSet c vals s) c"
  have eq: "set ?vs = set vals" by (rule GetConsumerValSet_Set(1)[OF assms(2)])
  have d: "distinct (map PublicKey vals)" using assms(1) by (simp add: proper_set_def)
  have d': "distinct (map PublicKey ?vs)"
    by (rule GetConsumerValSet_distinct[OF eq d valset_entries_keyed[OF assms(2)]])
  show "powers ?vs = powers vals" by (rule powers_set_eq[OF eq d' d])
  show "proper_set ?vs" using d' eq assms(1) by (simp add: proper_set_def)
qed

definition bonded_ok :: "'w keeper \<Rightarrow> 'w \<Rightarrow> StakingValidator list \<Rightarrow> bool" where
  "bonded_ok k w bonded \<longleftrightarrow> distinct (map (GetConsAddr k) bonded) \<and>
     (\<forall>val \<in> set bonded. \<forall>a p. ValAddressFromBech32 k (OperatorAddress val) = Some a \<longrightarrow>
        GetLastValidatorPower k w a = Some p \<longrightarrow> 0 < p)"

lemma bonded_ok_last:
  "staking_laws k (world s) \<Longrightarrow> GetLastBondedValidators k s = Ok bonded \<Longrightarrow> bonded_ok k (world s) bonded"
  using last_bonded_laws[of k s bonded] by (auto simp: bonded_ok_def)

text \<open>The core of both queueing paths: the updates lead from the old stored set to the new one.\<close>

lemma ComputeConsumerNextValSet_Ok:
  assumes "ComputeConsumerNextValSet k ctx bonded c (GetConsumerValSet s c) snap s = Ok (us, t)"
    and "bonded_ok k (world s) bonded" "proper_set (GetConsumerValSet s c)"
  obtains vals where "t = SetConsumerValSet c vals s" "proper_set (GetConsumerValSet t c)"
    "\<forall>m. (snap \<or> m = powers (GetConsumerValSet s c)) \<longrightarrow>
       apply_updates us (if snap then Map.empty else m) = powers (GetConsumerValSet t c)"
    "\<forall>d. d \<noteq> c \<longrightarrow> GetConsumerValSet t d = GetConsumerValSet s d"
proof -
  from assms(1) obtain vals where vals: "CreateConsumerValidators k ctx s c bonded = Ok vals"
    and t: "t = SetConsumerValSet c vals s"
    and us: "us = (if snap then FullValSetUpdates vals else DiffValidators (GetConsumerValSet s c) vals)"
    by (auto simp: ComputeConsumerNextValSet_def res_simps Let_def split: if_splits)
  have pr: "proper_set vals" "distinct (map ProviderConsAddr vals)"
    using next_set_proper[OF vals] assms(2) by (auto simp: bonded_ok_def)
  have st: "powers (GetConsumerValSet t c) = powers vals" "proper_set (GetConsumerValSet t c)"
    unfolding t by (rule stored_set_powers[OF pr])+
  have "apply_updates us (if snap then Map.empty else m) = powers (GetConsumerValSet t c)"
    if "snap \<or> m = powers (GetConsumerValSet s c)" for m
    using that us st(1) full_updates_correct[OF pr(1)] diff_correct[OF assms(3) pr(1)] by (cases snap) auto
  moreover have "GetConsumerValSet t d = GetConsumerValSet s d" if "d \<noteq> c" for d
    unfolding t by (rule GetConsumerValSet_Set(2)[OF pr(2) that])
  ultimately show thesis using that t st(2) by blast
qed

subsection \<open>One consumer of an epoch\<close>

lemma queue_frame:
  "world (AppendPendingVSCPackets c ps s) = world s"
  "ConsumerValidators (AppendPendingVSCPackets c ps s) = ConsumerValidators s"
  "ConsumerHighestAckedVscId (AppendPendingVSCPackets c ps s) = ConsumerHighestAckedVscId s"
  "ConsumerHighestSentVscId (AppendPendingVSCPackets c ps s) = ConsumerHighestSentVscId s"
  "GetPendingVSCPackets (AppendPendingVSCPackets c ps s) d =
     (if d = c then GetPendingVSCPackets s c @ ps else GetPendingVSCPackets s d)"
  "world (SetConsumerValSet c vals s) = world s"
  "PendingVSCPackets (SetConsumerValSet c vals s) = PendingVSCPackets s"
  "ConsumerHighestAckedVscId (SetConsumerValSet c vals s) = ConsumerHighestAckedVscId s"
  "ConsumerHighestSentVscId (SetConsumerValSet c vals s) = ConsumerHighestSentVscId s"
  "ValidatorSetUpdateId (AppendPendingVSCPackets c ps s) = ValidatorSetUpdateId s"
  "ValidatorSetUpdateId (SetConsumerValSet c vals s) = ValidatorSetUpdateId s"
  by (simp_all add: AppendPendingVSCPackets_def GetPendingVSCPackets_def SetConsumerValSet_eq)

text \<open>
  \<open>advances s c p t\<close>: packet \<open>p\<close> takes a consumer from the set stored in \<open>s\<close> to the one stored in
  \<open>t\<close>; a snapshot does so from any set at all.
\<close>

definition advances :: "'w pstate \<Rightarrow> consumer_id \<Rightarrow> ValidatorSetChangePacketData \<Rightarrow> 'w pstate \<Rightarrow> bool" where
  "advances s c p t \<longleftrightarrow>
     (\<forall>m. (IsSnapshot p \<or> m = powers (GetConsumerValSet s c)) \<longrightarrow>
        apply_packet p m = powers (GetConsumerValSet t c))"

lemma computed_packet_advances:
  assumes "ComputeConsumerNextValSet k ctx bonded c (GetConsumerValSet s c) snap s = Ok (us, t)"
    and "bonded_ok k (world s) bonded" "valsets_ok s"
    and "ValidatorUpdates p = us" "IsSnapshot p = snap" "ConsumerValidators u = ConsumerValidators t"
  shows "advances s c p u" "valsets_ok u" "\<And>d. d \<noteq> c \<Longrightarrow> GetConsumerValSet u d = GetConsumerValSet s d"
proof -
  have "proper_set (GetConsumerValSet s c)" using assms(3) by (simp add: valsets_ok_def)
  with assms(1,2) obtain vals where v: "t = SetConsumerValSet c vals s" "proper_set (GetConsumerValSet t c)"
    "\<forall>m. (snap \<or> m = powers (GetConsumerValSet s c)) \<longrightarrow>
       apply_updates us (if snap then Map.empty else m) = powers (GetConsumerValSet t c)"
    "\<forall>d. d \<noteq> c \<longrightarrow> GetConsumerValSet t d = GetConsumerValSet s d"
    by (rule ComputeConsumerNextValSet_Ok)
  have u: "GetConsumerValSet u d = GetConsumerValSet t d" for d by (rule GetConsumerValSet_cong[OF assms(6)])
  show "advances s c p u" using v(3) by (auto simp: advances_def apply_packet_def assms(4,5) u)
  show other: "GetConsumerValSet u d = GetConsumerValSet s d" if "d \<noteq> c" for d using v(4) that u by simp
  show "valsets_ok u" unfolding valsets_ok_def using v(2) u other assms(3) by (metis valsets_ok_def)
qed

lemma queue_one_Ok:
  assumes "queue_one k ctx i bonded c s = Ok t" "bonded_ok k (world s) bonded" "valsets_ok s"
  obtains p where "GetPendingVSCPackets t c = GetPendingVSCPackets s c @ [p]" "ValsetUpdateId p = i"
    "advances s c p t" "ConsumerInDebt p = IsConsumerInDebt s c"
    "\<not> IsSnapshot p \<Longrightarrow> GetPendingVSCPackets s c = [] \<and>
       GetConsumerHighestSentVscId s c \<le> GetConsumerHighestAckedVscId s c \<and> GetConsumerValSet s c \<noteq> []"
    "valsets_ok t" "world t = world s"
    "\<And>d. d \<noteq> c \<Longrightarrow> GetPendingVSCPackets t d = GetPendingVSCPackets s d \<and> GetConsumerValSet t d = GetConsumerValSet s d"
    "\<And>d. GetConsumerHighestSentVscId t d = GetConsumerHighestSentVscId s d"
    "\<And>d. GetConsumerHighestAckedVscId t d = GetConsumerHighestAckedVscId s d"
    "\<And>d. IsConsumerInDebt t d = IsConsumerInDebt s d"
proof -
  define snap where "snap = (length (GetConsumerValSet s c) = 0 \<or>
            GetConsumerHighestAckedVscId s c < GetConsumerHighestSentVscId s c \<or>
            length (GetPendingVSCPackets s c) > 0)"
  from assms(1) obtain us s1 where
    cmp: "ComputeConsumerNextValSet k ctx bonded c (GetConsumerValSet s c) snap s = Ok (us, s1)"
    and t: "t = AppendPendingVSCPackets c [buildVSCPacket s1 c us i snap] s1"
    by (auto simp: queue_one_def snap_def Let_def res_simps)
  obtain vals where s1: "s1 = SetConsumerValSet c vals s"
    using cmp by (auto simp: ComputeConsumerNextValSet_def res_simps Let_def split: if_splits)
  let ?p = "buildVSCPacket s1 c us i snap"
  have us: "ValidatorUpdates ?p = us" "IsSnapshot ?p = snap" by (simp_all add: buildVSCPacket_def)
  have "ConsumerValidators t = ConsumerValidators s1" by (simp add: t queue_frame)
  note adv = computed_packet_advances[OF cmp assms(2,3) us this]
  show thesis
  proof (rule that[of ?p])
    show "\<not> IsSnapshot ?p \<Longrightarrow> GetPendingVSCPackets s c = [] \<and>
       GetConsumerHighestSentVscId s c \<le> GetConsumerHighestAckedVscId s c \<and> GetConsumerValSet s c \<noteq> []"
      unfolding us(2) by (simp add: snap_def not_less)
  qed (use adv in \<open>simp_all add: t s1 queue_frame buildVSCPacket_def GetConsumerHighestSentVscId_def
      GetConsumerHighestAckedVscId_def IsConsumerInDebt_def SetConsumerValSet_eq AppendPendingVSCPackets_def
      GetPendingVSCPackets_def\<close>)
qed

subsection \<open>An epoch\<close>

text \<open>What one epoch does to a consumer: \<open>queued\<close> for a launched one, nothing for the others.\<close>

definition queued :: "nat \<Rightarrow> 'w pstate \<Rightarrow> consumer_id \<Rightarrow> ValidatorSetChangePacketData \<Rightarrow> 'w pstate \<Rightarrow> bool" where
  "queued i s c p t \<longleftrightarrow>
     GetPendingVSCPackets t c = GetPendingVSCPackets s c @ [p] \<and> ValsetUpdateId p = i \<and> advances s c p t \<and>
     ConsumerInDebt p = IsConsumerInDebt s c \<and>
     (IsSnapshot p \<or>
        (GetPendingVSCPackets s c = [] \<and> GetConsumerHighestSentVscId s c \<le> GetConsumerHighestAckedVscId s c \<and>
         GetConsumerValSet s c \<noteq> []))"

definition untouched :: "'w pstate \<Rightarrow> consumer_id \<Rightarrow> 'w pstate \<Rightarrow> bool" where
  "untouched s c t \<longleftrightarrow> GetPendingVSCPackets t c = GetPendingVSCPackets s c \<and>
     GetConsumerValSet t c = GetConsumerValSet s c \<and>
     GetConsumerHighestSentVscId t c = GetConsumerHighestSentVscId s c \<and>
     GetConsumerHighestAckedVscId t c = GetConsumerHighestAckedVscId s c \<and>
     IsConsumerInDebt t c = IsConsumerInDebt s c"

lemma queued_untouched:
  "untouched s c u \<Longrightarrow> queued i u c p t \<Longrightarrow> queued i s c p t"
  "queued i s c p u \<Longrightarrow> untouched u c t \<Longrightarrow> queued i s c p t"
  "untouched s c u \<Longrightarrow> untouched u c t \<Longrightarrow> untouched s c t"
  by (auto simp: queued_def untouched_def advances_def)

lemma queue_loop:
  assumes "fold_res (queue_one k ctx i bonded) cs s = Ok t" "distinct cs"
    and "bonded_ok k (world s) bonded" "valsets_ok s"
  shows "valsets_ok t \<and> world t = world s \<and>
    (\<forall>c. if c \<in> set cs then (\<exists>p. queued i s c p t) else untouched s c t) \<and>
    (\<forall>c. GetConsumerHighestSentVscId t c = GetConsumerHighestSentVscId s c \<and>
         GetConsumerHighestAckedVscId t c = GetConsumerHighestAckedVscId s c)"
  using assms
proof (induction cs arbitrary: s)
  case Nil
  then show ?case by (simp add: untouched_def)
next
  case (Cons d cs)
  then obtain u where one: "queue_one k ctx i bonded d s = Ok u"
    and rest: "fold_res (queue_one k ctx i bonded) cs u = Ok t" by (auto simp: res_simps)
  obtain p where pu: "queued i s d p u" and fr: "valsets_ok u" "world u = world s"
    "\<And>c. c \<noteq> d \<Longrightarrow> untouched s c u"
    "\<And>c. GetConsumerHighestSentVscId u c = GetConsumerHighestSentVscId s c \<and>
         GetConsumerHighestAckedVscId u c = GetConsumerHighestAckedVscId s c"
    using queue_one_Ok[OF one Cons.prems(3,4)] unfolding queued_def untouched_def by metis
  have IH: "valsets_ok t \<and> world t = world u \<and>
    (\<forall>c. if c \<in> set cs then (\<exists>p. queued i u c p t) else untouched u c t) \<and>
    (\<forall>c. GetConsumerHighestSentVscId t c = GetConsumerHighestSentVscId u c \<and>
         GetConsumerHighestAckedVscId t c = GetConsumerHighestAckedVscId u c)"
    by (rule Cons.IH[OF rest]) (use Cons.prems fr in auto)
  have "if c \<in> set (d # cs) then (\<exists>p. queued i s c p t) else untouched s c t" for c
  proof (cases "c = d")
    case True
    then have "untouched u c t" using IH Cons.prems(2) by auto
    then show ?thesis using pu True queued_untouched(2) by fastforce
  next
    case False
    then show ?thesis using IH fr(3)[OF False] queued_untouched(1,3) by (auto split: if_splits) blast+
  qed
  then show ?case using IH fr by simp
qed

lemma QueueVSCPackets_Ok:
  assumes "QueueVSCPackets k ctx s = Ok t" "staking_laws k (world s)" "valsets_ok s"
  shows "valsets_ok t" "world t = world s" "ValidatorSetUpdateId t = ValidatorSetUpdateId s + 1"
    "c \<in> set (GetAllLaunchedConsumerIds s) \<Longrightarrow> \<exists>p. queued (ValidatorSetUpdateId s) s c p t"
    "c \<notin> set (GetAllLaunchedConsumerIds s) \<Longrightarrow> untouched s c t"
    "GetConsumerHighestSentVscId t c = GetConsumerHighestSentVscId s c"
    "GetConsumerHighestAckedVscId t c = GetConsumerHighestAckedVscId s c"
proof -
  from assms(1) obtain bonded u where b: "GetLastBondedValidators k s = Ok bonded"
    and l: "fold_res (queue_one k ctx (ValidatorSetUpdateId s) bonded) (GetAllLaunchedConsumerIds s) s = Ok u"
    and t: "t = IncrementValidatorSetUpdateId u"
    by (auto simp: QueueVSCPackets_def Let_def res_simps)
  have d: "distinct (GetAllLaunchedConsumerIds s)"
    by (simp add: GetAllLaunchedConsumerIds_def GetAllConsumerIds_def split: option.splits)
  have id: "ValidatorSetUpdateId u = ValidatorSetUpdateId s"
    by (rule fold_res_invariant[where P = "\<lambda>u. ValidatorSetUpdateId u = ValidatorSetUpdateId s", OF l])
      (auto simp: queue_one_def Let_def res_simps ComputeConsumerNextValSet_def queue_frame split: if_splits)
  note q = queue_loop[OF l d bonded_ok_last[OF assms(2) b] assms(3)]
  have t': "GetPendingVSCPackets t c = GetPendingVSCPackets u c" "GetConsumerValSet t c = GetConsumerValSet u c"
    "GetConsumerHighestSentVscId t c = GetConsumerHighestSentVscId u c"
    "GetConsumerHighestAckedVscId t c = GetConsumerHighestAckedVscId u c" "IsConsumerInDebt t c = IsConsumerInDebt u c" for c
    by (simp_all add: t keeper_simps GetPendingVSCPackets_def GetConsumerValSet_def
        GetConsumerHighestSentVscId_def GetConsumerHighestAckedVscId_def IsConsumerInDebt_def)
  have ut: "untouched u c t" for c by (simp add: untouched_def t')
  show "valsets_ok t" "world t = world s" "ValidatorSetUpdateId t = ValidatorSetUpdateId s + 1"
    using q id by (simp_all add: valsets_ok_def t') (simp_all add: t keeper_simps)
  show "c \<in> set (GetAllLaunchedConsumerIds s) \<Longrightarrow> \<exists>p. queued (ValidatorSetUpdateId s) s c p t"
    using q ut queued_untouched(2) by metis
  show "c \<notin> set (GetAllLaunchedConsumerIds s) \<Longrightarrow> untouched s c t"
    using q ut queued_untouched(3) by metis
  show "GetConsumerHighestSentVscId t c = GetConsumerHighestSentVscId s c"
    "GetConsumerHighestAckedVscId t c = GetConsumerHighestAckedVscId s c" using q t' by simp_all
qed

text \<open>The immediate snapshot does the same for one consumer.\<close>

lemma QueueImmediateSnapshot_Ok:
  assumes "QueueImmediateSnapshotVSCPacket k ctx c s = Ok t" "staking_laws k (world s)" "valsets_ok s"
  shows "valsets_ok t" "world t = world s" "ValidatorSetUpdateId t = ValidatorSetUpdateId s + 1"
    "\<exists>p. IsSnapshot p \<and> queued (ValidatorSetUpdateId s) s c p t"
    "d \<noteq> c \<Longrightarrow> untouched s d t"
    "GetConsumerHighestSentVscId t d = GetConsumerHighestSentVscId s d"
    "GetConsumerHighestAckedVscId t d = GetConsumerHighestAckedVscId s d"
proof -
  from assms(1) obtain bonded us s1 where b: "GetLastBondedValidators k s = Ok bonded"
    and cmp: "ComputeConsumerNextValSet k ctx bonded c (GetConsumerValSet s c) True s = Ok (us, s1)"
    and t: "t = IncrementValidatorSetUpdateId (AppendPendingVSCPackets c
              [buildVSCPacket s1 c us (ValidatorSetUpdateId s) True] s1)"
    by (auto simp: QueueImmediateSnapshotVSCPacket_def Let_def res_simps)
  obtain vals where s1: "s1 = SetConsumerValSet c vals s"
    using cmp by (auto simp: ComputeConsumerNextValSet_def res_simps Let_def)
  let ?p = "buildVSCPacket s1 c us (ValidatorSetUpdateId s) True"
  have us: "ValidatorUpdates ?p = us" "IsSnapshot ?p = True" by (simp_all add: buildVSCPacket_def)
  have cv: "ConsumerValidators t = ConsumerValidators s1" by (simp add: t queue_frame keeper_simps)
  note adv = computed_packet_advances[OF cmp bonded_ok_last[OF assms(2) b] assms(3) us cv]
  have fld: "PendingVSCPackets t = PendingVSCPackets (AppendPendingVSCPackets c [?p] s1)"
    "ConsumerHighestSentVscId t = ConsumerHighestSentVscId s" "ConsumerHighestAckedVscId t = ConsumerHighestAckedVscId s"
    "ConsumerDebt t = ConsumerDebt s" "world t = world s" "ValidatorSetUpdateId t = ValidatorSetUpdateId s + 1"
    by (simp_all add: t keeper_simps s1 queue_frame AppendPendingVSCPackets_def SetConsumerValSet_eq)
  have pend: "GetPendingVSCPackets t d = (if d = c then GetPendingVSCPackets s c @ [?p] else GetPendingVSCPackets s d)" for d
    using queue_frame(5)[of c "[?p]" s1 d] by (simp add: GetPendingVSCPackets_def fld(1) s1 queue_frame)
  have hi: "GetConsumerHighestSentVscId t d = GetConsumerHighestSentVscId s d"
    "GetConsumerHighestAckedVscId t d = GetConsumerHighestAckedVscId s d" "IsConsumerInDebt t d = IsConsumerInDebt s d" for d
    by (simp_all add: GetConsumerHighestSentVscId_def GetConsumerHighestAckedVscId_def IsConsumerInDebt_def fld)
  show "valsets_ok t" "world t = world s" "ValidatorSetUpdateId t = ValidatorSetUpdateId s + 1"
    using adv(2) fld by simp_all
  have "ConsumerInDebt ?p = IsConsumerInDebt s c" "ValsetUpdateId ?p = ValidatorSetUpdateId s"
    by (simp_all add: buildVSCPacket_def s1 IsConsumerInDebt_def SetConsumerValSet_eq)
  then show "\<exists>p. IsSnapshot p \<and> queued (ValidatorSetUpdateId s) s c p t"
    using adv(1) pend us by (intro exI[of _ ?p]) (simp add: queued_def)
  show "d \<noteq> c \<Longrightarrow> untouched s d t" using adv(3) pend hi by (simp add: untouched_def)
  show "GetConsumerHighestSentVscId t d = GetConsumerHighestSentVscId s d"
    "GetConsumerHighestAckedVscId t d = GetConsumerHighestAckedVscId s d" using hi by simp_all
qed

subsection \<open>Sending\<close>

lemma fold_max_ge: "x \<le> fold max ys (x :: nat)"
  by (induction ys arbitrary: x) (auto intro: le_trans[OF max.cobounded2])

lemma sent_mark: "GetConsumerHighestSentVscId (if i > GetConsumerHighestSentVscId s c
     then SetConsumerHighestSentVscId c i s else s) d =
   (if d = c then max i (GetConsumerHighestSentVscId s c) else GetConsumerHighestSentVscId s d)"
  by (simp add: GetConsumerHighestSentVscId_def SetConsumerHighestSentVscId_def)

text \<open>
  However far the loop gets, it changes the other modules' state and the highest id sent, which
  becomes the highest of the ids that went out.
\<close>

lemma send_loop_effect:
  "\<exists>n w m. n \<le> length ps \<and> (fst (send_loop k c cl ts ps s) \<longrightarrow> n = length ps) \<and>
     (\<not> fst (send_loop k c cl ts ps s) \<longrightarrow> n < length ps) \<and>
     snd (send_loop k c cl ts ps s) = s\<lparr>world := w, ConsumerHighestSentVscId := m\<rparr> \<and>
     (\<forall>d. GetConsumerHighestSentVscId (snd (send_loop k c cl ts ps s)) d =
       (if d = c then fold max (map ValsetUpdateId (take n ps)) (GetConsumerHighestSentVscId s c)
        else GetConsumerHighestSentVscId s d))"
proof (induction ps arbitrary: s)
  case Nil
  show ?case by (intro exI[of _ 0] exI[of _ "world s"] exI[of _ "ConsumerHighestSentVscId s"]) simp
next
  case (Cons p ps)
  obtain ok w where send: "SendPacket k (world s) cl ts p = (ok, w)" by force
  show ?case
  proof (cases ok)
    case False
    then show ?thesis using send
      by (intro exI[of _ 0] exI[of _ w] exI[of _ "ConsumerHighestSentVscId s"])
        (simp add: GetConsumerHighestSentVscId_def)
  next
    case True
    define s1 where "s1 = s\<lparr>world := w\<rparr>"
    define s2 where "s2 = (if ValsetUpdateId p > GetConsumerHighestSentVscId s1 c
                    then SetConsumerHighestSentVscId c (ValsetUpdateId p) s1 else s1)"
    have run: "send_loop k c cl ts (p # ps) s = send_loop k c cl ts ps s2"
      using send True by (simp add: s1_def s2_def Let_def)
    obtain n w' m where IH: "n \<le> length ps" "fst (send_loop k c cl ts ps s2) \<longrightarrow> n = length ps"
      "\<not> fst (send_loop k c cl ts ps s2) \<longrightarrow> n < length ps"
      "snd (send_loop k c cl ts ps s2) = s2\<lparr>world := w', ConsumerHighestSentVscId := m\<rparr>"
      "\<forall>d. GetConsumerHighestSentVscId (snd (send_loop k c cl ts ps s2)) d =
       (if d = c then fold max (map ValsetUpdateId (take n ps)) (GetConsumerHighestSentVscId s2 c)
        else GetConsumerHighestSentVscId s2 d)"
      using Cons.IH[of s2] by blast
    have "GetConsumerHighestSentVscId s2 d = (if d = c then max (ValsetUpdateId p) (GetConsumerHighestSentVscId s c)
        else GetConsumerHighestSentVscId s d)" for d
      unfolding s2_def sent_mark by (simp add: s1_def GetConsumerHighestSentVscId_def)
    moreover have "s2\<lparr>world := w', ConsumerHighestSentVscId := m\<rparr> = s\<lparr>world := w', ConsumerHighestSentVscId := m\<rparr>"
      by (simp add: s2_def s1_def keeper_simps)
    ultimately show ?thesis
      unfolding run using IH
      by (intro exI[of _ "Suc n"] exI[of _ w'] exI[of _ m]) simp
  qed
qed

lemma sendStrict_effect:
  assumes "sendVSCPacketsToChainStrict k ctx c cl s = (ok, t)"
  shows "\<exists>n. n \<le> length (GetPendingVSCPackets s c) \<and>
      (\<forall>d. GetConsumerHighestSentVscId t d =
        (if d = c then fold max (map ValsetUpdateId (take n (GetPendingVSCPackets s c))) (GetConsumerHighestSentVscId s c)
         else GetConsumerHighestSentVscId s d)) \<and>
      (if ok then n = length (GetPendingVSCPackets s c)
       else n = 0 \<or> n < length (GetPendingVSCPackets s c)) \<and>
      (\<forall>d. GetPendingVSCPackets t d = (if ok \<and> d = c then [] else GetPendingVSCPackets s d)) \<and>
      ConsumerValidators t = ConsumerValidators s \<and> ConsumerHighestAckedVscId t = ConsumerHighestAckedVscId s \<and>
      ValidatorSetUpdateId t = ValidatorSetUpdateId s \<and> phase_of t = phase_of s \<and> ConsumerId t = ConsumerId s \<and>
      ConsumerClients t = ConsumerClients s"
proof (cases "HasChannelKeeperV2 k")
  case False
  then have "t = s" "\<not> ok" using assms by (simp_all add: sendVSCPacketsToChainStrict_def)
  then show ?thesis by (intro exI[of _ 0]) simp
next
  case True
  define ts where "ts = Unix (BlockTime ctx + min (VaasTimeoutPeriod (Params s)) (MaxTimeoutDelta k)) mod 2 ^ 64"
  define ps where "ps = GetPendingVSCPackets s c"
  obtain ok' u where lp: "send_loop k c cl ts ps s = (ok', u)" by force
  obtain n w m where ef: "n \<le> length ps" "ok' \<longrightarrow> n = length ps" "\<not> ok' \<longrightarrow> n < length ps"
    "u = s\<lparr>world := w, ConsumerHighestSentVscId := m\<rparr>"
    "\<forall>d. GetConsumerHighestSentVscId u d =
       (if d = c then fold max (map ValsetUpdateId (take n ps)) (GetConsumerHighestSentVscId s c)
        else GetConsumerHighestSentVscId s d)"
    using send_loop_effect[of ps k c cl ts s] unfolding lp by auto
  have t: "t = (if ok then DeletePendingVSCPackets c u else u)" "ok = ok'"
    using assms True lp by (auto simp: sendVSCPacketsToChainStrict_def Let_def ts_def ps_def split: bool.splits)
  show ?thesis
  proof (intro exI[of _ n] conjI allI)
    fix d
    show "GetConsumerHighestSentVscId t d =
        (if d = c then fold max (map ValsetUpdateId (take n (GetPendingVSCPackets s c))) (GetConsumerHighestSentVscId s c)
         else GetConsumerHighestSentVscId s d)"
      using ef(5) unfolding ps_def[symmetric] by (simp add: t(1) GetConsumerHighestSentVscId_def keeper_simps)
    show "GetPendingVSCPackets t d = (if ok \<and> d = c then [] else GetPendingVSCPackets s d)"
      by (simp add: t(1) ef(4) keeper_simps GetPendingVSCPackets_def)
  qed (use ef t ps_def in \<open>auto simp: keeper_simps\<close>)
qed

subsection \<open>The provider's own set\<close>

lemma collect_loop:
  "fold_res (\<lambda>x acc. bind_res (f x) (\<lambda>v. Ok (acc @ [v]))) xs acc = Ok out \<longleftrightarrow>
     (\<exists>vs. list_all2 (\<lambda>x v. f x = Ok v) xs vs \<and> out = acc @ vs)"
proof (induction xs arbitrary: acc)
  case Nil
  then show ?case by auto
next
  case (Cons x xs)
  then show ?case by (cases "f x") (auto simp: list_all2_Cons1)
qed

lemma fold_insert_get:
  assumes "distinct (map ProviderConsAddr vals)"
  shows "store_get (fold (\<lambda>v. store_set (ProviderConsAddr v) v) vals m) a =
    (case find (\<lambda>v. ProviderConsAddr v = a) vals of None \<Rightarrow> store_get m a | Some v \<Rightarrow> Some v)"
  using assms
proof (induction vals arbitrary: m)
  case Nil
  then show ?case by simp
next
  case (Cons v vals)
  then have "find (\<lambda>u. ProviderConsAddr u = ProviderConsAddr v) vals = None"
    by (auto simp: find_None_iff image_iff)
  then show ?case using Cons by (auto split: option.splits)
qed

lemma find_addr:
  "distinct (map ProviderConsAddr vals) \<Longrightarrow>
     find (\<lambda>v. ProviderConsAddr v = a) vals = Some v \<longleftrightarrow> v \<in> set vals \<and> ProviderConsAddr v = a"
  by (induction vals) (auto simp: image_iff)

lemma SetLast_entries:
  assumes "distinct (map ProviderConsAddr vals)"
  shows "set (GetLastProviderConsensusValSet (SetLastProviderConsensusValSet vals s)) = set vals"
    "distinct (GetLastProviderConsensusValSet (SetLastProviderConsensusValSet vals s))"
proof -
  let ?cl = "fold store_remove (store_keys (LastProviderConsensusVals s)) (LastProviderConsensusVals s)"
  define m where "m = LastProviderConsensusVals (SetLastProviderConsensusValSet vals s)"
  have last: "GetLastProviderConsensusValSet (SetLastProviderConsensusValSet vals s) = map snd (entries m)"
    by (simp add: GetLastProviderConsensusValSet_def m_def)
  have none: "store_get ?cl a = None" for a
    by (simp add: kv.get_fold_remove mem_store_keys store_has_def)
  have get: "store_get m a = find (\<lambda>v. ProviderConsAddr v = a) vals" for a
    by (simp add: m_def SetLastProviderConsensusValSet_def Let_def fold_insert_get[OF assms] none split: option.splits)
  have mem: "(a, v) \<in> set (entries m) \<longleftrightarrow> v \<in> set vals \<and> ProviderConsAddr v = a" for a v
    by (simp add: kv.iter_mem get find_addr[OF assms])
  have "v \<in> snd ` set (entries m) \<longleftrightarrow> v \<in> set vals" for v
    by (metis (no_types, lifting) mem image_iff prod.collapse snd_conv)
  then show "set (GetLastProviderConsensusValSet (SetLastProviderConsensusValSet vals s)) = set vals"
    by (auto simp: last)
  have "inj_on snd (set (entries m))" by (rule inj_onI) (metis mem prod.collapse)
  moreover have "distinct (entries m)" using kv.iter_distinct[of m] by (simp add: distinct_map)
  ultimately show "distinct (GetLastProviderConsensusValSet (SetLastProviderConsensusValSet vals s))"
    by (simp add: last distinct_map)
qed

subsection \<open>A launched consumer and one bonded validator\<close>

definition ex_relay_keeper :: "unit keeper" where
  "ex_relay_keeper = blank_keeper\<lparr>
     MaxValidators := (\<lambda>_. Some 10), GetBondedValidatorsByPower := (\<lambda>_. Some [ex_validator]),
     ValAddressFromBech32 := (\<lambda>_. Some [1]), GetLastValidatorPower := (\<lambda>_ _. Some 7)\<rparr>"

definition ex_relay_state :: "unit pstate" where
  "ex_relay_state = (blank_pstate ())\<lparr>ValidatorSetUpdateId := 4, ConsumerId := 1,
     phase_of := store_set 0 CONSUMER_PHASE_LAUNCHED empty_store\<rparr>"

definition ex_relay_entry :: ConsensusValidator where
  "ex_relay_entry = \<lparr>ProviderConsAddr = [1], cv_Power = 7, PublicKey = [1], JoinHeight = 1\<rparr>"

lemma ex_staking_laws: "staking_laws ex_relay_keeper w"
  by (simp add: staking_laws_def ex_relay_keeper_def)

lemma ex_relay_launched: "GetAllLaunchedConsumerIds ex_relay_state = [0]"
  by (simp add: GetAllLaunchedConsumerIds_def GetAllConsumerIds_def GetConsumerId_def
      GetConsumerPhase_def ex_relay_state_def)

lemma ex_valsets_ok: "valsets_ok ex_relay_state"
  by (simp add: valsets_ok_def proper_set_def GetConsumerValSet_def ex_relay_state_def blank_pstate_def store_range_def)

lemma ex_create:
  "CreateConsumerValidators ex_relay_keeper (ex_ctx 5) ex_relay_state 0 [ex_validator] = Ok [ex_relay_entry]"
  by (simp add: CreateConsumerValidators_def CreateConsumerValidator_def ex_relay_keeper_def ex_relay_state_def
      ex_relay_entry_def blank_keeper_def blank_pstate_def ex_validator_def keeper_simps ex_ctx_def)

lemma ex_queue: "\<exists>t. QueueVSCPackets ex_relay_keeper (ex_ctx 5) ex_relay_state = Ok t"
proof -
  have b: "GetLastBondedValidators ex_relay_keeper ex_relay_state = Ok [ex_validator]"
    by (simp add: GetLastBondedValidators_def ex_relay_keeper_def)
  have "is_ok (queue_one ex_relay_keeper (ex_ctx 5) 4 [ex_validator] 0 ex_relay_state)"
    by (simp add: queue_one_def ComputeConsumerNextValSet_def ex_create Let_def)
  then obtain u where "queue_one ex_relay_keeper (ex_ctx 5) 4 [ex_validator] 0 ex_relay_state = Ok u" by (auto simp: is_ok_iff)
  moreover have "ValidatorSetUpdateId ex_relay_state = 4" by (simp add: ex_relay_state_def)
  ultimately show ?thesis by (simp add: QueueVSCPackets_def b ex_relay_launched)
qed

subsection \<open>Properties\<close>

text \<open>
  C15. The epoch's packet converges: for every launched consumer exactly one packet is appended,
  under the current update id and with the debt flag, and it takes the consumer to the set the
  provider now stores for it, a snapshot from any set at all, a diff from the set stored
  before. A diff is only sent to a consumer that has acknowledged everything sent to it, with
  nothing left in the queue. Consumers that are not launched are left alone, and the update id
  moves on by one.
\<close>

theorem epoch_packet_converges:
  assumes "QueueVSCPackets k ctx s = Ok t" "staking_laws k (world s)" "valsets_ok s"
    and "c \<in> set (GetAllLaunchedConsumerIds s)" "d \<notin> set (GetAllLaunchedConsumerIds s)"
  shows "(\<exists>p. GetPendingVSCPackets t c = GetPendingVSCPackets s c @ [p] \<and>
       ValsetUpdateId p = ValidatorSetUpdateId s \<and> ConsumerInDebt p = IsConsumerInDebt s c \<and>
       (\<forall>m. IsSnapshot p \<or> m = powers (GetConsumerValSet s c) \<longrightarrow>
          apply_packet p m = powers (GetConsumerValSet t c)) \<and>
       (IsSnapshot p \<or> GetPendingVSCPackets s c = [] \<and>
          GetConsumerHighestSentVscId s c \<le> GetConsumerHighestAckedVscId s c)) \<and>
    GetPendingVSCPackets t d = GetPendingVSCPackets s d \<and> GetConsumerValSet t d = GetConsumerValSet s d \<and>
    ValidatorSetUpdateId t = ValidatorSetUpdateId s + 1 \<and> valsets_ok t"
proof -
  note q = QueueVSCPackets_Ok[OF assms(1-3)]
  obtain p where "queued (ValidatorSetUpdateId s) s c p t" using q(4)[OF assms(4)] by blast
  then show ?thesis
    using q(1,3) q(5)[OF assms(5)] by (auto simp: queued_def untouched_def advances_def intro!: exI[of _ p])
qed

theorem epoch_packet_converges_witness:
  "\<exists>t p. QueueVSCPackets ex_relay_keeper (ex_ctx 5) ex_relay_state = Ok t \<and>
     GetPendingVSCPackets t 0 = [p] \<and> ValsetUpdateId p = 4 \<and> ValidatorSetUpdateId t = 5"
proof -
  obtain t where t: "QueueVSCPackets ex_relay_keeper (ex_ctx 5) ex_relay_state = Ok t" using ex_queue by blast
  have "GetPendingVSCPackets ex_relay_state 0 = []" "ValidatorSetUpdateId ex_relay_state = 4"
    by (simp_all add: GetPendingVSCPackets_def ex_relay_state_def blank_pstate_def)
  then show ?thesis
    using epoch_packet_converges[OF t ex_staking_laws ex_valsets_ok, of 0 1] t
    by (auto simp: ex_relay_launched)
qed

text \<open>
  C22. A send that fails keeps the whole queue: after a failure of the strict send the consumer's
  packets are all still queued, the ones that went out before the failing one included, so a retry
  sends those again; after a success the queue is empty. Either way the stored sets and the
  acknowledged ids are as before, and the highest sent id is the highest that ever went out.
\<close>

theorem failed_send_keeps_the_whole_queue:
  "let (ok, t) = sendVSCPacketsToChainStrict k ctx c clientId s in
     GetPendingVSCPackets t c = (if ok then [] else GetPendingVSCPackets s c) \<and>
     ConsumerValidators t = ConsumerValidators s \<and> ConsumerHighestAckedVscId t = ConsumerHighestAckedVscId s \<and>
     GetConsumerHighestSentVscId s c \<le> GetConsumerHighestSentVscId t c \<and>
     (\<exists>n \<le> length (GetPendingVSCPackets s c).
        GetConsumerHighestSentVscId t c =
          fold max (map ValsetUpdateId (take n (GetPendingVSCPackets s c))) (GetConsumerHighestSentVscId s c))"
proof -
  obtain ok t where r: "sendVSCPacketsToChainStrict k ctx c clientId s = (ok, t)" by force
  obtain n where n: "n \<le> length (GetPendingVSCPackets s c)"
    "GetConsumerHighestSentVscId t c =
        fold max (map ValsetUpdateId (take n (GetPendingVSCPackets s c))) (GetConsumerHighestSentVscId s c)"
    "GetPendingVSCPackets t c = (if ok then [] else GetPendingVSCPackets s c)"
    "ConsumerValidators t = ConsumerValidators s" "ConsumerHighestAckedVscId t = ConsumerHighestAckedVscId s"
    using sendStrict_effect[OF r] by auto
  then show ?thesis unfolding r using fold_max_ge by auto
qed

text \<open>
  C21. The updates the provider hands to its own consensus engine each block lead from the set
  it handed over last to the one built from the bonded validators, which it then remembers.
\<close>

theorem provider_updates_lead_to_the_bonded_set:
  assumes "ProviderValidatorUpdates k s = Ok (us, t)" "GetBondedValidatorsByPower k (world s) = Some bonded"
    and "staking_laws k (world s)" "distinct (map (CmtConsPublicKey k) bonded)"
    and "proper_set (GetLastProviderConsensusValSet s)"
  shows "apply_updates us (powers (GetLastProviderConsensusValSet s)) = powers (GetLastProviderConsensusValSet t) \<and>
    proper_set (GetLastProviderConsensusValSet t) \<and>
    Some ` PublicKey ` set (GetLastProviderConsensusValSet t) = CmtConsPublicKey k ` set bonded"
proof -
  from assms(1,2) obtain vals where us: "us = DiffValidators (GetLastProviderConsensusValSet s) vals"
    and t: "t = SetLastProviderConsensusValSet vals s"
    and l: "list_all2 (\<lambda>val v. CreateProviderConsensusValidator k s val = Ok v) bonded vals"
    by (auto simp: ProviderValidatorUpdates_def Let_def res_simps collect_loop)
  have one: "list_all2 (\<lambda>val v. GetConsAddr k val = Some (ProviderConsAddr v) \<and>
      CmtConsPublicKey k val = Some (PublicKey v)) bonded vals"
    by (rule list_all2_mono[OF l]) (auto simp: CreateProviderConsensusValidator_def res_simps)
  have maps: "map (GetConsAddr k) bonded = map (Some \<circ> ProviderConsAddr) vals"
    "map (CmtConsPublicKey k) bonded = map (Some \<circ> PublicKey) vals"
    using one by (induction rule: list_all2_induct) auto
  have pos: "0 < cv_Power v" if "v \<in> set vals" for v
  proof -
    obtain i where i: "i < length vals" "v = vals ! i" using \<open>v \<in> set vals\<close> by (auto simp: in_set_conv_nth)
    define val where "val = bonded ! i"
    have val: "val \<in> set bonded" "CreateProviderConsensusValidator k s val = Ok v"
      using list_all2_lengthD[OF l] list_all2_nthD2[OF l i(1)] i by (simp_all add: val_def)
    moreover from val(2) obtain a where "ValAddressFromBech32 k (OperatorAddress val) = Some a"
      "GetLastValidatorPower k (world s) a = Some (cv_Power v)"
      by (auto simp: CreateProviderConsensusValidator_def res_simps)
    ultimately show ?thesis using assms(2,3) unfolding staking_laws_def by blast
  qed
  have da: "distinct (map ProviderConsAddr vals)" and dk: "distinct (map PublicKey vals)"
  proof -
    have "distinct (map (Some \<circ> ProviderConsAddr) vals)" "distinct (map (Some \<circ> PublicKey) vals)"
      using assms(2-4) by (simp_all add: maps[symmetric] staking_laws_def)
    then show "distinct (map ProviderConsAddr vals)" "distinct (map PublicKey vals)"
      by (metis distinct_map map_map)+
  qed
  have pv: "proper_set vals" using dk pos by (simp add: proper_set_def)
  note st = SetLast_entries[OF da, of s]
  have dk': "distinct (map PublicKey (GetLastProviderConsensusValSet t))"
    using st dk by (metis distinct_map t)
  have "powers (GetLastProviderConsensusValSet t) = powers vals"
    using powers_set_eq[OF _ dk' dk] st(1) by (simp add: t)
  moreover have "proper_set (GetLastProviderConsensusValSet t)" using dk' pv st(1) by (simp add: proper_set_def t)
  moreover have "Some ` PublicKey ` set (GetLastProviderConsensusValSet t) = CmtConsPublicKey k ` set bonded"
    using arg_cong[OF maps(2), of set] st(1) by (simp add: t image_comp)
  ultimately show ?thesis using diff_correct[OF assms(5) pv] by (simp add: us)
qed

theorem provider_updates_lead_to_the_bonded_set_witness:
  "\<exists>us t. ProviderValidatorUpdates ex_relay_keeper ex_relay_state = Ok (us, t) \<and>
     apply_updates us Map.empty = powers (GetLastProviderConsensusValSet t) \<and>
     Some ` PublicKey ` set (GetLastProviderConsensusValSet t) = {Some [1]}"
proof -
  have k: "GetBondedValidatorsByPower ex_relay_keeper (world ex_relay_state) = Some [ex_validator]"
    "CmtConsPublicKey ex_relay_keeper ex_validator = Some [1]"
    by (simp_all add: ex_relay_keeper_def blank_keeper_def ex_validator_def)
  have e: "GetLastProviderConsensusValSet ex_relay_state = []"
    by (simp add: GetLastProviderConsensusValSet_def ex_relay_state_def blank_pstate_def)
  have "is_ok (CreateProviderConsensusValidator ex_relay_keeper ex_relay_state ex_validator)"
    by (simp add: CreateProviderConsensusValidator_def ex_relay_keeper_def blank_keeper_def)
  then obtain v where "CreateProviderConsensusValidator ex_relay_keeper ex_relay_state ex_validator = Ok v" by (auto simp: is_ok_iff)
  then have "is_ok (ProviderValidatorUpdates ex_relay_keeper ex_relay_state)"
    by (simp add: ProviderValidatorUpdates_def k[simplified] Let_def)
  then obtain us t where r: "ProviderValidatorUpdates ex_relay_keeper ex_relay_state = Ok (us, t)"
    by (metis is_ok_iff surj_pair)
  show ?thesis
    using provider_updates_lead_to_the_bonded_set[OF r k(1) ex_staking_laws] r
    by (auto simp: k e proper_set_def powers_def)
qed

end
