(* ===== verification/Downtime.thy ===== *)
theory Downtime
  imports Fees KeyAssignment
begin

text \<open>
  Consumer-reported downtime (\<^verbatim>\<open>downtime.go\<close>, \<^verbatim>\<open>downtime_slash.go\<close>, the lookups of
  \<^verbatim>\<open>downtime_challenge.go\<close> and the stake computation of \<^verbatim>\<open>consumer_equivocation.go\<close>):
  evidence is accepted behind a challenge window, matured slashes are executed, accepted windows
  are pruned behind a floor. The main result is that no height of a validator on a consumer is
  accepted twice, whatever the order of deliveries, executions and prunings.
\<close>

subsection \<open>Lookups\<close>

definition liveProviderConsAddr :: "'w keeper \<Rightarrow> 'w pstate \<Rightarrow> addr \<Rightarrow> addr" where
  "liveProviderConsAddr k s providerAddr =
     (case GetValidatorByConsAddr k (world s) providerAddr of
        None \<Rightarrow> providerAddr
      | Some validator \<Rightarrow> (case GetConsAddr k validator of None \<Rightarrow> providerAddr | Some a \<Rightarrow> a))"

definition liveConsAddrOf :: "'w keeper \<Rightarrow> StakingValidator \<Rightarrow> addr \<Rightarrow> addr" where
  "liveConsAddrOf k validator fallback =
     (case GetConsAddr k validator of None \<Rightarrow> fallback | Some a \<Rightarrow> a)"

definition accusedConsumerValidatorAddr ::
    "'w keeper \<Rightarrow> 'w pstate \<Rightarrow> consumer_id \<Rightarrow> addr \<Rightarrow> addr \<times> bool" where
  "accusedConsumerValidatorAddr k s c accusedAddr =
     (if IsConsumerValidator s c accusedAddr then (accusedAddr, True)
      else let rotatedAddr = liveProviderConsAddr k s accusedAddr
           in (rotatedAddr, IsConsumerValidator s c rotatedAddr))"

definition on_pair :: "consumer_id \<Rightarrow> addr \<Rightarrow> consumer_id \<times> addr \<times> int \<Rightarrow> bool" where
  "on_pair c p key \<longleftrightarrow> fst key = c \<and> fst (snd key) = p"

definition checkAcceptedDowntimeWindowIntersection ::
    "'w pstate \<Rightarrow> consumer_id \<Rightarrow> addr \<Rightarrow> int \<Rightarrow> int \<Rightarrow> unit result" where
  "checkAcceptedDowntimeWindowIntersection s c providerAddr newStart newEnd =
     (if list_ex (\<lambda>(key, r).
           let retainedStart = WindowStart r; retainedEnd = snd (snd key)
           in newStart \<le> retainedEnd \<and> retainedStart \<le> newEnd)
         (store_range (on_pair c providerAddr) (AcceptedDowntimeWindows s))
      then Err ErrInvalidPacketData else Ok ())"

definition consumerClientTrustingPeriod :: "'w keeper \<Rightarrow> 'w pstate \<Rightarrow> string \<Rightarrow> duration result" where
  "consumerClientTrustingPeriod k s clientId =
     (case GetClientState k (world s) clientId of
        None \<Rightarrow> Err ErrPlain
      | Some OtherClient \<Rightarrow> Err ErrPlain
      | Some (TmClient tm) \<Rightarrow> Ok (tm_TrustingPeriod tm))"

text \<open>
  The iteration of \<^verbatim>\<open>windowEndTimestamp\<close>: remembers the last height at or below the window
  end and stops at the first height at or above it.
\<close>

fun anchor_loop ::
    "int \<Rightarrow> (nat \<times> nat) list \<Rightarrow> (nat \<times> nat) option \<Rightarrow> (nat \<times> nat) option \<times> (nat \<times> nat) option" where
  "anchor_loop windowEnd [] anchor = (anchor, None)"
| "anchor_loop windowEnd (h # hs) anchor =
     (let anchor' = (if int (snd h) \<le> windowEnd then Some h else anchor)
      in if int (snd h) \<ge> windowEnd then (anchor', Some h) else anchor_loop windowEnd hs anchor')"

definition windowEndTimestamp :: "'w keeper \<Rightarrow> 'w pstate \<Rightarrow> string \<Rightarrow> int \<Rightarrow> time result" where
  "windowEndTimestamp k s clientId windowEnd =
     (case anchor_loop windowEnd (ConsensusStateHeights k (world s) clientId) None of
        (_, None) \<Rightarrow> Err ErrPlain
      | (None, Some _) \<Rightarrow> Err ErrPlain
      | (Some anchorHeight, Some _) \<Rightarrow>
          of_option ErrPlain (ConsensusStateTimestamp k (world s) clientId anchorHeight))"

subsection \<open>Acceptance\<close>

definition HandleConsumerDowntime ::
    "'w keeper \<Rightarrow> sdk_ctx \<Rightarrow> consumer_id \<Rightarrow> EvidencePacketData \<Rightarrow> 'w pstate \<Rightarrow> 'w pstate result" where
  "HandleConsumerDowntime k ctx c packet s =
     (let echoedParams = \<lparr>dp_SignedBlocksWindow = ev_SignedBlocksWindow packet,
            dp_MinSignedPerWindow = (case ev_MinSignedPerWindow packet of None \<Rightarrow> 0 | Some m \<Rightarrow> m)\<rparr>;
          consumerAddr = ValidatorAddr packet;
          providerAddr = GetProviderAddrFromConsumerAddr s c consumerAddr;
          (setAddr, inSet) = accusedConsumerValidatorAddr k s c providerAddr;
          ip = InfractionParams s
      in
      guard_res (AcceptableDowntimeParams ctx s echoedParams) ErrInvalidPacketData (
      guard_res (\<not> MissedCount packet \<le> MaxMissed packet) ErrInvalidPacketData (
      guard_res (\<not> WindowEndHeight packet < int (GetEquivocationEvidenceMinHeight s c)) ErrInvalidPacketData (
      guard_res inSet ErrInvalidPacketData (
      bind_res (of_option ErrInvalidConsumerState (GetConsumerClientId s c)) (\<lambda>clientId.
      bind_res (as_error ErrInvalidPacketData
                  (windowEndTimestamp k s clientId (WindowEndHeight packet))) (\<lambda>windowEndTime.
      bind_res
        (if DowntimeGracePeriod ip > 0
         then bind_res (of_option ErrInvalidConsumerState (GetConsumerInitializationParameters s c))
                (\<lambda>initParams.
                 guard_res (\<not> windowEndTime < SpawnTime initParams + DowntimeGracePeriod ip)
                   ErrInvalidPacketData (Ok ()))
         else Ok ()) (\<lambda>_.
      let age = BlockTime ctx - windowEndTime in
      guard_res (\<not> age > DowntimeEvidenceMaxAge ip) ErrInvalidPacketData (
      bind_res (as_error ErrInvalidConsumerState (consumerClientTrustingPeriod k s clientId))
        (\<lambda>trustingPeriod.
      guard_res (\<not> age + DowntimeChallengeWindow ip \<ge> trustingPeriod) ErrInvalidPacketData (
      guard_res (case store_get (DowntimeWindowFloors s) (c, providerAddr) of
                   None \<Rightarrow> True | Some floor \<Rightarrow> \<not> WindowStartHeight packet \<le> floor)
        ErrInvalidPacketData (
      bind_res (checkAcceptedDowntimeWindowIntersection s c providerAddr
                  (WindowStartHeight packet) (WindowEndHeight packet)) (\<lambda>_.
      bind_res (as_error ErrInvalidPacketData
                  (ResolveDowntimeSlashTokens k s c packet windowEndTime)) (\<lambda>slashTokens.
      let s1 = (if ResolveEpochShare s c windowEndTime = None
                then MarkEpochDowntime c setAddr s else s);
          pending = \<lparr>pds_ConsumerId = c, pds_ProviderConsAddr = providerAddr,
            pds_ConsumerConsAddr = consumerAddr, pds_WindowStartHeight = WindowStartHeight packet,
            pds_Span = Span packet, pds_MissedCount = MissedCount packet,
            pds_MissedBlocksBitmap = MissedBlocksBitmap packet, SlashTokens = slashTokens,
            MaturesAt = BlockTime ctx + DowntimeChallengeWindow ip\<rparr>;
          pendingKey = (c, providerAddr, WindowEndHeight packet)
      in Ok (s1\<lparr>PendingDowntimeSlashes := store_set pendingKey pending (PendingDowntimeSlashes s1),
               AcceptedDowntimeWindows := store_set pendingKey
                 \<lparr>WindowStart = WindowStartHeight packet, AcceptedAt = BlockTime ctx\<rparr>
                 (AcceptedDowntimeWindows s1)\<rparr>)))))))))))))))"

definition HandleConsumerEvidencePacket ::
    "'w keeper \<Rightarrow> sdk_ctx \<Rightarrow> consumer_id \<Rightarrow> EvidencePacketData \<Rightarrow> 'w pstate \<Rightarrow> 'w pstate result" where
  "HandleConsumerEvidencePacket k ctx c packet s =
     bind_res (as_error ErrInvalidPacketData (EvidencePacketData_Validate packet)) (\<lambda>_.
     guard_res (GetConsumerPhase s c = CONSUMER_PHASE_LAUNCHED) ErrInvalidConsumerState (
     if ev_Infraction packet = INFRACTION_DOWNTIME then HandleConsumerDowntime k ctx c packet s
     else Err ErrPlain))"

subsection \<open>Execution\<close>

text \<open>
  \<^verbatim>\<open>ComputePowerToSlash\<close> runs the two slashing dry runs in one cached context that is dropped.
\<close>

definition ComputePowerToSlash ::
    "'w keeper \<Rightarrow> 'w \<Rightarrow> StakingValidator \<Rightarrow> nat list \<Rightarrow> nat list \<Rightarrow> int \<Rightarrow> int \<Rightarrow> int" where
  "ComputePowerToSlash k w validator undelegations redelegations lastPower powerReduction =
     (let (undelegationsInTokens, w1) =
            fold (\<lambda>u (n, w). let (m, w') = SlashUnbondingDelegation k w u 0 dec_one in (n + m, w'))
              undelegations (0, w);
          (redelegationsInTokens, _) =
            fold (\<lambda>r (n, w). let (m, w') = SlashRedelegation k w validator r 0 dec_one in (n + m, w'))
              redelegations (0, w1)
      in lastPower + quo (undelegationsInTokens + redelegationsInTokens) powerReduction)"

definition slashableStake :: "'w keeper \<Rightarrow> 'w \<Rightarrow> addr \<Rightarrow> (int \<times> int \<times> addr) result" where
  "slashableStake k w providerAddr =
     bind_res (of_option ErrNoValidatorForAddress (GetValidatorByConsAddr k w providerAddr)) (\<lambda>validator.
     guard_res (\<not> val_Unbonded validator) ErrNoUnbondingDelegation (
     let consAddr = liveConsAddrOf k validator providerAddr in
     guard_res (\<not> IsTombstoned k w consAddr) ErrValidatorTombstoned (
     bind_res (of_option ErrPlain (ValAddressFromBech32 k (OperatorAddress validator))) (\<lambda>valAddr.
     bind_res (of_option ErrPlain (GetUnbondingDelegationsFromValidator k w valAddr)) (\<lambda>undelegations.
     bind_res (of_option ErrPlain (GetRedelegationsFromSrcValidator k w valAddr)) (\<lambda>redelegations.
     bind_res (of_option ErrPlain (GetLastValidatorPower k w valAddr)) (\<lambda>lastPower.
     let powerReduction = PowerReduction k w;
         totalPower = ComputePowerToSlash k w validator undelegations redelegations lastPower powerReduction
     in Ok (totalPower, totalPower * powerReduction, consAddr))))))))"

definition SlashValidator ::
    "'w keeper \<Rightarrow> addr \<Rightarrow> SlashJailParameters \<Rightarrow> Infraction \<Rightarrow> 'w pstate \<Rightarrow> 'w pstate result" where
  "SlashValidator k providerAddr slashingParams infraction s =
     bind_res (slashableStake k (world s) providerAddr) (\<lambda>(totalPower, _, consAddr).
     case SlashWithInfractionReason k (world s) consAddr 0 totalPower (SlashFraction slashingParams) infraction of
       (True, w) \<Rightarrow> Ok (s\<lparr>world := w\<rparr>)
     | (False, _) \<Rightarrow> Err ErrPlain)"

definition executeDowntimeSlash ::
    "'w keeper \<Rightarrow> InfractionParameters \<Rightarrow> (consumer_id \<times> addr \<times> int) \<times> PendingDowntimeSlash
       \<Rightarrow> 'w pstate \<Rightarrow> bool \<times> 'w pstate" where
  "executeDowntimeSlash k ip e s =
     (let providerAddr = fst (snd (fst e)); entry = snd e in
      if SlashTokens entry = 0 then (False, s)
      else case slashableStake k (world s) providerAddr of
        Ok (totalPower, totalTokens, consAddr) \<Rightarrow>
          if totalTokens = 0 then (False, s)
          else let
            fraction0 = DecQuo k (SlashTokens entry * dec_one) (totalTokens * dec_one);
            fraction = (if fraction0 > SlashFraction (Downtime ip)
                        then SlashFraction (Downtime ip) else fraction0);
            (ok, w) = SlashWithInfractionReason k (world s) consAddr 0 totalPower fraction INFRACTION_DOWNTIME
          in (ok, s\<lparr>world := w\<rparr>)
      | _ \<Rightarrow> (False, s))"

definition hasPendingDowntimeSlash :: "'w pstate \<Rightarrow> consumer_id \<Rightarrow> addr \<Rightarrow> bool" where
  "hasPendingDowntimeSlash s c p = (store_range (on_pair c p) (PendingDowntimeSlashes s) \<noteq> [])"

definition execute_matured ::
    "'w keeper \<Rightarrow> InfractionParameters \<Rightarrow> (consumer_id \<times> addr \<times> int) \<times> PendingDowntimeSlash
       \<Rightarrow> (consumer_id \<times> addr) list \<times> 'w pstate \<Rightarrow> (consumer_id \<times> addr) list \<times> 'w pstate" where
  "execute_matured k ip e acc =
     (let (executed, s) = acc; (executedNow, s') = executeDowntimeSlash k ip e s;
          pk = (fst (fst e), fst (snd (fst e)))
      in (if executedNow then pk # executed else executed, s'))"

definition SweepPendingDowntimeSlashes :: "'w keeper \<Rightarrow> sdk_ctx \<Rightarrow> 'w pstate \<Rightarrow> 'w pstate" where
  "SweepPendingDowntimeSlashes k ctx s =
     (let ip = InfractionParams s;
          matured = filter (\<lambda>e. \<not> MaturesAt (snd e) > BlockTime ctx) (entries (PendingDowntimeSlashes s));
          touchedPairs = remdups (map (\<lambda>e. (fst (fst e), fst (snd (fst e)))) matured);
          (executedPairs, s1) = fold (execute_matured k ip) matured ([], s);
          s2 = s1\<lparr>PendingDowntimeSlashes := fold store_remove (map fst matured) (PendingDowntimeSlashes s1)\<rparr>
      in fold (\<lambda>pk s.
           if pk \<notin> set executedPairs then s
           else if hasPendingDowntimeSlash s (fst pk) (snd pk) then s
           else s\<lparr>WithheldFeeRecords := store_remove pk (WithheldFeeRecords s)\<rparr>)
         touchedPairs s2)"

subsection \<open>Pruning of accepted windows\<close>

definition lowestAcceptedWindowEnd :: "'w pstate \<Rightarrow> consumer_id \<Rightarrow> addr \<Rightarrow> int option" where
  "lowestAcceptedWindowEnd s c p =
     (case store_range (on_pair c p) (AcceptedDowntimeWindows s) of
        [] \<Rightarrow> None | e # _ \<Rightarrow> Some (snd (snd (fst e))))"

definition prune_window :: "consumer_id \<times> addr \<times> int \<Rightarrow> 'w pstate \<Rightarrow> 'w pstate" where
  "prune_window key s =
     (let (c, p, windowEnd) = key in
      if (case lowestAcceptedWindowEnd s c p of None \<Rightarrow> False | Some lowestEnd \<Rightarrow> lowestEnd < windowEnd) then s
      else let
        s1 = (case store_get (DowntimeWindowFloors s) (c, p) of
                Some floor \<Rightarrow> if windowEnd > floor
                  then s\<lparr>DowntimeWindowFloors := store_set (c, p) windowEnd (DowntimeWindowFloors s)\<rparr> else s
              | None \<Rightarrow> s\<lparr>DowntimeWindowFloors := store_set (c, p) windowEnd (DowntimeWindowFloors s)\<rparr>)
      in s1\<lparr>AcceptedDowntimeWindows := store_remove key (AcceptedDowntimeWindows s1)\<rparr>)"

definition PruneAcceptedDowntimeWindows ::
    "sdk_ctx \<Rightarrow> InfractionParameters \<Rightarrow> 'w pstate \<Rightarrow> 'w pstate" where
  "PruneAcceptedDowntimeWindows ctx ip s =
     (let horizon = DowntimeChallengeWindow ip + DowntimeEvidenceMaxAge ip;
          prunedKeys = map fst (filter (\<lambda>e.
              \<not> BlockTime ctx - AcceptedAt (snd e) \<le> horizon \<and>
              \<not> store_has (PendingDowntimeSlashes s) (fst e)) (entries (AcceptedDowntimeWindows s)))
      in fold prune_window prunedKeys s)"

text \<open>
  Every pending slash and downtime mark of a consumer is cancelled when it is paused, stopped
  or deleted; the acceptance bookkeeping survives.
\<close>

definition CancelConsumerDowntimeState :: "consumer_id \<Rightarrow> 'w pstate \<Rightarrow> 'w pstate" where
  "CancelConsumerDowntimeState c s =
     s\<lparr>PendingDowntimeSlashes := store_drop (\<lambda>key. fst key = c) (PendingDowntimeSlashes s),
       EpochDowntime := store_drop (\<lambda>key. fst key = c) (EpochDowntime s)\<rparr>"

subsection \<open>The slash a challenge disputes\<close>

definition covers_height :: "int \<Rightarrow> PendingDowntimeSlash \<Rightarrow> bool" where
  "covers_height claimedHeight v \<longleftrightarrow>
     claimedHeight \<ge> pds_WindowStartHeight v \<and> claimedHeight < pds_WindowStartHeight v + pds_Span v"

definition findPendingDowntimeSlashUnderProviderAddr ::
    "'w pstate \<Rightarrow> consumer_id \<Rightarrow> addr \<Rightarrow> int \<Rightarrow> PendingDowntimeSlash option" where
  "findPendingDowntimeSlashUnderProviderAddr s c p claimedHeight =
     find (covers_height claimedHeight) (map snd (store_range (on_pair c p) (PendingDowntimeSlashes s)))"

definition findPendingDowntimeSlashContaining ::
    "'w pstate \<Rightarrow> consumer_id \<Rightarrow> addr \<Rightarrow> int \<Rightarrow> PendingDowntimeSlash option" where
  "findPendingDowntimeSlashContaining s c consumerAddr claimedHeight =
     (case findPendingDowntimeSlashUnderProviderAddr s c
             (GetProviderAddrFromConsumerAddr s c consumerAddr) claimedHeight of
        Some pending \<Rightarrow> Some pending
      | None \<Rightarrow> find (\<lambda>v. pds_ConsumerConsAddr v = consumerAddr \<and> covers_height claimedHeight v)
                  (map snd (store_range (\<lambda>key. fst key = c) (PendingDowntimeSlashes s))))"

subsection \<open>What acceptance establishes\<close>

lemma found_member: "find P xs = Some x \<Longrightarrow> P x \<and> x \<in> set xs"
  by (induction xs) (auto split: if_splits)

lemma intersection_ok:
  "checkAcceptedDowntimeWindowIntersection s c p st en = Ok () \<longleftrightarrow>
     (\<forall>re r. store_get (AcceptedDowntimeWindows s) (c, p, re) = Some r \<longrightarrow> re < st \<or> en < WindowStart r)"
proof -
  have "list_ex (\<lambda>(key, r). let retainedStart = WindowStart r; retainedEnd = snd (snd key)
           in st \<le> retainedEnd \<and> retainedStart \<le> en)
         (store_range (on_pair c p) (AcceptedDowntimeWindows s)) \<longleftrightarrow>
     (\<exists>re r. store_get (AcceptedDowntimeWindows s) (c, p, re) = Some r \<and> st \<le> re \<and> WindowStart r \<le> en)"
    by (auto simp: list_ex_iff Let_def mem_store_range on_pair_def Bex_def)
  then show ?thesis
    unfolding checkAcceptedDowntimeWindowIntersection_def by (simp add: not_less[symmetric] del: not_less)
qed

definition pending_of :: "sdk_ctx \<Rightarrow> consumer_id \<Rightarrow> addr \<Rightarrow> EvidencePacketData \<Rightarrow> int \<Rightarrow> InfractionParameters
    \<Rightarrow> PendingDowntimeSlash" where
  "pending_of ctx c p packet tokens ip =
     \<lparr>pds_ConsumerId = c, pds_ProviderConsAddr = p,
      pds_ConsumerConsAddr = ValidatorAddr packet, pds_WindowStartHeight = WindowStartHeight packet,
      pds_Span = Span packet, pds_MissedCount = MissedCount packet,
      pds_MissedBlocksBitmap = MissedBlocksBitmap packet, SlashTokens = tokens,
      MaturesAt = BlockTime ctx + DowntimeChallengeWindow ip\<rparr>"

lemma HandleConsumerDowntime_Ok:
  assumes "HandleConsumerDowntime k ctx c packet s = Ok t"
  obtains clientId wet tokens trusting setAddr where
    "GetConsumerClientId s c = Some clientId"
    "windowEndTimestamp k s clientId (WindowEndHeight packet) = Ok wet"
    "consumerClientTrustingPeriod k s clientId = Ok trusting"
    "MaxMissed packet < MissedCount packet"
    "BlockTime ctx - wet \<le> DowntimeEvidenceMaxAge (InfractionParams s)"
    "BlockTime ctx - wet + DowntimeChallengeWindow (InfractionParams s) < trusting"
    "\<And>f. store_get (DowntimeWindowFloors s) (c, GetProviderAddrFromConsumerAddr s c (ValidatorAddr packet)) = Some f
        \<Longrightarrow> f < WindowStartHeight packet"
    "checkAcceptedDowntimeWindowIntersection s c (GetProviderAddrFromConsumerAddr s c (ValidatorAddr packet))
       (WindowStartHeight packet) (WindowEndHeight packet) = Ok ()"
    "IsConsumerValidator s c setAddr"
    "ResolveDowntimeSlashTokens k s c packet wet = Ok tokens"
    "t = (if ResolveEpochShare s c wet = None then MarkEpochDowntime c setAddr s else s)
      \<lparr>PendingDowntimeSlashes := store_set
         (c, GetProviderAddrFromConsumerAddr s c (ValidatorAddr packet), WindowEndHeight packet)
         (pending_of ctx c (GetProviderAddrFromConsumerAddr s c (ValidatorAddr packet)) packet tokens (InfractionParams s))
         (PendingDowntimeSlashes s),
       AcceptedDowntimeWindows := store_set
         (c, GetProviderAddrFromConsumerAddr s c (ValidatorAddr packet), WindowEndHeight packet)
         \<lparr>WindowStart = WindowStartHeight packet, AcceptedAt = BlockTime ctx\<rparr> (AcceptedDowntimeWindows s)\<rparr>"
proof -
  let ?p = "GetProviderAddrFromConsumerAddr s c (ValidatorAddr packet)"
  obtain setAddr inSet where acc: "accusedConsumerValidatorAddr k s c ?p = (setAddr, inSet)" by fastforce
  have inset: "inSet \<Longrightarrow> IsConsumerValidator s c setAddr"
    using acc by (auto simp: accusedConsumerValidatorAddr_def Let_def split: if_splits)
  from assms show thesis
    unfolding HandleConsumerDowntime_def
    apply (simp only: Let_def acc split_conv res_simps)
    apply (elim exE conjE)
    subgoal for clientId wet u trusting v tokens
      by (rule that[of clientId wet trusting setAddr tokens])
        (auto simp: inset pending_of_def not_le not_less MarkEpochDowntime_def)
    done
qed

subsection \<open>Accepted windows are disjoint and lie above the floor\<close>

definition windows_ok :: "'w pstate \<Rightarrow> bool" where
  "windows_ok s \<longleftrightarrow>
     (\<forall>c p en r. store_get (AcceptedDowntimeWindows s) (c, p, en) = Some r \<longrightarrow>
        WindowStart r \<le> en \<and>
        (\<forall>f. store_get (DowntimeWindowFloors s) (c, p) = Some f \<longrightarrow> f < WindowStart r) \<and>
        (\<forall>en' r'. store_get (AcceptedDowntimeWindows s) (c, p, en') = Some r' \<longrightarrow> en' < en \<longrightarrow>
           en' < WindowStart r))"

lemma windows_ok_cong:
  "AcceptedDowntimeWindows t = AcceptedDowntimeWindows s \<Longrightarrow> DowntimeWindowFloors t = DowntimeWindowFloors s
     \<Longrightarrow> windows_ok t = windows_ok s"
  by (simp add: windows_ok_def)

lemma range_pair_least:
  fixes m :: "(consumer_id \<times> addr \<times> int, 'v) store"
  assumes "store_range (on_pair c p) m = e # es"
  shows "\<exists>en v. e = ((c, p, en), v) \<and> store_get m (c, p, en) = Some v \<and>
    (\<forall>en'. store_has m (c, p, en') \<longrightarrow> en \<le> en')"
proof -
  have asc: "ascending (e # es)"
    using ascending_filter[OF kv.iter_ascending[of m]] assms by (metis store_range_def)
  have mem: "((c', p', en), v) \<in> set (e # es) \<longleftrightarrow> c' = c \<and> p' = p \<and> store_get m (c', p', en) = Some v" for c' p' en v
    unfolding assms[symmetric] by (auto simp: mem_store_range on_pair_def)
  obtain en v where e: "e = ((c, p, en), v)" "store_get m (c, p, en) = Some v"
    using mem by (metis list.set_intros(1) surj_pair)
  have "en \<le> en'" if "store_has m (c, p, en')" for en'
  proof -
    from that obtain v' where "((c, p, en'), v') \<in> set (e # es)" unfolding mem by (auto simp: store_has_def)
    then show ?thesis using asc e by (auto simp: less_imp_le)
  qed
  then show ?thesis using e by blast
qed

lemma lowestAcceptedWindowEnd_le:
  assumes "store_has (AcceptedDowntimeWindows s) (c, p, en)"
  shows "\<exists>lo. lowestAcceptedWindowEnd s c p = Some lo \<and> lo \<le> en"
proof (cases "store_range (on_pair c p) (AcceptedDowntimeWindows s)")
  case Nil
  then have "(c, p, en) \<notin> set (map fst (store_range (on_pair c p) (AcceptedDowntimeWindows s)))" by simp
  then show ?thesis using assms by (simp only: range_keys on_pair_def) simp
next
  case (Cons e es)
  then show ?thesis
    using range_pair_least[OF Cons] assms by (auto simp: lowestAcceptedWindowEnd_def)
qed

lemma lowestAcceptedWindowEnd_least:
  assumes "lowestAcceptedWindowEnd s c p = Some lo" "store_has (AcceptedDowntimeWindows s) (c, p, en)"
  shows "lo \<le> en"
  using lowestAcceptedWindowEnd_le[OF assms(2)] assms(1) by simp

text \<open>What one pruning step does: nothing, or it raises the floor to the end of the lowest window and drops it.\<close>

lemma prune_window_cases [consumes 2, case_names kept pruned]:
  assumes "windows_ok s" "store_has (AcceptedDowntimeWindows s) (c, p, en)"
  obtains (kept) "prune_window (c, p, en) s = s"
  | (pruned) r where "store_get (AcceptedDowntimeWindows s) (c, p, en) = Some r"
      "\<And>en'. store_has (AcceptedDowntimeWindows s) (c, p, en') \<Longrightarrow> en \<le> en'"
      "prune_window (c, p, en) s =
         s\<lparr>DowntimeWindowFloors := store_set (c, p) en (DowntimeWindowFloors s),
           AcceptedDowntimeWindows := store_remove (c, p, en) (AcceptedDowntimeWindows s)\<rparr>"
proof -
  from assms(2) obtain r where Some: "store_get (AcceptedDowntimeWindows s) (c, p, en) = Some r"
    by (auto simp: store_has_def)
  obtain lo where lo: "lowestAcceptedWindowEnd s c p = Some lo" "lo \<le> en"
    using lowestAcceptedWindowEnd_le[OF assms(2)] by blast
  show thesis
  proof (cases "lo < en")
    case True
    then show thesis using kept lo by (simp add: prune_window_def)
  next
    case False
    then have least: "\<And>en'. store_has (AcceptedDowntimeWindows s) (c, p, en') \<Longrightarrow> en \<le> en'"
      using lo lowestAcceptedWindowEnd_least[OF lo(1)] by fastforce
    have "f < en" if "store_get (DowntimeWindowFloors s) (c, p) = Some f" for f
      using assms(1) Some that unfolding windows_ok_def by fastforce
    then have "prune_window (c, p, en) s =
         s\<lparr>DowntimeWindowFloors := store_set (c, p) en (DowntimeWindowFloors s),
           AcceptedDowntimeWindows := store_remove (c, p, en) (AcceptedDowntimeWindows s)\<rparr>"
      using False lo by (auto simp: prune_window_def Let_def split: option.splits)
    with Some least show thesis by (rule pruned)
  qed
qed

text \<open>
  A window is remembered while its record is retained or the floor of its pair has reached its end.
\<close>

definition remembered :: "'w pstate \<Rightarrow> consumer_id \<times> addr \<times> int \<times> int \<Rightarrow> bool" where
  "remembered s win \<longleftrightarrow> (case win of (c, p, st, en) \<Rightarrow>
     (\<exists>r. store_get (AcceptedDowntimeWindows s) (c, p, en) = Some r \<and> WindowStart r = st) \<or>
     (\<exists>f. store_get (DowntimeWindowFloors s) (c, p) = Some f \<and> en \<le> f))"

lemma prune_window_ok:
  assumes "windows_ok s" "store_has (AcceptedDowntimeWindows s) (c, p, en)"
  shows "windows_ok (prune_window (c, p, en) s)"
  using assms
proof (cases rule: prune_window_cases)
  case (pruned r)
  show ?thesis
    unfolding windows_ok_def
  proof (intro allI impI conjI)
    fix c' p' en' r' assume g: "store_get (AcceptedDowntimeWindows (prune_window (c, p, en) s)) (c', p', en') = Some r'"
    then have g': "store_get (AcceptedDowntimeWindows s) (c', p', en') = Some r'" "(c', p', en') \<noteq> (c, p, en)"
      using pruned(3) by (auto split: if_splits)
    then show "WindowStart r' \<le> en'" using assms(1) by (auto simp: windows_ok_def)
    have above: "c' = c \<Longrightarrow> p' = p \<Longrightarrow> en < WindowStart r'"
      using g' pruned(1,2) assms(1) unfolding windows_ok_def
      by (metis option.distinct(1) order_le_imp_less_or_eq store_has_def)
    show "f < WindowStart r'" if "store_get (DowntimeWindowFloors (prune_window (c, p, en) s)) (c', p') = Some f" for f
      using that above g' assms(1) pruned(3) by (auto simp: windows_ok_def split: if_splits)
    show "en'' < WindowStart r'"
      if "store_get (AcceptedDowntimeWindows (prune_window (c, p, en) s)) (c', p', en'') = Some r''" "en'' < en'" for en'' r''
      using that g' assms(1) pruned(3) unfolding windows_ok_def by (auto split: if_splits)
  qed
qed (use assms in simp)

lemma prune_window_remembers:
  assumes "windows_ok s" "store_has (AcceptedDowntimeWindows s) (c, p, en)" "remembered s win"
  shows "remembered (prune_window (c, p, en) s) win"
  using assms(1,2)
proof (cases rule: prune_window_cases)
  case (pruned r)
  obtain c' p' st' en' where win: "win = (c', p', st', en')" by (metis surj_pair)
  have floor: "f < en" if "store_get (DowntimeWindowFloors s) (c, p) = Some f" for f
    using assms(1) pruned(1) that unfolding windows_ok_def by fastforce
  show ?thesis
  proof (cases "c' = c \<and> p' = p")
    case True
    then show ?thesis
      using assms(3) floor unfolding remembered_def win pruned(3)
      by (cases "en' = en") (auto simp: less_imp_le dest: order_trans)
  next
    case False
    then show ?thesis using assms(3) unfolding remembered_def win pruned(3) by auto
  qed
qed (use assms in simp)

lemma prune_window_has:
  assumes "windows_ok s" "store_has (AcceptedDowntimeWindows s) (c, p, en)"
    and "store_has (AcceptedDowntimeWindows s) key" "key \<noteq> (c, p, en)"
  shows "store_has (AcceptedDowntimeWindows (prune_window (c, p, en) s)) key"
  using assms(1,2) by (cases rule: prune_window_cases) (use assms in simp_all)

lemma fold_prune_window:
  assumes "windows_ok s" "distinct keys" "\<And>key. key \<in> set keys \<Longrightarrow> store_has (AcceptedDowntimeWindows s) key"
  shows "windows_ok (fold prune_window keys s) \<and> (remembered s win \<longrightarrow> remembered (fold prune_window keys s) win)"
  using assms
proof (induction keys arbitrary: s)
  case Nil
  then show ?case by simp
next
  case (Cons key keys)
  obtain c p en where key: "key = (c, p, en)" by (metis surj_pair)
  have has: "store_has (AcceptedDowntimeWindows s) (c, p, en)" using Cons.prems(3)[of key] key by simp
  have "store_has (AcceptedDowntimeWindows (prune_window key s)) k" if "k \<in> set keys" for k
  proof -
    have "k \<noteq> (c, p, en)" "store_has (AcceptedDowntimeWindows s) k" using Cons.prems(2,3) that key by auto
    then show ?thesis unfolding key by (intro prune_window_has[OF Cons.prems(1) has])
  qed
  then have "windows_ok (fold prune_window keys (prune_window key s)) \<and>
      (remembered (prune_window key s) win \<longrightarrow> remembered (fold prune_window keys (prune_window key s)) win)"
    using Cons.IH[of "prune_window key s"] prune_window_ok[OF Cons.prems(1) has] Cons.prems(2) key by simp
  then show ?case using prune_window_remembers[OF Cons.prems(1) has] key by simp
qed

lemma PruneAcceptedDowntimeWindows_ok:
  assumes "windows_ok s"
  shows "windows_ok (PruneAcceptedDowntimeWindows ctx ip s)"
    and "remembered s win \<Longrightarrow> remembered (PruneAcceptedDowntimeWindows ctx ip s) win"
proof -
  define P where "P = (\<lambda>e :: (consumer_id \<times> addr \<times> int) \<times> AcceptedDowntimeWindow. \<not> BlockTime ctx - AcceptedAt (snd e) \<le> DowntimeChallengeWindow ip + DowntimeEvidenceMaxAge ip \<and>
      \<not> store_has (PendingDowntimeSlashes s) (fst e))"
  define keys where "keys = map fst (filter P (entries (AcceptedDowntimeWindows s)))"
  have run: "PruneAcceptedDowntimeWindows ctx ip s = fold prune_window keys s"
    by (simp add: PruneAcceptedDowntimeWindows_def keys_def P_def Let_def)
  have "distinct keys"
    unfolding keys_def by (intro distinct_map_filter kv.iter_distinct)
  moreover have "store_has (AcceptedDowntimeWindows s) key" if "key \<in> set keys" for key
    using that by (auto simp: keys_def store_has_def kv.iter_mem)
  ultimately have "windows_ok (fold prune_window keys s) \<and> (remembered s win \<longrightarrow> remembered (fold prune_window keys s) win)"
    for win using fold_prune_window[OF assms] by blast
  then show "windows_ok (PruneAcceptedDowntimeWindows ctx ip s)"
    "remembered s win \<Longrightarrow> remembered (PruneAcceptedDowntimeWindows ctx ip s) win"
    unfolding run by blast+
qed

text \<open>Acceptance: the new window is disjoint from everything remembered, and is itself remembered.\<close>

definition window_of :: "'w pstate \<Rightarrow> consumer_id \<Rightarrow> EvidencePacketData \<Rightarrow> consumer_id \<times> addr \<times> int \<times> int" where
  "window_of s c packet = (c, GetProviderAddrFromConsumerAddr s c (ValidatorAddr packet),
     WindowStartHeight packet, WindowEndHeight packet)"

definition disjoint_windows :: "consumer_id \<times> addr \<times> int \<times> int \<Rightarrow> consumer_id \<times> addr \<times> int \<times> int \<Rightarrow> bool" where
  "disjoint_windows v w \<longleftrightarrow> (case (v, w) of ((c, p, st, en), (c', p', st', en')) \<Rightarrow>
     c = c' \<and> p = p' \<longrightarrow> {st..en} \<inter> {st'..en'} = {})"

lemma HandleConsumerEvidencePacket_Ok:
  assumes "HandleConsumerEvidencePacket k ctx c packet s = Ok t"
  shows "HandleConsumerDowntime k ctx c packet s = Ok t" "EvidencePacketData_Validate packet = Ok ()"
    "GetConsumerPhase s c = CONSUMER_PHASE_LAUNCHED" "WindowStartHeight packet \<le> WindowEndHeight packet"
  using assms
  by (auto simp: HandleConsumerEvidencePacket_def EvidencePacketData_Validate_def res_simps split: if_splits)

lemma acceptance_frame:
  assumes "HandleConsumerDowntime k ctx c packet s = Ok t"
  shows "AcceptedDowntimeWindows t = store_set (c, GetProviderAddrFromConsumerAddr s c (ValidatorAddr packet), WindowEndHeight packet)
         \<lparr>WindowStart = WindowStartHeight packet, AcceptedAt = BlockTime ctx\<rparr> (AcceptedDowntimeWindows s)"
    and "DowntimeWindowFloors t = DowntimeWindowFloors s"
    and "world t = world s" "WithheldFeeRecords t = WithheldFeeRecords s" "phase_of t = phase_of s"
  using assms by (rule HandleConsumerDowntime_Ok; simp add: MarkEpochDowntime_def)+

lemma acceptance_disjoint:
  assumes "HandleConsumerEvidencePacket k ctx c packet s = Ok t" "remembered s win"
  shows "disjoint_windows (window_of s c packet) win"
proof -
  obtain c' p' st' en' where win: "win = (c', p', st', en')" by (metis surj_pair)
  show ?thesis
    using HandleConsumerEvidencePacket_Ok(1)[OF assms(1)]
  proof (rule HandleConsumerDowntime_Ok)
    let ?p = "GetProviderAddrFromConsumerAddr s c (ValidatorAddr packet)"
    assume fl: "\<And>f. store_get (DowntimeWindowFloors s) (c, ?p) = Some f \<Longrightarrow> f < WindowStartHeight packet"
      and ck: "checkAcceptedDowntimeWindowIntersection s c ?p (WindowStartHeight packet) (WindowEndHeight packet) = Ok ()"
    show ?thesis
    proof (cases "c' = c \<and> p' = ?p")
      case True
      then have "en' < WindowStartHeight packet \<or> WindowEndHeight packet < st'"
        using assms(2) fl ck unfolding remembered_def win intersection_ok by fastforce
      then show ?thesis by (auto simp: disjoint_windows_def window_of_def win)
    qed (auto simp: disjoint_windows_def window_of_def win)
  qed
qed

lemma acceptance_fresh:
  assumes "HandleConsumerEvidencePacket k ctx c packet s = Ok t" "windows_ok s"
    and "store_get (AcceptedDowntimeWindows s) (c, GetProviderAddrFromConsumerAddr s c (ValidatorAddr packet), en) = Some r"
  shows "en < WindowStartHeight packet \<or> WindowEndHeight packet < WindowStart r" "en \<noteq> WindowEndHeight packet"
proof -
  show dis: "en < WindowStartHeight packet \<or> WindowEndHeight packet < WindowStart r"
    using HandleConsumerEvidencePacket_Ok(1)[OF assms(1)]
    by (rule HandleConsumerDowntime_Ok) (use assms(3) in \<open>simp add: intersection_ok\<close>)
  have "WindowStart r \<le> en" using assms(2,3) by (auto simp: windows_ok_def)
  then show "en \<noteq> WindowEndHeight packet"
    using dis HandleConsumerEvidencePacket_Ok(4)[OF assms(1)] by linarith
qed

lemma acceptance_remembers:
  assumes "HandleConsumerEvidencePacket k ctx c packet s = Ok t" "windows_ok s"
  shows "remembered t (window_of s c packet)"
    and "remembered s win \<Longrightarrow> remembered t win"
proof -
  note fr = acceptance_frame[OF HandleConsumerEvidencePacket_Ok(1)[OF assms(1)]]
  show "remembered t (window_of s c packet)" by (simp add: remembered_def window_of_def fr)
  assume r: "remembered s win"
  obtain c' p' st' en' where win: "win = (c', p', st', en')" by (metis surj_pair)
  have "(c', p', en') \<noteq> (c, GetProviderAddrFromConsumerAddr s c (ValidatorAddr packet), WindowEndHeight packet)"
    if "store_get (AcceptedDowntimeWindows s) (c', p', en') = Some rec" for rec
    using acceptance_fresh(2)[OF assms, of en' rec] that by auto
  then show "remembered t win"
    using r unfolding remembered_def win fr by fastforce
qed

lemma acceptance_windows_ok:
  assumes "HandleConsumerEvidencePacket k ctx c packet s = Ok t" "windows_ok s"
  shows "windows_ok t"
proof -
  note fr = acceptance_frame[OF HandleConsumerEvidencePacket_Ok(1)[OF assms(1)]]
  let ?p = "GetProviderAddrFromConsumerAddr s c (ValidatorAddr packet)"
  have le: "WindowStartHeight packet \<le> WindowEndHeight packet"
    by (rule HandleConsumerEvidencePacket_Ok(4)[OF assms(1)])
  have fl: "f < WindowStartHeight packet" if "store_get (DowntimeWindowFloors s) (c, ?p) = Some f" for f
    using HandleConsumerEvidencePacket_Ok(1)[OF assms(1)]
    by (rule HandleConsumerDowntime_Ok) (use that in blast)
  show ?thesis
    unfolding windows_ok_def
  proof (intro allI impI conjI)
    fix c' p' en r assume g: "store_get (AcceptedDowntimeWindows t) (c', p', en) = Some r"
    show "WindowStart r \<le> en" using g le assms(2) by (auto simp: fr windows_ok_def split: if_splits)
    show "f < WindowStart r" if "store_get (DowntimeWindowFloors t) (c', p') = Some f" for f
      using g fl that assms(2) by (auto simp: fr windows_ok_def split: if_splits)
    show "en' < WindowStart r" if g': "store_get (AcceptedDowntimeWindows t) (c', p', en') = Some r'" and lt: "en' < en" for en' r'
    proof (cases "(c', p') = (c, ?p)")
      case True
      have "WindowStart r' \<le> en'" using g' le assms(2) by (auto simp: fr windows_ok_def split: if_splits)
      then have new: "en = WindowEndHeight packet \<Longrightarrow> en' < WindowStartHeight packet"
        using acceptance_fresh(1)[OF assms, of en' r'] g' lt True by (auto simp: fr split: if_splits)
      have old: "en \<noteq> WindowEndHeight packet \<Longrightarrow> en' = WindowEndHeight packet \<Longrightarrow> en' < WindowStart r"
        using acceptance_fresh(1)[OF assms, of en r] g lt le True by (auto simp: fr)
      have "WindowStart r = WindowStartHeight packet" if "en = WindowEndHeight packet"
        using g that True by (auto simp: fr)
      then show ?thesis
        using new old g g' lt True assms(2) by (auto simp: fr windows_ok_def split: if_splits)
    next
      case False
      then show ?thesis using g g' lt assms(2) by (auto simp: fr windows_ok_def)
    qed
  qed
qed

subsection \<open>Execution leaves the acceptance bookkeeping alone\<close>

text \<open>
  What the execution of one queued slash means for the staking module: nothing, where the slash is of no
  tokens or the validator has no slashable stake, and otherwise one call for the infraction
  \<^verbatim>\<open>DOWNTIME\<close>, on all its stake, with the share the slash's tokens have in that stake, at most
  the downtime parameters' fraction. The flag says whether the staking module accepted the slash.
\<close>

definition downtime_slash_effect ::
    "'w keeper \<Rightarrow> InfractionParameters \<Rightarrow> (consumer_id \<times> addr \<times> int) \<times> PendingDowntimeSlash \<Rightarrow> 'w \<Rightarrow> bool \<times> 'w" where
  "downtime_slash_effect k ip e w =
     (case slashableStake k w (fst (snd (fst e))) of
        Ok (totalPower, totalTokens, consAddr) \<Rightarrow>
          if SlashTokens (snd e) = 0 \<or> totalTokens = 0 then (False, w)
          else SlashWithInfractionReason k w consAddr 0 totalPower
                 (min (SlashFraction (Downtime ip)) (DecQuo k (SlashTokens (snd e) * dec_one) (totalTokens * dec_one)))
                 INFRACTION_DOWNTIME
      | _ \<Rightarrow> (False, w))"

text \<open>The slashes of a list, one after the other: the pairs that were slashed, and what staking makes of it.\<close>

fun downtime_slash_effects ::
    "'w keeper \<Rightarrow> InfractionParameters \<Rightarrow> ((consumer_id \<times> addr \<times> int) \<times> PendingDowntimeSlash) list \<Rightarrow> 'w
       \<Rightarrow> (consumer_id \<times> addr) set \<times> 'w" where
  "downtime_slash_effects k ip [] w = ({}, w)"
| "downtime_slash_effects k ip (((c, p, en), v) # es) w =
     (let (accepted, w1) = downtime_slash_effect k ip ((c, p, en), v) w;
          (slashed, w2) = downtime_slash_effects k ip es w1
      in (if accepted then insert (c, p) slashed else slashed, w2))"

lemma executeDowntimeSlash_effect:
  "executeDowntimeSlash k ip e s = (let (ok, w) = downtime_slash_effect k ip e (world s) in (ok, s\<lparr>world := w\<rparr>))"
  by (simp add: executeDowntimeSlash_def downtime_slash_effect_def Let_def min_def not_le split: res.splits prod.splits)

lemma execute_all_effects:
  "fold (execute_matured k ip) es (xs, s) = (ys, t) \<Longrightarrow>
     t = s\<lparr>world := snd (downtime_slash_effects k ip es (world s))\<rparr> \<and>
     set ys = set xs \<union> fst (downtime_slash_effects k ip es (world s))"
proof (induction es arbitrary: xs s)
  case (Cons e es)
  obtain c p en v where e: "e = ((c, p, en), v)" by (metis surj_pair)
  obtain ok w where eff: "downtime_slash_effect k ip e (world s) = (ok, w)" by force
  have "execute_matured k ip e (xs, s) = (if ok then (c, p) # xs else xs, s\<lparr>world := w\<rparr>)"
    using eff by (simp add: execute_matured_def executeDowntimeSlash_effect e)
  then have "t = s\<lparr>world := w, world := snd (downtime_slash_effects k ip es w)\<rparr> \<and>
      set ys = set (if ok then (c, p) # xs else xs) \<union> fst (downtime_slash_effects k ip es w)"
    using Cons.IH[of _ "s\<lparr>world := w\<rparr>"] Cons.prems by simp
  then show ?case using eff by (auto simp: e split: prod.splits)
qed simp

lemma has_pending_withheld: "hasPendingDowntimeSlash (s\<lparr>WithheldFeeRecords := x\<rparr>) c p = hasPendingDowntimeSlash s c p"
  by (simp add: hasPendingDowntimeSlash_def)

lemma drop_withheld:
  "\<exists>m. fold (\<lambda>pk s. if pk \<notin> E then s else if hasPendingDowntimeSlash s (fst pk) (snd pk) then s
      else s\<lparr>WithheldFeeRecords := store_remove pk (WithheldFeeRecords s)\<rparr>) pks s = s\<lparr>WithheldFeeRecords := m\<rparr> \<and>
    (\<forall>c p. store_get m (c, p) = (if (c, p) \<in> set pks \<and> (c, p) \<in> E \<and> \<not> hasPendingDowntimeSlash s c p then None
       else store_get (WithheldFeeRecords s) (c, p)))"
proof (induction pks arbitrary: s)
  case Nil
  show ?case by (rule exI[of _ "WithheldFeeRecords s"]) simp
next
  case (Cons pk pks)
  obtain d r where pk: "pk = (d, r)" by force
  show ?case
  proof (cases "(d, r) \<notin> E \<or> hasPendingDowntimeSlash s d r")
    case True
    obtain m where "fold (\<lambda>pk s. if pk \<notin> E then s else if hasPendingDowntimeSlash s (fst pk) (snd pk) then s
        else s\<lparr>WithheldFeeRecords := store_remove pk (WithheldFeeRecords s)\<rparr>) pks s = s\<lparr>WithheldFeeRecords := m\<rparr>"
      and m: "\<And>c p. store_get m (c, p) = (if (c, p) \<in> set pks \<and> (c, p) \<in> E \<and> \<not> hasPendingDowntimeSlash s c p then None
       else store_get (WithheldFeeRecords s) (c, p))"
      using Cons.IH[of s] by blast
    moreover have "(if pk \<notin> E then s else if hasPendingDowntimeSlash s (fst pk) (snd pk) then s else u) = s" for u
      using True by (simp add: pk)
    ultimately show ?thesis using True by (intro exI[of _ m]) (auto simp: pk)
  next
    case False
    let ?s = "s\<lparr>WithheldFeeRecords := store_remove pk (WithheldFeeRecords s)\<rparr>"
    obtain m where "fold (\<lambda>pk s. if pk \<notin> E then s else if hasPendingDowntimeSlash s (fst pk) (snd pk) then s
        else s\<lparr>WithheldFeeRecords := store_remove pk (WithheldFeeRecords s)\<rparr>) pks ?s = ?s\<lparr>WithheldFeeRecords := m\<rparr>"
      and m: "\<And>c p. store_get m (c, p) = (if (c, p) \<in> set pks \<and> (c, p) \<in> E \<and> \<not> hasPendingDowntimeSlash s c p then None
       else store_get (store_remove pk (WithheldFeeRecords s)) (c, p))"
      using Cons.IH[of ?s] unfolding has_pending_withheld by auto
    then show ?thesis using False by (intro exI[of _ m]) (simp add: pk)
  qed
qed

text \<open>A sweep as a whole, over the entries whose maturity has come, in the order of their keys.\<close>

definition matured_slashes ::
    "sdk_ctx \<Rightarrow> 'w pstate \<Rightarrow> ((consumer_id \<times> addr \<times> int) \<times> PendingDowntimeSlash) list" where
  "matured_slashes ctx s = filter (\<lambda>e. MaturesAt (snd e) \<le> BlockTime ctx) (entries (PendingDowntimeSlashes s))"

lemma slashed_pairs: "fst (downtime_slash_effects k ip es w) \<subseteq> (\<lambda>e. (fst (fst e), fst (snd (fst e)))) ` set es"
proof (induction es arbitrary: w)
  case (Cons e es)
  obtain c p en v where e: "e = ((c, p, en), v)" by (metis surj_pair)
  obtain ok w1 sl w2 where "downtime_slash_effect k ip e w = (ok, w1)" "downtime_slash_effects k ip es w1 = (sl, w2)" by fastforce
  then show ?case using Cons.IH[of w1] by (auto simp: e)
qed simp

lemma has_pending_iff: "hasPendingDowntimeSlash s c p \<longleftrightarrow> (\<exists>en v. store_get (PendingDowntimeSlashes s) (c, p, en) = Some v)"
proof -
  have "xs \<noteq> [] \<longleftrightarrow> (\<exists>e. e \<in> set xs)" for xs :: "((consumer_id \<times> addr \<times> int) \<times> PendingDowntimeSlash) list"
    by (cases xs) auto
  then have "hasPendingDowntimeSlash s c p \<longleftrightarrow> (\<exists>e. e \<in> set (store_range (on_pair c p) (PendingDowntimeSlashes s)))"
    unfolding hasPendingDowntimeSlash_def by blast
  then show ?thesis by (auto simp: mem_store_range on_pair_def)
qed

lemma sweep_eq:
  obtains m where "SweepPendingDowntimeSlashes k ctx s =
      s\<lparr>world := snd (downtime_slash_effects k (InfractionParams s) (matured_slashes ctx s) (world s)),
        WithheldFeeRecords := m,
        PendingDowntimeSlashes := fold store_remove (map fst (matured_slashes ctx s)) (PendingDowntimeSlashes s)\<rparr>"
    "\<And>c p. store_get m (c, p) =
       (if (c, p) \<in> fst (downtime_slash_effects k (InfractionParams s) (matured_slashes ctx s) (world s)) \<and>
           \<not> hasPendingDowntimeSlash (SweepPendingDowntimeSlashes k ctx s) c p
        then None else store_get (WithheldFeeRecords s) (c, p))"
proof -
  define es where "es = matured_slashes ctx s"
  define pks where "pks = remdups (map (\<lambda>e. (fst (fst e), fst (snd (fst e)))) es)"
  have es: "filter (\<lambda>e. \<not> MaturesAt (snd e) > BlockTime ctx) (entries (PendingDowntimeSlashes s)) = es"
    by (simp add: es_def matured_slashes_def not_less)
  obtain ys s1 where run: "fold (execute_matured k (InfractionParams s)) es ([], s) = (ys, s1)" by force
  note eff = execute_all_effects[OF run, simplified]
  define s2 where "s2 = s1\<lparr>PendingDowntimeSlashes := fold store_remove (map fst es) (PendingDowntimeSlashes s1)\<rparr>"
  obtain m where m: "SweepPendingDowntimeSlashes k ctx s = s2\<lparr>WithheldFeeRecords := m\<rparr>"
    "\<And>c p. store_get m (c, p) = (if (c, p) \<in> set pks \<and> (c, p) \<in> set ys \<and> \<not> hasPendingDowntimeSlash s2 c p then None
       else store_get (WithheldFeeRecords s2) (c, p))"
    using drop_withheld[of "set ys" pks s2] unfolding SweepPendingDowntimeSlashes_def Let_def es run s2_def pks_def
    by (simp only: split_conv) blast
  have pend: "hasPendingDowntimeSlash (SweepPendingDowntimeSlashes k ctx s) c p = hasPendingDowntimeSlash s2 c p" for c p
    unfolding m(1) has_pending_withheld ..
  have ys: "set ys \<subseteq> set pks" using eff slashed_pairs[of k _ es "world s"] by (auto simp: pks_def)
  show thesis
  proof (rule that[of m], unfold es_def[symmetric])
    show "SweepPendingDowntimeSlashes k ctx s =
      s\<lparr>world := snd (downtime_slash_effects k (InfractionParams s) es (world s)), WithheldFeeRecords := m,
        PendingDowntimeSlashes := fold store_remove (map fst es) (PendingDowntimeSlashes s)\<rparr>"
      using eff by (simp add: m(1) s2_def)
    show "store_get m (c, p) = (if (c, p) \<in> fst (downtime_slash_effects k (InfractionParams s) es (world s)) \<and>
         \<not> hasPendingDowntimeSlash (SweepPendingDowntimeSlashes k ctx s) c p then None else store_get (WithheldFeeRecords s) (c, p))"
      for c p
      unfolding m(2) pend using eff ys by (auto simp: s2_def)
  qed
qed

lemma sweep_frame:
  "\<exists>w m. SweepPendingDowntimeSlashes k ctx s = s\<lparr>world := w, WithheldFeeRecords := m,
     PendingDowntimeSlashes := fold store_remove (map fst (matured_slashes ctx s)) (PendingDowntimeSlashes s)\<rparr>"
  by (rule sweep_eq[of k ctx s]) blast

subsection \<open>Histories\<close>

text \<open>
  A state is reached together with the windows accepted on the way. Besides the deliveries, the
  executions, the prunings and the cancellations, any operation that leaves the two collections
  of acceptance bookkeeping alone may run in between: fee distributions, key assignments,
  changes of the parameters, a pause.
\<close>

inductive downtime_history :: "'w keeper \<Rightarrow> 'w pstate \<Rightarrow> (consumer_id \<times> addr \<times> int \<times> int) list \<Rightarrow> bool"
  for k :: "'w keeper" where
  start: "AcceptedDowntimeWindows s = empty_store \<Longrightarrow> downtime_history k s []"
| accept: "downtime_history k s h \<Longrightarrow> HandleConsumerEvidencePacket k ctx c packet s = Ok t
    \<Longrightarrow> downtime_history k t (window_of s c packet # h)"
| execute: "downtime_history k s h \<Longrightarrow> downtime_history k (SweepPendingDowntimeSlashes k ctx s) h"
| prune: "downtime_history k s h \<Longrightarrow> downtime_history k (PruneAcceptedDowntimeWindows ctx ip s) h"
| cancel: "downtime_history k s h \<Longrightarrow> downtime_history k (CancelConsumerDowntimeState c s) h"
| other: "downtime_history k s h \<Longrightarrow> AcceptedDowntimeWindows t = AcceptedDowntimeWindows s
    \<Longrightarrow> DowntimeWindowFloors t = DowntimeWindowFloors s \<Longrightarrow> downtime_history k t h"

lemma history_invariant:
  assumes "downtime_history k s h"
  shows "windows_ok s \<and> (\<forall>win \<in> set h. remembered s win) \<and> sorted_wrt disjoint_windows h"
  using assms
proof induction
  case (start s)
  then show ?case by (simp add: windows_ok_def)
next
  case (accept s h ctx c packet t)
  then show ?case
    using acceptance_windows_ok acceptance_remembers acceptance_disjoint
    by (metis insert_iff list.simps(15) sorted_wrt.simps(2))
next
  case (execute s h ctx)
  obtain w m where "SweepPendingDowntimeSlashes k ctx s = s\<lparr>world := w, WithheldFeeRecords := m,
     PendingDowntimeSlashes := fold store_remove (map fst (matured_slashes ctx s)) (PendingDowntimeSlashes s)\<rparr>"
    using sweep_frame[of k ctx s] by blast
  with execute.IH show ?case by (simp add: windows_ok_def remembered_def)
next
  case (prune s h ctx ip)
  then show ?case using PruneAcceptedDowntimeWindows_ok by blast
next
  case (cancel s h c)
  then show ?case by (simp add: CancelConsumerDowntimeState_def windows_ok_def remembered_def)
next
  case (other s h t)
  then show ?case by (simp add: windows_ok_def remembered_def)
qed

subsection \<open>A launched consumer whose client has two headers\<close>

definition ex_down_keeper :: "unit keeper" where
  "ex_down_keeper = blank_keeper\<lparr>
     GetClientState := (\<lambda>_ _. Some (TmClient \<lparr>tm_ChainId = ''consumer'', tm_LatestHeight = (0, 12),
        tm_TrustingPeriod = 1000, tm_UnbondingPeriod = 2000, tm_MaxClockDrift = 10\<rparr>)),
     ConsensusStateHeights := (\<lambda>_ _. [(0, 8), (0, 12)]),
     ConsensusStateTimestamp := (\<lambda>_ _ h. Some (100 * int (snd h))),
     ConversionRate := (\<lambda>_. Some (10 ^ 18))\<rparr>"

definition ex_down_state :: "unit pstate" where
  "ex_down_state = (blank_pstate ())\<lparr>
     phase_of := store_set 0 CONSUMER_PHASE_LAUNCHED empty_store,
     ConsumerClients := store_set 0 ''07-tendermint-0'' empty_store,
     ConsumerValidators := store_set (0, [1])
       \<lparr>ProviderConsAddr = [1], cv_Power = 10, PublicKey = [1], JoinHeight = 1\<rparr> empty_store,
     EpochShareRecords := store_set (0, 850) 5 empty_store\<rparr>"

definition ex_packet :: EvidencePacketData where
  "ex_packet = NewEvidencePacketData [1] 5 [63] 6 10 (5 * 10 ^ 17)"

lemma ex_packet_counts: "MissedCount ex_packet = 6" "MaxMissed ex_packet = 5" "Span ex_packet = 6"
proof -
  have "[0..<6] = [0, 1, 2, 3, 4, 5 :: nat]" by (simp add: upt_rec)
  then show "MissedCount ex_packet = 6"
    by (simp add: ex_packet_def NewEvidencePacketData_def MissedCount_def Span_def BitmapIsSet_def quo_def)
  show "MaxMissed ex_packet = 5"
    by (simp add: ex_packet_def NewEvidencePacketData_def MaxMissed_def DowntimeParams_MaxMissed_def dec_ceil_def)
  show "Span ex_packet = 6" by (simp add: ex_packet_def NewEvidencePacketData_def Span_def)
qed

lemma ex_packet_valid: "EvidencePacketData_Validate ex_packet = Ok ()"
  using ex_packet_counts by (simp add: EvidencePacketData_Validate_def quo_def)
    (simp add: ex_packet_def NewEvidencePacketData_def)

lemma ex_accept: "\<exists>t. HandleConsumerEvidencePacket ex_down_keeper (ex_ctx 880) 0 ex_packet ex_down_state = Ok t"
proof -
  have k [simp]: "GetClientState ex_down_keeper () cl = Some (TmClient \<lparr>tm_ChainId = ''consumer'', tm_LatestHeight = (0, 12),
        tm_TrustingPeriod = 1000, tm_UnbondingPeriod = 2000, tm_MaxClockDrift = 10\<rparr>)"
     "ConsensusStateHeights ex_down_keeper () cl = [(0, 8), (0, 12)]"
     "ConsensusStateTimestamp ex_down_keeper () cl h = Some (100 * int (snd h))"
     "ConversionRate ex_down_keeper () = Some (10 ^ 18)" for cl h
    by (simp_all add: ex_down_keeper_def)
  have p [simp]: "ValidatorAddr ex_packet = [1]" "WindowEndHeight ex_packet = 10" "WindowStartHeight ex_packet = 5"
    "ev_Infraction ex_packet = INFRACTION_DOWNTIME" "ev_SignedBlocksWindow ex_packet = 10"
    "ev_MinSignedPerWindow ex_packet = Some (5 * 10 ^ 17)"
    by (simp_all add: ex_packet_def NewEvidencePacketData_def)
  have st [simp]: "GetConsumerPhase ex_down_state 0 = CONSUMER_PHASE_LAUNCHED" "GetConsumerClientId ex_down_state 0 = Some ''07-tendermint-0''"
    "IsConsumerValidator ex_down_state 0 [1]" "store_get (DowntimeWindowFloors ex_down_state) x = None"
    "store_range P (AcceptedDowntimeWindows ex_down_state) = []" "GetProviderAddrFromConsumerAddr ex_down_state 0 [1] = [1]"
    "ResolveEpochShare ex_down_state 0 800 = Some 5" "InfractionParams ex_down_state = blank_infraction_params"
    "GetEquivocationEvidenceMinHeight ex_down_state 0 = 0" "CurrentDowntimeParams ex_down_state = \<lparr>dp_SignedBlocksWindow = 10, dp_MinSignedPerWindow = 5 * 10 ^ 17\<rparr>"
    for x P
    by (simp_all add: ex_down_state_def blank_pstate_def GetConsumerPhase_def keeper_simps store_range_def
        GetProviderAddrFromConsumerAddr_def ResolveEpochShare_def GetEquivocationEvidenceMinHeight_def CurrentDowntimeParams_def blank_infraction_params_def)
  have "is_ok (HandleConsumerEvidencePacket ex_down_keeper (ex_ctx 880) 0 ex_packet ex_down_state)"
    by (simp add: HandleConsumerEvidencePacket_def ex_packet_valid as_error_def HandleConsumerDowntime_def ex_packet_counts
        AcceptableDowntimeParams_def accusedConsumerValidatorAddr_def windowEndTimestamp_def consumerClientTrustingPeriod_def
        checkAcceptedDowntimeWindowIntersection_def ResolveDowntimeSlashTokens_def ex_ctx_def Let_def)
      (simp add: blank_infraction_params_def)
  then show ?thesis by (simp add: is_ok_iff)
qed

subsection \<open>Properties\<close>

text \<open>
  C3. No block height of a validator on a consumer is accepted as downtime twice: over any
  sequence of deliveries, slash executions, prunings, cancellations and unrelated operations, the
  windows accepted for a pair are pairwise disjoint, and a delivery that overlaps one of them
  under the same pair is refused even after the record of the window has been pruned.
\<close>

theorem no_height_accepted_twice:
  assumes "downtime_history k s h"
  shows "(i < j \<longrightarrow> j < length h \<longrightarrow> disjoint_windows (h ! i) (h ! j)) \<and>
    (win \<in> set h \<longrightarrow> \<not> disjoint_windows (window_of s c packet) win \<longrightarrow>
       \<not> is_ok (HandleConsumerEvidencePacket k ctx c packet s))"
proof -
  have inv: "windows_ok s" "\<forall>win \<in> set h. remembered s win" "sorted_wrt disjoint_windows h"
    using history_invariant[OF assms] by auto
  have "disjoint_windows (h ! i) (h ! j)" if "i < j" "j < length h"
    using inv(3) that by (simp add: sorted_wrt_iff_nth_less)
  moreover have "\<not> is_ok (HandleConsumerEvidencePacket k ctx c packet s)"
    if "win \<in> set h" "\<not> disjoint_windows (window_of s c packet) win"
    using acceptance_disjoint inv(2) that by (metis is_ok_iff)
  ultimately show ?thesis by blast
qed

theorem no_height_accepted_twice_witness:
  "\<exists>t. HandleConsumerEvidencePacket ex_down_keeper (ex_ctx 880) 0 ex_packet ex_down_state = Ok t \<and>
     \<not> is_ok (HandleConsumerEvidencePacket ex_down_keeper (ex_ctx 881) 0 ex_packet
         (PruneAcceptedDowntimeWindows (ex_ctx 2000) blank_infraction_params t))"
proof -
  obtain t where t: "HandleConsumerEvidencePacket ex_down_keeper (ex_ctx 880) 0 ex_packet ex_down_state = Ok t"
    using ex_accept by blast
  let ?u = "PruneAcceptedDowntimeWindows (ex_ctx 2000) blank_infraction_params t"
  have "downtime_history ex_down_keeper ex_down_state []"
    by (rule downtime_history.start) (simp add: ex_down_state_def blank_pstate_def)
  then have h: "downtime_history ex_down_keeper ?u [window_of ex_down_state 0 ex_packet]"
    using t by (intro downtime_history.prune downtime_history.accept)
  have keys: "ValidatorByConsumerAddr (PruneAcceptedDowntimeWindows (ex_ctx 2000) blank_infraction_params t) = ValidatorByConsumerAddr t"
    unfolding PruneAcceptedDowntimeWindows_def Let_def
    by (rule fold_invariant) (auto simp: prune_window_def Let_def split: option.splits if_splits)
  moreover have "ValidatorByConsumerAddr t = ValidatorByConsumerAddr ex_down_state"
    using HandleConsumerEvidencePacket_Ok(1)[OF t] by (rule HandleConsumerDowntime_Ok) (simp add: MarkEpochDowntime_def)
  ultimately have "GetProviderAddrFromConsumerAddr ?u 0 [1] = GetProviderAddrFromConsumerAddr ex_down_state 0 [1]"
    by (simp add: GetProviderAddrFromConsumerAddr_def keeper_simps)
  then have "\<not> disjoint_windows (window_of ?u 0 ex_packet) (window_of ex_down_state 0 ex_packet)"
    by (simp add: disjoint_windows_def window_of_def ex_packet_def NewEvidencePacketData_def)
  then show ?thesis
    using t no_height_accepted_twice[OF h, of 0 0 "window_of ex_down_state 0 ex_packet" 0 ex_packet "ex_ctx 881"]
    by auto
qed

text \<open>
  The consumer's block times, as the light client relates to them: every stored consensus state
  carries the time of its block, and block times do not decrease with the height.
\<close>

definition verified_headers :: "'w keeper \<Rightarrow> 'w \<Rightarrow> string \<Rightarrow> (int \<Rightarrow> time) \<Rightarrow> bool" where
  "verified_headers k w clientId block_time \<longleftrightarrow>
     (\<forall>h h'. h \<le> h' \<longrightarrow> block_time h \<le> block_time h') \<and>
     (\<forall>h t. ConsensusStateTimestamp k w clientId h = Some t \<longrightarrow> t = block_time (int (snd h)))"

lemma anchor_loop_props:
  "anchor_loop e hs a = (x, y) \<Longrightarrow>
     (\<forall>z. x = Some z \<longrightarrow> a = Some z \<or> (z \<in> set hs \<and> int (snd z) \<le> e)) \<and>
     (\<forall>z. y = Some z \<longrightarrow> z \<in> set hs \<and> e \<le> int (snd z) \<and> (int (snd z) = e \<longrightarrow> x = Some z))"
proof (induction e hs a rule: anchor_loop.induct)
  case (1 e a)
  then show ?case by auto
next
  case (2 e h hs a)
  define a' where "a' = (if int (snd h) \<le> e then Some h else a)"
  show ?case
  proof (cases "e \<le> int (snd h)")
    case True
    then have "x = a'" "y = Some h" using 2(2) by (simp_all add: a'_def Let_def)
    then show ?thesis using True by (auto simp: a'_def)
  next
    case False
    then have "anchor_loop e hs a' = (x, y)" using 2(2) by (simp add: a'_def Let_def)
    then show ?thesis using 2(1)[OF a'_def] False by (auto simp: a'_def)
  qed
qed

text \<open>
  C18. The time the provider gives to the end of a window never lies after the block it stands
  for: it is the time of a header the client verified at or below the window end, the client also
  verified one at or above it, and the two times agree when the client has the very height. So
  evidence cannot be made to look fresher than it is.
\<close>

theorem window_end_time_is_verified_lower_bound:
  assumes "verified_headers k (world s) clientId block_time"
    and "windowEndTimestamp k s clientId windowEnd = Ok t"
  shows "t \<le> block_time windowEnd \<and>
    (\<exists>h \<in> set (ConsensusStateHeights k (world s) clientId). int (snd h) \<le> windowEnd \<and> t = block_time (int (snd h))) \<and>
    (\<exists>h \<in> set (ConsensusStateHeights k (world s) clientId). windowEnd \<le> int (snd h) \<and>
       (int (snd h) = windowEnd \<longrightarrow> t = block_time windowEnd))"
proof -
  obtain x y where run: "anchor_loop windowEnd (ConsensusStateHeights k (world s) clientId) None = (x, y)" by force
  with assms(2) obtain a b where xy: "x = Some a" "y = Some b"
    and ts: "ConsensusStateTimestamp k (world s) clientId a = Some t"
    by (auto simp: windowEndTimestamp_def res_simps split: option.splits)
  note pr = anchor_loop_props[OF run, unfolded xy]
  have a: "a \<in> set (ConsensusStateHeights k (world s) clientId)" "int (snd a) \<le> windowEnd" using pr by auto
  have b: "b \<in> set (ConsensusStateHeights k (world s) clientId)" "windowEnd \<le> int (snd b)"
    "int (snd b) = windowEnd \<Longrightarrow> a = b" using pr by auto
  have t: "t = block_time (int (snd a))" using ts assms(1) unfolding verified_headers_def by blast
  moreover have "t \<le> block_time windowEnd" using t a(2) assms(1) by (simp add: verified_headers_def)
  ultimately show ?thesis using a b by metis
qed

theorem window_end_time_is_verified_lower_bound_witness:
  "windowEndTimestamp ex_down_keeper ex_down_state ''07-tendermint-0'' 10 = Ok 800 \<and>
   (800 :: int) \<le> 100 * 10"
proof -
  have "verified_headers ex_down_keeper (world ex_down_state) ''07-tendermint-0'' (\<lambda>h. 100 * h)"
    by (simp add: verified_headers_def ex_down_keeper_def)
  moreover have "windowEndTimestamp ex_down_keeper ex_down_state ''07-tendermint-0'' 10 = Ok 800"
    by (simp add: windowEndTimestamp_def ex_down_keeper_def)
  ultimately show ?thesis
    using window_end_time_is_verified_lower_bound[of ex_down_keeper ex_down_state "''07-tendermint-0''" "\<lambda>h. 100 * h" 10 800]
    by blast
qed

text \<open>
  C17. What an accepted packet leaves behind is disprovable: the slash is queued under the
  accused's pair with the time of its maturity, its window end is no older than the maximum age,
  more blocks were missed than the echoed parameters allow, and when the challenge window
  closes a header of the window's end is still inside the trusting period of the client.
\<close>

theorem accepted_downtime_stays_disprovable:
  assumes "HandleConsumerEvidencePacket k ctx c packet s = Ok t"
  shows "\<exists>clientId windowEndTime trustingPeriod slash.
    GetConsumerClientId s c = Some clientId \<and>
    windowEndTimestamp k s clientId (WindowEndHeight packet) = Ok windowEndTime \<and>
    consumerClientTrustingPeriod k s clientId = Ok trustingPeriod \<and>
    store_get (PendingDowntimeSlashes t)
      (c, GetProviderAddrFromConsumerAddr s c (ValidatorAddr packet), WindowEndHeight packet) = Some slash \<and>
    MaturesAt slash = BlockTime ctx + DowntimeChallengeWindow (InfractionParams s) \<and>
    MaturesAt slash - windowEndTime < trustingPeriod \<and>
    BlockTime ctx - windowEndTime \<le> DowntimeEvidenceMaxAge (InfractionParams s) \<and>
    MaxMissed packet < MissedCount packet \<and> pds_MissedBlocksBitmap slash = MissedBlocksBitmap packet \<and>
    covers_height (WindowStartHeight packet) slash \<and> covers_height (WindowEndHeight packet) slash"
proof -
  note le = HandleConsumerEvidencePacket_Ok(4)[OF assms]
  show ?thesis
    using HandleConsumerEvidencePacket_Ok(1)[OF assms]
  proof (rule HandleConsumerDowntime_Ok)
    fix clientId wet trusting setAddr tokens
    let ?p = "GetProviderAddrFromConsumerAddr s c (ValidatorAddr packet)"
    let ?slash = "pending_of ctx c ?p packet tokens (InfractionParams s)"
    assume h: "GetConsumerClientId s c = Some clientId"
      "windowEndTimestamp k s clientId (WindowEndHeight packet) = Ok wet"
      "consumerClientTrustingPeriod k s clientId = Ok trusting" "MaxMissed packet < MissedCount packet"
      "BlockTime ctx - wet \<le> DowntimeEvidenceMaxAge (InfractionParams s)"
      "BlockTime ctx - wet + DowntimeChallengeWindow (InfractionParams s) < trusting"
      and t: "t = (if ResolveEpochShare s c wet = None then MarkEpochDowntime c setAddr s else s)
        \<lparr>PendingDowntimeSlashes := store_set (c, ?p, WindowEndHeight packet) ?slash (PendingDowntimeSlashes s),
         AcceptedDowntimeWindows := store_set (c, ?p, WindowEndHeight packet)
           \<lparr>WindowStart = WindowStartHeight packet, AcceptedAt = BlockTime ctx\<rparr> (AcceptedDowntimeWindows s)\<rparr>"
    have "store_get (PendingDowntimeSlashes t) (c, ?p, WindowEndHeight packet) = Some ?slash" by (simp add: t)
    then show ?thesis
      using h le by (intro exI[of _ clientId] exI[of _ wet] exI[of _ trusting] exI[of _ ?slash])
        (simp add: pending_of_def covers_height_def Span_def)
  qed
qed

theorem accepted_downtime_stays_disprovable_witness:
  "\<exists>t slash. HandleConsumerEvidencePacket ex_down_keeper (ex_ctx 880) 0 ex_packet ex_down_state = Ok t \<and>
     store_get (PendingDowntimeSlashes t) (0, [1], 10) = Some slash \<and> MaturesAt slash = 980"
proof -
  obtain t where t: "HandleConsumerEvidencePacket ex_down_keeper (ex_ctx 880) 0 ex_packet ex_down_state = Ok t"
    using ex_accept by blast
  have "GetProviderAddrFromConsumerAddr ex_down_state 0 (ValidatorAddr ex_packet) = [1]" "WindowEndHeight ex_packet = 10"
    "BlockTime (ex_ctx 880) + DowntimeChallengeWindow (InfractionParams ex_down_state) = 980"
    by (simp_all add: ex_packet_def NewEvidencePacketData_def GetProviderAddrFromConsumerAddr_def keeper_simps
        ex_down_state_def blank_pstate_def blank_infraction_params_def ex_ctx_def)
  then show ?thesis using accepted_downtime_stays_disprovable[OF t] t by auto
qed

text \<open>
  C19. A sweep executes what has matured, once, and nothing else. The queued slashes whose maturity has come,
  all of them and each once, are handed to the staking module one after the other in the order of
  their keys, and staking's state afterwards is what these executions make of it: for each entry
  nothing, where the slash is of no tokens or the validator has no slashable stake left, and
  otherwise one slash for the infraction \<^verbatim>\<open>DOWNTIME\<close>, of the fraction the tokens are
  of the stake, at most \<^verbatim>\<open>SlashFraction\<close> of the downtime parameters. Exactly these entries
  leave the queue; the record of the withheld fees is dropped for exactly the pairs that were slashed and
  have nothing pending left; and no other part of the state changes.
\<close>

theorem sweep_executes_exactly_the_matured:
  "(case downtime_slash_effects k (InfractionParams s) (matured_slashes ctx s) (world s) of (slashed, w) \<Rightarrow>
     \<exists>pending withheld. SweepPendingDowntimeSlashes k ctx s =
        s\<lparr>world := w, PendingDowntimeSlashes := pending, WithheldFeeRecords := withheld\<rparr> \<and>
      (\<forall>key. store_get pending key = (case store_get (PendingDowntimeSlashes s) key of
         None \<Rightarrow> None | Some v \<Rightarrow> if MaturesAt v \<le> BlockTime ctx then None else Some v)) \<and>
      (\<forall>c p. store_get withheld (c, p) = (if (c, p) \<in> slashed \<and> (\<nexists>en v. store_get pending (c, p, en) = Some v)
         then None else store_get (WithheldFeeRecords s) (c, p)))) \<and>
   ascending (matured_slashes ctx s) \<and>
   set (matured_slashes ctx s) = {(key, v). store_get (PendingDowntimeSlashes s) key = Some v \<and> MaturesAt v \<le> BlockTime ctx}"
proof -
  let ?es = "matured_slashes ctx s"
  let ?eff = "downtime_slash_effects k (InfractionParams s) ?es (world s)"
  let ?t = "SweepPendingDowntimeSlashes k ctx s"
  have es: "set ?es = {(key, v). store_get (PendingDowntimeSlashes s) key = Some v \<and> MaturesAt v \<le> BlockTime ctx}"
    by (auto simp: matured_slashes_def kv.iter_mem)
  have asc: "ascending ?es" unfolding matured_slashes_def by (intro ascending_filter kv.iter_ascending)
  obtain m where sw: "?t = s\<lparr>world := snd ?eff, WithheldFeeRecords := m,
      PendingDowntimeSlashes := fold store_remove (map fst ?es) (PendingDowntimeSlashes s)\<rparr>"
    and m: "\<And>c p. store_get m (c, p) = (if (c, p) \<in> fst ?eff \<and> \<not> hasPendingDowntimeSlash ?t c p
       then None else store_get (WithheldFeeRecords s) (c, p))"
    using sweep_eq[of k ctx s] by blast
  have keys: "key \<in> set (map fst ?es) \<longleftrightarrow> (\<exists>v. store_get (PendingDowntimeSlashes s) key = Some v \<and> MaturesAt v \<le> BlockTime ctx)" for key
    unfolding set_map es by force
  have pend: "store_get (PendingDowntimeSlashes ?t) key = (case store_get (PendingDowntimeSlashes s) key of
         None \<Rightarrow> None | Some v \<Rightarrow> if MaturesAt v \<le> BlockTime ctx then None else Some v)" for key
    using keys[of key] unfolding sw by (simp add: kv.get_fold_remove split: option.splits)
  have "?t = s\<lparr>world := snd ?eff, PendingDowntimeSlashes := PendingDowntimeSlashes ?t, WithheldFeeRecords := m\<rparr>"
    by (simp add: sw)
  then show ?thesis using pend m es asc unfolding split_beta has_pending_iff by blast
qed

text \<open>
  C20. A challenger can always reach the slash: while a slash is queued for a consumer, looking it
  up by the accused's consumer address and a height of its window finds a queued slash of that
  consumer that covers the height, whatever happened to the key assignment since.
\<close>

theorem challenge_finds_the_slash:
  assumes "store_get (PendingDowntimeSlashes s) (c, p, en) = Some v"
    and "pds_ConsumerConsAddr v = consumerAddr" "covers_height claimedHeight v"
  shows "\<exists>v' p' en'. findPendingDowntimeSlashContaining s c consumerAddr claimedHeight = Some v' \<and>
    covers_height claimedHeight v' \<and> store_get (PendingDowntimeSlashes s) (c, p', en') = Some v' \<and>
    (pds_ConsumerConsAddr v' = consumerAddr \<or> p' = GetProviderAddrFromConsumerAddr s c consumerAddr)"
proof (cases "findPendingDowntimeSlashUnderProviderAddr s c (GetProviderAddrFromConsumerAddr s c consumerAddr) claimedHeight")
  case (Some v')
  then have "covers_height claimedHeight v'"
    "v' \<in> snd ` set (store_range (on_pair c (GetProviderAddrFromConsumerAddr s c consumerAddr)) (PendingDowntimeSlashes s))"
    using found_member[of "covers_height claimedHeight"] by (fastforce simp: findPendingDowntimeSlashUnderProviderAddr_def)+
  moreover from this(2) obtain en' where
    "store_get (PendingDowntimeSlashes s) (c, GetProviderAddrFromConsumerAddr s c consumerAddr, en') = Some v'"
    by (auto simp: mem_store_range on_pair_def)
  ultimately show ?thesis using Some unfolding findPendingDowntimeSlashContaining_def by (simp add: exI) blast
next
  case None
  let ?P = "\<lambda>v. pds_ConsumerConsAddr v = consumerAddr \<and> covers_height claimedHeight v"
  let ?xs = "map snd (store_range (\<lambda>key. fst key = c) (PendingDowntimeSlashes s))"
  have "((c, p, en), v) \<in> set (store_range (\<lambda>key. fst key = c) (PendingDowntimeSlashes s))"
    using assms(1) by (simp add: mem_store_range)
  then have "v \<in> set ?xs" by force
  then obtain v' where v': "find ?P ?xs = Some v'"
    using assms(2,3) by (cases "find ?P ?xs") (auto simp: find_None_iff)
  then have "?P v'" "v' \<in> set ?xs" by (auto dest: found_member)
  moreover from this(2) obtain p' en' where "store_get (PendingDowntimeSlashes s) (c, p', en') = Some v'"
    by (auto simp: mem_store_range)
  ultimately show ?thesis using None v' by (auto simp: findPendingDowntimeSlashContaining_def)
qed

theorem challenge_finds_the_slash_witness:
  "\<exists>t v'. HandleConsumerEvidencePacket ex_down_keeper (ex_ctx 880) 0 ex_packet ex_down_state = Ok t \<and>
     findPendingDowntimeSlashContaining t 0 [1] 7 = Some v' \<and> covers_height 7 v'"
proof -
  obtain t where t: "HandleConsumerEvidencePacket ex_down_keeper (ex_ctx 880) 0 ex_packet ex_down_state = Ok t"
    using ex_accept by blast
  have p: "GetProviderAddrFromConsumerAddr ex_down_state 0 (ValidatorAddr ex_packet) = [1]" "WindowEndHeight ex_packet = 10"
    by (simp_all add: ex_packet_def NewEvidencePacketData_def GetProviderAddrFromConsumerAddr_def keeper_simps
        ex_down_state_def blank_pstate_def)
  obtain tokens where "store_get (PendingDowntimeSlashes t) (0, [1], 10) =
      Some (pending_of (ex_ctx 880) 0 [1] ex_packet tokens (InfractionParams ex_down_state))"
    using HandleConsumerEvidencePacket_Ok(1)[OF t] by (rule HandleConsumerDowntime_Ok) (use p in auto)
  moreover have "covers_height 7 (pending_of (ex_ctx 880) 0 [1] ex_packet tokens ip)"
    "pds_ConsumerConsAddr (pending_of (ex_ctx 880) 0 [1] ex_packet tokens ip) = [1]" for tokens ip
    by (simp_all add: pending_of_def covers_height_def ex_packet_def NewEvidencePacketData_def Span_def)
  ultimately show ?thesis using t challenge_finds_the_slash[of t 0 "[1]" 10 _ "[1]" 7] by blast
qed

end
