(* ===== verification/TimeQueue.thy ===== *)
theory TimeQueue
  imports Keeper "HOL-Library.Multiset"
begin

text \<open>
  The three time queues of the provider (\<^verbatim>\<open>SpawnTimeToConsumerIds\<close>,
  \<^verbatim>\<open>RemovalTimeToConsumerIds\<close>, \<^verbatim>\<open>PauseExpirationTimeToConsumerIds\<close>): buckets of
  consumer ids under a time, consumed in ascending order up to the block time and a limit.
  The operations are the same for all three, so they are defined once over the queue
  (\<^verbatim>\<open>keeper.go\<close>, \<^verbatim>\<open>consumer_lifecycle.go\<close>). A queue is seen abstractly as the
  multiset of its \<open>(time, id)\<close> pairs; the locale \<open>time_queue\<close> states what each
  operation does to it.
\<close>

type_synonym queue = "(time, consumer_id list) store"

definition bucket :: "queue \<Rightarrow> time \<Rightarrow> consumer_id list" where
  "bucket q t = (case store_get q t of None \<Rightarrow> [] | Some ids \<Rightarrow> ids)"

definition append_id :: "consumer_id \<Rightarrow> time \<Rightarrow> queue \<Rightarrow> queue" where
  "append_id c t q = store_set t (bucket q t @ [c]) q"

fun index_of :: "consumer_id \<Rightarrow> consumer_id list \<Rightarrow> nat option" where
  "index_of c [] = None"
| "index_of c (x # xs) = (if x = c then Some 0 else map_option Suc (index_of c xs))"

definition removeConsumerFromTimeQueue :: "queue \<Rightarrow> consumer_id \<Rightarrow> time \<Rightarrow> queue result" where
  "removeConsumerFromTimeQueue q c ts =
     (let ids = bucket q ts in
      if length ids = 0 then Err ErrPlain
      else case index_of c ids of
        None \<Rightarrow> Err ErrPlain
      | Some index \<Rightarrow>
          if length ids = 1 then Ok (store_remove ts q)
          else Ok (store_set ts (take index ids @ drop (index + 1) ids) q))"

text \<open>The loop of \<^verbatim>\<open>ConsumeIdsFromTimeQueue\<close> over the queue's iterator.\<close>

fun consume_loop ::
    "time \<Rightarrow> nat \<Rightarrow> (time \<times> consumer_id list) list \<Rightarrow> consumer_id list \<Rightarrow> time list
       \<Rightarrow> consumer_id list \<times> consumer_id list \<times> time list" where
  "consume_loop now limit [] result tss = (result, [], tss)"
| "consume_loop now limit ((ts, ids) # rest) result tss =
     (if length result \<ge> limit then (result, [], tss)
      else if ts > now then (result, [], tss)
      else let availableSlots = limit - length result in
        if availableSlots \<ge> length ids
        then consume_loop now limit rest (result @ ids) (tss @ [ts])
        else (result @ take availableSlots ids, drop availableSlots ids, tss @ [ts]))"

fun consume_delete :: "time list \<Rightarrow> consumer_id list \<Rightarrow> queue \<Rightarrow> queue" where
  "consume_delete [] nextTime q = q"
| "consume_delete [ts] nextTime q = fold (\<lambda>c. append_id c ts) nextTime (store_remove ts q)"
| "consume_delete (ts # tss) nextTime q = consume_delete tss nextTime (store_remove ts q)"

definition ConsumeIdsFromTimeQueue :: "sdk_ctx \<Rightarrow> nat \<Rightarrow> queue \<Rightarrow> consumer_id list \<times> queue" where
  "ConsumeIdsFromTimeQueue ctx limit q =
     (case consume_loop (BlockTime ctx) limit (entries q) [] [] of
        (result, nextTime, tss) \<Rightarrow> (result, consume_delete tss nextTime q))"

subsection \<open>The queue as a list of pairs\<close>

definition flat :: "(time \<times> consumer_id list) list \<Rightarrow> (time \<times> consumer_id) list" where
  "flat es = concat (map (\<lambda>(t, ids). map (Pair t) ids) es)"

definition scheduled :: "queue \<Rightarrow> time \<Rightarrow> consumer_id \<Rightarrow> bool" where
  "scheduled q t c \<longleftrightarrow> c \<in> set (bucket q t)"

lemma flat_simps [simp]:
  "flat [] = []" "flat ((t, ids) # es) = map (Pair t) ids @ flat es"
  "flat (es @ fs) = flat es @ flat fs"
  by (simp_all add: flat_def)

lemma bucket_append_id [simp]:
  "bucket (append_id c t q) u = (if u = t then bucket q t @ [c] else bucket q u)"
  by (simp add: bucket_def append_id_def)

lemma bucket_remove [simp]: "bucket (store_remove t q) u = (if u = t then [] else bucket q u)"
  by (simp add: bucket_def)

lemma bucket_set [simp]: "bucket (store_set t ids q) u = (if u = t then ids else bucket q u)"
  by (simp add: bucket_def)

lemma bucket_fold_append [simp]:
  "bucket (fold (\<lambda>c. append_id c t) cs q) u = (if u = t then bucket q t @ cs else bucket q u)"
  by (induction cs arbitrary: q) auto

lemma index_of_Some: "index_of c ids = Some i \<Longrightarrow> i < length ids \<and> ids ! i = c"
  by (induction ids arbitrary: i) (auto split: if_splits)

lemma index_of_None: "index_of c ids = None \<longleftrightarrow> c \<notin> set ids"
  by (induction ids) auto

lemma index_of_remove1:
  "index_of c ids = Some i \<Longrightarrow> take i ids @ drop (i + 1) ids = remove1 c ids"
  by (induction ids arbitrary: i) (auto split: if_splits)

text \<open>Removing a consumer from its bucket: exactly one occurrence goes, errors otherwise.\<close>

lemma removeConsumerFromTimeQueue_Ok:
  assumes "removeConsumerFromTimeQueue q c ts = Ok q'"
  shows "c \<in> set (bucket q ts)"
    and "bucket q' u = (if u = ts then remove1 c (bucket q ts) else bucket q u)"
proof -
  obtain i where i: "index_of c (bucket q ts) = Some i"
    using assms by (auto simp: removeConsumerFromTimeQueue_def Let_def split: if_splits option.splits)
  from i show "c \<in> set (bucket q ts)" using index_of_None[of c] by force
  have len1: "bucket q ts = [c]" if "length (bucket q ts) = 1"
    using that i index_of_Some[OF i] by (cases "bucket q ts") auto
  show "bucket q' u = (if u = ts then remove1 c (bucket q ts) else bucket q u)"
    using assms i len1 index_of_remove1[OF i]
    by (auto simp: removeConsumerFromTimeQueue_def Let_def split: if_splits)
qed

lemma removeConsumerFromTimeQueue_mem:
  "c \<in> set (bucket q ts) \<Longrightarrow> \<exists>q'. removeConsumerFromTimeQueue q c ts = Ok q'"
  by (auto simp: removeConsumerFromTimeQueue_def Let_def index_of_None split: option.splits)

lemma removeConsumerFromTimeQueue_absent:
  "c \<notin> set (bucket q ts) \<Longrightarrow> removeConsumerFromTimeQueue q c ts = Err ErrPlain"
  using index_of_None[of c "bucket q ts"]
  by (auto simp: removeConsumerFromTimeQueue_def Let_def)

subsection \<open>What the consumption loop returns\<close>

text \<open>
  Given the entries in ascending order, the loop splits them: \<open>pre\<close> are the buckets it
  deletes, all due, and the ids in them are the ones returned followed by the ones put back
  under the last deleted time.
\<close>

lemma consume_loop_split:
  assumes "consume_loop now limit es result tss = (res, nxt, tss')"
    and "length result \<le> limit"
  obtains pre post where "es = pre @ post" "tss' = tss @ map fst pre"
    "res @ nxt = result @ concat (map snd pre)" "length res \<le> limit"
    "\<forall>e\<in>set pre. fst e \<le> now" "nxt \<noteq> [] \<longrightarrow> length res = limit \<and> pre \<noteq> []"
    "post \<noteq> [] \<longrightarrow> now < fst (hd post) \<or> length res = limit"
proof -
  have "\<exists>pre post. es = pre @ post \<and> tss' = tss @ map fst pre \<and>
    res @ nxt = result @ concat (map snd pre) \<and> length res \<le> limit \<and>
    (\<forall>e\<in>set pre. fst e \<le> now) \<and> (nxt \<noteq> [] \<longrightarrow> length res = limit \<and> pre \<noteq> []) \<and>
    (post \<noteq> [] \<longrightarrow> now < fst (hd post) \<or> length res = limit)"
    using assms
  proof (induction now limit es result tss rule: consume_loop.induct)
    case (1 now limit result tss)
    then show ?case by (intro exI[of _ "[]"]) simp
  next
    case (2 now limit ts ids rest result tss)
    let ?avail = "limit - length result"
    consider (stop) "length result \<ge> limit \<or> ts > now"
      | (all) "\<not> (length result \<ge> limit \<or> ts > now)" "?avail \<ge> length ids"
      | (part) "\<not> (length result \<ge> limit \<or> ts > now)" "\<not> ?avail \<ge> length ids"
      by blast
    then show ?case
    proof cases
      case stop
      then show ?thesis using 2
        by (rule_tac x = "[]" in exI, rule_tac x = "(ts, ids) # rest" in exI)
          (auto split: if_splits)
    next
      case all
      then have "consume_loop now limit rest (result @ ids) (tss @ [ts]) = (res, nxt, tss')"
        "length (result @ ids) \<le> limit" using 2 by auto
      from "2.IH"[OF _ _ refl _ this] all obtain pre post where
        "rest = pre @ post" "tss' = (tss @ [ts]) @ map fst pre"
        "res @ nxt = (result @ ids) @ concat (map snd pre)" "length res \<le> limit"
        "\<forall>e\<in>set pre. fst e \<le> now" "nxt \<noteq> [] \<longrightarrow> length res = limit \<and> pre \<noteq> []"
        "post \<noteq> [] \<longrightarrow> now < fst (hd post) \<or> length res = limit" by auto
      then show ?thesis using all
        by (rule_tac x = "(ts, ids) # pre" in exI, rule_tac x = post in exI) auto
    next
      case part
      then show ?thesis using 2
        by (rule_tac x = "[(ts, ids)]" in exI, rule_tac x = rest in exI)
          (auto simp: Let_def split: if_splits)
    qed
  qed
  then show ?thesis using that by force
qed

lemma get_fold_append:
  "store_get (fold (\<lambda>c. append_id c t) cs q) u =
     (if u = t \<and> cs \<noteq> [] then Some (bucket q t @ cs) else store_get q u)"
  by (induction cs arbitrary: q) (auto simp: append_id_def)

lemma get_consume_delete:
  "distinct tss \<Longrightarrow> (nxt \<noteq> [] \<longrightarrow> tss \<noteq> []) \<Longrightarrow>
     store_get (consume_delete tss nxt q) u =
       (if u \<in> set tss then (if u = last tss \<and> nxt \<noteq> [] then Some nxt else None)
        else store_get q u)"
  by (induction tss nxt q rule: consume_delete.induct) (auto simp: get_fold_append)

text \<open>
  The queue after a consumption: the deleted buckets are gone, the ids left over stand first,
  under the last deleted time, and the rest of the queue follows unchanged.
\<close>

lemma entries_consume_delete:
  assumes "entries q = pre @ post" "nxt \<noteq> [] \<longrightarrow> pre \<noteq> []"
  shows "entries (consume_delete (map fst pre) nxt q) =
     (if nxt = [] then post else (last (map fst pre), nxt) # post)"
    (is "?L = ?R")
proof (rule ascending_ext)
  have asc: "ascending (pre @ post)" using kv.iter_ascending[of q] assms(1) by simp
  then have dis: "distinct (map fst pre)" by (simp add: ascending_distinct sorted_wrt_append)
  have sep: "fst e < fst f" if "e \<in> set pre" "f \<in> set post" for e f
    using asc that by (auto simp: sorted_wrt_append)
  have last_in: "pre \<noteq> [] \<Longrightarrow> last (map fst pre) \<in> fst ` set pre"
    by (metis last_in_set list.set_map map_is_Nil_conv)
  show "ascending ?L" by (rule kv.iter_ascending)
  have "\<forall>f\<in>set post. last (map fst pre) < fst f" if "pre \<noteq> []"
    using last_in[OF that] sep by (metis imageE)
  then show "ascending ?R"
    using asc assms(2) by (auto simp: sorted_wrt_append)
  have getq: "store_get q u = map_of (pre @ post) u" for u
    using assms(1) by (simp add: kv.iter_get)
  have post_None: "u \<in> fst ` set pre \<Longrightarrow> map_of post u = None" for u
    using sep by (force simp: map_of_eq_None_iff)
  have pre_None: "u \<notin> fst ` set pre \<Longrightarrow> map_of pre u = None" for u
    by (simp add: map_of_eq_None_iff)
  show "map_of ?L = map_of ?R"
  proof (rule ext)
    fix u
    have "map_of ?L u = store_get (consume_delete (map fst pre) nxt q) u"
      by (simp add: kv.iter_get)
    also have "\<dots> = (if u \<in> fst ` set pre
        then (if u = last (map fst pre) \<and> nxt \<noteq> [] then Some nxt else None) else store_get q u)"
      using assms(2) by (simp add: get_consume_delete[OF dis])
    also have "\<dots> = map_of ?R u"
      using post_None[of u] pre_None[of u] last_in assms(2) by (auto simp: getq map_add_def)
    finally show "map_of ?L u = map_of ?R u" .
  qed
qed

definition flat_ids :: "queue \<Rightarrow> consumer_id list" where
  "flat_ids q = concat (map snd (entries q))"

text \<open>Consumption splits the flattened queue: nothing is lost, duplicated or reordered.\<close>

lemma consume_splits_queue:
  assumes "ConsumeIdsFromTimeQueue ctx limit q = (ids, q')"
  shows "ids @ flat_ids q' = flat_ids q"
proof -
  obtain nxt tss where loop: "consume_loop (BlockTime ctx) limit (entries q) [] [] = (ids, nxt, tss)"
    and q': "q' = consume_delete tss nxt q"
    using assms by (auto simp: ConsumeIdsFromTimeQueue_def split: prod.splits)
  obtain pre post where s: "entries q = pre @ post" "tss = map fst pre"
    "ids @ nxt = concat (map snd pre)" "nxt \<noteq> [] \<longrightarrow> pre \<noteq> []"
    by (rule consume_loop_split[OF loop]) auto
  have "flat_ids q' = nxt @ concat (map snd post)"
    unfolding q' s(2) flat_ids_def entries_consume_delete[OF s(1) s(4)] by simp
  then show ?thesis using s(1,3) by (simp add: flat_ids_def)
qed

definition due :: "time \<Rightarrow> queue \<Rightarrow> consumer_id list" where
  "due now q = concat (map snd (filter (\<lambda>e. fst e \<le> now) (entries q)))"

text \<open>The consumed ids are a prefix of what is due, and all of it if the limit allows.\<close>

lemma filter_due_split:
  assumes "ascending (pre @ post)" "\<forall>e\<in>set pre. fst e \<le> now"
    and "post \<noteq> [] \<longrightarrow> now < fst (hd post)"
  shows "filter (\<lambda>e. fst e \<le> (now::time)) (pre @ post) = pre"
proof -
  have "\<forall>e\<in>set post. now < fst e"
  proof (cases post)
    case (Cons e es)
    with assms(1) have "\<forall>f\<in>set es. fst e < fst f" by (auto simp: sorted_wrt_append)
    moreover have "now < fst e" using Cons assms(3) by simp
    ultimately show ?thesis using Cons by fastforce
  qed simp
  then have "filter (\<lambda>e. fst e \<le> now) post = []" by (auto simp: filter_empty_conv)
  moreover have "filter (\<lambda>e. fst e \<le> now) pre = pre" using assms(2) by (simp add: filter_id_conv)
  ultimately show ?thesis by simp
qed

lemma take_due:
  assumes "ConsumeIdsFromTimeQueue ctx limit q = (ids, q')"
  shows "ids = take limit (due (BlockTime ctx) q)"
proof -
  obtain nxt tss where loop: "consume_loop (BlockTime ctx) limit (entries q) [] [] = (ids, nxt, tss)"
    using assms by (auto simp: ConsumeIdsFromTimeQueue_def split: prod.splits)
  obtain pre post where s: "entries q = pre @ post" "ids @ nxt = concat (map snd pre)"
    "length ids \<le> limit" "\<forall>e\<in>set pre. fst e \<le> BlockTime ctx" "nxt \<noteq> [] \<longrightarrow> length ids = limit"
    "post \<noteq> [] \<longrightarrow> BlockTime ctx < fst (hd post) \<or> length ids = limit"
    by (rule consume_loop_split[OF loop]) auto
  have asc: "ascending (pre @ post)" using kv.iter_ascending[of q] s(1) by simp
  have prefix: "\<exists>more. due (BlockTime ctx) q = ids @ nxt @ more"
  proof -
    have "filter (\<lambda>e. fst e \<le> BlockTime ctx) (entries q) = pre @ filter (\<lambda>e. fst e \<le> BlockTime ctx) post"
      using s(1,4) by (simp add: filter_id_conv)
    then show ?thesis using s(2) by (simp add: due_def) (metis append_assoc)
  qed
  show ?thesis
  proof (cases "length ids = limit")
    case True
    then show ?thesis using prefix by auto
  next
    case False
    then have "nxt = []" "post \<noteq> [] \<longrightarrow> BlockTime ctx < fst (hd post)" using s(5,6) by auto
    then have "due (BlockTime ctx) q = ids"
      using filter_due_split[OF asc s(4)] s(1,2) by (simp add: due_def)
    then show ?thesis using s(3) by simp
  qed
qed

text \<open>A bucket later than the block time is never touched.\<close>

lemma consume_future:
  assumes "ConsumeIdsFromTimeQueue ctx limit q = (ids, q')" "BlockTime ctx < u"
  shows "bucket q' u = bucket q u"
proof -
  obtain nxt tss where loop: "consume_loop (BlockTime ctx) limit (entries q) [] [] = (ids, nxt, tss)"
    and q': "q' = consume_delete tss nxt q"
    using assms by (auto simp: ConsumeIdsFromTimeQueue_def split: prod.splits)
  obtain pre post where s: "entries q = pre @ post" "tss = map fst pre"
    "\<forall>e\<in>set pre. fst e \<le> BlockTime ctx" "nxt \<noteq> [] \<longrightarrow> pre \<noteq> []"
    by (rule consume_loop_split[OF loop]) auto
  have "distinct tss" using kv.iter_distinct[of q] s(1,2) by simp
  moreover have "u \<notin> set tss" using s(2,3) assms(2) by auto
  ultimately show ?thesis using s(2,4) by (simp add: q' bucket_def get_consume_delete)
qed

text \<open>What is consumed was scheduled at or before the block time.\<close>

lemma consume_due:
  assumes "ConsumeIdsFromTimeQueue ctx limit q = (ids, q')" "c \<in> set ids"
  shows "\<exists>t\<le>BlockTime ctx. c \<in> set (bucket q t)"
proof -
  have "c \<in> set (due (BlockTime ctx) q)"
    using take_due[OF assms(1)] assms(2) by (auto dest: in_set_takeD)
  then show ?thesis by (auto simp: due_def bucket_def kv.iter_mem)
qed

lemma mem_flat_ids: "c \<in> set (flat_ids q) \<longleftrightarrow> (\<exists>t. c \<in> set (bucket q t))"
proof -
  have "c \<in> set (flat_ids q) \<longleftrightarrow> (\<exists>t ids. store_get q t = Some ids \<and> c \<in> set ids)"
    by (force simp: flat_ids_def kv.iter_mem[symmetric])
  moreover have "(\<exists>ids. store_get q t = Some ids \<and> c \<in> set ids) \<longleftrightarrow> c \<in> set (bucket q t)" for t
    by (cases "store_get q t") (simp_all add: bucket_def)
  ultimately show ?thesis by simp
qed

subsection \<open>The interface of a time queue\<close>

text \<open>
  What the lifecycle relies on, whatever the queue is used for: where an id stands after
  an append or a removal, and that consuming a queue returns ids that are due and loses none.
\<close>

locale time_queue =
  fixes at :: "'q \<Rightarrow> time \<Rightarrow> consumer_id list"
    and ids_of :: "'q \<Rightarrow> consumer_id list"
    and app :: "consumer_id \<Rightarrow> time \<Rightarrow> 'q \<Rightarrow> 'q"
    and del :: "'q \<Rightarrow> consumer_id \<Rightarrow> time \<Rightarrow> 'q result"
    and consume :: "sdk_ctx \<Rightarrow> nat \<Rightarrow> 'q \<Rightarrow> consumer_id list \<times> 'q"
  assumes at_app: "at (app c t q) u = (if u = t then at q t @ [c] else at q u)"
    and del_mem: "c \<in> set (at q t) \<Longrightarrow> \<exists>q'. del q c t = Ok q'"
    and at_del: "del q c t = Ok q' \<Longrightarrow> at q' u = (if u = t then remove1 c (at q t) else at q u)"
    and ids_of: "c \<in> set (ids_of q) \<longleftrightarrow> (\<exists>t. c \<in> set (at q t))"
    and consume_ids: "consume ctx limit q = (ids, q') \<Longrightarrow> ids @ ids_of q' = ids_of q"
    and consume_at: "consume ctx limit q = (ids, q') \<Longrightarrow> c \<in> set ids \<Longrightarrow>
      \<exists>t\<le>BlockTime ctx. c \<in> set (at q t)"
begin

text \<open>Rescheduling moves a consumer: it leaves the old bucket and stands in the new one.\<close>

lemma reschedule:
  assumes "c \<in> set (at q t)" "distinct (at q t)" "u \<noteq> t"
  shows "\<exists>q'. del q c t = Ok q' \<and> c \<notin> set (at (app c u q') t) \<and> c \<in> set (at (app c u q') u)"
proof -
  obtain q' where q': "del q c t = Ok q'" using del_mem[OF assms(1)] by blast
  moreover have "c \<notin> set (at (app c u q') t)" using assms(2,3) at_del[OF q'] by (simp add: at_app)
  ultimately show ?thesis by (auto simp: at_app)
qed

lemma consume_keeps:
  assumes "consume ctx limit q = (ids, q')" "c \<in> set (at q t)"
  shows "c \<in> set ids \<or> (\<exists>u. c \<in> set (at q' u))"
  using assms consume_ids[OF assms(1)] ids_of[of c q] ids_of[of c q'] by (metis Un_iff set_append)

lemma consume_once:
  assumes "consume ctx limit q = (ids, q')" "distinct (ids_of q)" "c \<in> set ids"
  shows "c \<notin> set (at q' u)"
  using assms consume_ids[OF assms(1)] ids_of[of c q'] by (metis disjoint_iff distinct_append)

end

interpretation tq: time_queue bucket flat_ids append_id removeConsumerFromTimeQueue
  ConsumeIdsFromTimeQueue
proof
  fix c t u q q' ctx limit ids
  show "bucket (append_id c t q) u = (if u = t then bucket q t @ [c] else bucket q u)"
    by (rule bucket_append_id)
  show "c \<in> set (bucket q t) \<Longrightarrow> \<exists>q'. removeConsumerFromTimeQueue q c t = Ok q'"
    by (rule removeConsumerFromTimeQueue_mem)
  show "removeConsumerFromTimeQueue q c t = Ok q' \<Longrightarrow>
      bucket q' u = (if u = t then remove1 c (bucket q t) else bucket q u)"
    by (rule removeConsumerFromTimeQueue_Ok)
  show "c \<in> set (flat_ids q) \<longleftrightarrow> (\<exists>t. c \<in> set (bucket q t))"
    by (rule mem_flat_ids)
  show "ConsumeIdsFromTimeQueue ctx limit q = (ids, q') \<Longrightarrow> ids @ flat_ids q' = flat_ids q"
    by (rule consume_splits_queue)
  show "ConsumeIdsFromTimeQueue ctx limit q = (ids, q') \<Longrightarrow> c \<in> set ids \<Longrightarrow>
      \<exists>t\<le>BlockTime ctx. c \<in> set (bucket q t)"
    by (rule consume_due)
qed

subsection \<open>A consumer that stands at most once\<close>

text \<open>
  \<open>sched q c ot\<close>: the queue holds \<open>c\<close> exactly once, under the time \<open>ot\<close>, or not at all. This is how the
  lifecycle uses its queues.
\<close>

definition sched :: "queue \<Rightarrow> consumer_id \<Rightarrow> time option \<Rightarrow> bool" where
  "sched q c ot \<longleftrightarrow>
     count_list (flat_ids q) c = (if ot = None then 0 else 1) \<and>
     (\<forall>t. c \<in> set (bucket q t) \<longleftrightarrow> ot = Some t)"

lemma count_flat_ids:
  "int (count_list (flat_ids q) c) = range_sum (\<lambda>ids. int (count_list ids c)) (\<lambda>_. True) q"
proof -
  have "int (count_list (concat (map snd es)) c) = sum_list (map (\<lambda>e. int (count_list (snd e) c)) es)"
    for es :: "(time \<times> consumer_id list) list"
    by (induction es) simp_all
  then show ?thesis by (simp add: flat_ids_def range_sum_def store_range_def)
qed

lemma count_flat_set:
  "int (count_list (flat_ids (store_set t ids q)) c) =
     int (count_list (flat_ids q) c) - int (count_list (bucket q t) c) + int (count_list ids c)"
  unfolding count_flat_ids by (simp add: range_sum_set bucket_def split: option.splits)

lemma count_flat_remove:
  "int (count_list (flat_ids (store_remove t q)) c) =
     int (count_list (flat_ids q) c) - int (count_list (bucket q t) c)"
  unfolding count_flat_ids by (simp add: range_sum_remove bucket_def split: option.splits)

lemma count_remove1:
  "count_list (remove1 d ids) c = count_list ids c - (if c = d then 1 else 0)"
  by (induction ids) auto

lemma sched_cong:
  assumes "count_list (flat_ids q') c = count_list (flat_ids q) c"
    and "\<And>t. c \<in> set (bucket q' t) \<longleftrightarrow> c \<in> set (bucket q t)"
  shows "sched q' c ot = sched q c ot"
  using assms by (simp add: sched_def)

lemma sched_mem: "sched q c (Some t) \<Longrightarrow> c \<in> set (bucket q t)"
  by (simp add: sched_def)

lemma sched_empty: "sched empty_store c None"
  by (simp add: sched_def flat_ids_def bucket_def)

lemma sched_append_other [simp]:
  assumes "d \<noteq> c"
  shows "sched (append_id d t q) c ot = sched q c ot"
proof (rule sched_cong)
  show "count_list (flat_ids (append_id d t q)) c = count_list (flat_ids q) c"
    using count_flat_set[of t "bucket q t @ [d]" q c] assms by (simp add: append_id_def)
qed (use assms in auto)

lemma sched_append: "sched q c None \<Longrightarrow> sched (append_id c t q) c (Some t)"
  using count_flat_set[of t "bucket q t @ [c]" q c]
  by (auto simp: sched_def append_id_def count_list_0_iff)

lemma count_remove_queue:
  assumes "removeConsumerFromTimeQueue q d t = Ok q'"
  shows "count_list (flat_ids q') c = count_list (flat_ids q) c - (if c = d then 1 else 0)"
proof -
  have mem: "d \<in> set (bucket q t)" using removeConsumerFromTimeQueue_Ok(1)[OF assms] .
  obtain i where i: "index_of d (bucket q t) = Some i"
    using mem index_of_None[of d] by (cases "index_of d (bucket q t)") auto
  have pos: "count_list (bucket q t) d \<noteq> 0" using mem by (simp add: count_list_0_iff)
  have q': "q' = (if length (bucket q t) = 1 then store_remove t q else store_set t (remove1 d (bucket q t)) q)"
    using assms i mem index_of_remove1[OF i]
    unfolding removeConsumerFromTimeQueue_def Let_def by (auto split: if_splits)
  have one: "bucket q t = [d]" if "length (bucket q t) = 1"
    using that mem by (cases "bucket q t") auto
  show ?thesis
  proof (cases "length (bucket q t) = 1")
    case True
    then show ?thesis using count_flat_remove[of t q c] one[OF True] by (auto simp: q')
  next
    case False
    then show ?thesis
      using count_flat_set[of t "remove1 d (bucket q t)" q c] pos by (auto simp: q' count_remove1)
  qed
qed

lemma sched_remove_other:
  assumes "removeConsumerFromTimeQueue q d t = Ok q'" "d \<noteq> c"
  shows "sched q' c ot = sched q c ot"
proof (rule sched_cong)
  show "count_list (flat_ids q') c = count_list (flat_ids q) c"
    using count_remove_queue[OF assms(1), of c] assms(2) by simp
  show "c \<in> set (bucket q' u) \<longleftrightarrow> c \<in> set (bucket q u)" for u
    using removeConsumerFromTimeQueue_Ok(2)[OF assms(1), of u] assms(2) by auto
qed

lemma sched_remove:
  assumes "removeConsumerFromTimeQueue q c t = Ok q'" "sched q c ot"
  shows "sched q' c None" "ot = Some t"
proof -
  show ot: "ot = Some t" using removeConsumerFromTimeQueue_Ok(1)[OF assms(1)] assms(2) by (auto simp: sched_def)
  have 0: "count_list (flat_ids q') c = 0"
    using count_remove_queue[OF assms(1), of c] assms(2) by (simp add: sched_def ot)
  then have "c \<notin> set (bucket q' u)" for u using mem_flat_ids[of c q'] by (auto simp: count_list_0_iff)
  then show "sched q' c None" using 0 by (simp add: sched_def)
qed

lemma sched_removable: "sched q c (Some t) \<Longrightarrow> \<exists>q'. removeConsumerFromTimeQueue q c t = Ok q'"
  by (rule removeConsumerFromTimeQueue_mem) (simp add: sched_def)

text \<open>The ids put back under the last deleted time come from its own bucket.\<close>

lemma consume_loop_rest:
  "consume_loop now limit es result tss = (res, nxt, tss') \<Longrightarrow> nxt \<noteq> [] \<Longrightarrow>
     \<exists>ids. (last tss', ids) \<in> set es \<and> set nxt \<subseteq> set ids"
  by (induction now limit es result tss rule: consume_loop.induct)
    (auto simp: Let_def split: if_splits dest: set_drop_subset[THEN subsetD])

lemma consume_bucket_subset:
  assumes "ConsumeIdsFromTimeQueue ctx limit q = (ids, q')"
  shows "set (bucket q' u) \<subseteq> set (bucket q u)"
proof -
  obtain nxt tss where loop: "consume_loop (BlockTime ctx) limit (entries q) [] [] = (ids, nxt, tss)"
    and q': "q' = consume_delete tss nxt q"
    using assms by (auto simp: ConsumeIdsFromTimeQueue_def split: prod.splits)
  obtain pre post where s: "entries q = pre @ post" "tss = map fst pre" "nxt \<noteq> [] \<longrightarrow> pre \<noteq> []"
    by (rule consume_loop_split[OF loop]) auto
  have dis: "distinct tss" using kv.iter_distinct[of q] s(1,2) by simp
  have "set nxt \<subseteq> set (bucket q (last tss))" if "nxt \<noteq> []"
    using consume_loop_rest[OF loop that] by (auto simp: kv.iter_mem bucket_def)
  moreover have "store_get q' u = (if u \<in> set tss then (if u = last tss \<and> nxt \<noteq> [] then Some nxt else None)
      else store_get q u)"
    unfolding q' using s(2,3) by (intro get_consume_delete[OF dis]) simp
  ultimately show ?thesis by (simp add: bucket_def)
qed

lemma sched_consume:
  assumes "ConsumeIdsFromTimeQueue ctx limit q = (ids, q')" "sched q c ot"
  shows "if c \<in> set ids then sched q' c None \<and> (\<exists>t\<le>BlockTime ctx. ot = Some t) else sched q' c ot"
proof -
  have split: "count_list ids c + count_list (flat_ids q') c = count_list (flat_ids q) c"
    using consume_splits_queue[OF assms(1)] by (metis count_list_append)
  show ?thesis
  proof (cases "c \<in> set ids")
    case True
    then obtain t where t: "t \<le> BlockTime ctx" "c \<in> set (bucket q t)" using consume_due[OF assms(1)] by blast
    then have ot: "ot = Some t" using assms(2) by (simp add: sched_def)
    have "count_list ids c \<noteq> 0" using True by (simp add: count_list_0_iff)
    then have 0: "count_list (flat_ids q') c = 0" using split assms(2) by (simp add: sched_def ot)
    then have "c \<notin> set (bucket q' u)" for u using mem_flat_ids[of c q'] by (auto simp: count_list_0_iff)
    then show ?thesis using True t ot 0 by (simp add: sched_def)
  next
    case False
    then have cnt: "count_list (flat_ids q') c = count_list (flat_ids q) c" using split by (simp add: count_list_0_iff)
    have "c \<in> set (bucket q' u) \<longleftrightarrow> c \<in> set (bucket q u)" for u
    proof
      show "c \<in> set (bucket q' u) \<Longrightarrow> c \<in> set (bucket q u)" using consume_bucket_subset[OF assms(1)] by blast
      assume u: "c \<in> set (bucket q u)"
      then have "c \<in> set (flat_ids q')" using mem_flat_ids[of c q] cnt by (metis count_list_0_iff)
      then obtain u' where "c \<in> set (bucket q' u')" using mem_flat_ids by blast
      moreover from this have "c \<in> set (bucket q u')" using consume_bucket_subset[OF assms(1)] by blast
      ultimately show "c \<in> set (bucket q' u)" using u assms(2) by (simp add: sched_def)
    qed
    then show ?thesis using False sched_cong[OF cnt] assms(2) by simp
  qed
qed

lemma consume_distinct:
  assumes "ConsumeIdsFromTimeQueue ctx limit q = (ids, q')" "\<And>c. \<exists>ot. sched q c ot"
  shows "distinct ids"
proof -
  have "count_list ids c \<le> 1" for c
  proof -
    obtain ot where "sched q c ot" using assms(2) by blast
    then have "count_list (flat_ids q) c \<le> 1" by (auto simp: sched_def split: if_splits)
    then show ?thesis using consume_splits_queue[OF assms(1)] by (metis add_leD1 count_list_append)
  qed
  then have "\<forall>c\<in>set ids. count_list ids c = 1"
    by (metis One_nat_def count_list_0_iff le_Suc_eq le_zero_eq)
  then show ?thesis by (simp add: distinct_count_atmost_1 count_mset)
qed

lemma consume_all_due:
  assumes "ConsumeIdsFromTimeQueue ctx limit q = (ids, q')" "length (due (BlockTime ctx) q) \<le> limit"
    and "sched q c (Some t)" "t \<le> BlockTime ctx"
  shows "c \<in> set ids"
proof -
  have "ids = due (BlockTime ctx) q" using take_due[OF assms(1)] assms(2) by simp
  moreover have "c \<in> set (bucket q t)" using assms(3) by (simp add: sched_def)
  then obtain cs where "store_get q t = Some cs" "c \<in> set cs"
    by (cases "store_get q t") (auto simp: bucket_def)
  then have "(t, cs) \<in> set (entries q)" by (simp add: kv.iter_mem)
  ultimately show ?thesis using \<open>c \<in> set cs\<close> assms(4) by (force simp: due_def)
qed

end
