(* ===== verification/Lifecycle.thy ===== *)
theory Lifecycle
  imports Relay Downtime TimeQueue
begin

text \<open>
  The life of a consumer chain on the provider (\<^verbatim>\<open>consumer_lifecycle.go\<close> and the queue
  accessors of \<^verbatim>\<open>keeper.go\<close>): registration, launch, pause, resume, stop, removal, the
  sweeps of the block hooks, and the declaration of the consumer's client. A cached context
  keeps the state of before when its operation fails; a panic propagates.
\<close>

subsection \<open>The queues\<close>

definition AppendConsumerToBeLaunched :: "consumer_id \<Rightarrow> time \<Rightarrow> 'w pstate \<Rightarrow> 'w pstate" where
  "AppendConsumerToBeLaunched c t s = s\<lparr>SpawnTimeToConsumerIds := append_id c t (SpawnTimeToConsumerIds s)\<rparr>"

definition RemoveConsumerToBeLaunched :: "consumer_id \<Rightarrow> time \<Rightarrow> 'w pstate \<Rightarrow> 'w pstate result" where
  "RemoveConsumerToBeLaunched c t s =
     bind_res (removeConsumerFromTimeQueue (SpawnTimeToConsumerIds s) c t)
       (\<lambda>q. Ok (s\<lparr>SpawnTimeToConsumerIds := q\<rparr>))"

definition AppendConsumerToBeRemoved :: "consumer_id \<Rightarrow> time \<Rightarrow> 'w pstate \<Rightarrow> 'w pstate" where
  "AppendConsumerToBeRemoved c t s = s\<lparr>RemovalTimeToConsumerIds := append_id c t (RemovalTimeToConsumerIds s)\<rparr>"

definition AppendConsumerToBeAutoStopped :: "consumer_id \<Rightarrow> time \<Rightarrow> 'w pstate \<Rightarrow> 'w pstate" where
  "AppendConsumerToBeAutoStopped c t s =
     s\<lparr>PauseExpirationTimeToConsumerIds := append_id c t (PauseExpirationTimeToConsumerIds s)\<rparr>"

definition RemoveConsumerToBeAutoStopped :: "consumer_id \<Rightarrow> time \<Rightarrow> 'w pstate \<Rightarrow> 'w pstate result" where
  "RemoveConsumerToBeAutoStopped c t s =
     bind_res (removeConsumerFromTimeQueue (PauseExpirationTimeToConsumerIds s) c t)
       (\<lambda>q. Ok (s\<lparr>PauseExpirationTimeToConsumerIds := q\<rparr>))"

definition CancelConsumerPauseExpiration :: "consumer_id \<Rightarrow> 'w pstate \<Rightarrow> 'w pstate result" where
  "CancelConsumerPauseExpiration c s =
     (case GetConsumerPauseExpirationTime s c of
        None \<Rightarrow> Ok s
      | Some expirationTime \<Rightarrow>
          bind_res (if c \<in> set (bucket (PauseExpirationTimeToConsumerIds s) expirationTime)
                    then RemoveConsumerToBeAutoStopped c expirationTime s else Ok s)
            (\<lambda>s1. Ok (DeleteConsumerPauseExpirationTime c s1)))"

subsection \<open>Launch\<close>

definition PrepareConsumerForLaunch :: "consumer_id \<Rightarrow> time \<Rightarrow> time \<Rightarrow> 'w pstate \<Rightarrow> 'w pstate result" where
  "PrepareConsumerForLaunch c previousSpawnTime spawnTime s =
     bind_res (if previousSpawnTime \<noteq> zero_time then RemoveConsumerToBeLaunched c previousSpawnTime s else Ok s)
       (\<lambda>s1. Ok (AppendConsumerToBeLaunched c spawnTime s1))"

definition InitializeConsumer :: "consumer_id \<Rightarrow> 'w pstate \<Rightarrow> time option \<times> 'w pstate" where
  "InitializeConsumer c s =
     (let phase = GetConsumerPhase s c in
      if phase \<noteq> CONSUMER_PHASE_REGISTERED \<and> phase \<noteq> CONSUMER_PHASE_INITIALIZED then (None, s)
      else case GetConsumerInitializationParameters s c of
        None \<Rightarrow> (None, s)
      | Some ps \<Rightarrow>
          if SpawnTime ps = zero_time then (None, s)
          else (Some (SpawnTime ps), SetConsumerPhase c CONSUMER_PHASE_INITIALIZED s))"

text \<open>\<^verbatim>\<open>types.DefaultMaxClockDrift\<close> and the defaults of \<^verbatim>\<open>NewConsumerParams\<close>.\<close>

definition DefaultMaxClockDrift :: duration where
  "DefaultMaxClockDrift = 10 * 10 ^ 9"

definition NewConsumerParams :: "duration \<Rightarrow> int \<Rightarrow> duration \<Rightarrow> duration \<Rightarrow> ConsumerParams" where
  "NewConsumerParams vaasTimeoutPeriod historicalEntries consumerUnbondingPeriod safeModeThreshold =
     \<lparr>cp_VaasTimeoutPeriod = vaasTimeoutPeriod, cp_HistoricalEntries = historicalEntries,
      cp_UnbondingPeriod = consumerUnbondingPeriod, cp_SafeModeThreshold = safeModeThreshold,
      cp_SignedBlocksWindow = 600, cp_MinSignedPerWindow = 5 * 10 ^ 17, cp_OwnerAddress = '''',
      cp_PhotonFeesEnabled = False\<rparr>"

definition getSelfConsensusState :: "'w keeper \<Rightarrow> sdk_ctx \<Rightarrow> 'w pstate \<Rightarrow> nat \<times> nat \<Rightarrow> ConsensusState result" where
  "getSelfConsensusState k ctx s height =
     guard_res (ParseChainID k (ChainID ctx) = fst height) ErrPlain
       (of_option ErrPlain (GetHistoricalInfo k (world s) (int (snd height))))"

definition MakeConsumerGenesis ::
    "'w keeper \<Rightarrow> sdk_ctx \<Rightarrow> consumer_id \<Rightarrow> ValidatorUpdate list \<Rightarrow> 'w pstate \<Rightarrow> ConsumerGenesisState result" where
  "MakeConsumerGenesis k ctx c initialValidatorUpdates s =
     bind_res (of_option ErrInvalidConsumerState (GetConsumerInitializationParameters s c)) (\<lambda>rec.
     let params0 = NewConsumerParams (init_VaasTimeoutPeriod rec) (HistoricalEntries rec)
           (init_UnbondingPeriod rec) (SafeModeThreshold rec);
         downtimeParams = CurrentDowntimeParams s;
         params1 = params0\<lparr>cp_SignedBlocksWindow := dp_SignedBlocksWindow downtimeParams,
           cp_MinSignedPerWindow := dp_MinSignedPerWindow downtimeParams\<rparr>;
         params2 = (case GetConsumerOwnerAddress s c of
            Some owner \<Rightarrow> params1\<lparr>cp_OwnerAddress := owner\<rparr> | None \<Rightarrow> params1)
     in
     bind_res (of_option ErrNoUnbondingTime (UnbondingTime k (world s))) (\<lambda>providerUnbondingPeriod.
     let height = (ParseChainID k (ChainID ctx), nat (BlockHeight ctx)) in
     bind_res (CalculateTrustPeriod k providerUnbondingPeriod (TrustingPeriodFraction (Params s))) (\<lambda>trustPeriod.
     let clientState = \<lparr>tm_ChainId = ChainID ctx, tm_LatestHeight = height, tm_TrustingPeriod = trustPeriod,
           tm_UnbondingPeriod = providerUnbondingPeriod, tm_MaxClockDrift = DefaultMaxClockDrift\<rparr> in
     bind_res (getSelfConsensusState k ctx s height) (\<lambda>consState.
     Ok \<lparr>gen_ClientState = clientState, gen_ConsensusState = consState,
         gen_InitialValSet = initialValidatorUpdates, gen_Params = params2, gen_NewChain = True\<rparr>))))"

definition LaunchConsumer ::
    "'w keeper \<Rightarrow> sdk_ctx \<Rightarrow> StakingValidator list \<Rightarrow> consumer_id \<Rightarrow> 'w pstate \<Rightarrow> 'w pstate result" where
  "LaunchConsumer k ctx bondedValidators c s =
     bind_res (of_option ErrPlain (GetConsumerInitializationParameters s c)) (\<lambda>rec.
     bind_res (ComputeConsumerNextValSet k ctx bondedValidators c [] False s) (\<lambda>(initialValUpdates, s1).
     guard_res (initialValUpdates \<noteq> []) ErrPlain (
     bind_res (MakeConsumerGenesis k ctx c initialValUpdates s1) (\<lambda>genesisState.
     let s2 = SetConsumerGenesis c genesisState s1;
         s3 = SetEquivocationEvidenceMinHeight c (snd (InitialHeight rec)) s2;
         s4 = SetConsumerPhase c CONSUMER_PHASE_LAUNCHED s3
     in Ok (SetConsumerLastAckTime c (BlockTime ctx) s4)))))"

definition launch_one ::
    "'w keeper \<Rightarrow> sdk_ctx \<Rightarrow> StakingValidator list \<Rightarrow> consumer_id \<Rightarrow> 'w pstate \<Rightarrow> 'w pstate result" where
  "launch_one k ctx bondedValidators c s =
     (case LaunchConsumer k ctx bondedValidators c s of
        Ok t \<Rightarrow> Ok t
      | Panic \<Rightarrow> Panic
      | Err _ \<Rightarrow>
          bind_res (of_option ErrInvalidConsumerState (GetConsumerInitializationParameters s c)) (\<lambda>rec.
          bind_res (SetConsumerInitializationParameters k c (rec\<lparr>SpawnTime := zero_time\<rparr>) s) (\<lambda>s1.
          Ok (SetConsumerPhase c CONSUMER_PHASE_REGISTERED s1))))"

definition BeginBlockLaunchConsumers :: "'w keeper \<Rightarrow> sdk_ctx \<Rightarrow> 'w pstate \<Rightarrow> 'w pstate result" where
  "BeginBlockLaunchConsumers k ctx s =
     (let (consumerIds, q) = ConsumeIdsFromTimeQueue ctx 200 (SpawnTimeToConsumerIds s);
          s1 = s\<lparr>SpawnTimeToConsumerIds := q\<rparr>
      in bind_res (if consumerIds \<noteq> [] then GetLastBondedValidators k s1 else Ok []) (\<lambda>bondedValidators.
         fold_res (launch_one k ctx bondedValidators) consumerIds s1))"

subsection \<open>Stop, pause, resume\<close>

definition StopAndPrepareForConsumerRemoval ::
    "'w keeper \<Rightarrow> sdk_ctx \<Rightarrow> consumer_id \<Rightarrow> 'w pstate \<Rightarrow> 'w pstate result" where
  "StopAndPrepareForConsumerRemoval k ctx c s =
     (let s1 = SetConsumerPhase c CONSUMER_PHASE_STOPPED s;
          s2 = CancelConsumerDowntimeState c s1
      in bind_res (CancelConsumerPauseExpiration c s2) (\<lambda>s3.
         let s4 = DeleteConsumerPausedAt c (DeleteConsumerPauseReason c s3) in
         bind_res (of_option ErrPlain (UnbondingTime k (world s4))) (\<lambda>unbondingPeriod.
         let removalTime = BlockTime ctx + unbondingPeriod;
             s5 = SetConsumerRemovalTime c removalTime s4
         in Ok (AppendConsumerToBeRemoved c removalTime s5))))"

definition PauseConsumerChain ::
    "'w keeper \<Rightarrow> sdk_ctx \<Rightarrow> consumer_id \<Rightarrow> PauseReason \<Rightarrow> 'w pstate \<Rightarrow> 'w pstate result" where
  "PauseConsumerChain k ctx c reason s =
     guard_res (reason \<noteq> PAUSE_REASON_UNSPECIFIED) ErrPlain (
     guard_res (GetConsumerPhase s c = CONSUMER_PHASE_LAUNCHED) ErrInvalidPhase (
     let s1 = PayWithheldFees k ctx c s;
         s2 = SetConsumerPhase c CONSUMER_PHASE_PAUSED s1;
         s3 = SetConsumerPauseReason c reason s2;
         s4 = SetConsumerPausedAt c (BlockTime ctx) s3;
         s5 = CancelConsumerDowntimeState c s4;
         autoStopTime = BlockTime ctx + MaxPauseDuration (Params s5);
         s6 = SetConsumerPauseExpirationTime c autoStopTime s5
     in Ok (AppendConsumerToBeAutoStopped c autoStopTime s6)))"

definition forkEvidenceExpired :: "'w keeper \<Rightarrow> sdk_ctx \<Rightarrow> consumer_id \<Rightarrow> string \<Rightarrow> 'w pstate \<Rightarrow> unit result" where
  "forkEvidenceExpired k ctx c clientId s =
     bind_res (of_option ErrPlain (GetConsumerPausedAt s c)) (\<lambda>pausedAt.
     case GetClientState k (world s) clientId of
       None \<Rightarrow> Err ErrInvalidConsumerClient
     | Some OtherClient \<Rightarrow> Err ErrInvalidConsumerClient
     | Some (TmClient tm) \<Rightarrow>
         guard_res (\<not> BlockTime ctx < pausedAt + (tm_TrustingPeriod tm + tm_MaxClockDrift tm))
           ErrForkEvidenceStillVerifiable (Ok ()))"

text \<open>A pause that fails is logged and the loop goes on.\<close>

definition pause_frozen :: "'w keeper \<Rightarrow> sdk_ctx \<Rightarrow> consumer_id \<Rightarrow> 'w pstate \<Rightarrow> 'w pstate" where
  "pause_frozen k ctx c s =
     (case GetConsumerClientId s c of
        None \<Rightarrow> s
      | Some clientId \<Rightarrow>
          if GetClientStatus k (world s) clientId \<noteq> Frozen then s
          else case PauseConsumerChain k ctx c PAUSE_REASON_LIGHT_CLIENT_ATTACK s of Ok t \<Rightarrow> t | _ \<Rightarrow> s)"

definition PauseConsumersWithFrozenClients :: "'w keeper \<Rightarrow> sdk_ctx \<Rightarrow> 'w pstate \<Rightarrow> 'w pstate" where
  "PauseConsumersWithFrozenClients k ctx s = fold (pause_frozen k ctx) (GetAllLaunchedConsumerIds s) s"

definition ResumeConsumerChain :: "'w keeper \<Rightarrow> sdk_ctx \<Rightarrow> consumer_id \<Rightarrow> 'w pstate \<Rightarrow> 'w pstate result" where
  "ResumeConsumerChain k ctx c s =
     guard_res (GetConsumerPhase s c = CONSUMER_PHASE_PAUSED) ErrInvalidPhase (
     bind_res (of_option ErrInvalidConsumerClient (GetConsumerClientId s c)) (\<lambda>clientId.
     guard_res (GetClientStatus k (world s) clientId = Active) ErrConsumerClientNotActive (
     bind_res (if GetConsumerPauseReason s c = PAUSE_REASON_LIGHT_CLIENT_ATTACK
               then forkEvidenceExpired k ctx c clientId s else Ok ()) (\<lambda>_.
     let s1 = DeleteConsumerPausedAt c (DeleteConsumerPauseReason c s) in
     bind_res (CancelConsumerPauseExpiration c s1) (\<lambda>s2.
     let s3 = SetConsumerPhase c CONSUMER_PHASE_LAUNCHED s2;
         s4 = SetConsumerLastAckTime c (BlockTime ctx) s3
     in bind_res (QueueImmediateSnapshotVSCPacket k ctx c s4) (\<lambda>s5.
        case sendVSCPacketsToChainStrict k ctx c clientId s5 of
          (True, s6) \<Rightarrow> Ok s6
        | (False, _) \<Rightarrow> Err ErrPlain))))))"

subsection \<open>The block hooks\<close>

definition in_cache :: "('w pstate \<Rightarrow> 'w pstate result) \<Rightarrow> 'w pstate \<Rightarrow> 'w pstate result" where
  "in_cache f s = (case f s of Ok t \<Rightarrow> Ok t | Err _ \<Rightarrow> Ok s | Panic \<Rightarrow> Panic)"

definition auto_stop_one :: "'w keeper \<Rightarrow> sdk_ctx \<Rightarrow> consumer_id \<Rightarrow> 'w pstate \<Rightarrow> 'w pstate result" where
  "auto_stop_one k ctx c s =
     (if GetConsumerPhase s c \<noteq> CONSUMER_PHASE_PAUSED then Ok s
      else in_cache (StopAndPrepareForConsumerRemoval k ctx c) s)"

definition BeginBlockAutoStopPausedConsumers :: "'w keeper \<Rightarrow> sdk_ctx \<Rightarrow> 'w pstate \<Rightarrow> 'w pstate result" where
  "BeginBlockAutoStopPausedConsumers k ctx s =
     (let (consumerIds, q) = ConsumeIdsFromTimeQueue ctx 200 (PauseExpirationTimeToConsumerIds s)
      in fold_res (auto_stop_one k ctx) consumerIds (s\<lparr>PauseExpirationTimeToConsumerIds := q\<rparr>))"

definition DeleteConsumerChain :: "'w keeper \<Rightarrow> consumer_id \<Rightarrow> 'w pstate \<Rightarrow> 'w pstate result" where
  "DeleteConsumerChain k c s =
     (let phase = GetConsumerPhase s c in
      guard_res (phase = CONSUMER_PHASE_STOPPED \<or> Prelaunched phase) ErrPlain (
      bind_res (if phase = CONSUMER_PHASE_INITIALIZED
                then bind_res (of_option ErrPlain (GetConsumerInitializationParameters s c)) (\<lambda>ps.
                     case RemoveConsumerToBeLaunched c (SpawnTime ps) s of
                       Ok s1 \<Rightarrow> Ok s1 | Err _ \<Rightarrow> Err ErrInvalidConsumerState | Panic \<Rightarrow> Panic)
                else Ok s) (\<lambda>s1.
      bind_res (SweepConsumerFeePool k c [] s1) (\<lambda>s2.
      let s3 = DeleteConsumerClientId c s2;
          s4 = DeleteConsumerGenesis c s3;
          s5 = DeleteKeyAssignments c s4;
          s6 = DeleteEquivocationEvidenceMinHeight c s5;
          s7 = DeleteInitChainHeight c s6;
          s8 = DeletePendingVSCPackets c s7;
          s9 = DeleteConsumerValSet c s8;
          s10 = DeleteConsumerRemovalTime c s9;
          s11 = DeleteConsumerLastAckTime c s10;
          s12 = DeleteConsumerHighestSentVscId c s11;
          s13 = DeleteConsumerHighestAckedVscId c s12;
          s14 = DeleteConsumerPauseReason c s13;
          s15 = DeleteConsumerPausedAt c s14;
          s16 = DeleteConsumerDebt c s15;
          s17 = s16\<lparr>ConsumerFeesPerBlockOverride := store_remove c (ConsumerFeesPerBlockOverride s16)\<rparr>;
          s18 = s17\<lparr>FeePoolAddressToConsumerId :=
                  store_remove (GetConsumerFeePoolAddress k c) (FeePoolAddressToConsumerId s17)\<rparr>;
          s19 = CancelConsumerDowntimeState c s18;
          s20 = s19\<lparr>WithheldFeeRecords := store_drop (\<lambda>key. fst key = c) (WithheldFeeRecords s19)\<rparr>;
          s21 = s20\<lparr>AcceptedDowntimeWindows := store_drop (\<lambda>key. fst key = c) (AcceptedDowntimeWindows s20)\<rparr>;
          s22 = s21\<lparr>DowntimeWindowFloors := store_drop (\<lambda>key. fst key = c) (DowntimeWindowFloors s21)\<rparr>;
          s23 = DeleteConsumerChainId c s22
      in Ok (SetConsumerPhase c CONSUMER_PHASE_DELETED s23)))))"

definition BeginBlockRemoveConsumers :: "'w keeper \<Rightarrow> sdk_ctx \<Rightarrow> 'w pstate \<Rightarrow> 'w pstate result" where
  "BeginBlockRemoveConsumers k ctx s =
     (let (consumerIds, q) = ConsumeIdsFromTimeQueue ctx 200 (RemovalTimeToConsumerIds s)
      in fold_res (\<lambda>c. in_cache (DeleteConsumerChain k c)) consumerIds (s\<lparr>RemovalTimeToConsumerIds := q\<rparr>))"

definition sweep_unresponsive_one ::
    "'w keeper \<Rightarrow> sdk_ctx \<Rightarrow> duration \<Rightarrow> consumer_id \<Rightarrow> 'w pstate \<Rightarrow> 'w pstate result" where
  "sweep_unresponsive_one k ctx grace c s =
     (if BlockTime ctx - GetConsumerLastAckTime ctx s c \<le> grace then Ok s
      else in_cache (StopAndPrepareForConsumerRemoval k ctx c) s)"

definition SweepUnresponsiveConsumers :: "'w keeper \<Rightarrow> sdk_ctx \<Rightarrow> 'w pstate \<Rightarrow> 'w pstate result" where
  "SweepUnresponsiveConsumers k ctx s =
     bind_res (LivenessGracePeriod k s) (\<lambda>grace.
     fold_res (sweep_unresponsive_one k ctx grace) (GetAllLaunchedConsumerIds s) s)"

subsection \<open>The declared client\<close>

definition SetConsumerClient :: "'w keeper \<Rightarrow> consumer_id \<Rightarrow> string \<Rightarrow> 'w pstate \<Rightarrow> 'w pstate result" where
  "SetConsumerClient k c clientID s =
     guard_res (case GetConsumerClientId s c of None \<Rightarrow> True | Some existing \<Rightarrow> existing = '''')
       ErrInvalidMsgUpdateConsumer (
     bind_res (of_option ErrInvalidConsumerState (GetConsumerChainId s c)) (\<lambda>chainID.
     case GetClientState k (world s) clientID of
       None \<Rightarrow> Err ErrInvalidMsgUpdateConsumer
     | Some OtherClient \<Rightarrow> Err ErrInvalidMsgUpdateConsumer
     | Some (TmClient tm) \<Rightarrow>
         guard_res (tm_ChainId tm = chainID) ErrInvalidMsgUpdateConsumer (
         guard_res (GetClientStatus k (world s) clientID = Active) ErrInvalidMsgUpdateConsumer (
         guard_res (case GetClientCounterparty k (world s) clientID of None \<Rightarrow> False | Some cp \<Rightarrow> cp \<noteq> '''')
           ErrInvalidMsgUpdateConsumer (
         guard_res (\<not> tm_TrustingPeriod tm \<le> ChallengeableInterval (InfractionParams s))
           ErrInvalidMsgUpdateConsumer (
         SetConsumerClientId c clientID s))))))"

end
