(* ===== verification/Evidence.thy ===== *)
theory Evidence
  imports Lifecycle
begin

text \<open>
  Evidence against consumers and validators: the downtime challenge
  (\<^verbatim>\<open>downtime_challenge.go\<close>), double voting and light-client attacks
  (\<^verbatim>\<open>consumer_equivocation.go\<close>). CometBFT's decoding, hashing and signature checks and the
  07-tendermint light-client module are outside the repository: they are the fields of
  \<open>'w verifier\<close>.
\<close>

subsection \<open>Votes, commits, headers\<close>

record Vote =
  vote_Type :: int
  vote_Height :: int
  vote_Round :: int
  vote_BlockID :: bytes
  vote_Timestamp :: time
  vote_ValidatorAddress :: addr
  vote_Signature :: bytes

record DuplicateVoteEvidence =
  VoteA :: Vote
  VoteB :: Vote

datatype BlockIDFlag = BlockIDFlagUnknown | BlockIDFlagAbsent | BlockIDFlagCommit | BlockIDFlagNil

record CommitSig =
  sig_BlockIDFlag :: BlockIDFlag
  sig_ValidatorAddress :: addr
  sig_Timestamp :: time
  sig_Signature :: bytes

record Commit =
  commit_Height :: int
  commit_Round :: int
  commit_BlockID :: bytes
  Signatures :: "CommitSig list"

record Header =
  hdr_ChainID :: string
  hdr_Height :: int
  hdr_LastCommitHash :: bytes
  hdr_ValidatorsHash :: bytes
  hdr_NextValidatorsHash :: bytes
  hdr_ConsensusHash :: bytes
  hdr_AppHash :: bytes
  hdr_LastResultsHash :: bytes

record Validator =
  v_Address :: addr
  v_PubKey :: pubkey

text \<open>
  A 07-tendermint header as it arrives: the inner header the code reads directly (absent when the
  message is malformed), and the undecoded rest.
\<close>

record ClientHeader =
  ch_Header :: "Header option"
  ch_RevisionHeight :: "nat \<times> nat"
  ch_SignedHeader :: bytes
  ch_ValidatorSet :: bytes

record LightBlock =
  lb_Header :: Header
  lb_Commit :: Commit
  lb_ValidatorSet :: "Validator list"

record Misbehaviour =
  mb_ClientId :: string
  Header1 :: ClientHeader
  Header2 :: ClientHeader

record 'w verifier =
  PubKeyAddress :: "pubkey \<Rightarrow> addr"
  VerifySignature :: "pubkey \<Rightarrow> bytes \<Rightarrow> bytes \<Rightarrow> bool"
  VoteSignBytes :: "string \<Rightarrow> Vote \<Rightarrow> bytes"
  CommitFromProto :: "bytes \<Rightarrow> Commit option"
  CommitHash :: "Commit \<Rightarrow> bytes"
  CommitVoteSignBytes :: "Commit \<Rightarrow> string \<Rightarrow> nat \<Rightarrow> bytes"
  SignedHeaderFromProto :: "bytes \<Rightarrow> (Header \<times> Commit) option"
  ValidatorSetFromProto :: "bytes \<Rightarrow> Validator list option"
  DuplicateVoteEvidenceFromProto :: "bytes \<Rightarrow> DuplicateVoteEvidence option"
  FromCmtPubKeyInterface :: "pubkey \<Rightarrow> pubkey option"
  VerifyHeader :: "'w \<Rightarrow> string \<Rightarrow> ClientHeader \<Rightarrow> bool"
  CheckForMisbehaviour :: "'w \<Rightarrow> string \<Rightarrow> Misbehaviour \<Rightarrow> bool"
  VerifyMisbehaviour :: "'w \<Rightarrow> string \<Rightarrow> Misbehaviour \<Rightarrow> bool"
  UpdateClient :: "'w \<Rightarrow> string \<Rightarrow> Misbehaviour \<Rightarrow> 'w option"

subsection \<open>The downtime challenge\<close>

record MsgChallengeConsumerDowntime =
  chal_Signer :: string
  chal_ConsumerId :: consumer_id
  chal_ValidatorAddr :: addr
  chal_ValidatorPubkey :: pubkey
  ClaimedHeight :: int
  chal_Header :: "ClientHeader option"
  LastCommit :: bytes

text \<open>The loop over the signatures keeps the first index that names the validator.\<close>

fun sig_index :: "addr \<Rightarrow> CommitSig list \<Rightarrow> nat \<Rightarrow> nat option" where
  "sig_index valAddr [] i = None"
| "sig_index valAddr (sig # sigs) i =
     (if sig_ValidatorAddress sig = valAddr then Some i else sig_index valAddr sigs (i + 1))"

definition verifySealedCommitSignature ::
    "'w verifier \<Rightarrow> bytes \<Rightarrow> Header \<Rightarrow> string \<Rightarrow> addr \<Rightarrow> pubkey \<Rightarrow> unit result" where
  "verifySealedCommitSignature v lastCommit header chainID valAddr pubKeyBytes =
     (let claimedHeight = hdr_Height header - 1 in
      bind_res (of_option ErrDowntimeChallengeFailed (CommitFromProto v lastCommit)) (\<lambda>commit.
      guard_res (commit_Height commit = claimedHeight) ErrDowntimeChallengeFailed (
      guard_res (CommitHash v commit = hdr_LastCommitHash header) ErrDowntimeChallengeFailed (
      guard_res (PubKeyAddress v pubKeyBytes = valAddr) ErrDowntimeChallengeFailed (
      bind_res (of_option ErrDowntimeChallengeFailed (sig_index valAddr (Signatures commit) 0)) (\<lambda>sigIdx.
      let sig = Signatures commit ! sigIdx in
      guard_res (sig_BlockIDFlag sig = BlockIDFlagCommit \<or> sig_BlockIDFlag sig = BlockIDFlagNil)
        ErrDowntimeChallengeFailed (
      guard_res (VerifySignature v pubKeyBytes (CommitVoteSignBytes v commit chainID sigIdx) (sig_Signature sig))
        ErrDowntimeChallengeFailed (Ok ()))))))))"

definition verifyDowntimeChallengeHeader ::
    "'w keeper \<Rightarrow> 'w verifier \<Rightarrow> 'w pstate \<Rightarrow> string \<Rightarrow> ClientHeader \<Rightarrow> unit result" where
  "verifyDowntimeChallengeHeader k v s clientId header =
     guard_res (GetClientStatus k (world s) clientId = Active) ErrDowntimeChallengeFailed (
     guard_res (VerifyHeader v (world s) clientId header) ErrPlain (Ok ()))"

definition HandleChallengeConsumerDowntime ::
    "'w keeper \<Rightarrow> 'w verifier \<Rightarrow> sdk_ctx \<Rightarrow> MsgChallengeConsumerDowntime \<Rightarrow> 'w pstate \<Rightarrow> 'w pstate result" where
  "HandleChallengeConsumerDowntime k v ctx msg s =
     (let c = chal_ConsumerId msg in
      bind_res (of_option ErrDowntimeChallengeFailed (chal_Header msg)) (\<lambda>clientHeader.
      bind_res (of_option ErrDowntimeChallengeFailed (ch_Header clientHeader)) (\<lambda>header.
      bind_res (of_option ErrDowntimeChallengeFailed
        (findPendingDowntimeSlashContaining s c (chal_ValidatorAddr msg) (ClaimedHeight msg))) (\<lambda>pending.
      let index = ClaimedHeight msg - pds_WindowStartHeight pending in
      guard_res (BitmapIsSet (pds_MissedBlocksBitmap pending) index) ErrDowntimeChallengeFailed (
      bind_res (of_option ErrDowntimeChallengeFailed (GetConsumerChainId s c)) (\<lambda>consumerChainId.
      guard_res (hdr_ChainID header = consumerChainId) ErrDowntimeChallengeFailed (
      guard_res (hdr_Height header = ClaimedHeight msg + 1) ErrDowntimeChallengeFailed (
      bind_res (of_option ErrDowntimeChallengeFailed (GetConsumerClientId s c)) (\<lambda>clientId.
      bind_res (as_error ErrDowntimeChallengeFailed (verifyDowntimeChallengeHeader k v s clientId clientHeader)) (\<lambda>_.
      bind_res (verifySealedCommitSignature v (LastCommit msg) header consumerChainId
                  (chal_ValidatorAddr msg) (chal_ValidatorPubkey msg)) (\<lambda>_.
      PauseConsumerChain k ctx c PAUSE_REASON_DOWNTIME_CHALLENGE s)))))))))))"

subsection \<open>Double voting\<close>

definition VerifyDoubleVotingEvidence ::
    "'w verifier \<Rightarrow> DuplicateVoteEvidence \<Rightarrow> string \<Rightarrow> pubkey option \<Rightarrow> unit result" where
  "VerifyDoubleVotingEvidence v evidence chainId pubkey =
     (let a = VoteA evidence; b = VoteB evidence in
      bind_res (of_option ErrPlain pubkey) (\<lambda>pk.
      guard_res (PubKeyAddress v pk = vote_ValidatorAddress a) ErrInvalidDoubleVotingEvidence (
      guard_res (\<not> (vote_Height a \<noteq> vote_Height b \<or> vote_Round a \<noteq> vote_Round b \<or> vote_Type a \<noteq> vote_Type b))
        ErrInvalidDoubleVotingEvidence (
      guard_res (vote_ValidatorAddress a = vote_ValidatorAddress b) ErrInvalidDoubleVotingEvidence (
      guard_res (vote_BlockID a \<noteq> vote_BlockID b) ErrInvalidDoubleVotingEvidence (
      guard_res (VerifySignature v pk (VoteSignBytes v chainId a) (vote_Signature a)) ErrPlain (
      guard_res (VerifySignature v pk (VoteSignBytes v chainId b) (vote_Signature b)) ErrPlain (Ok ()))))))))"

definition JailAndTombstoneValidator ::
    "'w keeper \<Rightarrow> sdk_ctx \<Rightarrow> addr \<Rightarrow> SlashJailParameters \<Rightarrow> 'w pstate \<Rightarrow> 'w pstate result" where
  "JailAndTombstoneValidator k ctx providerAddr jailingParams s =
     bind_res (of_option ErrNoValidatorForAddress (GetValidatorByConsAddr k (world s) providerAddr)) (\<lambda>validator.
     guard_res (\<not> val_Unbonded validator) ErrNoUnbondingDelegation (
     let liveAddr = liveConsAddrOf k validator providerAddr in
     guard_res (\<not> IsTombstoned k (world s) liveAddr) ErrValidatorTombstoned (
     bind_res (if val_Jailed validator then Ok (world s) else of_option ErrPlain (Jail k (world s) liveAddr)) (\<lambda>w1.
     bind_res (of_option ErrPlain (JailUntil k w1 liveAddr (BlockTime ctx + JailDuration jailingParams))) (\<lambda>w2.
     bind_res (if Tombstone jailingParams then of_option ErrPlain (TombstoneValidator k w2 liveAddr) else Ok w2) (\<lambda>w3.
     Ok (s\<lparr>world := w3\<rparr>)))))))"

text \<open>
  The returned bool says whether the validator was already tombstoned. When the slash went
  through and the jailing then finds a tombstone, the slash stays.
\<close>

definition punishEquivocation ::
    "'w keeper \<Rightarrow> sdk_ctx \<Rightarrow> addr \<Rightarrow> SlashJailParameters \<Rightarrow> 'w pstate \<Rightarrow> (bool \<times> 'w pstate) result" where
  "punishEquivocation k ctx providerAddr params s =
     (case SlashValidator k providerAddr params INFRACTION_DOUBLE_SIGN s of
        Panic \<Rightarrow> Panic
      | Err e \<Rightarrow> if e = ErrValidatorTombstoned then Ok (True, s) else Err e
      | Ok s1 \<Rightarrow>
          (case JailAndTombstoneValidator k ctx providerAddr params s1 of
             Panic \<Rightarrow> Panic
           | Err e \<Rightarrow> if e = ErrValidatorTombstoned then Ok (True, s1) else Err e
           | Ok s2 \<Rightarrow> Ok (False, s2)))"

definition HandleConsumerDoubleVoting ::
    "'w keeper \<Rightarrow> 'w verifier \<Rightarrow> sdk_ctx \<Rightarrow> consumer_id \<Rightarrow> DuplicateVoteEvidence \<Rightarrow> pubkey option
       \<Rightarrow> 'w pstate \<Rightarrow> 'w pstate result" where
  "HandleConsumerDoubleVoting k v ctx c evidence pubkey s =
     guard_res (GetConsumerPhase s c = CONSUMER_PHASE_LAUNCHED) ErrInvalidDoubleVotingEvidence (
     let minHeight = GetEquivocationEvidenceMinHeight s c in
     guard_res (\<not> vote_Height (VoteA evidence) mod 2 ^ 64 < int minHeight) ErrInvalidDoubleVotingEvidence (
     bind_res (of_option ErrPlain (GetConsumerChainId s c)) (\<lambda>chainId.
     bind_res (VerifyDoubleVotingEvidence v evidence chainId pubkey) (\<lambda>_.
     let providerAddr = GetProviderAddrFromConsumerAddr s c (vote_ValidatorAddress (VoteA evidence));
         liveAddr = liveProviderConsAddr k s providerAddr;
         punishedKey = (chainId, liveAddr, vote_Height (VoteA evidence))
     in if store_has (PunishedEquivocations s) punishedKey then Ok s
        else let doubleSign = DoubleSign (InfractionParams s) in
          bind_res (punishEquivocation k ctx providerAddr doubleSign s) (\<lambda>(alreadyTombstoned, s1).
          if alreadyTombstoned \<or> Tombstone doubleSign
          then Ok (s1\<lparr>PunishedEquivocations :=
                 store_drop (\<lambda>key. fst key = chainId \<and> fst (snd key) = liveAddr) (PunishedEquivocations s1)\<rparr>)
          else Ok (s1\<lparr>PunishedEquivocations := store_set punishedKey () (PunishedEquivocations s1)\<rparr>))))))"

subsection \<open>Light-client attacks\<close>

definition headersStateTransitionsAreConflicting :: "Header \<Rightarrow> Header \<Rightarrow> bool" where
  "headersStateTransitionsAreConflicting h1 h2 \<longleftrightarrow>
     hdr_ValidatorsHash h1 \<noteq> hdr_ValidatorsHash h2 \<or>
     hdr_NextValidatorsHash h1 \<noteq> hdr_NextValidatorsHash h2 \<or>
     hdr_ConsensusHash h1 \<noteq> hdr_ConsensusHash h2 \<or>
     hdr_AppHash h1 \<noteq> hdr_AppHash h2 \<or>
     hdr_LastResultsHash h1 \<noteq> hdr_LastResultsHash h2"

definition headerToLightBlock :: "'w verifier \<Rightarrow> ClientHeader \<Rightarrow> LightBlock result" where
  "headerToLightBlock v h =
     bind_res (of_option ErrPlain (SignedHeaderFromProto v (ch_SignedHeader h))) (\<lambda>(header, commit).
     bind_res (of_option ErrPlain (ValidatorSetFromProto v (ch_ValidatorSet h))) (\<lambda>vs.
     Ok \<lparr>lb_Header = header, lb_Commit = commit, lb_ValidatorSet = vs\<rparr>))"

text \<open>\<^verbatim>\<open>ValidatorSet.GetByAddress\<close> finds the first validator of the address.\<close>

definition GetByAddress :: "Validator list \<Rightarrow> addr \<Rightarrow> Validator option" where
  "GetByAddress vs a = find (\<lambda>v. v_Address v = a) vs"

definition verifyLightBlockCommitSig :: "'w verifier \<Rightarrow> LightBlock \<Rightarrow> nat \<Rightarrow> unit result" where
  "verifyLightBlockCommitSig v lightBlock sigIdx =
     (let sig = Signatures (lb_Commit lightBlock) ! sigIdx in
      bind_res (of_option ErrPlain (GetByAddress (lb_ValidatorSet lightBlock) (sig_ValidatorAddress sig))) (\<lambda>val.
      guard_res (PubKeyAddress v (v_PubKey val) = sig_ValidatorAddress sig) ErrPlain (
      guard_res (VerifySignature v (v_PubKey val)
          (CommitVoteSignBytes v (lb_Commit lightBlock) (hdr_ChainID (lb_Header lightBlock)) sigIdx)
          (sig_Signature sig)) ErrPlain (Ok ()))))"

text \<open>
  \<^verbatim>\<open>header1Signers\<close> maps an address to the last index that signed under it; the second loop
  walks the signatures of the other header.
\<close>

definition header1Signers :: "CommitSig list \<Rightarrow> addr \<rightharpoonup> nat" where
  "header1Signers sigs =
     fold (\<lambda>(idx, sign) m. if sig_BlockIDFlag sign = BlockIDFlagAbsent then m
                           else m(sig_ValidatorAddress sign \<mapsto> idx)) (enumerate 0 sigs) Map.empty"

definition byzantine_one ::
    "'w verifier \<Rightarrow> LightBlock \<Rightarrow> LightBlock \<Rightarrow> nat \<times> CommitSig \<Rightarrow> Validator option list
       \<Rightarrow> Validator option list result" where
  "byzantine_one v lb1 lb2 e acc =
     (let (sigIdxHeader2, sign) = e in
      if sig_BlockIDFlag sign = BlockIDFlagAbsent then Ok acc
      else case header1Signers (Signatures (lb_Commit lb1)) (sig_ValidatorAddress sign) of
        None \<Rightarrow> Ok acc
      | Some sigIdxHeader1 \<Rightarrow>
          bind_res (verifyLightBlockCommitSig v lb1 sigIdxHeader1) (\<lambda>_.
          bind_res (verifyLightBlockCommitSig v lb2 sigIdxHeader2) (\<lambda>_.
          Ok (acc @ [GetByAddress (lb_ValidatorSet lb1) (sig_ValidatorAddress sign)]))))"

definition GetByzantineValidators :: "'w verifier \<Rightarrow> Misbehaviour \<Rightarrow> Validator option list result" where
  "GetByzantineValidators v m =
     bind_res (headerToLightBlock v (Header1 m)) (\<lambda>lb1.
     bind_res (headerToLightBlock v (Header2 m)) (\<lambda>lb2.
     if \<not> headersStateTransitionsAreConflicting (lb_Header lb1) (lb_Header lb2) \<and>
        commit_Round (lb_Commit lb1) \<noteq> commit_Round (lb_Commit lb2)
     then Ok []
     else fold_res (byzantine_one v lb1 lb2) (enumerate 0 (Signatures (lb_Commit lb2))) []))"

text \<open>The code reads \<^verbatim>\<open>Header1.Header\<close> through the pointer: a nil one is a panic.\<close>

definition CheckMisbehaviour ::
    "'w keeper \<Rightarrow> 'w verifier \<Rightarrow> consumer_id \<Rightarrow> Misbehaviour \<Rightarrow> 'w pstate \<Rightarrow> unit result" where
  "CheckMisbehaviour k v c m s =
     bind_res (case ch_Header (Header1 m) of None \<Rightarrow> Panic | Some h \<Rightarrow> Ok (hdr_ChainID h)) (\<lambda>chainId.
     bind_res (of_option ErrPlain (GetConsumerChainId s c)) (\<lambda>consumerChainId.
     guard_res (consumerChainId = chainId) ErrPlain (
     bind_res (of_option ErrPlain (GetConsumerClientId s c)) (\<lambda>clientId.
     guard_res (mb_ClientId m = clientId) ErrPlain (
     guard_res (ch_RevisionHeight (Header1 m) = ch_RevisionHeight (Header2 m)) ErrInvalidMisbehaviour (
     guard_res (\<not> snd (ch_RevisionHeight (Header1 m)) < GetEquivocationEvidenceMinHeight s c)
       ErrInvalidDoubleVotingEvidence (
     guard_res (CheckForMisbehaviour v (world s) clientId m) ErrInvalidMisbehaviour (
     guard_res (VerifyMisbehaviour v (world s) clientId m) ErrPlain (Ok ())))))))))"

text \<open>A nil validator in the byzantine list would be dereferenced.\<close>

definition containLightClientAttack ::
    "'w keeper \<Rightarrow> 'w verifier \<Rightarrow> sdk_ctx \<Rightarrow> consumer_id \<Rightarrow> Misbehaviour \<Rightarrow> Validator option list
       \<Rightarrow> 'w pstate \<Rightarrow> (addr list \<times> 'w pstate) result" where
  "containLightClientAttack k v ctx c m byzantineValidators s =
     (if None \<in> set byzantineValidators then Panic
      else let byzantineAddrs = map (\<lambda>b. GetProviderAddrFromConsumerAddr s c (v_Address (the b))) byzantineValidators in
      bind_res (of_option ErrInvalidConsumerClient (GetConsumerClientId s c)) (\<lambda>clientId.
      bind_res (if GetClientStatus k (world s) clientId = Active
                then bind_res (of_option ErrPlain (UpdateClient v (world s) clientId m)) (\<lambda>w. Ok (s\<lparr>world := w\<rparr>))
                else Ok s) (\<lambda>s1.
      bind_res (PauseConsumerChain k ctx c PAUSE_REASON_LIGHT_CLIENT_ATTACK s1) (\<lambda>s2.
      Ok (byzantineAddrs, s2)))))"

definition HandleConsumerMisbehaviour ::
    "'w keeper \<Rightarrow> 'w verifier \<Rightarrow> sdk_ctx \<Rightarrow> consumer_id \<Rightarrow> Misbehaviour \<Rightarrow> 'w pstate
       \<Rightarrow> (addr list \<times> 'w pstate) result" where
  "HandleConsumerMisbehaviour k v ctx c m s =
     guard_res (GetConsumerPhase s c = CONSUMER_PHASE_LAUNCHED) ErrInvalidPhase (
     bind_res (CheckMisbehaviour k v c m s) (\<lambda>_.
     bind_res (GetByzantineValidators v m) (\<lambda>byzantineValidators.
     containLightClientAttack k v ctx c m byzantineValidators s)))"

subsection \<open>A verifier that refuses everything\<close>

definition blank_verifier :: "'w verifier" where
  "blank_verifier = \<lparr>PubKeyAddress = (\<lambda>pk. pk), VerifySignature = (\<lambda>_ _ _. False), VoteSignBytes = (\<lambda>_ _. []),
     CommitFromProto = (\<lambda>_. None), CommitHash = (\<lambda>_. []), CommitVoteSignBytes = (\<lambda>_ _ _. []),
     SignedHeaderFromProto = (\<lambda>_. None), ValidatorSetFromProto = (\<lambda>_. None),
     DuplicateVoteEvidenceFromProto = (\<lambda>_. None), FromCmtPubKeyInterface = Some,
     VerifyHeader = (\<lambda>_ _ _. False), CheckForMisbehaviour = (\<lambda>_ _ _. False),
     VerifyMisbehaviour = (\<lambda>_ _ _. False), UpdateClient = (\<lambda>_ _ _. None)\<rparr>"

end
