(* ===== verification/MsgServer.thy ===== *)
theory MsgServer
  imports Validation Evidence FeePool KeyAssignment
begin

text \<open>
  The transactions of the provider module (\<^verbatim>\<open>msg_server.go\<close>): one definition per RPC
  handler. A handler that returns an error or panics is rolled back with its transaction, so its
  result carries a state only when it succeeds. The handlers whose name the keeper also uses are
  prefixed with \<open>Msg_\<close>.
\<close>

subsection \<open>Parameters\<close>

definition UpdateParams :: "'w keeper \<Rightarrow> string \<Rightarrow> ProviderParams \<Rightarrow> 'w pstate \<Rightarrow> 'w pstate result" where
  "UpdateParams k auth ps s =
     guard_res (authority k = auth) ErrInvalidSigner (
     bind_res (Params_Validate k ps) (\<lambda>_.
     bind_res (ValidateInfractionParamsAgainst k (InfractionParams s) (TrustingPeriodFraction ps)) (\<lambda>_.
     let oldFloor = Amount (GetFeesPerBlock k s);
         s1 = s\<lparr>Params := ps\<rparr>
     in Ok (if FeesPerBlockAmount ps > oldFloor
            then reconcileFeesPerBlockOverrides (FeesPerBlockAmount ps) s1 else s1))))"

definition UpdateInfractionParams ::
    "'w keeper \<Rightarrow> sdk_ctx \<Rightarrow> string \<Rightarrow> InfractionParameters \<Rightarrow> 'w pstate \<Rightarrow> 'w pstate result" where
  "UpdateInfractionParams k ctx auth ip s =
     guard_res (authority k = auth) ErrInvalidSigner (
     bind_res (InfractionParameters_Validate ip) (\<lambda>_.
     bind_res (ValidateInfractionParamsAgainst k ip (TrustingPeriodFraction (Params s))) (\<lambda>_.
     Ok (SetInfractionParams ctx ip s))))"

subsection \<open>Keys and evidence\<close>

definition ParseConsumerKey :: "'w keeper \<Rightarrow> string \<Rightarrow> pubkey result" where
  "ParseConsumerKey k consumerKey =
     bind_res (of_option ErrPlain (UnmarshalPubKeyJSON k consumerKey)) (\<lambda>(pkType, keyStr).
     guard_res (pkType = ''/cosmos.crypto.ed25519.PubKey'') ErrValidatorPubKeyTypeNotSupported (
     of_option ErrPlain (Base64DecodeString k keyStr)))"

definition Msg_AssignConsumerKey ::
    "'w keeper \<Rightarrow> sdk_ctx \<Rightarrow> consumer_id \<Rightarrow> string \<Rightarrow> string \<Rightarrow> 'w pstate \<Rightarrow> 'w pstate result" where
  "Msg_AssignConsumerKey k ctx c providerAddr consumerKey s =
     bind_res (of_option ErrPlain (ValAddressFromBech32 k providerAddr)) (\<lambda>providerValidatorAddr.
     bind_res (of_option ErrNoValidatorFound (GetValidator k (world s) providerValidatorAddr)) (\<lambda>validator.
     bind_res (ParseConsumerKey k consumerKey) (\<lambda>consumerTMPublicKey.
     bind_res (AssignConsumerKey k ctx c validator consumerTMPublicKey s) (\<lambda>s1.
     bind_res (of_option ErrInvalidConsumerState (GetConsumerChainId s1 c)) (\<lambda>_. Ok s1)))))"

definition SubmitConsumerMisbehaviour ::
    "'w keeper \<Rightarrow> 'w verifier \<Rightarrow> sdk_ctx \<Rightarrow> consumer_id \<Rightarrow> Misbehaviour \<Rightarrow> 'w pstate \<Rightarrow> 'w pstate result" where
  "SubmitConsumerMisbehaviour k v ctx c m s =
     bind_res (HandleConsumerMisbehaviour k v ctx c m s) (\<lambda>(byzantineValidators, s1). Ok s1)"

text \<open>The chain id is read through the header's pointers: a nil one panics.\<close>

definition SubmitConsumerDoubleVoting ::
    "'w keeper \<Rightarrow> 'w verifier \<Rightarrow> sdk_ctx \<Rightarrow> consumer_id \<Rightarrow> bytes \<Rightarrow> ClientHeader \<Rightarrow> 'w pstate \<Rightarrow> 'w pstate result" where
  "SubmitConsumerDoubleVoting k v ctx c duplicateVoteEvidence infractionBlockHeader s =
     bind_res (of_option ErrPlain (GetConsumerChainId s c)) (\<lambda>consumerChainId.
     bind_res (case ch_Header infractionBlockHeader of None \<Rightarrow> Panic | Some h \<Rightarrow> Ok (hdr_ChainID h)) (\<lambda>headerChainID.
     guard_res (headerChainID = consumerChainId) ErrInvalidDoubleVotingEvidence (
     bind_res (of_option ErrPlain (DuplicateVoteEvidenceFromProto v duplicateVoteEvidence)) (\<lambda>evidence.
     bind_res (of_option ErrPlain (ValidatorSetFromProto v (ch_ValidatorSet infractionBlockHeader))) (\<lambda>valset.
     bind_res (of_option ErrInvalidDoubleVotingEvidence
                 (GetByAddress valset (vote_ValidatorAddress (VoteA evidence)))) (\<lambda>validator.
     bind_res (of_option ErrPlain (FromCmtPubKeyInterface v (v_PubKey validator))) (\<lambda>pubkey.
     HandleConsumerDoubleVoting k v ctx c evidence (Some pubkey) s)))))))"

definition ChallengeConsumerDowntime ::
    "'w keeper \<Rightarrow> 'w verifier \<Rightarrow> sdk_ctx \<Rightarrow> MsgChallengeConsumerDowntime \<Rightarrow> 'w pstate \<Rightarrow> 'w pstate result" where
  "ChallengeConsumerDowntime k v ctx msg s = HandleChallengeConsumerDowntime k v ctx msg s"

definition ResumeConsumer :: "'w keeper \<Rightarrow> sdk_ctx \<Rightarrow> string \<Rightarrow> consumer_id \<Rightarrow> 'w pstate \<Rightarrow> 'w pstate result" where
  "ResumeConsumer k ctx auth c s =
     guard_res (authority k = auth) ErrInvalidSigner (ResumeConsumerChain k ctx c s)"

subsection \<open>Registration\<close>

record MsgCreateConsumer =
  cc_Submitter :: string
  cc_ChainId :: string
  cc_Metadata :: ConsumerMetadata
  cc_InitializationParameters :: "ConsumerInitializationParameters option"

record MsgUpdateConsumer =
  uc_Owner :: string
  uc_ConsumerId :: consumer_id
  NewOwnerAddress :: string
  uc_Metadata :: "ConsumerMetadata option"
  uc_InitializationParameters :: "ConsumerInitializationParameters option"
  NewChainId :: string
  uc_ClientId :: string

definition validateConsumerInitParams ::
    "'w keeper \<Rightarrow> ConsumerInitializationParameters \<Rightarrow> 'w pstate \<Rightarrow> unit result" where
  "validateConsumerInitParams k p s =
     bind_res (of_option ErrPlain (UnbondingTime k (world s))) (\<lambda>providerUnbonding.
     guard_res (\<not> init_UnbondingPeriod p > providerUnbonding) ErrInvalidConsumerInitializationParameters (
     guard_res (\<not> init_UnbondingPeriod p \<le> ChallengeableInterval (InfractionParams s))
       ErrInvalidConsumerInitializationParameters (
     bind_res (CalculateTrustPeriod k providerUnbonding (LivenessGraceFraction (Params s))) (\<lambda>grace.
     guard_res (\<not> SafeModeThreshold p \<ge> grace) ErrInvalidConsumerInitializationParameters (Ok ())))))"

text \<open>
  The tail of the two registration handlers: a consumer whose parameters carry a spawn time is
  moved to the initialized phase and queued for its launch.
\<close>

definition initialize_and_prepare :: "consumer_id \<Rightarrow> time \<Rightarrow> 'w pstate \<Rightarrow> 'w pstate result" where
  "initialize_and_prepare c previousSpawnTime s =
     (case InitializeConsumer c s of
        (None, s1) \<Rightarrow> Ok s1
      | (Some spawnTime, s1) \<Rightarrow>
          as_error ErrInvalidConsumerState (PrepareConsumerForLaunch c previousSpawnTime spawnTime s1))"

definition CreateConsumer ::
    "'w keeper \<Rightarrow> sdk_ctx \<Rightarrow> MsgCreateConsumer \<Rightarrow> 'w pstate \<Rightarrow> (consumer_id \<times> 'w pstate) result" where
  "CreateConsumer k ctx msg s =
     (let (c, s1) = FetchAndIncrementConsumerId s;
          s2 = SetConsumerOwnerAddress c (cc_Submitter msg) s1
      in bind_res (ValidateConsumerChainIdFree ctx (cc_ChainId msg) s2) (\<lambda>_.
         let s3 = SetConsumerChainId c (cc_ChainId msg) s2;
             s4 = SetConsumerPhase c CONSUMER_PHASE_REGISTERED s3;
             s5 = SetConsumerMetadata c (cc_Metadata msg) s4;
             ps = (case cc_InitializationParameters msg of
                     None \<Rightarrow> DefaultConsumerInitializationParameters k | Some p \<Rightarrow> p)
         in bind_res (validateConsumerInitParams k ps s5) (\<lambda>_.
            bind_res (as_error ErrInvalidConsumerInitializationParameters
                        (SetConsumerInitializationParameters k c ps s5)) (\<lambda>s6.
            bind_res (initialize_and_prepare c zero_time s6) (\<lambda>s7.
            Ok (c, s7\<lparr>FeePoolAddressToConsumerId :=
                     store_set (GetConsumerFeePoolAddress k c) c (FeePoolAddressToConsumerId s7)\<rparr>))))))"

text \<open>The steps of \<^verbatim>\<open>UpdateConsumer\<close>: the optional chain id, and the optional parameters.\<close>

definition update_chain_id ::
    "'w keeper \<Rightarrow> sdk_ctx \<Rightarrow> consumer_id \<Rightarrow> string \<Rightarrow> string \<Rightarrow> 'w pstate \<Rightarrow> 'w pstate result" where
  "update_chain_id k ctx c newChainId chainId s =
     (if \<not> blank newChainId \<and> newChainId \<noteq> chainId
      then bind_res (as_error ErrInvalidMsgUpdateConsumer (ValidateChainId k newChainId)) (\<lambda>_.
           guard_res (IsConsumerPrelaunched s c) ErrInvalidPhase (
           bind_res (ValidateConsumerChainIdFree ctx newChainId s) (\<lambda>_.
           Ok (SetConsumerChainId c newChainId s))))
      else Ok s)"

definition update_init_params ::
    "'w keeper \<Rightarrow> consumer_id \<Rightarrow> time \<Rightarrow> ConsumerInitializationParameters option \<Rightarrow> 'w pstate \<Rightarrow> 'w pstate result" where
  "update_init_params k c previousSpawnTime init s =
     (case init of
        None \<Rightarrow> Ok s
      | Some ps \<Rightarrow>
          guard_res (IsConsumerPrelaunched s c) ErrInvalidMsgUpdateConsumer (
          bind_res (if SpawnTime ps = zero_time \<and> GetConsumerPhase s c = CONSUMER_PHASE_INITIALIZED
                    then bind_res (as_error ErrInvalidMsgUpdateConsumer
                                     (RemoveConsumerToBeLaunched c previousSpawnTime s)) (\<lambda>s1.
                         Ok (SetConsumerPhase c CONSUMER_PHASE_REGISTERED s1))
                    else Ok s) (\<lambda>s1.
          bind_res (validateConsumerInitParams k ps s1) (\<lambda>_.
          as_error ErrInvalidConsumerInitializationParameters (SetConsumerInitializationParameters k c ps s1)))))"

definition UpdateConsumer ::
    "'w keeper \<Rightarrow> sdk_ctx \<Rightarrow> MsgUpdateConsumer \<Rightarrow> 'w pstate \<Rightarrow> 'w pstate result" where
  "UpdateConsumer k ctx msg s =
     (let c = uc_ConsumerId msg; updatePhase = GetConsumerPhase s c in
      guard_res (\<not> (updatePhase \<noteq> CONSUMER_PHASE_REGISTERED \<and> updatePhase \<noteq> CONSUMER_PHASE_INITIALIZED \<and>
                    updatePhase \<noteq> CONSUMER_PHASE_LAUNCHED)) ErrInvalidPhase (
      bind_res (of_option ErrNoOwnerAddress (GetConsumerOwnerAddress s c)) (\<lambda>ownerAddress.
      guard_res (uc_Owner msg = ownerAddress) ErrUnauthorized (
      bind_res (if \<not> blank (uc_ClientId msg) then SetConsumerClient k c (uc_ClientId msg) s else Ok s) (\<lambda>s1.
      bind_res (of_option ErrInvalidConsumerState (GetConsumerChainId s1 c)) (\<lambda>chainId.
      let isLaunched = (GetConsumerPhase s1 c = CONSUMER_PHASE_LAUNCHED) in
      guard_res (\<not> (isLaunched \<and> \<not> blank (NewChainId msg))) ErrInvalidPhase (
      guard_res (\<not> (isLaunched \<and> uc_InitializationParameters msg \<noteq> None)) ErrInvalidPhase (
      bind_res (update_chain_id k ctx c (NewChainId msg) chainId s1) (\<lambda>s2.
      bind_res (if \<not> blank (NewOwnerAddress msg)
                then guard_res (AddressCodecStringToBytes k (NewOwnerAddress msg) \<noteq> None) ErrInvalidNewOwnerAddress
                       (Ok (SetConsumerOwnerAddress c (NewOwnerAddress msg) s2))
                else Ok s2) (\<lambda>s3.
      let s4 = (case uc_Metadata msg of None \<Rightarrow> s3 | Some m \<Rightarrow> SetConsumerMetadata c m s3) in
      bind_res (of_option ErrInvalidConsumerState (GetConsumerInitializationParameters s4 c)) (\<lambda>previous.
      let previousSpawnTime = SpawnTime previous in
      bind_res (update_init_params k c previousSpawnTime (uc_InitializationParameters msg) s4) (\<lambda>s5.
      bind_res (of_option ErrInvalidConsumerState (GetConsumerOwnerAddress s5 c)) (\<lambda>_.
      initialize_and_prepare c previousSpawnTime s5)))))))))))))"

definition RemoveConsumer ::
    "'w keeper \<Rightarrow> sdk_ctx \<Rightarrow> string \<Rightarrow> consumer_id \<Rightarrow> 'w pstate \<Rightarrow> 'w pstate result" where
  "RemoveConsumer k ctx signer c s =
     guard_res (store_has (phase_of s) c) ErrUnknownConsumerId (
     bind_res (of_option ErrInvalidConsumerState (GetConsumerChainId s c)) (\<lambda>_.
     let phase = GetConsumerPhase s c; isGov = (authority k = signer) in
     if Prelaunched phase
     then bind_res (if isGov then Ok ()
                    else bind_res (of_option ErrNoOwnerAddress (GetConsumerOwnerAddress s c)) (\<lambda>ownerAddress.
                         guard_res (EqualFold signer ownerAddress) ErrUnauthorized (Ok ()))) (\<lambda>_.
          DeleteConsumerChain k c s)
     else if phase = CONSUMER_PHASE_LAUNCHED \<or> phase = CONSUMER_PHASE_PAUSED
     then guard_res isGov ErrInvalidSigner (StopAndPrepareForConsumerRemoval k ctx c s)
     else Err ErrInvalidPhase))"

subsection \<open>Fees and fee pools\<close>

definition Msg_SetConsumerFeesPerBlock ::
    "'w keeper \<Rightarrow> string \<Rightarrow> consumer_id \<Rightarrow> string \<Rightarrow> 'w pstate \<Rightarrow> 'w pstate result" where
  "Msg_SetConsumerFeesPerBlock k auth c amount s =
     guard_res (authority k = auth) ErrInvalidSigner (
     let phase = GetConsumerPhase s c in
     guard_res (\<not> (phase = CONSUMER_PHASE_UNSPECIFIED \<or> phase = CONSUMER_PHASE_DELETED)) ErrUnknownConsumerId (
     if amount = '''' then Ok (s\<lparr>ConsumerFeesPerBlockOverride := store_remove c (ConsumerFeesPerBlockOverride s)\<rparr>)
     else bind_res (case IntFromString k amount of None \<Rightarrow> Panic | Some amt \<Rightarrow> Ok amt) (\<lambda>amt.
          guard_res (amt > Amount (GetFeesPerBlock k s)) ErrInvalidRequest (
          Ok (s\<lparr>ConsumerFeesPerBlockOverride := store_set c amt (ConsumerFeesPerBlockOverride s)\<rparr>)))))"

text \<open>
  \<^verbatim>\<open>sdk.NewCoins\<close> and \<^verbatim>\<open>Coins.Add\<close>: a sorted list with one positive coin per denom.
\<close>

definition NewCoins :: "Coin \<Rightarrow> Coin list" where
  "NewCoins coin = (if Amount coin = 0 then [] else [coin])"

fun coins_add :: "Coin list \<Rightarrow> Coin \<Rightarrow> Coin list" where
  "coins_add [] coin = NewCoins coin"
| "coins_add (x # xs) coin =
     (if Denom x = Denom coin then NewCoins \<lparr>Denom = Denom x, Amount = Amount x + Amount coin\<rparr> @ xs
      else if Denom x < Denom coin then x # coins_add xs coin
      else NewCoins coin @ x # xs)"

definition FundConsumerFeePool ::
    "'w keeper \<Rightarrow> string \<Rightarrow> consumer_id \<Rightarrow> Coin \<Rightarrow> 'w pstate \<Rightarrow> 'w pstate result" where
  "FundConsumerFeePool k signer c amount s =
     guard_res (store_has (phase_of s) c) ErrUnknownConsumerId (
     guard_res (GetConsumerPhase s c \<noteq> CONSUMER_PHASE_DELETED) ErrInvalidPhase (
     let params = Params s in
     guard_res (Denom amount = feeDenom k) ErrInvalidFundDenom (
     guard_res (\<not> (MinDepositBlocks params > 0 \<and>
         Amount amount < Amount (fst (GetEffectiveFeesPerBlock k s c)) * int (MinDepositBlocks params)))
       ErrDepositBelowMinimum (
     let poolAddr = GetConsumerFeePoolAddress k c;
         coins = NewCoins amount;
         isGov = IsAuthority k signer
     in bind_res (if isGov then Ok (NewModuleAddress k distributionModule, s)
                  else bind_res (of_option ErrPlain (AccAddressFromBech32 k signer)) (\<lambda>signerAddr.
                       bind_res (of_option ErrPlain
                           (SendCoinsFromAccountToModule k (world s) signerAddr ModuleName coins)) (\<lambda>w1.
                       Ok (signerAddr, s\<lparr>world := w1\<rparr>)))) (\<lambda>(depositor, s1).
        bind_res (MintShares k c depositor amount s1) (\<lambda>s2.
        bind_res (of_option ErrPlain
            (if isGov then DistributeFromFeePool k (world s2) coins poolAddr
             else SendCoinsFromModuleToAccount k (world s2) ModuleName poolAddr coins)) (\<lambda>w2.
        Ok (s2\<lparr>world := w2\<rparr>))))))))"

definition withdraw_one ::
    "'w keeper \<Rightarrow> sdk_ctx \<Rightarrow> consumer_id \<Rightarrow> addr \<Rightarrow> Coin \<Rightarrow> Coin list \<times> 'w pstate \<Rightarrow> (Coin list \<times> 'w pstate) result" where
  "withdraw_one k ctx c depositor amt acc =
     (let (delivered, s) = acc in
      bind_res (WithdrawShares k ctx c depositor amt s) (\<lambda>(tokens, s1).
      Ok (coins_add delivered tokens, s1)))"

definition WithdrawConsumerFeePool ::
    "'w keeper \<Rightarrow> sdk_ctx \<Rightarrow> string \<Rightarrow> consumer_id \<Rightarrow> Coin list \<Rightarrow> 'w pstate \<Rightarrow> (Coin list \<times> 'w pstate) result" where
  "WithdrawConsumerFeePool k ctx signer c amounts s =
     guard_res (store_has (phase_of s) c) ErrUnknownConsumerId (
     guard_res (GetConsumerPhase s c \<noteq> CONSUMER_PHASE_DELETED) ErrInvalidPhase (
     let isGov = IsAuthority k signer; phase = GetConsumerPhase s c in
     guard_res (\<not> (\<not> isGov \<and> (phase = CONSUMER_PHASE_LAUNCHED \<or> phase = CONSUMER_PHASE_PAUSED))) ErrFeePoolLocked (
     bind_res (if isGov then Ok (NewModuleAddress k distributionModule)
               else of_option ErrPlain (AccAddressFromBech32 k signer)) (\<lambda>depositor.
     bind_res (fold_res (withdraw_one k ctx c depositor) amounts ([], s)) (\<lambda>(delivered, s1).
     if delivered = [] then Ok (delivered, s1)
     else bind_res (of_option ErrPlain (SendCoinsFromAccountToModule k (world s1)
                      (GetConsumerFeePoolAddress k c) ModuleName delivered)) (\<lambda>w1.
          bind_res (of_option ErrPlain
              (if isGov then FundCommunityPool k w1 delivered (NewModuleAddress k ModuleName)
               else SendCoinsFromModuleToAccount k w1 ModuleName depositor delivered)) (\<lambda>w2.
          Ok (delivered, s1\<lparr>world := w2\<rparr>))))))))"

definition Msg_SweepConsumerFeePool ::
    "'w keeper \<Rightarrow> string \<Rightarrow> consumer_id \<Rightarrow> denom list \<Rightarrow> 'w pstate \<Rightarrow> 'w pstate result" where
  "Msg_SweepConsumerFeePool k signer c denoms s =
     guard_res (store_has (phase_of s) c) ErrUnknownConsumerId (
     let phase = GetConsumerPhase s c in
     guard_res (phase \<noteq> CONSUMER_PHASE_DELETED) ErrInvalidPhase (
     guard_res (\<not> (phase = CONSUMER_PHASE_LAUNCHED \<or> phase = CONSUMER_PHASE_PAUSED)) ErrFeePoolLocked (
     bind_res (of_option ErrNoOwnerAddress (GetConsumerOwnerAddress s c)) (\<lambda>ownerAddrString.
     guard_res (EqualFold signer ownerAddrString) ErrUnauthorized (
     SweepConsumerFeePool k c denoms s)))))"

end
