(* ===== verification/Rotation.thy ===== *)
theory Rotation
  imports Evidence
begin

text \<open>
  What the provider does when a validator rotates its provider consensus key
  (\<^verbatim>\<open>cons_pubkey_rotation.go\<close> and the hook of \<^verbatim>\<open>hooks.go\<close>): the state kept under the old
  consensus address moves to the new one. Each failed store write of the code is a store or codec
  failure, which the model leaves out; nothing else in the migration can fail.
\<close>

subsection \<open>The migration\<close>

definition DeleteConsumerValidator :: "consumer_id \<Rightarrow> addr \<Rightarrow> 'w pstate \<Rightarrow> 'w pstate" where
  "DeleteConsumerValidator c a s = s\<lparr>ConsumerValidators := store_remove (c, a) (ConsumerValidators s)\<rparr>"

definition migrateConsumerValidator :: "consumer_id \<Rightarrow> addr \<Rightarrow> addr \<Rightarrow> 'w pstate \<Rightarrow> 'w pstate" where
  "migrateConsumerValidator c oldProviderAddr newProviderAddr s =
     (case GetConsumerValidator s c oldProviderAddr of
        None \<Rightarrow> s
      | Some val \<Rightarrow> SetConsumerValidator c (val\<lparr>ProviderConsAddr := newProviderAddr\<rparr>)
                     (DeleteConsumerValidator c oldProviderAddr s))"

definition collectPerWindowEntries ::
    "('c::linorder \<times> addr \<times> int, 'v) store \<Rightarrow> 'c \<Rightarrow> addr \<Rightarrow> (('c \<times> addr \<times> int) \<times> 'v) list" where
  "collectPerWindowEntries m c providerConsAddr =
     store_range (\<lambda>key. fst key = c \<and> fst (snd key) = providerConsAddr) m"

text \<open>The loop of each of the three migrations: write under the new address, delete the old entry.\<close>

definition move_entries ::
    "'c::linorder \<Rightarrow> addr \<Rightarrow> addr \<Rightarrow> ('v \<Rightarrow> 'v) \<Rightarrow> ('c \<times> addr \<times> int, 'v) store \<Rightarrow> ('c \<times> addr \<times> int, 'v) store" where
  "move_entries c oldAddrBz newAddrBz f m =
     fold (\<lambda>(key, v) m. store_remove key (store_set (c, newAddrBz, snd (snd key)) (f v) m))
       (collectPerWindowEntries m c oldAddrBz) m"

definition migrateDowntimeWindowFloor :: "consumer_id \<Rightarrow> addr \<Rightarrow> addr \<Rightarrow> 'w pstate \<Rightarrow> 'w pstate" where
  "migrateDowntimeWindowFloor c oldAddrBz newAddrBz s =
     (case store_get (DowntimeWindowFloors s) (c, oldAddrBz) of
        None \<Rightarrow> s
      | Some floor0 \<Rightarrow>
          let floor = (case store_get (DowntimeWindowFloors s) (c, newAddrBz) of
                         None \<Rightarrow> floor0
                       | Some existing \<Rightarrow> if existing > floor0 then existing else floor0)
          in s\<lparr>DowntimeWindowFloors := store_remove (c, oldAddrBz)
                 (store_set (c, newAddrBz) floor (DowntimeWindowFloors s))\<rparr>)"

definition migrateDowntimeAcceptance :: "consumer_id \<Rightarrow> addr \<Rightarrow> addr \<Rightarrow> 'w pstate \<Rightarrow> 'w pstate" where
  "migrateDowntimeAcceptance c oldProviderAddr newProviderAddr s =
     (let s1 = s\<lparr>PendingDowntimeSlashes := move_entries c oldProviderAddr newProviderAddr
                  (\<lambda>slash. slash\<lparr>pds_ProviderConsAddr := newProviderAddr\<rparr>) (PendingDowntimeSlashes s)\<rparr>;
          s2 = s1\<lparr>AcceptedDowntimeWindows := move_entries c oldProviderAddr newProviderAddr
                  (\<lambda>w. w) (AcceptedDowntimeWindows s1)\<rparr>
      in migrateDowntimeWindowFloor c oldProviderAddr newProviderAddr s2)"

definition migrateFeeExclusion :: "consumer_id \<Rightarrow> addr \<Rightarrow> addr \<Rightarrow> 'w pstate \<Rightarrow> 'w pstate" where
  "migrateFeeExclusion c oldProviderAddr newProviderAddr s =
     (let oldKey = (c, oldProviderAddr); newKey = (c, newProviderAddr);
          s1 = (if store_has (EpochDowntime s) oldKey
                then s\<lparr>EpochDowntime := store_remove oldKey (store_set newKey True (EpochDowntime s))\<rparr>
                else s)
      in case store_get (WithheldFeeRecords s1) oldKey of
           None \<Rightarrow> s1
         | Some rec \<Rightarrow>
             if store_has (WithheldFeeRecords s1) newKey then s1
             else s1\<lparr>WithheldFeeRecords := store_remove oldKey
                      (store_set newKey (rec\<lparr>wfr_ProviderConsAddr := newProviderAddr\<rparr>) (WithheldFeeRecords s1))\<rparr>)"

definition migratePunishedEquivocations :: "consumer_id \<Rightarrow> addr \<Rightarrow> addr \<Rightarrow> 'w pstate \<Rightarrow> 'w pstate" where
  "migratePunishedEquivocations c oldProviderAddr newProviderAddr s =
     (case GetConsumerChainId s c of
        None \<Rightarrow> s
      | Some chainId \<Rightarrow>
          s\<lparr>PunishedEquivocations := move_entries chainId oldProviderAddr newProviderAddr (\<lambda>u. u)
              (PunishedEquivocations s)\<rparr>)"

definition migrate_consumer :: "addr \<Rightarrow> addr \<Rightarrow> consumer_id \<Rightarrow> 'w pstate \<Rightarrow> 'w pstate" where
  "migrate_consumer oldProviderAddr newProviderAddr c s =
     (let (assigned, s1) = migrateKeyAssignment c oldProviderAddr newProviderAddr s;
          s2 = (if assigned
                then migrateDowntimeAcceptance c oldProviderAddr newProviderAddr
                       (migrateConsumerValidator c oldProviderAddr newProviderAddr s1)
                else s1)
      in migratePunishedEquivocations c oldProviderAddr newProviderAddr
           (migrateFeeExclusion c oldProviderAddr newProviderAddr s2))"

definition MigrateStateOnConsPubKeyRotation :: "addr \<Rightarrow> addr \<Rightarrow> 'w pstate \<Rightarrow> 'w pstate" where
  "MigrateStateOnConsPubKeyRotation oldProviderAddr newProviderAddr s =
     fold (migrate_consumer oldProviderAddr newProviderAddr) (nonDeletedConsumerIds s) s"

text \<open>The hook; a new key that is also an assigned consumer key is only logged.\<close>

definition AfterConsensusPubKeyUpdate ::
    "'w keeper \<Rightarrow> sdk_ctx \<Rightarrow> addr \<Rightarrow> addr \<Rightarrow> 'w pstate \<Rightarrow> 'w pstate result" where
  "AfterConsensusPubKeyUpdate k ctx oldAddr newAddr s =
     QueueConsPubKeyRotationSnapshots k ctx newAddr (MigrateStateOnConsPubKeyRotation oldAddr newAddr s)"

subsection \<open>Closed forms\<close>

lemma move_loop:
  fixes m :: "('c::linorder \<times> addr \<times> int, 'v) store"
  assumes "old \<noteq> new" "\<forall>e\<in>set es. \<exists>h. fst e = (c, old, h)" "distinct (map fst es)"
  shows "store_get (fold (\<lambda>(key, v) m. store_remove key (store_set (c, new, snd (snd key)) (f v) m)) es m) (d, a, h) =
    (if d = c \<and> a = new then (case map_of es (c, old, h) of Some v \<Rightarrow> Some (f v) | None \<Rightarrow> store_get m (c, new, h))
     else if (d, a, h) \<in> fst ` set es then None else store_get m (d, a, h))"
  using assms
proof (induction es arbitrary: m)
  case Nil
  then show ?case by simp
next
  case (Cons e es)
  obtain h' v where e: "e = ((c, old, h'), v)" using Cons.prems(2) by (metis list.set_intros(1) prod.collapse)
  have "map_of es (c, old, h') = None" using Cons.prems(3) by (simp add: e map_of_eq_None_iff)
  then show ?case using Cons by (auto simp: e split: option.splits)
qed

lemma get_move_entries:
  assumes "old \<noteq> new"
  shows "store_get (move_entries c old new f m) (d, a, h) =
    (if d = c \<and> a = new then (case store_get m (c, old, h) of Some v \<Rightarrow> Some (f v) | None \<Rightarrow> store_get m (c, new, h))
     else if d = c \<and> a = old then None else store_get m (d, a, h))"
proof -
  let ?es = "collectPerWindowEntries m c old"
  have d: "distinct (map fst ?es)" by (simp add: collectPerWindowEntries_def distinct_store_range)
  have mem: "((d, a, h), v) \<in> set ?es \<longleftrightarrow> d = c \<and> a = old \<and> store_get m (d, a, h) = Some v" for d a h v
    by (auto simp: collectPerWindowEntries_def mem_store_range)
  have im: "(d, a, h) \<in> fst ` set ?es \<longleftrightarrow> d = c \<and> a = old \<and> store_get m (d, a, h) \<noteq> None" for d a h
    using range_keys[of "(d, a, h)" "\<lambda>key. fst key = c \<and> fst (snd key) = old" m]
    by (simp add: collectPerWindowEntries_def store_has_def)
  have k: "\<forall>e\<in>set ?es. \<exists>h. fst e = (c, old, h)" using mem by (metis prod.collapse)
  have mo: "map_of ?es (c, old, h) = store_get m (c, old, h)" for h
  proof (cases "store_get m (c, old, h)")
    case None
    then have "(c, old, h) \<notin> fst ` set ?es" unfolding im by simp
    then have "map_of ?es (c, old, h) = None" unfolding map_of_eq_None_iff .
    then show ?thesis using None by simp
  next
    case (Some v)
    then show ?thesis using mem d by (auto intro: map_of_is_SomeI)
  qed
  show ?thesis
    unfolding move_entries_def move_loop[OF assms k d] mo im using assms by auto
qed

text \<open>What the migration of one consumer does to each collection.\<close>

lemma migrateKeyAssignment_frame:
  "\<exists>x y. snd (migrateKeyAssignment c old new s) = s\<lparr>ValidatorConsumerPubKey := x, ValidatorByConsumerAddr := y\<rparr>"
proof (cases "GetValidatorConsumerPubKey s c old")
  case None
  then show ?thesis
    by (intro exI[of _ "ValidatorConsumerPubKey s"] exI[of _ "ValidatorByConsumerAddr s"])
      (simp add: migrateKeyAssignment_None)
next
  case (Some pk)
  let ?es = "store_range (\<lambda>key. fst key = c) (ValidatorByConsumerAddr s)"
  have c: "\<forall>e\<in>set ?es. fst (fst e) = c" by (auto simp: store_range_def)
  show ?thesis
    using Some by (simp add: migrateKeyAssignment_def GetAllValidatorsByConsumerAddr_def
        fold_repoint[OF distinct_store_range c] Let_def SetValidatorConsumerPubKey_def
        DeleteValidatorConsumerPubKey_def) blast
qed

abbreviation assigned_under :: "'w pstate \<Rightarrow> consumer_id \<Rightarrow> addr \<Rightarrow> bool" where
  "assigned_under s c a \<equiv> GetValidatorConsumerPubKey s c a \<noteq> None"

lemma migrate_fst: "fst (migrateKeyAssignment c old new s) = assigned_under s c old"
  by (simp add: migrateKeyAssignment_def Let_def split: option.splits)

lemma migrateConsumerValidator_frame:
  "\<exists>x. migrateConsumerValidator c old new s = s\<lparr>ConsumerValidators := x\<rparr>"
  unfolding migrateConsumerValidator_def DeleteConsumerValidator_def SetConsumerValidator_def
  by (cases "GetConsumerValidator s c old") (auto intro: exI[of _ "ConsumerValidators s"])

definition moved_floor :: "consumer_id \<Rightarrow> addr \<Rightarrow> addr \<Rightarrow> (consumer_id \<times> addr, int) store \<Rightarrow> (consumer_id \<times> addr, int) store" where
  "moved_floor c old new m =
     (case store_get m (c, old) of
        None \<Rightarrow> m
      | Some f \<Rightarrow> store_remove (c, old) (store_set (c, new)
            (case store_get m (c, new) of None \<Rightarrow> f | Some g \<Rightarrow> max g f) m))"

lemma migrateDowntimeWindowFloor_eq:
  "migrateDowntimeWindowFloor c old new s = s\<lparr>DowntimeWindowFloors := moved_floor c old new (DowntimeWindowFloors s)\<rparr>"
  unfolding migrateDowntimeWindowFloor_def moved_floor_def Let_def
  by (cases "store_get (DowntimeWindowFloors s) (c, old)"; cases "store_get (DowntimeWindowFloors s) (c, new)")
    (simp_all add: max_def)

lemma migrateDowntimeAcceptance_eq:
  "migrateDowntimeAcceptance c old new s =
     s\<lparr>PendingDowntimeSlashes := move_entries c old new (\<lambda>slash. slash\<lparr>pds_ProviderConsAddr := new\<rparr>) (PendingDowntimeSlashes s),
       AcceptedDowntimeWindows := move_entries c old new (\<lambda>w. w) (AcceptedDowntimeWindows s),
       DowntimeWindowFloors := moved_floor c old new (DowntimeWindowFloors s)\<rparr>"
  by (simp add: migrateDowntimeAcceptance_def Let_def migrateDowntimeWindowFloor_eq)

definition moved_mark :: "consumer_id \<Rightarrow> addr \<Rightarrow> addr \<Rightarrow> (consumer_id \<times> addr, bool) store \<Rightarrow> (consumer_id \<times> addr, bool) store" where
  "moved_mark c old new m =
     (if store_has m (c, old) then store_remove (c, old) (store_set (c, new) True m) else m)"

lemma migrateFeeExclusion_frame:
  "\<exists>x. migrateFeeExclusion c old new s =
     s\<lparr>EpochDowntime := moved_mark c old new (EpochDowntime s), WithheldFeeRecords := x\<rparr>"
proof -
  define s1 where "s1 = s\<lparr>EpochDowntime := moved_mark c old new (EpochDowntime s)\<rparr>"
  have mark: "(if store_has (EpochDowntime s) (c, old)
      then s\<lparr>EpochDowntime := store_remove (c, old) (store_set (c, new) True (EpochDowntime s))\<rparr> else s) = s1"
    by (cases "store_has (EpochDowntime s) (c, old)") (simp_all add: s1_def moved_mark_def)
  have "migrateFeeExclusion c old new s =
      (case store_get (WithheldFeeRecords s1) (c, old) of
         None \<Rightarrow> s1
       | Some rec \<Rightarrow>
           if store_has (WithheldFeeRecords s1) (c, new) then s1
           else s1\<lparr>WithheldFeeRecords := store_remove (c, old)
                    (store_set (c, new) (rec\<lparr>wfr_ProviderConsAddr := new\<rparr>) (WithheldFeeRecords s1))\<rparr>)"
    unfolding migrateFeeExclusion_def Let_def mark ..
  moreover have "\<exists>x. \<dots> = s1\<lparr>WithheldFeeRecords := x\<rparr>"
    by (cases "store_get (WithheldFeeRecords s1) (c, old)")
      (auto intro: exI[of _ "WithheldFeeRecords s1"])
  ultimately show ?thesis by (simp add: s1_def)
qed

definition moved_punished :: "string option \<Rightarrow> addr \<Rightarrow> addr \<Rightarrow> (string \<times> addr \<times> int, unit) store \<Rightarrow> (string \<times> addr \<times> int, unit) store" where
  "moved_punished chain old new m =
     (case chain of None \<Rightarrow> m | Some chainId \<Rightarrow> move_entries chainId old new (\<lambda>u. u) m)"

lemma migratePunishedEquivocations_eq:
  "migratePunishedEquivocations c old new s =
     s\<lparr>PunishedEquivocations := moved_punished (GetConsumerChainId s c) old new (PunishedEquivocations s)\<rparr>"
  unfolding migratePunishedEquivocations_def moved_punished_def
  by (cases "GetConsumerChainId s c") simp_all

lemma migrate_consumer_eq:
  "\<exists>x y v w. migrate_consumer old new c s =
     (let s1 = s\<lparr>ValidatorConsumerPubKey := x, ValidatorByConsumerAddr := y, ConsumerValidators := v,
            EpochDowntime := moved_mark c old new (EpochDowntime s), WithheldFeeRecords := w,
            PunishedEquivocations := moved_punished (GetConsumerChainId s c) old new (PunishedEquivocations s)\<rparr>
      in if assigned_under s c old
         then s1\<lparr>PendingDowntimeSlashes := move_entries c old new (\<lambda>slash. slash\<lparr>pds_ProviderConsAddr := new\<rparr>) (PendingDowntimeSlashes s),
           AcceptedDowntimeWindows := move_entries c old new (\<lambda>w. w) (AcceptedDowntimeWindows s),
           DowntimeWindowFloors := moved_floor c old new (DowntimeWindowFloors s)\<rparr>
         else s1) \<and>
     snd (migrateKeyAssignment c old new s) = s\<lparr>ValidatorConsumerPubKey := x, ValidatorByConsumerAddr := y\<rparr>"
proof -
  obtain x y where xy: "snd (migrateKeyAssignment c old new s) =
      s\<lparr>ValidatorConsumerPubKey := x, ValidatorByConsumerAddr := y\<rparr>"
    using migrateKeyAssignment_frame by blast
  then have k: "migrateKeyAssignment c old new s =
      (assigned_under s c old, s\<lparr>ValidatorConsumerPubKey := x, ValidatorByConsumerAddr := y\<rparr>)"
    using migrate_fst[of c old new s] by (simp add: prod_eq_iff)
  define s1 where "s1 = s\<lparr>ValidatorConsumerPubKey := x, ValidatorByConsumerAddr := y\<rparr>"
  define s2 where "s2 = (if assigned_under s c old
     then migrateDowntimeAcceptance c old new (migrateConsumerValidator c old new s1) else s1)"
  have m: "migrate_consumer old new c s = migratePunishedEquivocations c old new (migrateFeeExclusion c old new s2)"
    by (simp add: migrate_consumer_def k s1_def s2_def Let_def)
  obtain v where v: "migrateConsumerValidator c old new s1 = s1\<lparr>ConsumerValidators := v\<rparr>"
    using migrateConsumerValidator_frame by blast
  obtain w where w: "migrateFeeExclusion c old new s2 =
      s2\<lparr>EpochDowntime := moved_mark c old new (EpochDowntime s2), WithheldFeeRecords := w\<rparr>"
    using migrateFeeExclusion_frame by blast
  define v' where "v' = (if assigned_under s c old then v else ConsumerValidators s)"
  have s2: "s2 = (if assigned_under s c old
      then s\<lparr>ValidatorConsumerPubKey := x, ValidatorByConsumerAddr := y, ConsumerValidators := v,
        PendingDowntimeSlashes := move_entries c old new (\<lambda>slash. slash\<lparr>pds_ProviderConsAddr := new\<rparr>) (PendingDowntimeSlashes s),
        AcceptedDowntimeWindows := move_entries c old new (\<lambda>w. w) (AcceptedDowntimeWindows s),
        DowntimeWindowFloors := moved_floor c old new (DowntimeWindowFloors s)\<rparr>
      else s1)"
    unfolding s2_def v migrateDowntimeAcceptance_eq by (simp add: s1_def)
  have "migrate_consumer old new c s =
     (let s1 = s\<lparr>ValidatorConsumerPubKey := x, ValidatorByConsumerAddr := y, ConsumerValidators := v',
            EpochDowntime := moved_mark c old new (EpochDowntime s), WithheldFeeRecords := w,
            PunishedEquivocations := moved_punished (GetConsumerChainId s c) old new (PunishedEquivocations s)\<rparr>
      in if assigned_under s c old
         then s1\<lparr>PendingDowntimeSlashes := move_entries c old new (\<lambda>slash. slash\<lparr>pds_ProviderConsAddr := new\<rparr>) (PendingDowntimeSlashes s),
           AcceptedDowntimeWindows := move_entries c old new (\<lambda>w. w) (AcceptedDowntimeWindows s),
           DowntimeWindowFloors := moved_floor c old new (DowntimeWindowFloors s)\<rparr>
         else s1)"
    unfolding m w migratePunishedEquivocations_eq unfolding s2 v'_def Let_def
    by (cases "assigned_under s c old") (simp_all add: s1_def GetConsumerChainId_def)
  then show ?thesis using xy by blast
qed

subsection \<open>The migration as a shift of one consumer's view\<close>

text \<open>
  What the rest of the module reads of a consumer about its validators: the assigned keys, the
  reverse mapping, the accepted windows, the queued slashes, the floors and the downtime marks.
\<close>

type_synonym rot_view =
  "(addr \<Rightarrow> pubkey option) \<times> (addr \<Rightarrow> addr option) \<times> (addr \<Rightarrow> int \<Rightarrow> AcceptedDowntimeWindow option) \<times>
   (addr \<Rightarrow> int \<Rightarrow> PendingDowntimeSlash option) \<times> (addr \<Rightarrow> int option) \<times> (addr \<Rightarrow> bool)"

definition rot_view :: "consumer_id \<Rightarrow> 'w pstate \<Rightarrow> rot_view" where
  "rot_view c s = (GetValidatorConsumerPubKey s c, GetValidatorByConsumerAddr s c,
     \<lambda>p h. store_get (AcceptedDowntimeWindows s) (c, p, h), \<lambda>p h. store_get (PendingDowntimeSlashes s) (c, p, h),
     \<lambda>p. store_get (DowntimeWindowFloors s) (c, p), \<lambda>p. store_has (EpochDowntime s) (c, p))"

definition shifted :: "addr \<Rightarrow> addr \<Rightarrow> ('v \<Rightarrow> 'v) \<Rightarrow> (addr \<Rightarrow> int \<Rightarrow> 'v option) \<Rightarrow> addr \<Rightarrow> int \<Rightarrow> 'v option" where
  "shifted old new f m p h =
     (if p = new then (case m old h of Some v \<Rightarrow> Some (f v) | None \<Rightarrow> m new h)
      else if p = old then None else m p h)"

definition rot_shift :: "addr \<Rightarrow> addr \<Rightarrow> rot_view \<Rightarrow> rot_view" where
  "rot_shift old new v = (case v of (key, back, acc, pend, fl, mark) \<Rightarrow>
     let mark' = (\<lambda>p. if mark old then p \<noteq> old \<and> (p = new \<or> mark p) else mark p) in
     if key old = None then (key, back, acc, pend, fl, mark')
     else (\<lambda>p. if p = new then key old else if p = old then None else key p,
           \<lambda>a. if back a = Some old then Some new else back a,
           shifted old new (\<lambda>w. w) acc, shifted old new (\<lambda>slash. slash\<lparr>pds_ProviderConsAddr := new\<rparr>) pend,
           \<lambda>p. if fl old = None then fl p
               else if p = old then None
               else if p = new then (case fl new of None \<Rightarrow> fl old | Some g \<Rightarrow> Some (max g (the (fl old))))
               else fl p, mark'))"

lemma migrate_consumer_keys:
  "GetValidatorConsumerPubKey (migrate_consumer old new d s) c =
     (if d = c \<and> assigned_under s c old
      then \<lambda>p. if p = new then GetValidatorConsumerPubKey s c old else if p = old then None
               else GetValidatorConsumerPubKey s c p
      else GetValidatorConsumerPubKey s c)" (is ?keys)
  "GetValidatorByConsumerAddr (migrate_consumer old new d s) c =
     (if d = c \<and> assigned_under s c old
      then \<lambda>a. if GetValidatorByConsumerAddr s c a = Some old then Some new else GetValidatorByConsumerAddr s c a
      else GetValidatorByConsumerAddr s c)" (is ?rev)
proof -
  define u where "u = snd (migrateKeyAssignment d old new s)"
  obtain x y v w where "migrate_consumer old new d s = (let s1 = s\<lparr>ValidatorConsumerPubKey := x,
        ValidatorByConsumerAddr := y, ConsumerValidators := v,
        EpochDowntime := moved_mark d old new (EpochDowntime s), WithheldFeeRecords := w,
        PunishedEquivocations := moved_punished (GetConsumerChainId s d) old new (PunishedEquivocations s)\<rparr>
      in if assigned_under s d old
         then s1\<lparr>PendingDowntimeSlashes := move_entries d old new (\<lambda>slash. slash\<lparr>pds_ProviderConsAddr := new\<rparr>) (PendingDowntimeSlashes s),
           AcceptedDowntimeWindows := move_entries d old new (\<lambda>w. w) (AcceptedDowntimeWindows s),
           DowntimeWindowFloors := moved_floor d old new (DowntimeWindowFloors s)\<rparr>
         else s1)" "u = s\<lparr>ValidatorConsumerPubKey := x, ValidatorByConsumerAddr := y\<rparr>"
    using migrate_consumer_eq[of old new d s] unfolding u_def by blast
  then have eq: "GetValidatorConsumerPubKey (migrate_consumer old new d s) = GetValidatorConsumerPubKey u"
    "GetValidatorByConsumerAddr (migrate_consumer old new d s) = GetValidatorByConsumerAddr u"
    by (auto simp: fun_eq_iff GetValidatorConsumerPubKey_def GetValidatorByConsumerAddr_def Let_def)
  have "?keys \<and> ?rev"
  proof (cases "GetValidatorConsumerPubKey s d old")
    case None
    then show ?thesis unfolding eq u_def by (auto simp: migrateKeyAssignment_None)
  next
    case (Some pk)
    then show ?thesis
      unfolding eq fun_eq_iff using migrateKeyAssignment_Some(1,2)[OF Some u_def] by auto
  qed
  then show ?keys ?rev by auto
qed

lemma migrate_consumer_stores:
  "AcceptedDowntimeWindows (migrate_consumer old new d s) =
     (if assigned_under s d old then move_entries d old new (\<lambda>w. w) (AcceptedDowntimeWindows s)
      else AcceptedDowntimeWindows s)"
  "PendingDowntimeSlashes (migrate_consumer old new d s) =
     (if assigned_under s d old
      then move_entries d old new (\<lambda>slash. slash\<lparr>pds_ProviderConsAddr := new\<rparr>) (PendingDowntimeSlashes s)
      else PendingDowntimeSlashes s)"
  "DowntimeWindowFloors (migrate_consumer old new d s) =
     (if assigned_under s d old then moved_floor d old new (DowntimeWindowFloors s) else DowntimeWindowFloors s)"
  "EpochDowntime (migrate_consumer old new d s) = moved_mark d old new (EpochDowntime s)"
  "ConsumerChainId (migrate_consumer old new d s) = ConsumerChainId s"
  "PunishedEquivocations (migrate_consumer old new d s) =
     moved_punished (GetConsumerChainId s d) old new (PunishedEquivocations s)"
  using migrate_consumer_eq[of old new d s] by (auto simp: Let_def)

lemma rot_view_migrate_other: "d \<noteq> c \<Longrightarrow> old \<noteq> new \<Longrightarrow> rot_view c (migrate_consumer old new d s) = rot_view c s"
  unfolding rot_view_def
  by (simp add: migrate_consumer_keys migrate_consumer_stores fun_eq_iff get_move_entries moved_floor_def
      moved_mark_def store_has_def split: option.splits)

lemma rot_view_migrate_self:
  assumes "old \<noteq> new"
  shows "rot_view c (migrate_consumer old new c s) = rot_shift old new (rot_view c s)"
proof -
  have fl: "store_get (moved_floor c old new m) (c, p) =
      (if store_get m (c, old) = None then store_get m (c, p)
       else if p = old then None
       else if p = new then (case store_get m (c, new) of None \<Rightarrow> store_get m (c, old)
                             | Some g \<Rightarrow> Some (max g (the (store_get m (c, old)))))
       else store_get m (c, p))" for m p
    using assms by (auto simp: moved_floor_def split: option.splits)
  have mk: "store_has (moved_mark c old new m) (c, p) =
      (if store_has m (c, old) then p \<noteq> old \<and> (p = new \<or> store_has m (c, p)) else store_has m (c, p))" for m p
    using assms by (auto simp: moved_mark_def)
  show ?thesis
    unfolding rot_view_def rot_shift_def Let_def
    by (simp add: migrate_consumer_keys migrate_consumer_stores fun_eq_iff get_move_entries[OF assms] fl mk shifted_def)
qed

lemma distinct_nonDeleted: "distinct (nonDeletedConsumerIds s)"
  by (simp add: nonDeletedConsumerIds_def GetAllConsumerIds_def split: option.splits)

lemma rot_view_migration:
  assumes "old \<noteq> new" "c \<in> set (nonDeletedConsumerIds s)"
  shows "rot_view c (MigrateStateOnConsPubKeyRotation old new s) = rot_shift old new (rot_view c s)"
  unfolding MigrateStateOnConsPubKeyRotation_def
  using distinct_nonDeleted assms(2)
  by (rule fold_local) (use assms(1) in \<open>simp_all add: rot_view_migrate_other rot_view_migrate_self\<close>)

subsection \<open>A rotation to evaluate\<close>

text \<open>
  One validator, whose consensus address is \<open>[1]\<close> before its rotation and \<open>[2]\<close> after it; the world
  says whether x/staking has applied the rotation.
\<close>

definition ex_rot_validator :: "bool \<Rightarrow> StakingValidator" where
  "ex_rot_validator rotated = \<lparr>OperatorAddress = ''val'', val_ConsensusPubkey = (if rotated then [2] else [1]),
     val_Tokens = 10, val_Unbonded = False, val_Jailed = False\<rparr>"

definition ex_rot_keeper :: "bool keeper" where
  "ex_rot_keeper = blank_keeper\<lparr>
     GetClientState := (\<lambda>_ _. Some (TmClient \<lparr>tm_ChainId = ''consumer'', tm_LatestHeight = (0, 12),
        tm_TrustingPeriod = 1000, tm_UnbondingPeriod = 2000, tm_MaxClockDrift = 10\<rparr>)),
     ConsensusStateHeights := (\<lambda>_ _. [(0, 8), (0, 12)]),
     ConsensusStateTimestamp := (\<lambda>_ _ h. Some (100 * int (snd h))),
     ConversionRate := (\<lambda>_. Some (10 ^ 18)),
     GetValidatorByConsAddr := (\<lambda>w a. if a = [1] \<or> a = [2] then Some (ex_rot_validator w) else None)\<rparr>"

definition ex_rot_state :: "bool pstate" where
  "ex_rot_state = (blank_pstate False)\<lparr>
     ConsumerId := 1,
     phase_of := store_set 0 CONSUMER_PHASE_LAUNCHED empty_store,
     ConsumerChainId := store_set 0 ''consumer'' empty_store,
     ConsumerClients := store_set 0 ''07-tendermint-0'' empty_store,
     ConsumerValidators := store_set (0, [1])
       \<lparr>ProviderConsAddr = [1], cv_Power = 10, PublicKey = [1], JoinHeight = 1\<rparr> empty_store,
     EpochShareRecords := store_set (0, 850) 5 empty_store\<rparr>"

definition ex_rot_assigned :: "bool pstate" where
  "ex_rot_assigned = ex_rot_state\<lparr>
     ValidatorConsumerPubKey := store_set (0, [1]) [7] empty_store,
     ValidatorByConsumerAddr := store_set (0, [7]) [1] empty_store,
     AcceptedDowntimeWindows := store_set (0, [1], 10) \<lparr>WindowStart = 5, AcceptedAt = 880\<rparr> empty_store\<rparr>"

definition ex_packet_assigned :: EvidencePacketData where
  "ex_packet_assigned = NewEvidencePacketData [7] 5 [63] 6 10 (5 * 10 ^ 17)"

subsection \<open>Properties\<close>

lemma rot_view_fields:
  assumes "rot_view c t = rot_shift old new (rot_view c s)"
  shows "GetValidatorByConsumerAddr t c a =
      (if assigned_under s c old \<and> GetValidatorByConsumerAddr s c a = Some old then Some new
       else GetValidatorByConsumerAddr s c a)"
    and "store_get (AcceptedDowntimeWindows t) (c, p, h) =
      (if assigned_under s c old
       then shifted old new (\<lambda>w. w) (\<lambda>p h. store_get (AcceptedDowntimeWindows s) (c, p, h)) p h
       else store_get (AcceptedDowntimeWindows s) (c, p, h))"
    and "store_get (PendingDowntimeSlashes t) (c, p, h) =
      (if assigned_under s c old
       then shifted old new (\<lambda>slash. slash\<lparr>pds_ProviderConsAddr := new\<rparr>) (\<lambda>p h. store_get (PendingDowntimeSlashes s) (c, p, h)) p h
       else store_get (PendingDowntimeSlashes s) (c, p, h))"
    and "assigned_under s c old \<Longrightarrow> old \<noteq> new \<Longrightarrow> store_get (DowntimeWindowFloors s) (c, old) = Some f \<Longrightarrow>
      \<exists>f'\<ge>f. store_get (DowntimeWindowFloors t) (c, new) = Some f'"
    and "\<not> assigned_under s c old \<Longrightarrow> store_get (DowntimeWindowFloors t) (c, p) = store_get (DowntimeWindowFloors s) (c, p)"
    and "IsEpochDowntime s c old \<Longrightarrow> old \<noteq> new \<Longrightarrow> IsEpochDowntime t c new"
  using assms
  by (auto simp: rot_view_def rot_shift_def Let_def fun_eq_iff IsEpochDowntime_def split: if_splits option.splits)

lemma remembered_migrate:
  assumes "old \<noteq> new" "c \<in> set (nonDeletedConsumerIds s)" "remembered s (c, old, st, en)"
  shows "remembered (MigrateStateOnConsPubKeyRotation old new s) (c, if assigned_under s c old then new else old, st, en)"
proof -
  note f = rot_view_fields[OF rot_view_migration[OF assms(1,2)]]
  show ?thesis
  proof (cases "assigned_under s c old")
    case True
    then show ?thesis using assms(3) f(4)[OF True assms(1)]
      by (fastforce simp: remembered_def f(2) shifted_def)
  next
    case False
    then show ?thesis using assms(3) f(5)[OF False] by (simp add: remembered_def f(2))
  qed
qed

text \<open>
  C10. A rotation of the validator's provider key reopens no accepted downtime window, as long as the
  consumer address of the accusation resolves through the key assignment exactly when the
  validator has one: evidence that overlaps a window accepted before the rotation is still
  refused, a slash queued before it stands under the address the accused now resolves to, and the
  epoch's downtime mark is carried over.
\<close>

theorem rotation_keeps_accepted_windows_closed:
  assumes "old \<noteq> new" "c \<in> set (nonDeletedConsumerIds s)"
    and "GetProviderAddrFromConsumerAddr s c a = old"
    and "GetValidatorConsumerPubKey s c old \<noteq> None \<longleftrightarrow> GetValidatorByConsumerAddr s c a = Some old"
    and "t = MigrateStateOnConsPubKeyRotation old new s"
  shows "(\<forall>packet st en. ValidatorAddr packet = a \<longrightarrow> remembered s (c, old, st, en) \<longrightarrow>
       \<not> disjoint_windows (c, old, WindowStartHeight packet, WindowEndHeight packet) (c, old, st, en) \<longrightarrow>
       \<not> is_ok (HandleConsumerEvidencePacket k ctx c packet t)) \<and>
     (\<forall>h slash. store_get (PendingDowntimeSlashes s) (c, old, h) = Some slash \<longrightarrow>
       store_get (PendingDowntimeSlashes t) (c, GetProviderAddrFromConsumerAddr t c a, h) =
         Some (slash\<lparr>pds_ProviderConsAddr :=
           (if GetValidatorConsumerPubKey s c old = None then pds_ProviderConsAddr slash else new)\<rparr>)) \<and>
     (IsEpochDowntime s c old \<longrightarrow> IsEpochDowntime t c new)"
proof -
  note f = rot_view_fields[OF rot_view_migration[OF assms(1,2)], folded assms(5)]
  define p where "p = (if assigned_under s c old then new else old)"
  have r: "GetProviderAddrFromConsumerAddr t c a = p"
    using assms(3,4) by (auto simp: GetProviderAddrFromConsumerAddr_def f(1) p_def split: option.splits if_splits)
  have "\<not> is_ok (HandleConsumerEvidencePacket k ctx c packet t)"
    if "ValidatorAddr packet = a" "remembered s (c, old, st, en)"
      "\<not> disjoint_windows (c, old, WindowStartHeight packet, WindowEndHeight packet) (c, old, st, en)" for packet st en
  proof
    assume "is_ok (HandleConsumerEvidencePacket k ctx c packet t)"
    then obtain u where "HandleConsumerEvidencePacket k ctx c packet t = Ok u" by (auto simp: is_ok_iff)
    moreover have "remembered t (c, p, st, en)"
      using remembered_migrate[OF assms(1,2) that(2)] by (simp add: p_def assms(5))
    ultimately have "disjoint_windows (window_of t c packet) (c, p, st, en)" by (rule acceptance_disjoint)
    then show False using that(1,3) by (simp add: window_of_def r disjoint_windows_def)
  qed
  moreover have "store_get (PendingDowntimeSlashes t) (c, GetProviderAddrFromConsumerAddr t c a, h) =
         Some (slash\<lparr>pds_ProviderConsAddr :=
           (if GetValidatorConsumerPubKey s c old = None then pds_ProviderConsAddr slash else new)\<rparr>)"
    if "store_get (PendingDowntimeSlashes s) (c, old, h) = Some slash" for h slash
    using that by (simp add: r p_def f(3) shifted_def)
  moreover have "IsEpochDowntime s c old \<longrightarrow> IsEpochDowntime t c new" using f(6) assms(1) by blast
  ultimately show ?thesis by blast
qed

theorem rotation_keeps_accepted_windows_closed_witness:
  "\<not> is_ok (HandleConsumerEvidencePacket ex_rot_keeper (ex_ctx 883) 0 ex_packet_assigned
      (MigrateStateOnConsPubKeyRotation [1] [2] ex_rot_assigned))"
proof -
  have h: "(0 :: nat) \<in> set (nonDeletedConsumerIds ex_rot_assigned)"
    "GetProviderAddrFromConsumerAddr ex_rot_assigned 0 [7] = [1]"
    "GetValidatorConsumerPubKey ex_rot_assigned 0 [1] \<noteq> None \<longleftrightarrow> GetValidatorByConsumerAddr ex_rot_assigned 0 [7] = Some [1]"
    "ValidatorAddr ex_packet_assigned = [7]"
    "\<not> disjoint_windows (0, [1], WindowStartHeight ex_packet_assigned, WindowEndHeight ex_packet_assigned) (0, [1], 5, 10)"
    by code_simp+
  have "remembered ex_rot_assigned (0, [1], 5, 10)"
    by (simp add: remembered_def ex_rot_assigned_def)
  then show ?thesis
    using rotation_keeps_accepted_windows_closed[OF _ h(1-3) refl] h(4,5) by simp
qed

text \<open>
  C11. The condition of the previous property is needed: a validator that has no key assigned on a
  consumer is accused under its provider address, then assigns its first key there (which records
  no mapping for the address it leaves) and rotates its provider key. The migration moves the
  accepted window to the new address, the accusation still resolves to the old one, and the same
  packet is accepted a second time.
\<close>

theorem first_key_then_rotation_reopens_window:
  "\<exists>s1 s2 s4. HandleConsumerEvidencePacket ex_rot_keeper (ex_ctx 880) 0 ex_packet ex_rot_state = Ok s1 \<and>
     \<not> is_ok (HandleConsumerEvidencePacket ex_rot_keeper (ex_ctx 881) 0 ex_packet s1) \<and>
     AssignConsumerKey ex_rot_keeper (ex_ctx 881) 0 (ex_rot_validator False) [7] s1 = Ok s2 \<and>
     HandleConsumerEvidencePacket ex_rot_keeper (ex_ctx 883) 0 ex_packet
       (MigrateStateOnConsPubKeyRotation [1] [2] (s2\<lparr>world := True\<rparr>)) = Ok s4"
proof -
  have ok: "m = Ok (value_or d m)" if "is_ok m" for m :: "bool pstate result" and d
    using that by (cases m) simp_all
  define s1 where "s1 = value_or ex_rot_state (HandleConsumerEvidencePacket ex_rot_keeper (ex_ctx 880) 0 ex_packet ex_rot_state)"
  define s2 where "s2 = value_or s1 (AssignConsumerKey ex_rot_keeper (ex_ctx 881) 0 (ex_rot_validator False) [7] s1)"
  have 1: "is_ok (HandleConsumerEvidencePacket ex_rot_keeper (ex_ctx 880) 0 ex_packet ex_rot_state)"
    by code_simp
  have 2: "\<not> is_ok (HandleConsumerEvidencePacket ex_rot_keeper (ex_ctx 881) 0 ex_packet s1)"
    unfolding s1_def by code_simp
  have 3: "is_ok (AssignConsumerKey ex_rot_keeper (ex_ctx 881) 0 (ex_rot_validator False) [7] s1)"
    unfolding s1_def by code_simp
  have 4: "is_ok (HandleConsumerEvidencePacket ex_rot_keeper (ex_ctx 883) 0 ex_packet
       (MigrateStateOnConsPubKeyRotation [1] [2] (s2\<lparr>world := True\<rparr>)))"
    unfolding s2_def s1_def by code_simp
  show ?thesis
    using ok[OF 1, of ex_rot_state] 2 ok[OF 3, of s1] ok[OF 4, of s2]
    unfolding s1_def[symmetric] s2_def[symmetric] by blast
qed

end
