(* ===== verification/Blocks.thy ===== *)
theory Blocks
  imports MsgServer Rotation
begin

text \<open>
  The entry points of the provider module: the block hooks of \<^verbatim>\<open>module.go\<close> and the packet
  callbacks of \<^verbatim>\<open>ibc_module.go\<close>. An error of a block hook fails the block, so its result carries a
  state only when it succeeds; a packet callback that reports a failure has its writes dropped by
  IBC core.
\<close>

subsection \<open>Block hooks\<close>

text \<open>
  A distribution that fails is logged; every error of \<^verbatim>\<open>DistributeConsumerFees\<close> comes before its
  first write, so the state of before is what the hook goes on with.
\<close>

definition BeginBlock :: "'w keeper \<Rightarrow> sdk_ctx \<Rightarrow> 'w pstate \<Rightarrow> 'w pstate result" where
  "BeginBlock k ctx s =
     bind_res (BeginBlockLaunchConsumers k ctx s) (\<lambda>s1.
     bind_res (BeginBlockRemoveConsumers k ctx s1) (\<lambda>s2.
     let s3 = PauseConsumersWithFrozenClients k ctx s2 in
     bind_res (SweepUnresponsiveConsumers k ctx s3) (\<lambda>s4.
     bind_res (BeginBlockAutoStopPausedConsumers k ctx s4) (\<lambda>s5.
     let s6 = SweepPendingDowntimeSlashes k ctx s5;
         ip = InfractionParams s6;
         s7 = PruneEpochShareRecords (BlockTime ctx - (DowntimeEvidenceMaxAge ip + DowntimeChallengeWindow ip)) s6;
         s8 = SweepExpiredWithheldFeeRecords ctx s7;
         s9 = PruneAcceptedDowntimeWindows ctx ip s8
     in bind_res (BlocksUntilNextEpoch ctx s9) (\<lambda>n.
        if n = 0
        then bind_res (in_cache (DistributeConsumerFees k ctx) s9) (\<lambda>s10. Ok (ClearEpochDowntime s10))
        else Ok s9)))))"

definition EndBlock :: "'w keeper \<Rightarrow> sdk_ctx \<Rightarrow> 'w pstate \<Rightarrow> (ValidatorUpdate list \<times> 'w pstate) result" where
  "EndBlock k ctx s = EndBlockVSU k ctx (EndBlockPruneKeyAssignments ctx s)"

subsection \<open>Packet callbacks\<close>

definition ProviderAppID :: string where
  "ProviderAppID = ''vaasprovider''"

definition ConsumerAppID :: string where
  "ConsumerAppID = ''vaasconsumer''"

text \<open>
  The payload of a packet: the ports, and what its value decodes to as evidence or as a
  validator-set change.
\<close>

record Payload =
  SourcePort :: string
  DestinationPort :: string
  EvidenceValue :: "EvidencePacketData option"
  VSCValue :: "ValidatorSetChangePacketData option"

definition OnSendPacket :: "'w keeper \<Rightarrow> Payload \<Rightarrow> string \<Rightarrow> unit result" where
  "OnSendPacket k payload signer =
     guard_res (SourcePort payload = ProviderAppID) ErrInvalidRequest (
     guard_res (DestinationPort payload = ConsumerAppID) ErrInvalidRequest (
     guard_res (signer = authority k) ErrUnauthorized (Ok ())))"

text \<open>Whether the callback reported success, and the state then.\<close>

definition OnRecvPacket :: "'w keeper \<Rightarrow> sdk_ctx \<Rightarrow> string \<Rightarrow> Payload \<Rightarrow> 'w pstate \<Rightarrow> (bool \<times> 'w pstate) result" where
  "OnRecvPacket k ctx destinationClient payload s =
     (if DestinationPort payload \<noteq> ProviderAppID then Ok (False, s)
      else if SourcePort payload \<noteq> ConsumerAppID then Ok (False, s)
      else case GetClientIdToConsumerId s destinationClient of
        None \<Rightarrow> Ok (False, s)
      | Some c \<Rightarrow>
          (case EvidenceValue payload of
             None \<Rightarrow> Ok (False, s)
           | Some evidencePacket \<Rightarrow>
               (case HandleConsumerEvidencePacket k ctx c evidencePacket s of
                  Ok s1 \<Rightarrow> Ok (True, s1)
                | Err _ \<Rightarrow> Ok (False, s)
                | Panic \<Rightarrow> Panic)))"

definition OnTimeoutPacket :: "string \<Rightarrow> 'w pstate \<Rightarrow> 'w pstate" where
  "OnTimeoutPacket sourceClient s = OnTimeoutPacketV2 sourceClient s"

definition OnAcknowledgementPacket ::
    "sdk_ctx \<Rightarrow> string \<Rightarrow> bool \<Rightarrow> Payload \<Rightarrow> 'w pstate \<Rightarrow> 'w pstate" where
  "OnAcknowledgementPacket ctx sourceClient isErrorAcknowledgement payload s =
     (let ackError = (if isErrorAcknowledgement then ''error acknowledgement received'' else '''');
          ackVscId = (case VSCValue payload of None \<Rightarrow> 0 | Some vsc \<Rightarrow> ValsetUpdateId vsc)
      in OnAcknowledgementPacketV2 ctx sourceClient ackVscId ackError s)"

subsection \<open>The steps of the provider\<close>

text \<open>
  Everything that writes the module's state: the two block hooks, the packet callbacks, the
  transactions that succeeded, the staking hooks, and the steps of the other modules of the chain,
  which change only their own state. A transaction, block or callback that fails leaves no step.
\<close>

inductive provider_step :: "'w keeper \<Rightarrow> 'w verifier \<Rightarrow> 'w pstate \<Rightarrow> 'w pstate \<Rightarrow> bool"
  for k :: "'w keeper" and v :: "'w verifier" where
  begin_block: "BeginBlock k ctx s = Ok t \<Longrightarrow> provider_step k v s t"
| end_block: "EndBlock k ctx s = Ok (updates, t) \<Longrightarrow> provider_step k v s t"
| recv: "OnRecvPacket k ctx client payload s = Ok (True, t) \<Longrightarrow> provider_step k v s t"
| ack: "provider_step k v s (OnAcknowledgementPacket ctx client isError payload s)"
| timeout: "provider_step k v s (OnTimeoutPacket client s)"
| update_params: "UpdateParams k auth ps s = Ok t \<Longrightarrow> provider_step k v s t"
| update_infraction: "UpdateInfractionParams k ctx auth ip s = Ok t \<Longrightarrow> provider_step k v s t"
| assign_key: "Msg_AssignConsumerKey k ctx c providerAddr key s = Ok t \<Longrightarrow> provider_step k v s t"
| misbehaviour: "SubmitConsumerMisbehaviour k v ctx c m s = Ok t \<Longrightarrow> provider_step k v s t"
| double_voting: "SubmitConsumerDoubleVoting k v ctx c ev header s = Ok t \<Longrightarrow> provider_step k v s t"
| challenge: "ChallengeConsumerDowntime k v ctx chal s = Ok t \<Longrightarrow> provider_step k v s t"
| create: "CreateConsumer k ctx msg s = Ok (c, t) \<Longrightarrow> provider_step k v s t"
| update: "UpdateConsumer k ctx upd s = Ok t \<Longrightarrow> provider_step k v s t"
| remove: "RemoveConsumer k ctx signer c s = Ok t \<Longrightarrow> provider_step k v s t"
| resume: "ResumeConsumer k ctx auth c s = Ok t \<Longrightarrow> provider_step k v s t"
| set_fees: "Msg_SetConsumerFeesPerBlock k auth c amount s = Ok t \<Longrightarrow> provider_step k v s t"
| fund: "FundConsumerFeePool k signer c coin s = Ok t \<Longrightarrow> provider_step k v s t"
| withdraw: "WithdrawConsumerFeePool k ctx signer c coins s = Ok (delivered, t) \<Longrightarrow> provider_step k v s t"
| sweep: "Msg_SweepConsumerFeePool k signer c denoms s = Ok t \<Longrightarrow> provider_step k v s t"
| removed_validator: "AfterValidatorRemoved k consAddr s = Ok t \<Longrightarrow> provider_step k v s t"
| rotated_key: "AfterConsensusPubKeyUpdate k ctx oldAddr newAddr s = Ok t \<Longrightarrow> provider_step k v s t"
| other_modules: "provider_step k v s (s\<lparr>world := w\<rparr>)"

end
