(* ===== verification/LifeFrame.thy ===== *)
theory LifeFrame
  imports Blocks
begin

text \<open>
  Which operations leave the lifecycle of the consumers alone. The lifecycle of all consumers is read
  from eight collections, gathered in \<open>life\<close>; the lemmas here say that an operation of another
  component does not change them, so that the invariant of \<^verbatim>\<open>LifecycleInv\<close> has to look only at
  the operations of \<^verbatim>\<open>Lifecycle\<close> and the registration messages.
\<close>

named_theorems life_frame \<open>operations that keep the lifecycle state\<close>
named_theorems life_step \<open>operations that keep the lifecycle state when they succeed\<close>

definition life where
  "life s = (phase_of s, ConsumerInitParams s, SpawnTimeToConsumerIds s, RemovalTimeToConsumerIds s, PauseExpirationTimeToConsumerIds s, ConsumerPauseExpirationTime s, ConsumerRemovalTime s, ConsumerId s)"

lemma life_updates [simp]:
  "life (s\<lparr>Params := x_Params\<rparr>) = life s"
  "life (s\<lparr>InfractionParams := x_InfractionParams\<rparr>) = life s"
  "life (s\<lparr>PreviousDowntimeParams := x_PreviousDowntimeParams\<rparr>) = life s"
  "life (s\<lparr>ValidatorSetUpdateId := x_ValidatorSetUpdateId\<rparr>) = life s"
  "life (s\<lparr>ConsumerClients := x_ConsumerClients\<rparr>) = life s"
  "life (s\<lparr>ConsumerGenesis := x_ConsumerGenesis\<rparr>) = life s"
  "life (s\<lparr>InitChainHeight := x_InitChainHeight\<rparr>) = life s"
  "life (s\<lparr>PendingVSCPackets := x_PendingVSCPackets\<rparr>) = life s"
  "life (s\<lparr>ConsumerChainId := x_ConsumerChainId\<rparr>) = life s"
  "life (s\<lparr>ConsumerOwnerAddress := x_ConsumerOwnerAddress\<rparr>) = life s"
  "life (s\<lparr>ConsumerMetadata := x_ConsumerMetadata\<rparr>) = life s"
  "life (s\<lparr>ConsumerDebt := x_ConsumerDebt\<rparr>) = life s"
  "life (s\<lparr>ConsumerFeesPerBlockOverride := x_ConsumerFeesPerBlockOverride\<rparr>) = life s"
  "life (s\<lparr>EquivocationEvidenceMinHeight := x_EquivocationEvidenceMinHeight\<rparr>) = life s"
  "life (s\<lparr>ConsumerLastAckTime := x_ConsumerLastAckTime\<rparr>) = life s"
  "life (s\<lparr>ConsumerHighestSentVscId := x_ConsumerHighestSentVscId\<rparr>) = life s"
  "life (s\<lparr>ConsumerHighestAckedVscId := x_ConsumerHighestAckedVscId\<rparr>) = life s"
  "life (s\<lparr>ConsumerPauseReason := x_ConsumerPauseReason\<rparr>) = life s"
  "life (s\<lparr>ConsumerPausedAt := x_ConsumerPausedAt\<rparr>) = life s"
  "life (s\<lparr>ValidatorConsumerPubKey := x_ValidatorConsumerPubKey\<rparr>) = life s"
  "life (s\<lparr>ValidatorByConsumerAddr := x_ValidatorByConsumerAddr\<rparr>) = life s"
  "life (s\<lparr>ConsumerAddrsToPrune := x_ConsumerAddrsToPrune\<rparr>) = life s"
  "life (s\<lparr>ConsumerValidators := x_ConsumerValidators\<rparr>) = life s"
  "life (s\<lparr>LastProviderConsensusVals := x_LastProviderConsensusVals\<rparr>) = life s"
  "life (s\<lparr>ConsumerFeePoolShares := x_ConsumerFeePoolShares\<rparr>) = life s"
  "life (s\<lparr>ConsumerFeePoolTotalShares := x_ConsumerFeePoolTotalShares\<rparr>) = life s"
  "life (s\<lparr>FeePoolAddressToConsumerId := x_FeePoolAddressToConsumerId\<rparr>) = life s"
  "life (s\<lparr>EpochDowntime := x_EpochDowntime\<rparr>) = life s"
  "life (s\<lparr>EpochShareRecords := x_EpochShareRecords\<rparr>) = life s"
  "life (s\<lparr>PendingDowntimeSlashes := x_PendingDowntimeSlashes\<rparr>) = life s"
  "life (s\<lparr>AcceptedDowntimeWindows := x_AcceptedDowntimeWindows\<rparr>) = life s"
  "life (s\<lparr>DowntimeWindowFloors := x_DowntimeWindowFloors\<rparr>) = life s"
  "life (s\<lparr>PunishedEquivocations := x_PunishedEquivocations\<rparr>) = life s"
  "life (s\<lparr>WithheldFeeRecords := x_WithheldFeeRecords\<rparr>) = life s"
  "life (s\<lparr>world := x_world\<rparr>) = life s"
  by (simp_all add: life_def)

lemma life_world: "life (s\<lparr>world := w\<rparr>) = life s"
  by simp

lemma lifeD:
  assumes "life t = life s"
  shows "phase_of t = phase_of s"
    "ConsumerInitParams t = ConsumerInitParams s"
    "SpawnTimeToConsumerIds t = SpawnTimeToConsumerIds s"
    "RemovalTimeToConsumerIds t = RemovalTimeToConsumerIds s"
    "PauseExpirationTimeToConsumerIds t = PauseExpirationTimeToConsumerIds s"
    "ConsumerPauseExpirationTime t = ConsumerPauseExpirationTime s"
    "ConsumerRemovalTime t = ConsumerRemovalTime s"
    "ConsumerId t = ConsumerId s"
    "GetConsumerPhase t = GetConsumerPhase s" "GetAllConsumerIds t = GetAllConsumerIds s"
  using assms by (auto simp: life_def GetConsumerPhase_def GetAllConsumerIds_def GetConsumerId_def)

lemma fold_res_frame:
  assumes "fold_res f xs s = Ok t" "\<And>x s t. x \<in> set xs \<Longrightarrow> f x s = Ok t \<Longrightarrow> view t = view s"
  shows "view t = view s"
  by (rule fold_res_invariant[OF assms(1), where P = "\<lambda>u. view u = view s"]) (auto simp: assms(2))

subsection \<open>Validator sets and packets\<close>

lemma life_SetConsumerValSet [life_frame]: "life (SetConsumerValSet c vs s) = life s"
  unfolding SetConsumerValSet_def
  by (subst fold_frame[where view = life]) (simp_all add: keeper_simps DeleteConsumerValSet_def Let_def)

lemma life_ComputeConsumerNextValSet [life_step]:
  "ComputeConsumerNextValSet k ctx bonded c cur snap s = Ok (us, t) \<Longrightarrow> life t = life s"
  by (auto simp: ComputeConsumerNextValSet_def Let_def res_simps life_frame split: if_splits)

lemma life_AppendPending [life_frame]: "life (AppendPendingVSCPackets c ps s) = life s"
  by (simp add: AppendPendingVSCPackets_def)

lemma life_Increment [life_frame]: "life (IncrementValidatorSetUpdateId s) = life s"
  by (simp add: IncrementValidatorSetUpdateId_def)

lemma life_queue_one [life_step]: "queue_one k ctx i bonded c s = Ok t \<Longrightarrow> life t = life s"
  by (auto simp: queue_one_def Let_def res_simps life_frame intro: life_step)

lemma life_QueueVSCPackets [life_step]: "QueueVSCPackets k ctx s = Ok t \<Longrightarrow> life t = life s"
  by (auto simp: QueueVSCPackets_def Let_def res_simps life_frame elim!: fold_res_frame intro: life_step)

lemma life_QueueImmediateSnapshot [life_step]:
  "QueueImmediateSnapshotVSCPacket k ctx c s = Ok t \<Longrightarrow> life t = life s"
  by (auto simp: QueueImmediateSnapshotVSCPacket_def Let_def res_simps life_frame intro: life_step)

lemma life_send_loop [life_frame]: "life (snd (send_loop k c cl ts ps s)) = life s"
  by (induction ps arbitrary: s)
    (auto simp: Let_def SetConsumerHighestSentVscId_def split: prod.splits bool.splits)

lemma life_sendStrict [life_frame]: "life (snd (sendVSCPacketsToChainStrict k ctx c cl s)) = life s"
  using life_send_loop[of k c cl _ "GetPendingVSCPackets s c" s]
  by (auto simp: sendVSCPacketsToChainStrict_def Let_def DeletePendingVSCPackets_def split: prod.splits bool.splits)
    (metis snd_conv)+

lemma life_SendVSCPackets [life_frame]: "life (SendVSCPackets k ctx s) = life s"
  unfolding SendVSCPackets_def
  by (rule fold_frame) (simp add: SendVSCPacketsToChain_def life_frame split: option.splits)

lemma life_ProviderValidatorUpdates [life_step]:
  "ProviderValidatorUpdates k s = Ok (us, t) \<Longrightarrow> life t = life s"
  by (auto simp: ProviderValidatorUpdates_def Let_def res_simps SetLastProviderConsensusValSet_def)

lemma life_EndBlock [life_step]: "EndBlock k ctx s = Ok (us, t) \<Longrightarrow> life t = life s"
proof -
  have prune: "life (EndBlockPruneKeyAssignments ctx s) = life s"
    unfolding EndBlockPruneKeyAssignments_def PruneKeyAssignments_def
    by (rule fold_frame)
      (simp add: Let_def split_beta ConsumeConsumerAddrsToPrune_def fold_frame[where view = life] DeleteValidatorByConsumerAddr_def)
  assume "EndBlock k ctx s = Ok (us, t)"
  then obtain u where u: "ProviderValidatorUpdates k (EndBlockPruneKeyAssignments ctx s) = Ok (us, u)"
    and "t = u \<or> (\<exists>x. QueueVSCPackets k ctx u = Ok x \<and> t = SendVSCPackets k ctx x)"
    by (auto simp: EndBlock_def EndBlockVSU_def res_simps split: if_splits)
  then have "life t = life u" by (auto simp: life_frame intro: life_step)
  then show ?thesis using life_ProviderValidatorUpdates[OF u] prune by simp
qed

lemma life_ack [life_frame]: "life (OnAcknowledgementPacket ctx cl e p s) = life s"
  by (simp add: OnAcknowledgementPacket_def OnAcknowledgementPacketV2_def Let_def SetConsumerLastAckTime_def
      SetConsumerHighestAckedVscId_def split: option.splits)

lemma life_timeout [life_frame]: "life (OnTimeoutPacket cl s) = life s"
  by (simp add: OnTimeoutPacket_def OnTimeoutPacketV2_def)

subsection \<open>Downtime\<close>

lemma life_evidence [life_step]:
  "HandleConsumerEvidencePacket k ctx c packet s = Ok t \<Longrightarrow> life t = life s"
  by (drule HandleConsumerEvidencePacket_Ok(1), erule HandleConsumerDowntime_Ok)
    (simp add: MarkEpochDowntime_def)

lemma life_recv [life_step]: "OnRecvPacket k ctx cl p s = Ok (b, t) \<Longrightarrow> life t = life s"
  by (auto simp: OnRecvPacket_def split: if_splits option.splits res.splits intro: life_step)

lemma life_execute [life_frame]: "life (snd (executeDowntimeSlash k ip e s)) = life s"
  by (simp add: executeDowntimeSlash_def Let_def split: res.splits prod.splits)

lemma life_SweepPendingDowntimeSlashes [life_frame]: "life (SweepPendingDowntimeSlashes k ctx s) = life s"
  using sweep_frame[of k ctx s] by auto

lemma life_PruneAccepted [life_frame]: "life (PruneAcceptedDowntimeWindows ctx ip s) = life s"
  unfolding PruneAcceptedDowntimeWindows_def Let_def
  by (rule fold_frame) (auto simp: prune_window_def Let_def split: prod.splits option.splits if_splits)

lemma life_Cancel [life_frame]: "life (CancelConsumerDowntimeState c s) = life s"
  by (simp add: CancelConsumerDowntimeState_def)

subsection \<open>Fees\<close>

lemma life_fees [life_frame]:
  "life (PruneEpochShareRecords t s) = life s"
  "life (SweepExpiredWithheldFeeRecords ctx s) = life s"
  "life (ClearEpochDowntime s) = life s"
  "life (SetEpochShareRecord c t x s) = life s"
  "life (UpdateConsumerDebtStatus c b s) = life s"
  by (simp_all add: PruneEpochShareRecords_def SweepExpiredWithheldFeeRecords_def ClearEpochDowntime_def Let_def
      SetEpochShareRecord_def UpdateConsumerDebtStatus_def SetConsumerInDebt_def)

lemma life_recordWithheldFee [life_step]: "recordWithheldFee ctx c coin a s = Ok t \<Longrightarrow> life t = life s"
  by (auto simp: recordWithheldFee_def Let_def res_simps)

lemma life_distribute_one [life_step]: "distribute_one k ctx fe fb bs c s = Ok t \<Longrightarrow> life t = life s"
proof -
  have rec: "fold_res (recordWithheldFee ctx c coin) as u = Ok t \<Longrightarrow> life t = life u" for coin as u
    by (erule fold_res_frame) (rule life_recordWithheldFee)
  show "distribute_one k ctx fe fb bs c s = Ok t \<Longrightarrow> life t = life s"
    by (auto simp: distribute_one_def Let_def life_frame split: if_splits prod.splits dest!: rec)
qed

lemma life_DistributeConsumerFees [life_step]: "DistributeConsumerFees k ctx s = Ok t \<Longrightarrow> life t = life s"
  by (auto simp: DistributeConsumerFees_def res_simps elim!: fold_res_frame split: if_splits intro: life_step)

lemma life_pay_record: "life (pay_record k ctx c e s) = life s"
  by (simp add: pay_record_def Let_def split: option.splits)

lemma life_PayWithheldFees [life_frame]: "life (PayWithheldFees k ctx c s) = life s"
  unfolding PayWithheldFees_def by (rule fold_frame) (rule life_pay_record)

subsection \<open>Fee pools\<close>

lemma life_shares [life_frame]:
  "life (clearAllShares c d s) = life s" "life (absorbUnaccountedBalance k c d b s) = life s"
  by (simp_all add: clearAllShares_def absorbUnaccountedBalance_def Let_def)

lemma life_MintShares [life_step]: "MintShares k c a coin s = Ok t \<Longrightarrow> life t = life s"
  by (auto simp: MintShares_def Let_def res_simps life_frame split: if_splits prod.splits)

lemma life_WithdrawShares [life_step]: "WithdrawShares k ctx c a coin s = Ok (x, t) \<Longrightarrow> life t = life s"
  by (erule WithdrawShares_Ok) simp

lemma life_SweepDenom [life_step]: "SweepConsumerFeePoolDenom k c d s = Ok t \<Longrightarrow> life t = life s"
  unfolding SweepConsumerFeePoolDenom_def Let_def
  by (auto simp: res_simps life_frame split: if_splits prod.splits)

lemma life_SweepConsumerFeePool [life_step]: "SweepConsumerFeePool k c ds s = Ok t \<Longrightarrow> life t = life s"
  by (auto simp: SweepConsumerFeePool_def elim!: fold_res_frame split: if_splits intro: life_step)

lemma life_fund [life_step]: "FundConsumerFeePool k signer c coin s = Ok t \<Longrightarrow> life t = life s"
proof -
  assume "FundConsumerFeePool k signer c coin s = Ok t"
  then have "\<exists>depositor s1 s2 w2. life s1 = life s \<and> MintShares k c depositor coin s1 = Ok s2 \<and> t = s2\<lparr>world := w2\<rparr>"
    unfolding FundConsumerFeePool_def Let_def
    by (auto simp: res_simps split: if_splits) (metis life_world)+
  then show ?thesis by (auto dest: life_MintShares)
qed

lemma life_withdraw_loop: "fold_res (withdraw_one k ctx c a) coins acc = Ok acc' \<Longrightarrow> life (snd acc') = life (snd acc)"
  by (erule fold_res_frame) (auto simp: withdraw_one_def Let_def res_simps split: prod.splits intro: life_step)

lemma life_withdraw [life_step]: "WithdrawConsumerFeePool k ctx signer c coins s = Ok (d, t) \<Longrightarrow> life t = life s"
proof -
  assume "WithdrawConsumerFeePool k ctx signer c coins s = Ok (d, t)"
  then obtain a x s1 w where "fold_res (withdraw_one k ctx c a) coins ([], s) = Ok (x, s1)" "t = s1 \<or> t = s1\<lparr>world := w\<rparr>"
    unfolding WithdrawConsumerFeePool_def Let_def by (auto simp: res_simps split: if_splits) 
  then show ?thesis using life_withdraw_loop[of k ctx c a coins "([], s)" "(x, s1)"] by auto
qed

lemma life_pool_msgs [life_step]:
  "Msg_SweepConsumerFeePool k signer c ds s = Ok t \<Longrightarrow> life t = life s"
  by (auto simp: Msg_SweepConsumerFeePool_def Let_def res_simps intro: life_step)

lemma life_set_fees [life_step]:
  "Msg_SetConsumerFeesPerBlock k auth c amount s = Ok t \<Longrightarrow> life t = life s"
  by (auto simp: Msg_SetConsumerFeesPerBlock_def Let_def res_simps split: if_splits option.splits)

subsection \<open>Parameters, keys, equivocation\<close>

lemma life_UpdateParams [life_step]: "UpdateParams k auth ps s = Ok t \<Longrightarrow> life t = life s"
  by (auto simp: UpdateParams_def Let_def res_simps reconcileFeesPerBlockOverrides_def)

lemma life_UpdateInfractionParams [life_step]: "UpdateInfractionParams k ctx auth ip s = Ok t \<Longrightarrow> life t = life s"
  by (auto simp: UpdateInfractionParams_def Let_def res_simps SetInfractionParams_def)

lemma life_retire: "retire_old_key k ctx c old s = Ok t \<Longrightarrow> life t = life s"
proof -
  have u: "life (AppendConsumerAddrsToPrune c ts a s) = life s" "life (DeleteValidatorByConsumerAddr c a s) = life s" for ts a
    by (simp_all add: AppendConsumerAddrsToPrune_def DeleteValidatorByConsumerAddr_def)
  assume "retire_old_key k ctx c old s = Ok t"
  then have "\<exists>ts a. t = AppendConsumerAddrsToPrune c ts a s \<or> t = DeleteValidatorByConsumerAddr c a s"
    unfolding retire_old_key_def by (simp only: res_simps split: if_splits) blast+
  then show ?thesis using u by metis
qed

lemma life_AssignConsumerKey [life_step]: "AssignConsumerKey k ctx c val key s = Ok t \<Longrightarrow> life t = life s"
proof -
  assume "AssignConsumerKey k ctx c val key s = Ok t"
  then show ?thesis
  proof (rule AssignConsumerKey_cases)
    fix a p s1
    assume t: "t = SetValidatorByConsumerAddr c a p (SetValidatorConsumerPubKey c p key s1)"
      and r: "(case GetValidatorConsumerPubKey s c p of None \<Rightarrow> Ok s | Some old \<Rightarrow> retire_old_key k ctx c old s) = Ok s1"
    have "life s1 = life s"
    proof (cases "GetValidatorConsumerPubKey s c p")
      case None
      with r have "s = s1" by simp
      then show ?thesis by (rule arg_cong[OF sym])
    next
      case (Some old)
      with r show ?thesis by (simp add: life_retire)
    qed
    then show ?thesis by (simp add: t SetValidatorByConsumerAddr_def SetValidatorConsumerPubKey_def)
  qed
qed

lemma life_msg_assign [life_step]: "Msg_AssignConsumerKey k ctx c a key s = Ok t \<Longrightarrow> life t = life s"
  by (auto simp: Msg_AssignConsumerKey_def res_simps intro: life_step)

lemma life_AfterValidatorRemoved [life_step]: "AfterValidatorRemoved k a s = Ok t \<Longrightarrow> life t = life s"
  unfolding AfterValidatorRemoved_def
  by (erule fold_res_frame)
    (auto simp: remove_key_of_def Let_def DeleteValidatorConsumerPubKey_def DeleteValidatorByConsumerAddr_def
      split: if_splits option.splits prod.splits)

lemma life_rotation [life_step]: "AfterConsensusPubKeyUpdate k ctx old new s = Ok t \<Longrightarrow> life t = life s"
proof -
  have c: "life (migrate_consumer old new c s) = life s" for c s
    using migrate_consumer_eq[of old new c s] by (auto simp: Let_def)
  have m: "life (MigrateStateOnConsPubKeyRotation old new s) = life s"
    unfolding MigrateStateOnConsPubKeyRotation_def by (rule fold_frame) (rule c)
  have "rotation_snapshot k ctx new c s = Ok t \<Longrightarrow> life t = life s" for c s t
    by (auto simp: rotation_snapshot_def SendVSCPacketsToChain_def life_frame split: if_splits res.splits option.splits
        intro: life_step)
  then have "fold_res (rotation_snapshot k ctx new) cs s = Ok t \<Longrightarrow> life t = life s" for cs s t
    using fold_res_frame[of "rotation_snapshot k ctx new" cs s t life] by blast
  then show "AfterConsensusPubKeyUpdate k ctx old new s = Ok t \<Longrightarrow> life t = life s"
    using m by (auto simp: AfterConsensusPubKeyUpdate_def QueueConsPubKeyRotationSnapshots_def)
qed

lemma life_SlashValidator [life_step]: "SlashValidator k a ps infr s = Ok t \<Longrightarrow> life t = life s"
proof -
  assume "SlashValidator k a ps infr s = Ok t"
  then obtain x y z where "(case SlashWithInfractionReason k (world s) z 0 x (SlashFraction ps) infr of
       (True, w) \<Rightarrow> Ok (s\<lparr>world := w\<rparr>) | (False, _) \<Rightarrow> Err ErrPlain) = Ok t"
    by (cases "slashableStake k (world s) a") (auto simp: SlashValidator_def)
  then show ?thesis
    by (cases "SlashWithInfractionReason k (world s) z 0 x (SlashFraction ps) infr") (auto split: bool.splits)
qed

lemma life_Jail [life_step]: "JailAndTombstoneValidator k ctx a ps s = Ok t \<Longrightarrow> life t = life s"
  by (auto simp: JailAndTombstoneValidator_def Let_def res_simps)

lemma life_punish [life_step]: "punishEquivocation k ctx a ps s = Ok (b, t) \<Longrightarrow> life t = life s"
  by (auto simp: punishEquivocation_def split: res.splits if_splits dest!: life_SlashValidator life_Jail)

lemma life_DoubleVoting [life_step]: "HandleConsumerDoubleVoting k v ctx c ev pk s = Ok t \<Longrightarrow> life t = life s"
proof -
  assume "HandleConsumerDoubleVoting k v ctx c ev pk s = Ok t"
  then have "t = s \<or> (\<exists>a ps b s1 m. punishEquivocation k ctx a ps s = Ok (b, s1) \<and> t = s1\<lparr>PunishedEquivocations := m\<rparr>)"
    unfolding HandleConsumerDoubleVoting_def Let_def
    by (simp only: res_simps split_paired_Ex split_conv split: if_splits) blast+
  then show ?thesis by (auto dest: life_punish)
qed

lemma life_submit_double [life_step]: "SubmitConsumerDoubleVoting k v ctx c ev h s = Ok t \<Longrightarrow> life t = life s"
  by (auto simp: SubmitConsumerDoubleVoting_def res_simps intro: life_step)

end
