(* ===== verification/LifecycleInv.thy ===== *)
theory LifecycleInv
  imports LifeFrame
begin

text \<open>
  The lifecycle invariant. What the module knows of the life of one consumer is a \<open>life_view\<close>: its
  phase, its spawn time, the times of its pending auto-stop and removal, and how it stands in the
  three time queues. The invariant ties them together: an initialized consumer is queued exactly
  once, at its spawn time, a paused one exactly once, at the end of its pause, a stopped one
  exactly once, at its removal time, and no other consumer is queued anywhere.
\<close>

subsection \<open>The view of one consumer\<close>

record life_view =
  lv_phase :: ConsumerPhase
  lv_spawn :: "time option"
  lv_pause_end :: "time option"
  lv_removal :: "time option"
  lv_spawn_queue :: "time option \<Rightarrow> bool"
  lv_pause_queue :: "time option \<Rightarrow> bool"
  lv_removal_queue :: "time option \<Rightarrow> bool"

definition lview :: "consumer_id \<Rightarrow> 'w pstate \<Rightarrow> life_view" where
  "lview c s = \<lparr>lv_phase = GetConsumerPhase s c,
     lv_spawn = map_option SpawnTime (store_get (ConsumerInitParams s) c),
     lv_pause_end = store_get (ConsumerPauseExpirationTime s) c,
     lv_removal = store_get (ConsumerRemovalTime s) c,
     lv_spawn_queue = sched (SpawnTimeToConsumerIds s) c,
     lv_pause_queue = sched (PauseExpirationTimeToConsumerIds s) c,
     lv_removal_queue = sched (RemovalTimeToConsumerIds s) c\<rparr>"

definition view_ok :: "life_view \<Rightarrow> bool" where
  "view_ok v \<longleftrightarrow>
     lv_spawn_queue v (if lv_phase v = CONSUMER_PHASE_INITIALIZED then lv_spawn v else None) \<and>
     (lv_phase v = CONSUMER_PHASE_INITIALIZED \<longrightarrow> lv_spawn v \<noteq> None \<and> lv_spawn v \<noteq> Some zero_time) \<and>
     (lv_phase v = CONSUMER_PHASE_REGISTERED \<longrightarrow> lv_spawn v = Some zero_time) \<and>
     lv_pause_queue v (if lv_phase v = CONSUMER_PHASE_PAUSED then lv_pause_end v else None) \<and>
     (lv_phase v = CONSUMER_PHASE_PAUSED \<longleftrightarrow> lv_pause_end v \<noteq> None) \<and>
     lv_removal_queue v (if lv_phase v = CONSUMER_PHASE_STOPPED then lv_removal v else None) \<and>
     (lv_phase v = CONSUMER_PHASE_STOPPED \<longleftrightarrow> lv_removal v \<noteq> None)"

definition life_ok :: "'w pstate \<Rightarrow> bool" where
  "life_ok s \<longleftrightarrow> (\<forall>c. view_ok (lview c s) \<and>
     (ConsumerId s \<le> c \<longrightarrow> GetConsumerPhase s c = CONSUMER_PHASE_UNSPECIFIED))"

lemma lview_life:
  assumes "life t = life s"
  shows "lview c t = lview c s"
  unfolding lview_def lifeD[OF assms] ..

lemma life_ok_frame:
  assumes "life t = life s"
  shows "life_ok t = life_ok s"
  unfolding life_ok_def lview_life[OF assms] lifeD[OF assms] ..

subsection \<open>Writes as updates of the view\<close>

lemma lview_phase:
  "lview c (SetConsumerPhase d p s) = (if d = c then (lview c s)\<lparr>lv_phase := p\<rparr> else lview c s)"
  by (simp add: lview_def SetConsumerPhase_def GetConsumerPhase_def)

lemma lview_times:
  "lview c (SetConsumerPauseExpirationTime d x s) = (if d = c then (lview c s)\<lparr>lv_pause_end := Some x\<rparr> else lview c s)"
  "lview c (DeleteConsumerPauseExpirationTime d s) = (if d = c then (lview c s)\<lparr>lv_pause_end := None\<rparr> else lview c s)"
  "lview c (SetConsumerRemovalTime d x s) = (if d = c then (lview c s)\<lparr>lv_removal := Some x\<rparr> else lview c s)"
  "lview c (DeleteConsumerRemovalTime d s) = (if d = c then (lview c s)\<lparr>lv_removal := None\<rparr> else lview c s)"
  "lview c (s\<lparr>ConsumerInitParams := store_set d ps (ConsumerInitParams s)\<rparr>) =
     (if d = c then (lview c s)\<lparr>lv_spawn := Some (SpawnTime ps)\<rparr> else lview c s)"
  by (simp_all add: lview_def SetConsumerPauseExpirationTime_def DeleteConsumerPauseExpirationTime_def
      SetConsumerRemovalTime_def DeleteConsumerRemovalTime_def GetConsumerPhase_def)

lemma lview_other_writes:
  "lview c (SetConsumerPauseReason d r s) = lview c s" "lview c (DeleteConsumerPauseReason d s) = lview c s"
  "lview c (SetConsumerPausedAt d x s) = lview c s" "lview c (DeleteConsumerPausedAt d s) = lview c s"
  "lview c (SetConsumerLastAckTime d x s) = lview c s" "lview c (SetConsumerGenesis d g s) = lview c s"
  "lview c (SetEquivocationEvidenceMinHeight d h s) = lview c s"
  "lview c (SetConsumerChainId d ch s) = lview c s" "lview c (SetConsumerOwnerAddress d ow s) = lview c s"
  "lview c (SetConsumerMetadata d m s) = lview c s" "lview c (CancelConsumerDowntimeState d s) = lview c s"
  "lview c (PayWithheldFees k ctx d s) = lview c s" "lview c (s\<lparr>world := w\<rparr>) = lview c s"
  by (rule lview_life, simp add: keeper_simps life_frame)+

lemma lview_append_spawn:
  "lv_spawn_queue (lview c s) None \<Longrightarrow>
     lv_spawn_queue (lview c (AppendConsumerToBeLaunched c x s)) (Some x)"
  "d \<noteq> c \<Longrightarrow> lview c (AppendConsumerToBeLaunched d x s) = lview c s"
  "lview c (AppendConsumerToBeLaunched c x s) =
     (lview c s)\<lparr>lv_spawn_queue := lv_spawn_queue (lview c (AppendConsumerToBeLaunched c x s))\<rparr>"
  by (simp_all add: lview_def AppendConsumerToBeLaunched_def GetConsumerPhase_def sched_append fun_eq_iff)

lemma lview_append_pause:
  "lv_pause_queue (lview c s) None \<Longrightarrow>
     lv_pause_queue (lview c (AppendConsumerToBeAutoStopped c x s)) (Some x)"
  "d \<noteq> c \<Longrightarrow> lview c (AppendConsumerToBeAutoStopped d x s) = lview c s"
  "lview c (AppendConsumerToBeAutoStopped c x s) =
     (lview c s)\<lparr>lv_pause_queue := lv_pause_queue (lview c (AppendConsumerToBeAutoStopped c x s))\<rparr>"
  by (simp_all add: lview_def AppendConsumerToBeAutoStopped_def GetConsumerPhase_def sched_append fun_eq_iff)

lemma lview_append_removal:
  "lv_removal_queue (lview c s) None \<Longrightarrow>
     lv_removal_queue (lview c (AppendConsumerToBeRemoved c x s)) (Some x)"
  "d \<noteq> c \<Longrightarrow> lview c (AppendConsumerToBeRemoved d x s) = lview c s"
  "lview c (AppendConsumerToBeRemoved c x s) =
     (lview c s)\<lparr>lv_removal_queue := lv_removal_queue (lview c (AppendConsumerToBeRemoved c x s))\<rparr>"
  by (simp_all add: lview_def AppendConsumerToBeRemoved_def GetConsumerPhase_def sched_append fun_eq_iff)

lemma lview_remove_spawn:
  assumes "RemoveConsumerToBeLaunched d x s = Ok t"
  shows "d \<noteq> c \<Longrightarrow> lview c t = lview c s"
    and "d = c \<Longrightarrow> lview c t = (lview c s)\<lparr>lv_spawn_queue := lv_spawn_queue (lview c t)\<rparr>"
    and "d = c \<Longrightarrow> lv_spawn_queue (lview c s) ot \<Longrightarrow> ot = Some x \<and> lv_spawn_queue (lview c t) None"
proof -
  obtain q where q: "removeConsumerFromTimeQueue (SpawnTimeToConsumerIds s) d x = Ok q"
    and t: "t = s\<lparr>SpawnTimeToConsumerIds := q\<rparr>"
    using assms by (auto simp: RemoveConsumerToBeLaunched_def res_simps)
  show "d \<noteq> c \<Longrightarrow> lview c t = lview c s"
    using sched_remove_other[OF q, of c] by (simp add: t lview_def GetConsumerPhase_def fun_eq_iff)
  show "d = c \<Longrightarrow> lview c t = (lview c s)\<lparr>lv_spawn_queue := lv_spawn_queue (lview c t)\<rparr>"
    by (simp add: t lview_def GetConsumerPhase_def)
  show "d = c \<Longrightarrow> lv_spawn_queue (lview c s) ot \<Longrightarrow> ot = Some x \<and> lv_spawn_queue (lview c t) None"
    using sched_remove[of _ c x q ot] q by (auto simp: t lview_def)
qed

lemma lview_remove_pause:
  assumes "RemoveConsumerToBeAutoStopped d x s = Ok t"
  shows "d \<noteq> c \<Longrightarrow> lview c t = lview c s"
    and "d = c \<Longrightarrow> lview c t = (lview c s)\<lparr>lv_pause_queue := lv_pause_queue (lview c t)\<rparr>"
    and "d = c \<Longrightarrow> lv_pause_queue (lview c s) ot \<Longrightarrow> ot = Some x \<and> lv_pause_queue (lview c t) None"
proof -
  obtain q where q: "removeConsumerFromTimeQueue (PauseExpirationTimeToConsumerIds s) d x = Ok q"
    and t: "t = s\<lparr>PauseExpirationTimeToConsumerIds := q\<rparr>"
    using assms by (auto simp: RemoveConsumerToBeAutoStopped_def res_simps)
  show "d \<noteq> c \<Longrightarrow> lview c t = lview c s"
    using sched_remove_other[OF q, of c] by (simp add: t lview_def GetConsumerPhase_def fun_eq_iff)
  show "d = c \<Longrightarrow> lview c t = (lview c s)\<lparr>lv_pause_queue := lv_pause_queue (lview c t)\<rparr>"
    by (simp add: t lview_def GetConsumerPhase_def)
  show "d = c \<Longrightarrow> lv_pause_queue (lview c s) ot \<Longrightarrow> ot = Some x \<and> lv_pause_queue (lview c t) None"
    using sched_remove[of _ c x q ot] q by (auto simp: t lview_def)
qed

text \<open>A pause that is cancelled, whether its queue entry still stands or has been consumed.\<close>

definition pause_entry :: "life_view \<Rightarrow> bool" where
  "pause_entry v \<longleftrightarrow> lv_pause_queue v None \<or> lv_pause_queue v (lv_pause_end v)"

lemma view_pause_end:
  "v = w\<lparr>lv_pause_queue := q\<rparr> \<Longrightarrow> v\<lparr>lv_pause_end := x\<rparr> = w\<lparr>lv_pause_end := x, lv_pause_queue := q\<rparr>"
  by simp

lemma lview_cancel_pause:
  assumes "CancelConsumerPauseExpiration d s = Ok t"
  shows "d \<noteq> c \<Longrightarrow> lview c t = lview c s"
    and "d = c \<Longrightarrow> lview c t = (lview c s)\<lparr>lv_pause_end := None, lv_pause_queue := lv_pause_queue (lview c t)\<rparr>"
    and "d = c \<Longrightarrow> pause_entry (lview c s) \<Longrightarrow> lv_pause_queue (lview c t) None"
proof -
  have pe: "lv_pause_end (lview d s) = GetConsumerPauseExpirationTime s d"
    by (simp add: lview_def GetConsumerPauseExpirationTime_def)
  have "(d \<noteq> c \<longrightarrow> lview c t = lview c s) \<and>
     (d = c \<longrightarrow> lview c t = (lview c s)\<lparr>lv_pause_end := None, lv_pause_queue := lv_pause_queue (lview c t)\<rparr>) \<and>
     (d = c \<longrightarrow> pause_entry (lview c s) \<longrightarrow> lv_pause_queue (lview c t) None)"
  proof (cases "GetConsumerPauseExpirationTime s d")
    case None
    then have "t = s" using assms by (simp add: CancelConsumerPauseExpiration_def)
    then show ?thesis using pe None by (auto simp: pause_entry_def)
  next
    case (Some x)
    show ?thesis
    proof (cases "d \<in> set (bucket (PauseExpirationTimeToConsumerIds s) x)")
      case True
      then obtain u where u: "RemoveConsumerToBeAutoStopped d x s = Ok u" and t: "t = DeleteConsumerPauseExpirationTime d u"
        using assms Some by (auto simp: CancelConsumerPauseExpiration_def res_simps)
      have q: "d = c \<Longrightarrow> pause_entry (lview c s) \<Longrightarrow> lv_pause_queue (lview c u) None"
        using lview_remove_pause(3)[OF u] by (auto simp: pause_entry_def)
      have v: "d = c \<Longrightarrow> lview c t = (lview c s)\<lparr>lv_pause_end := None, lv_pause_queue := lv_pause_queue (lview c u)\<rparr>"
        using lview_remove_pause(2)[OF u, of c] unfolding t lview_times by (simp add: view_pause_end)
      show ?thesis
      proof (cases "d = c")
        case True
        show ?thesis using q[OF True] True by (simp add: v[OF True])
      qed (use lview_remove_pause(1)[OF u, of c] in \<open>simp add: t lview_times\<close>)
    next
      case False
      then have t: "t = DeleteConsumerPauseExpirationTime d s"
        using assms Some by (simp add: CancelConsumerPauseExpiration_def)
      have "\<not> lv_pause_queue (lview d s) (Some x)" using False by (auto simp: lview_def sched_def)
      then show ?thesis using pe Some by (auto simp: t lview_times pause_entry_def)
    qed
  qed
  then show "d \<noteq> c \<Longrightarrow> lview c t = lview c s"
    "d = c \<Longrightarrow> lview c t = (lview c s)\<lparr>lv_pause_end := None, lv_pause_queue := lv_pause_queue (lview c t)\<rparr>"
    "d = c \<Longrightarrow> pause_entry (lview c s) \<Longrightarrow> lv_pause_queue (lview c t) None" by blast+
qed

lemma cancel_pause_total: "\<exists>t. CancelConsumerPauseExpiration c s = Ok t"
  by (auto simp: CancelConsumerPauseExpiration_def RemoveConsumerToBeAutoStopped_def res_simps split: option.splits
      dest!: removeConsumerFromTimeQueue_mem)

lemma cancel_pause_frame: "CancelConsumerPauseExpiration c s = Ok t \<Longrightarrow> world t = world s \<and> ConsumerId t = ConsumerId s"
  by (auto simp: CancelConsumerPauseExpiration_def RemoveConsumerToBeAutoStopped_def res_simps
      DeleteConsumerPauseExpirationTime_def split: option.splits if_splits)

subsection \<open>Stopping\<close>

definition stoppable :: "life_view \<Rightarrow> bool" where
  "stoppable v \<longleftrightarrow> lv_spawn_queue v None \<and> lv_removal_queue v None \<and> pause_entry v"

lemma view_ok_stopped:
  "v = w\<lparr>lv_phase := CONSUMER_PHASE_STOPPED, lv_pause_end := None, lv_pause_queue := pq,
      lv_removal := Some x, lv_removal_queue := rq\<rparr> \<Longrightarrow>
     pq None \<Longrightarrow> rq (Some x) \<Longrightarrow> lv_spawn_queue w None \<Longrightarrow> view_ok v"
  by (simp add: view_ok_def)

lemma StopAndPrepare_Ok:
  assumes "StopAndPrepareForConsumerRemoval k ctx d s = Ok t"
  obtains u where "UnbondingTime k (world s) = Some u"
    "\<And>c. d \<noteq> c \<Longrightarrow> lview c t = lview c s" "ConsumerId t = ConsumerId s"
    "stoppable (lview d s) \<Longrightarrow> view_ok (lview d t)" "lv_phase (lview d t) = CONSUMER_PHASE_STOPPED"
    "lv_removal (lview d t) = Some (BlockTime ctx + u)"
proof -
  define s2 where "s2 = CancelConsumerDowntimeState d (SetConsumerPhase d CONSUMER_PHASE_STOPPED s)"
  obtain s3 u where s3: "CancelConsumerPauseExpiration d s2 = Ok s3" and u: "UnbondingTime k (world s3) = Some u"
    and t: "t = AppendConsumerToBeRemoved d (BlockTime ctx + u)
      (SetConsumerRemovalTime d (BlockTime ctx + u) (DeleteConsumerPausedAt d (DeleteConsumerPauseReason d s3)))"
    using assms by (auto simp: StopAndPrepareForConsumerRemoval_def Let_def res_simps s2_def
        DeleteConsumerPausedAt_def DeleteConsumerPauseReason_def)
  have v2: "lview c s2 = (if d = c then (lview c s)\<lparr>lv_phase := CONSUMER_PHASE_STOPPED\<rparr> else lview c s)" for c
    by (simp add: s2_def lview_other_writes lview_phase)
  have w: "world s2 = world s" "ConsumerId s2 = ConsumerId s"
    by (simp_all add: s2_def CancelConsumerDowntimeState_def SetConsumerPhase_def)
  define s5 where "s5 = SetConsumerRemovalTime d (BlockTime ctx + u) (DeleteConsumerPausedAt d (DeleteConsumerPauseReason d s3))"
  have v5: "lview c s5 = (if d = c then (lview c s3)\<lparr>lv_removal := Some (BlockTime ctx + u)\<rparr> else lview c s3)" for c
    by (simp add: s5_def lview_times lview_other_writes)
  note cp = lview_cancel_pause[OF s3, of d]
  have t5: "t = AppendConsumerToBeRemoved d (BlockTime ctx + u) s5" by (simp add: t s5_def)
  have vd: "lview d t = (lview d s)\<lparr>lv_phase := CONSUMER_PHASE_STOPPED, lv_pause_end := None,
      lv_pause_queue := lv_pause_queue (lview d s3), lv_removal := Some (BlockTime ctx + u),
      lv_removal_queue := lv_removal_queue (lview d t)\<rparr>"
    using cp(2) lview_append_removal(3)[of d "BlockTime ctx + u" s5] v5[of d] v2[of d] by (simp add: t5)
  show thesis
  proof (rule that)
    show "UnbondingTime k (world s) = Some u" using u w cancel_pause_frame[OF s3] by simp
    show "lview c t = lview c s" if "d \<noteq> c" for c
      unfolding t5 lview_append_removal(2)[OF that] using that v5[of c] v2[of c] lview_cancel_pause(1)[OF s3 that] by simp
    show "ConsumerId t = ConsumerId s" using cancel_pause_frame[OF s3] w
      by (simp add: t AppendConsumerToBeRemoved_def SetConsumerRemovalTime_def DeleteConsumerPausedAt_def DeleteConsumerPauseReason_def)
    show "lv_phase (lview d t) = CONSUMER_PHASE_STOPPED" "lv_removal (lview d t) = Some (BlockTime ctx + u)"
      by (subst vd, simp)+
    assume st: "stoppable (lview d s)"
    then have "lv_pause_queue (lview d s3) None" using cp(3) v2[of d] by (simp add: stoppable_def pause_entry_def)
    moreover have "lv_removal_queue (lview d s3) = lv_removal_queue (lview d s)"
      using arg_cong[OF cp(2)[OF refl], of lv_removal_queue] v2[of d] by simp
    then have "lv_removal_queue (lview d t) (Some (BlockTime ctx + u))"
      unfolding t5 using st v5[of d] by (intro lview_append_removal(1)) (simp add: stoppable_def)
    moreover have "lv_spawn_queue (lview d s) None" using st by (simp add: stoppable_def)
    ultimately show "view_ok (lview d t)" by (intro view_ok_stopped[OF vd])
  qed
qed

lemma StopAndPrepare_total:
  assumes "UnbondingTime k (world s) = Some u"
  shows "\<exists>t. StopAndPrepareForConsumerRemoval k ctx c s = Ok t"
proof -
  define s2 where "s2 = CancelConsumerDowntimeState c (SetConsumerPhase c CONSUMER_PHASE_STOPPED s)"
  obtain s3 where s3: "CancelConsumerPauseExpiration c s2 = Ok s3" using cancel_pause_total by blast
  have "world s3 = world s" using cancel_pause_frame[OF s3]
    by (simp add: s2_def CancelConsumerDowntimeState_def SetConsumerPhase_def)
  then show ?thesis using assms s3
    by (simp add: StopAndPrepareForConsumerRemoval_def Let_def s2_def[symmetric] DeleteConsumerPausedAt_def
        DeleteConsumerPauseReason_def)
qed

subsection \<open>Deletion\<close>

text \<open>The writes of \<open>DeleteConsumerChain\<close> once the fee pool has been swept.\<close>

definition erase_consumer :: "'w keeper \<Rightarrow> consumer_id \<Rightarrow> 'w pstate \<Rightarrow> 'w pstate" where
  "erase_consumer k c s2 =
     (let s5 = DeleteKeyAssignments c (DeleteConsumerGenesis c (DeleteConsumerClientId c s2));
          s9 = DeleteConsumerValSet c (DeletePendingVSCPackets c (DeleteInitChainHeight c (DeleteEquivocationEvidenceMinHeight c s5)));
          s12 = DeleteConsumerHighestSentVscId c (DeleteConsumerLastAckTime c (DeleteConsumerRemovalTime c s9));
          s16 = DeleteConsumerDebt c (DeleteConsumerPausedAt c (DeleteConsumerPauseReason c (DeleteConsumerHighestAckedVscId c s12)));
          s17 = s16\<lparr>ConsumerFeesPerBlockOverride := store_remove c (ConsumerFeesPerBlockOverride s16)\<rparr>;
          s18 = s17\<lparr>FeePoolAddressToConsumerId :=
                  store_remove (GetConsumerFeePoolAddress k c) (FeePoolAddressToConsumerId s17)\<rparr>;
          s19 = CancelConsumerDowntimeState c s18;
          s20 = s19\<lparr>WithheldFeeRecords := store_drop (\<lambda>key. fst key = c) (WithheldFeeRecords s19)\<rparr>;
          s21 = s20\<lparr>AcceptedDowntimeWindows := store_drop (\<lambda>key. fst key = c) (AcceptedDowntimeWindows s20)\<rparr>;
          s22 = s21\<lparr>DowntimeWindowFloors := store_drop (\<lambda>key. fst key = c) (DowntimeWindowFloors s21)\<rparr>
      in SetConsumerPhase c CONSUMER_PHASE_DELETED (DeleteConsumerChainId c s22))"

lemma DeleteConsumerChain_eq:
  "DeleteConsumerChain k c s =
     guard_res (GetConsumerPhase s c = CONSUMER_PHASE_STOPPED \<or> Prelaunched (GetConsumerPhase s c)) ErrPlain (
     bind_res (if GetConsumerPhase s c = CONSUMER_PHASE_INITIALIZED
               then bind_res (of_option ErrPlain (GetConsumerInitializationParameters s c)) (\<lambda>ps.
                    as_error ErrInvalidConsumerState (RemoveConsumerToBeLaunched c (SpawnTime ps) s))
               else Ok s) (\<lambda>s1.
     bind_res (SweepConsumerFeePool k c [] s1) (\<lambda>s2. Ok (erase_consumer k c s2))))"
  unfolding DeleteConsumerChain_def erase_consumer_def Let_def as_error_def ..

lemma life_DeleteKeyAssignments [life_frame]: "life (DeleteKeyAssignments c s) = life s"
  by (simp add: DeleteKeyAssignments_def Let_def fold_frame[where view = life] DeleteConsumerAddrsToPrune_def
      DeleteValidatorByConsumerAddr_def DeleteValidatorConsumerPubKey_def)

lemma lview_erase:
  fixes s :: "'w pstate"
  shows "lview c (erase_consumer k d s) =
     (if d = c then (lview c s)\<lparr>lv_removal := None, lv_phase := CONSUMER_PHASE_DELETED\<rparr> else lview c s)"
proof -
  have [simp]: "lview c (DeleteConsumerGenesis d s) = lview c s" "lview c (DeleteConsumerClientId d s) = lview c s"
    "lview c (DeleteKeyAssignments d s) = lview c s" "lview c (DeleteEquivocationEvidenceMinHeight d s) = lview c s"
    "lview c (DeleteInitChainHeight d s) = lview c s" "lview c (DeletePendingVSCPackets d s) = lview c s"
    "lview c (DeleteConsumerValSet d s) = lview c s" "lview c (DeleteConsumerLastAckTime d s) = lview c s"
    "lview c (DeleteConsumerHighestSentVscId d s) = lview c s" "lview c (DeleteConsumerHighestAckedVscId d s) = lview c s"
    "lview c (DeleteConsumerDebt d s) = lview c s" "lview c (DeleteConsumerChainId d s) = lview c s"
    "lview c (s\<lparr>ConsumerFeesPerBlockOverride := x1\<rparr>) = lview c s" "lview c (s\<lparr>FeePoolAddressToConsumerId := x2\<rparr>) = lview c s"
    "lview c (s\<lparr>WithheldFeeRecords := x3\<rparr>) = lview c s" "lview c (s\<lparr>AcceptedDowntimeWindows := x4\<rparr>) = lview c s"
    "lview c (s\<lparr>DowntimeWindowFloors := x5\<rparr>) = lview c s"
    for d and s :: "'w pstate" and x1 x2 x3 x4 x5
    by (rule lview_life, simp add: keeper_simps life_frame DeleteConsumerValSet_def Let_def)+
  show ?thesis unfolding erase_consumer_def Let_def by (simp add: lview_phase lview_times lview_other_writes)
qed

lemma erase_ConsumerId: "ConsumerId (erase_consumer k c s) = ConsumerId s"
proof -
  have "ConsumerId (DeleteKeyAssignments c s) = ConsumerId s" for s :: "'a pstate"
    by (rule lifeD[OF life_DeleteKeyAssignments])
  then show ?thesis unfolding erase_consumer_def Let_def
    by (simp add: keeper_simps DeleteConsumerValSet_def CancelConsumerDowntimeState_def SetConsumerPhase_def)
qed

definition deletable :: "life_view \<Rightarrow> bool" where
  "deletable v \<longleftrightarrow> lv_pause_end v = None \<and> lv_pause_queue v None \<and> lv_removal_queue v None \<and>
     (if lv_phase v = CONSUMER_PHASE_INITIALIZED then lv_spawn v \<noteq> None \<and> lv_spawn_queue v (lv_spawn v)
      else lv_spawn_queue v None)"

lemma lview_sel:
  "lv_phase (lview c s) = GetConsumerPhase s c"
  "lv_spawn (lview c s) = map_option SpawnTime (GetConsumerInitializationParameters s c)"
  "lv_pause_end (lview c s) = GetConsumerPauseExpirationTime s c"
  "lv_removal (lview c s) = store_get (ConsumerRemovalTime s) c"
  by (simp_all add: lview_def keeper_simps)

lemma DeleteConsumerChain_Ok:
  assumes "DeleteConsumerChain k d s = Ok t"
  shows "d \<noteq> c \<Longrightarrow> lview c t = lview c s" and "ConsumerId t = ConsumerId s"
    and "GetConsumerPhase t d = CONSUMER_PHASE_DELETED" and "deletable (lview d s) \<Longrightarrow> view_ok (lview d t)"
    and "GetConsumerPhase s d = CONSUMER_PHASE_STOPPED \<or> Prelaunched (GetConsumerPhase s d)"
proof -
  obtain s1 s2 where s1: "(if GetConsumerPhase s d = CONSUMER_PHASE_INITIALIZED
       then bind_res (of_option ErrPlain (GetConsumerInitializationParameters s d)) (\<lambda>ps.
            as_error ErrInvalidConsumerState (RemoveConsumerToBeLaunched d (SpawnTime ps) s))
       else Ok s) = Ok s1"
    and s2: "SweepConsumerFeePool k d [] s1 = Ok s2" and t: "t = erase_consumer k d s2"
    and ph: "GetConsumerPhase s d = CONSUMER_PHASE_STOPPED \<or> Prelaunched (GetConsumerPhase s d)"
    using assms by (simp only: DeleteConsumerChain_eq res_simps res.inject) blast
  note l2 = life_SweepConsumerFeePool[OF s2]
  have id1: "ConsumerId s1 = ConsumerId s"
    using s1 by (auto simp: res_simps RemoveConsumerToBeLaunched_def split: if_splits)
  show "ConsumerId t = ConsumerId s" using id1 lifeD[OF l2] by (simp add: t erase_ConsumerId)
  show "GetConsumerPhase t d = CONSUMER_PHASE_DELETED" using lview_sel(1)[of d t] by (simp add: t lview_erase)
  show "GetConsumerPhase s d = CONSUMER_PHASE_STOPPED \<or> Prelaunched (GetConsumerPhase s d)" by (rule ph)
  show "lview c t = lview c s" if "d \<noteq> c"
  proof -
    have "lview c s1 = lview c s"
      using s1 lview_remove_spawn(1)[of d _ s s1 c] that by (auto simp: res_simps split: if_splits)
    then show ?thesis using that lview_life[OF l2, of c] by (simp add: t lview_erase)
  qed
  assume del: "deletable (lview d s)"
  obtain q where "lview d s1 = (lview d s)\<lparr>lv_spawn_queue := q\<rparr>" "q None"
  proof (cases "GetConsumerPhase s d = CONSUMER_PHASE_INITIALIZED")
    case True
    then obtain ps :: ConsumerInitializationParameters where "RemoveConsumerToBeLaunched d (SpawnTime ps) s = Ok s1"
      using s1 by (auto simp: res_simps)
    moreover have "lv_spawn_queue (lview d s) (lv_spawn (lview d s))"
      using del True by (simp add: deletable_def lview_sel)
    ultimately show ?thesis
      using that[of "lv_spawn_queue (lview d s1)"] lview_remove_spawn(2,3)[of d "SpawnTime ps" s s1 d] by blast
  next
    case False
    then have "s1 = s" using s1 by simp
    then show ?thesis using del False that[of "lv_spawn_queue (lview d s)"] by (simp add: deletable_def lview_sel)
  qed
  then show "view_ok (lview d t)" using del
    by (simp add: t lview_erase lview_life[OF l2] view_ok_def deletable_def)
qed

lemma sweep_not_Err: "SweepConsumerFeePool k c ds s \<noteq> Err e"
proof -
  have fold: "(\<And>x s e. f x s \<noteq> Err e) \<Longrightarrow> fold_res f xs u \<noteq> Err e" for f :: "'x \<Rightarrow> 'y \<Rightarrow> 'y result" and xs u e
    by (induction xs arbitrary: u) (auto simp: res_simps)
  have must: "must x \<noteq> Err e" for x :: "'a option" and e by (simp add: must_def split: option.splits)
  have slice: "pay_slice k d b n x acc \<noteq> Err e" for d b n x acc e
    by (auto simp: pay_slice_def Let_def res_simps must split: prod.splits)
  have "SweepConsumerFeePoolDenom k c d s \<noteq> Err e" for d s e
    by (auto simp: SweepConsumerFeePoolDenom_def Let_def res_simps must fold[OF slice] split: prod.splits if_splits)
  then show ?thesis by (simp add: SweepConsumerFeePool_def fold)
qed

lemma delete_stopped_not_Err:
  "GetConsumerPhase s c = CONSUMER_PHASE_STOPPED \<Longrightarrow> DeleteConsumerChain k c s \<noteq> Err e"
  by (simp add: DeleteConsumerChain_eq res_simps sweep_not_Err)

end
