(* ===== verification/LifecycleSteps.thy ===== *)
theory LifecycleSteps
  imports LifecycleInv
begin

text \<open>
  Every step of the provider keeps the lifecycle invariant and moves each consumer only along the
  edges of the lifecycle's state machine. The operations on one consumer come first, then the loops
  of the block hooks, the transactions, and the step relation.
\<close>

subsection \<open>The state machine of a consumer\<close>

inductive phase_edge :: "ConsumerPhase \<Rightarrow> ConsumerPhase \<Rightarrow> bool" where
  register: "phase_edge CONSUMER_PHASE_UNSPECIFIED CONSUMER_PHASE_REGISTERED"
| initialize: "phase_edge CONSUMER_PHASE_REGISTERED CONSUMER_PHASE_INITIALIZED"
| postpone: "phase_edge CONSUMER_PHASE_INITIALIZED CONSUMER_PHASE_REGISTERED"
| launch: "phase_edge CONSUMER_PHASE_INITIALIZED CONSUMER_PHASE_LAUNCHED"
| pause: "phase_edge CONSUMER_PHASE_LAUNCHED CONSUMER_PHASE_PAUSED"
| resume: "phase_edge CONSUMER_PHASE_PAUSED CONSUMER_PHASE_LAUNCHED"
| stop: "p = CONSUMER_PHASE_LAUNCHED \<or> p = CONSUMER_PHASE_PAUSED \<Longrightarrow> phase_edge p CONSUMER_PHASE_STOPPED"
| delete: "p = CONSUMER_PHASE_STOPPED \<or> Prelaunched p \<Longrightarrow> phase_edge p CONSUMER_PHASE_DELETED"

code_pred phase_edge .

inductive_simps phase_edge_from_deleted [simp]: "phase_edge CONSUMER_PHASE_DELETED q"
inductive_simps phase_edge_from_stopped: "phase_edge CONSUMER_PHASE_STOPPED q"
inductive_simps phase_edge_to_launched: "phase_edge p CONSUMER_PHASE_LAUNCHED"

definition advance :: "'w pstate \<Rightarrow> 'w pstate \<Rightarrow> bool" where
  "advance s t \<longleftrightarrow> (life_ok s \<longrightarrow>
     life_ok t \<and> (\<forall>c. phase_edge\<^sup>*\<^sup>* (GetConsumerPhase s c) (GetConsumerPhase t c)))"

lemma advance_refl: "advance s s"
  by (simp add: advance_def)

lemma advance_trans: "advance s t \<Longrightarrow> advance t u \<Longrightarrow> advance s u"
  unfolding advance_def by (meson rtranclp_trans)

lemma advance_life: "life t = life s \<Longrightarrow> advance s t"
  unfolding advance_def using life_ok_frame[of t s] lifeD[of t s] by simp

lemma life_okD: "life_ok s \<Longrightarrow> view_ok (lview c s)"
  by (simp add: life_ok_def)

text \<open>An operation on one consumer that is already registered.\<close>

lemma advance_local:
  assumes other: "\<And>c. d \<noteq> c \<Longrightarrow> lview c t = lview c s" and id: "ConsumerId t = ConsumerId s"
    and ok: "view_ok (lview d s) \<Longrightarrow> view_ok (lview d t)"
    and edge: "view_ok (lview d s) \<Longrightarrow> phase_edge\<^sup>*\<^sup>* (GetConsumerPhase s d) (GetConsumerPhase t d)"
    and reg: "GetConsumerPhase s d \<noteq> CONSUMER_PHASE_UNSPECIFIED"
  shows "advance s t"
  unfolding advance_def
proof (intro impI conjI allI)
  assume s: "life_ok s"
  have ph: "GetConsumerPhase t c = GetConsumerPhase s c" if "d \<noteq> c" for c
    using other[OF that] lview_sel(1) by metis
  have "d < ConsumerId s" using s reg unfolding life_ok_def by (meson not_less)
  then show "life_ok t"
    using s other ph ok id unfolding life_ok_def by (metis not_less)
  show "phase_edge\<^sup>*\<^sup>* (GetConsumerPhase s c) (GetConsumerPhase t c)" for c
    using ph[of c] edge life_okD[OF s, of d] by (cases "d = c") auto
qed

interpretation advancing: kept_relation advance
  by unfold_locales (blast intro: advance_refl advance_trans)+

subsection \<open>Pause and resume\<close>

lemma PauseConsumerChain_Ok:
  assumes "PauseConsumerChain k ctx d reason s = Ok t"
  shows "d \<noteq> c \<Longrightarrow> lview c t = lview c s" "ConsumerId t = ConsumerId s"
    "GetConsumerPhase s d = CONSUMER_PHASE_LAUNCHED" "GetConsumerPhase t d = CONSUMER_PHASE_PAUSED"
    "view_ok (lview d s) \<Longrightarrow> view_ok (lview d t)"
proof -
  define s1 where "s1 = SetConsumerPausedAt d (BlockTime ctx) (SetConsumerPauseReason d reason
      (SetConsumerPhase d CONSUMER_PHASE_PAUSED (PayWithheldFees k ctx d s)))"
  define x where "x = BlockTime ctx + MaxPauseDuration (Params (CancelConsumerDowntimeState d s1))"
  define s2 where "s2 = SetConsumerPauseExpirationTime d x (CancelConsumerDowntimeState d s1)"
  have t: "t = AppendConsumerToBeAutoStopped d x s2" and ph: "GetConsumerPhase s d = CONSUMER_PHASE_LAUNCHED"
    using assms by (auto simp: PauseConsumerChain_def Let_def res_simps s1_def s2_def x_def)
  have v2: "lview c s2 = (if d = c then (lview c s)\<lparr>lv_phase := CONSUMER_PHASE_PAUSED, lv_pause_end := Some x\<rparr>
      else lview c s)" for c
    by (simp add: s2_def s1_def lview_times lview_phase lview_other_writes)
  show "GetConsumerPhase s d = CONSUMER_PHASE_LAUNCHED" by (rule ph)
  show "lview c t = lview c s" if "d \<noteq> c"
    unfolding t lview_append_pause(2)[OF that] using v2[of c] that by simp
  show "ConsumerId t = ConsumerId s"
    using lifeD[OF life_PayWithheldFees[of k ctx d s]]
    by (simp add: t s2_def s1_def keeper_simps AppendConsumerToBeAutoStopped_def CancelConsumerDowntimeState_def SetConsumerPhase_def)
  obtain q where q: "lview d t = (lview d s2)\<lparr>lv_pause_queue := q\<rparr>" "lv_pause_queue (lview d s2) None \<Longrightarrow> q (Some x)"
    using lview_append_pause(1)[of d s2 x] lview_append_pause(3)[of d x s2] unfolding t by blast
  show "GetConsumerPhase t d = CONSUMER_PHASE_PAUSED"
    using lview_sel(1)[of d t] by (simp add: q(1) v2)
  show "view_ok (lview d s) \<Longrightarrow> view_ok (lview d t)"
    using q(2) ph lview_sel(1)[of d s] by (simp add: q(1) v2 view_ok_def)
qed

lemma advance_Pause: "PauseConsumerChain k ctx d reason s = Ok t \<Longrightarrow> advance s t"
  using PauseConsumerChain_Ok[of k ctx d reason s t]
  by (intro advance_local[of d]) (auto intro: phase_edge.intros)

lemma ResumeConsumerChain_Ok:
  assumes "ResumeConsumerChain k ctx d s = Ok t"
  shows "d \<noteq> c \<Longrightarrow> lview c t = lview c s" "ConsumerId t = ConsumerId s"
    "GetConsumerPhase s d = CONSUMER_PHASE_PAUSED" "GetConsumerPhase t d = CONSUMER_PHASE_LAUNCHED"
    "view_ok (lview d s) \<Longrightarrow> view_ok (lview d t)"
proof -
  define s1 where "s1 = DeleteConsumerPausedAt d (DeleteConsumerPauseReason d s)"
  obtain cl s2 s5 where ph: "GetConsumerPhase s d = CONSUMER_PHASE_PAUSED"
    and s2: "CancelConsumerPauseExpiration d s1 = Ok s2"
    and s5: "QueueImmediateSnapshotVSCPacket k ctx d
        (SetConsumerLastAckTime d (BlockTime ctx) (SetConsumerPhase d CONSUMER_PHASE_LAUNCHED s2)) = Ok s5"
    and st: "(case sendVSCPacketsToChainStrict k ctx d cl s5 of (True, s6) \<Rightarrow> Ok s6 | (False, _) \<Rightarrow> Err ErrPlain) = Ok t"
    using assms unfolding ResumeConsumerChain_def Let_def s1_def[symmetric] by (simp only: res_simps) blast
  have "t = snd (sendVSCPacketsToChainStrict k ctx d cl s5)"
    using st by (cases "sendVSCPacketsToChainStrict k ctx d cl s5") (auto split: bool.splits)
  then have l: "life t = life (SetConsumerPhase d CONSUMER_PHASE_LAUNCHED s2)"
    using life_QueueImmediateSnapshot[OF s5] by (simp add: life_frame SetConsumerLastAckTime_def)
  have v1: "lview c s1 = lview c s" for c by (simp add: s1_def lview_other_writes)
  have v: "lview c t = (if d = c then (lview c s2)\<lparr>lv_phase := CONSUMER_PHASE_LAUNCHED\<rparr> else lview c s2)" for c
    by (simp add: lview_life[OF l] lview_phase)
  show "GetConsumerPhase s d = CONSUMER_PHASE_PAUSED" by (rule ph)
  show "lview c t = lview c s" if "d \<noteq> c" using lview_cancel_pause(1)[OF s2 that] that by (simp add: v v1)
  show "ConsumerId t = ConsumerId s"
    using cancel_pause_frame[OF s2] lifeD[OF l] by (simp add: s1_def keeper_simps SetConsumerPhase_def)
  obtain q where q: "lview d s2 = (lview d s)\<lparr>lv_pause_end := None, lv_pause_queue := q\<rparr>"
    "pause_entry (lview d s) \<Longrightarrow> q None"
    using lview_cancel_pause(2,3)[OF s2, of d] unfolding v1 by blast
  show "GetConsumerPhase t d = CONSUMER_PHASE_LAUNCHED" using lview_sel(1)[of d t] by (simp add: v)
  show "view_ok (lview d s) \<Longrightarrow> view_ok (lview d t)"
    using q(2) ph lview_sel(1)[of d s] by (simp add: v q(1) view_ok_def pause_entry_def)
qed

lemma advance_Resume: "ResumeConsumerChain k ctx d s = Ok t \<Longrightarrow> advance s t"
  using ResumeConsumerChain_Ok[of k ctx d s t]
  by (intro advance_local[of d]) (auto intro: phase_edge.intros)

subsection \<open>Loops over distinct consumers\<close>

lemma fold_res_local:
  assumes "fold_res f xs s = Ok t" "distinct xs"
    and other: "\<And>x s t. x \<in> set xs \<Longrightarrow> f x s = Ok t \<Longrightarrow> x \<noteq> c \<Longrightarrow> view t = view s"
  shows "if c \<in> set xs then \<exists>s' t'. view s' = view s \<and> f c s' = Ok t' \<and> view t = view t' else view t = view s"
  using assms
proof (induction xs arbitrary: s)
  case Nil
  then show ?case by simp
next
  case (Cons x xs)
  then obtain u where u: "f x s = Ok u" "fold_res f xs u = Ok t" by (auto simp: res_simps)
  have IH: "if c \<in> set xs then \<exists>s' t'. view s' = view u \<and> f c s' = Ok t' \<and> view t = view t' else view t = view u"
    using Cons u(2) by (metis distinct.simps(2) list.set_intros(2))
  show ?case
  proof (cases "x = c")
    case True
    then show ?thesis using IH u(1) Cons.prems(2) by auto
  next
    case False
    then show ?thesis using IH u(1) Cons.prems(3)[of x s u] by auto
  qed
qed

text \<open>
  A hook takes the due ids off a queue and then works on each of them: what an id's own turn has to
  establish, from the view it had when the queue was consumed.
\<close>

lemma advance_loop:
  assumes run: "fold_res f ids s1 = Ok t" and dist: "distinct ids" and s: "life_ok s"
    and other: "\<And>d u v c. f d u = Ok v \<Longrightarrow> d \<noteq> c \<Longrightarrow> lview c v = lview c u"
    and cid: "\<And>d u v. f d u = Ok v \<Longrightarrow> ConsumerId v = ConsumerId u" "ConsumerId s1 = ConsumerId s"
    and ph: "\<And>c. GetConsumerPhase s1 c = GetConsumerPhase s c"
    and rest: "\<And>c. c \<notin> set ids \<Longrightarrow> view_ok (lview c s1)"
    and self: "\<And>d u v. d \<in> set ids \<Longrightarrow> lview d u = lview d s1 \<Longrightarrow> f d u = Ok v \<Longrightarrow>
      view_ok (lview d v) \<and> phase_edge\<^sup>*\<^sup>* (GetConsumerPhase s1 d) (GetConsumerPhase v d)"
    and reg: "\<And>d. d \<in> set ids \<Longrightarrow> GetConsumerPhase s1 d \<noteq> CONSUMER_PHASE_UNSPECIFIED"
  shows "life_ok t \<and> (\<forall>c. phase_edge\<^sup>*\<^sup>* (GetConsumerPhase s c) (GetConsumerPhase t c))"
proof -
  have cidt: "ConsumerId t = ConsumerId s"
    using fold_res_frame[OF run, of ConsumerId] cid by auto
  have L: "if c \<in> set ids then \<exists>u v. lview c u = lview c s1 \<and> f c u = Ok v \<and> lview c t = lview c v
      else lview c t = lview c s1" for c
    by (rule fold_res_local[OF run dist]) (rule other)
  have ids: "view_ok (lview c t) \<and> phase_edge\<^sup>*\<^sup>* (GetConsumerPhase s c) (GetConsumerPhase t c)" if "c \<in> set ids" for c
  proof -
    obtain u v where "lview c u = lview c s1" "f c u = Ok v" "lview c t = lview c v" using L[of c] \<open>c \<in> set ids\<close> by auto
    then show ?thesis using self[OF that, of u v] ph lview_sel(1)[of c t] lview_sel(1)[of c v] by simp
  qed
  have out: "view_ok (lview c t) \<and> GetConsumerPhase t c = GetConsumerPhase s c" if "c \<notin> set ids" for c
    using L[of c] that rest ph lview_sel(1)[of c t] lview_sel(1)[of c s1] by simp
  have "GetConsumerPhase t c = CONSUMER_PHASE_UNSPECIFIED" if "ConsumerId t \<le> c" for c
  proof -
    have "GetConsumerPhase s c = CONSUMER_PHASE_UNSPECIFIED" using s that cidt by (simp add: life_ok_def)
    then show ?thesis using reg[of c] ph out[of c] by auto
  qed
  then show ?thesis using ids out unfolding life_ok_def by (metis rtranclp.rtrancl_refl)
qed

subsection \<open>Taking the due ids off a queue\<close>

lemma lview_set_queues:
  "lview c (s\<lparr>SpawnTimeToConsumerIds := q\<rparr>) = (lview c s)\<lparr>lv_spawn_queue := sched q c\<rparr>"
  "lview c (s\<lparr>PauseExpirationTimeToConsumerIds := q\<rparr>) = (lview c s)\<lparr>lv_pause_queue := sched q c\<rparr>"
  "lview c (s\<lparr>RemovalTimeToConsumerIds := q\<rparr>) = (lview c s)\<lparr>lv_removal_queue := sched q c\<rparr>"
  by (simp_all add: lview_def GetConsumerPhase_def)

lemma view_ok_queues:
  assumes "view_ok v"
  shows "q (if lv_phase v = CONSUMER_PHASE_INITIALIZED then lv_spawn v else None) \<Longrightarrow> view_ok (v\<lparr>lv_spawn_queue := q\<rparr>)"
    "q (if lv_phase v = CONSUMER_PHASE_PAUSED then lv_pause_end v else None) \<Longrightarrow> view_ok (v\<lparr>lv_pause_queue := q\<rparr>)"
    "q (if lv_phase v = CONSUMER_PHASE_STOPPED then lv_removal v else None) \<Longrightarrow> view_ok (v\<lparr>lv_removal_queue := q\<rparr>)"
  using assms by (cases v; force simp: view_ok_def)+

lemma view_ok_launch:
  assumes "view_ok v" "lv_phase v = CONSUMER_PHASE_INITIALIZED" "q None"
  shows "view_ok (v\<lparr>lv_spawn_queue := q, lv_phase := CONSUMER_PHASE_LAUNCHED\<rparr>)"
    "view_ok (v\<lparr>lv_spawn_queue := q, lv_spawn := Some zero_time, lv_phase := CONSUMER_PHASE_REGISTERED\<rparr>)"
  using assms by (simp_all add: view_ok_def)

lemma lview_queues:
  "lv_spawn_queue (lview c s) = sched (SpawnTimeToConsumerIds s) c"
  "lv_pause_queue (lview c s) = sched (PauseExpirationTimeToConsumerIds s) c"
  "lv_removal_queue (lview c s) = sched (RemovalTimeToConsumerIds s) c"
  by (simp_all add: lview_def)

lemma life_ok_sched:
  assumes "life_ok s"
  shows "sched (SpawnTimeToConsumerIds s) c
      (if GetConsumerPhase s c = CONSUMER_PHASE_INITIALIZED then lv_spawn (lview c s) else None)"
    "sched (PauseExpirationTimeToConsumerIds s) c
      (if GetConsumerPhase s c = CONSUMER_PHASE_PAUSED then lv_pause_end (lview c s) else None)"
    "sched (RemovalTimeToConsumerIds s) c
      (if GetConsumerPhase s c = CONSUMER_PHASE_STOPPED then lv_removal (lview c s) else None)"
  using life_okD[OF assms, of c] unfolding view_ok_def lview_sel lview_queues by blast+

lemma consume_due_ids:
  assumes q: "ConsumeIdsFromTimeQueue ctx n q = (ids, q')"
    and s: "\<And>c. sched q c (if P c then f c else None)"
  shows "distinct ids" "c \<in> set ids \<Longrightarrow> sched q' c None \<and> P c \<and> (\<exists>t\<le>BlockTime ctx. f c = Some t)"
    "c \<notin> set ids \<Longrightarrow> sched q' c (if P c then f c else None)"
proof -
  show "distinct ids" using consume_distinct[OF q] s by blast
  show "c \<in> set ids \<Longrightarrow> sched q' c None \<and> P c \<and> (\<exists>t\<le>BlockTime ctx. f c = Some t)"
    using sched_consume[OF q s, of c] by (auto split: if_splits)
  show "c \<notin> set ids \<Longrightarrow> sched q' c (if P c then f c else None)"
    using sched_consume[OF q s, of c] by simp
qed

subsection \<open>Launch\<close>

lemma SetInit_Ok:
  "SetConsumerInitializationParameters k c ps s = Ok t \<Longrightarrow>
     t = s\<lparr>ConsumerInitParams := store_set c ps (ConsumerInitParams s)\<rparr>"
  by (auto simp: SetConsumerInitializationParameters_def res_simps split: if_splits)

lemma LaunchConsumer_Ok:
  assumes "LaunchConsumer k ctx bonded d s = Ok t"
  shows "lview c t = (if d = c then (lview c s)\<lparr>lv_phase := CONSUMER_PHASE_LAUNCHED\<rparr> else lview c s)"
    "ConsumerId t = ConsumerId s"
proof -
  obtain us s1 g h where s1: "ComputeConsumerNextValSet k ctx bonded d [] False s = Ok (us, s1)"
    and t: "t = SetConsumerLastAckTime d (BlockTime ctx) (SetConsumerPhase d CONSUMER_PHASE_LAUNCHED
        (SetEquivocationEvidenceMinHeight d h (SetConsumerGenesis d g s1)))"
    using assms by (auto simp: LaunchConsumer_def Let_def res_simps)
  note l = life_ComputeConsumerNextValSet[OF s1]
  show "lview c t = (if d = c then (lview c s)\<lparr>lv_phase := CONSUMER_PHASE_LAUNCHED\<rparr> else lview c s)"
    by (simp add: t lview_other_writes lview_phase lview_life[OF l])
  show "ConsumerId t = ConsumerId s" using lifeD[OF l] by (simp add: t keeper_simps SetConsumerPhase_def)
qed

lemma launch_one_Ok:
  assumes "launch_one k ctx bonded d s = Ok t"
  shows "d \<noteq> c \<Longrightarrow> lview c t = lview c s" "ConsumerId t = ConsumerId s"
    "lview d t = (lview d s)\<lparr>lv_phase := CONSUMER_PHASE_LAUNCHED\<rparr> \<or>
     lview d t = (lview d s)\<lparr>lv_spawn := Some zero_time, lv_phase := CONSUMER_PHASE_REGISTERED\<rparr>"
proof -
  consider (ok) "LaunchConsumer k ctx bonded d s = Ok t"
    | (failed) ps s1 where "SetConsumerInitializationParameters k d (ps\<lparr>SpawnTime := zero_time\<rparr>) s = Ok s1"
      "t = SetConsumerPhase d CONSUMER_PHASE_REGISTERED s1"
    using assms by (auto simp: launch_one_def res_simps split: res.splits)
  then have "(d \<noteq> c \<longrightarrow> lview c t = lview c s) \<and> ConsumerId t = ConsumerId s \<and>
    (lview d t = (lview d s)\<lparr>lv_phase := CONSUMER_PHASE_LAUNCHED\<rparr> \<or>
     lview d t = (lview d s)\<lparr>lv_spawn := Some zero_time, lv_phase := CONSUMER_PHASE_REGISTERED\<rparr>)"
  proof cases
    case ok
    then show ?thesis using LaunchConsumer_Ok[of k ctx bonded d s t] by simp
  next
    case failed
    show ?thesis unfolding failed(2) SetInit_Ok[OF failed(1)]
      by (simp add: lview_phase lview_times) (simp add: SetConsumerPhase_def)
  qed
  then show "d \<noteq> c \<Longrightarrow> lview c t = lview c s" "ConsumerId t = ConsumerId s"
    "lview d t = (lview d s)\<lparr>lv_phase := CONSUMER_PHASE_LAUNCHED\<rparr> \<or>
     lview d t = (lview d s)\<lparr>lv_spawn := Some zero_time, lv_phase := CONSUMER_PHASE_REGISTERED\<rparr>" by blast+
qed

lemma advance_BeginBlockLaunch: "BeginBlockLaunchConsumers k ctx s = Ok t \<Longrightarrow> advance s t"
  unfolding advance_def
proof (intro impI)
  assume run: "BeginBlockLaunchConsumers k ctx s = Ok t" and s: "life_ok s"
  obtain ids q bonded where q: "ConsumeIdsFromTimeQueue ctx 200 (SpawnTimeToConsumerIds s) = (ids, q)"
    and run: "fold_res (launch_one k ctx bonded) ids (s\<lparr>SpawnTimeToConsumerIds := q\<rparr>) = Ok t"
    using run by (auto simp: BeginBlockLaunchConsumers_def Let_def res_simps split: prod.splits)
  note due = consume_due_ids[OF q life_ok_sched(1)[OF s]]
  show "life_ok t \<and> (\<forall>c. phase_edge\<^sup>*\<^sup>* (GetConsumerPhase s c) (GetConsumerPhase t c))"
  proof (rule advance_loop[OF run due(1) s])
    show "view_ok (lview c (s\<lparr>SpawnTimeToConsumerIds := q\<rparr>))" if "c \<notin> set ids" for c
      unfolding lview_set_queues
      by (rule view_ok_queues(1)[OF life_okD[OF s]]) (use due(3)[OF that] in \<open>simp only: lview_sel(1)\<close>)
    fix d u v
    assume d: "d \<in> set ids" and u: "lview d u = lview d (s\<lparr>SpawnTimeToConsumerIds := q\<rparr>)"
      and v: "launch_one k ctx bonded d u = Ok v"
    have ph: "GetConsumerPhase s d = CONSUMER_PHASE_INITIALIZED" using due(2)[OF d] by blast
    have "phase_edge (GetConsumerPhase s d) (GetConsumerPhase v d)"
      using launch_one_Ok(3)[OF v] ph lview_sel(1)[of d v] by (auto intro: phase_edge.intros)
    moreover have "view_ok (lview d v)"
      using launch_one_Ok(3)[OF v] view_ok_launch[OF life_okD[OF s], of d "sched q d"] ph due(2)[OF d]
      unfolding u lview_set_queues lview_sel(1) by metis
    ultimately show "view_ok (lview d v) \<and>
        phase_edge\<^sup>*\<^sup>* (GetConsumerPhase (s\<lparr>SpawnTimeToConsumerIds := q\<rparr>) d) (GetConsumerPhase v d)"
      by (simp add: GetConsumerPhase_def)
  qed (use launch_one_Ok due(2) in \<open>auto simp: GetConsumerPhase_def\<close>)
qed

subsection \<open>Stop and deletion\<close>

text \<open>
  The staking module knows its unbonding time: without it a consumer that is due to be stopped stays
  paused and leaves the queue.
\<close>

definition unbonding_known :: "'w keeper \<Rightarrow> bool" where
  "unbonding_known k \<longleftrightarrow> (\<forall>w. UnbondingTime k w \<noteq> None)"

lemma stop_in_cache:
  assumes "unbonding_known k" "in_cache (StopAndPrepareForConsumerRemoval k ctx d) s = Ok t"
  shows "StopAndPrepareForConsumerRemoval k ctx d s = Ok t"
proof -
  obtain u where "UnbondingTime k (world s) = Some u" using assms(1) by (auto simp: unbonding_known_def)
  then show ?thesis using StopAndPrepare_total[of k s u ctx d] assms(2) by (auto simp: in_cache_def)
qed

lemma stop_frame:
  assumes "StopAndPrepareForConsumerRemoval k ctx d s = Ok t"
  shows "d \<noteq> c \<Longrightarrow> lview c t = lview c s" "ConsumerId t = ConsumerId s"
    "GetConsumerPhase t d = CONSUMER_PHASE_STOPPED" "stoppable (lview d s) \<Longrightarrow> view_ok (lview d t)"
  using StopAndPrepare_Ok[OF assms] lview_sel(1)[of d t] by metis+

lemma view_ok_stoppable:
  "view_ok v \<Longrightarrow> lv_phase v = CONSUMER_PHASE_LAUNCHED \<or> lv_phase v = CONSUMER_PHASE_PAUSED \<Longrightarrow> stoppable v"
  by (auto simp: view_ok_def stoppable_def pause_entry_def)

lemma advance_Stop:
  assumes "StopAndPrepareForConsumerRemoval k ctx d s = Ok t"
    and "GetConsumerPhase s d = CONSUMER_PHASE_LAUNCHED \<or> GetConsumerPhase s d = CONSUMER_PHASE_PAUSED"
  shows "advance s t"
proof (rule advance_local[of d])
  show "view_ok (lview d s) \<Longrightarrow> view_ok (lview d t)"
    using stop_frame(4)[OF assms(1)] view_ok_stoppable assms(2) by (simp add: lview_sel(1))
qed (use stop_frame[OF assms(1)] assms(2) in \<open>auto intro: phase_edge.intros\<close>)

lemma advance_Delete:
  assumes run: "DeleteConsumerChain k d s = Ok t" and pre: "Prelaunched (GetConsumerPhase s d)"
  shows "advance s t"
proof (rule advance_local[of d])
  note D = DeleteConsumerChain_Ok[OF run]
  show "GetConsumerPhase s d \<noteq> CONSUMER_PHASE_UNSPECIFIED" using pre by (auto simp: Prelaunched_def)
  show "phase_edge\<^sup>*\<^sup>* (GetConsumerPhase s d) (GetConsumerPhase t d)" using D(3,5) by (auto intro: phase_edge.intros)
  show "d \<noteq> c \<Longrightarrow> lview c t = lview c s" for c by (rule D(1))
  show "ConsumerId t = ConsumerId s" by (rule D(2))
  show "view_ok (lview d t)" if "view_ok (lview d s)"
    using that pre by (intro D(4)) (auto simp: deletable_def view_ok_def lview_sel(1) Prelaunched_def)
qed

subsection \<open>The other block hooks\<close>

lemma advance_AutoStop:
  assumes k: "unbonding_known k" and run: "BeginBlockAutoStopPausedConsumers k ctx s = Ok t"
  shows "advance s t"
  unfolding advance_def
proof (intro impI)
  assume s: "life_ok s"
  obtain ids q where q: "ConsumeIdsFromTimeQueue ctx 200 (PauseExpirationTimeToConsumerIds s) = (ids, q)"
    and run: "fold_res (auto_stop_one k ctx) ids (s\<lparr>PauseExpirationTimeToConsumerIds := q\<rparr>) = Ok t"
    using run by (auto simp: BeginBlockAutoStopPausedConsumers_def split: prod.splits)
  note due = consume_due_ids[OF q life_ok_sched(2)[OF s]]
  have one: "u = v \<or> StopAndPrepareForConsumerRemoval k ctx d u = Ok v"
    "GetConsumerPhase u d = CONSUMER_PHASE_PAUSED \<Longrightarrow> StopAndPrepareForConsumerRemoval k ctx d u = Ok v"
    if "auto_stop_one k ctx d u = Ok v" for d u v
    using that stop_in_cache[OF k] by (auto simp: auto_stop_one_def split: if_splits)
  show "life_ok t \<and> (\<forall>c. phase_edge\<^sup>*\<^sup>* (GetConsumerPhase s c) (GetConsumerPhase t c))"
  proof (rule advance_loop[OF run due(1) s])
    show "lview c v = lview c u" if "auto_stop_one k ctx d u = Ok v" "d \<noteq> c" for c d u v
      using one(1)[OF that(1)] stop_frame(1)[OF _ that(2)] by metis
    show "ConsumerId v = ConsumerId u" if "auto_stop_one k ctx d u = Ok v" for d u v
      using one(1)[OF that(1)] stop_frame(2) by metis
    show "view_ok (lview c (s\<lparr>PauseExpirationTimeToConsumerIds := q\<rparr>))" if "c \<notin> set ids" for c
      unfolding lview_set_queues
      by (rule view_ok_queues(2)[OF life_okD[OF s]]) (use due(3)[OF that] in \<open>simp only: lview_sel(1)\<close>)
    fix d u v
    assume d: "d \<in> set ids" and u: "lview d u = lview d (s\<lparr>PauseExpirationTimeToConsumerIds := q\<rparr>)"
      and v: "auto_stop_one k ctx d u = Ok v"
    have ph: "GetConsumerPhase s d = CONSUMER_PHASE_PAUSED" using due(2)[OF d] by blast
    then have "lv_phase (lview d u) = CONSUMER_PHASE_PAUSED" unfolding u lview_set_queues by (simp add: lview_sel(1))
    then have stop: "StopAndPrepareForConsumerRemoval k ctx d u = Ok v" using one(2)[OF v] by (simp add: lview_sel(1))
    have "stoppable (lview d u)"
      using life_okD[OF s, of d] due(2)[OF d] unfolding u lview_set_queues
      by (simp add: stoppable_def pause_entry_def view_ok_def lview_sel(1))
    then show "view_ok (lview d v) \<and>
        phase_edge\<^sup>*\<^sup>* (GetConsumerPhase (s\<lparr>PauseExpirationTimeToConsumerIds := q\<rparr>) d) (GetConsumerPhase v d)"
      using stop_frame(3,4)[OF stop] ph by (auto simp: GetConsumerPhase_def intro: phase_edge.intros)
  qed (use due(2) in \<open>auto simp: GetConsumerPhase_def\<close>)
qed

lemma advance_Remove:
  assumes run: "BeginBlockRemoveConsumers k ctx s = Ok t"
  shows "advance s t"
  unfolding advance_def
proof (intro impI)
  assume s: "life_ok s"
  let ?f = "\<lambda>c. in_cache (DeleteConsumerChain k c)"
  obtain ids q where q: "ConsumeIdsFromTimeQueue ctx 200 (RemovalTimeToConsumerIds s) = (ids, q)"
    and run: "fold_res ?f ids (s\<lparr>RemovalTimeToConsumerIds := q\<rparr>) = Ok t"
    using run by (auto simp: BeginBlockRemoveConsumers_def split: prod.splits)
  note due = consume_due_ids[OF q life_ok_sched(3)[OF s]]
  have one: "u = v \<or> DeleteConsumerChain k d u = Ok v"
    "GetConsumerPhase u d = CONSUMER_PHASE_STOPPED \<Longrightarrow> DeleteConsumerChain k d u = Ok v"
    if "?f d u = Ok v" for d u v
    using that delete_stopped_not_Err[of u d k] by (auto simp: in_cache_def split: res.splits)
  show "life_ok t \<and> (\<forall>c. phase_edge\<^sup>*\<^sup>* (GetConsumerPhase s c) (GetConsumerPhase t c))"
  proof (rule advance_loop[OF run due(1) s])
    show "lview c v = lview c u" if "?f d u = Ok v" "d \<noteq> c" for c d u v
      using one(1)[OF that(1)] DeleteConsumerChain_Ok(1)[OF _ that(2)] by metis
    show "ConsumerId v = ConsumerId u" if "?f d u = Ok v" for d u v
      using one(1)[OF that(1)] DeleteConsumerChain_Ok(2) by metis
    show "view_ok (lview c (s\<lparr>RemovalTimeToConsumerIds := q\<rparr>))" if "c \<notin> set ids" for c
      unfolding lview_set_queues
      by (rule view_ok_queues(3)[OF life_okD[OF s]]) (use due(3)[OF that] in \<open>simp only: lview_sel(1)\<close>)
    fix d u v
    assume d: "d \<in> set ids" and u: "lview d u = lview d (s\<lparr>RemovalTimeToConsumerIds := q\<rparr>)" and v: "?f d u = Ok v"
    have ph: "GetConsumerPhase s d = CONSUMER_PHASE_STOPPED" using due(2)[OF d] by blast
    then have "lv_phase (lview d u) = CONSUMER_PHASE_STOPPED" unfolding u lview_set_queues by (simp add: lview_sel(1))
    then have del: "DeleteConsumerChain k d u = Ok v" using one(2)[OF v] by (simp add: lview_sel(1))
    have "deletable (lview d u)"
      using life_okD[OF s, of d] due(2)[OF d] ph unfolding u lview_set_queues
      by (auto simp: deletable_def view_ok_def lview_sel(1))
    then show "view_ok (lview d v) \<and>
        phase_edge\<^sup>*\<^sup>* (GetConsumerPhase (s\<lparr>RemovalTimeToConsumerIds := q\<rparr>) d) (GetConsumerPhase v d)"
      using DeleteConsumerChain_Ok(3,4)[OF del] ph by (auto simp: GetConsumerPhase_def intro: phase_edge.intros)
  qed (use due(2) in \<open>auto simp: GetConsumerPhase_def\<close>)
qed

lemma launched_ids:
  "distinct (GetAllLaunchedConsumerIds s)"
  "c \<in> set (GetAllLaunchedConsumerIds s) \<Longrightarrow> GetConsumerPhase s c = CONSUMER_PHASE_LAUNCHED"
  by (auto simp: GetAllLaunchedConsumerIds_def GetAllConsumerIds_def split: option.splits)

lemma advance_SweepUnresponsive:
  assumes k: "unbonding_known k" and run: "SweepUnresponsiveConsumers k ctx s = Ok t"
  shows "advance s t"
  unfolding advance_def
proof (intro impI)
  assume s: "life_ok s"
  obtain grace where run: "fold_res (sweep_unresponsive_one k ctx grace) (GetAllLaunchedConsumerIds s) s = Ok t"
    using run by (auto simp: SweepUnresponsiveConsumers_def res_simps)
  have one: "u = v \<or> StopAndPrepareForConsumerRemoval k ctx d u = Ok v"
    if "sweep_unresponsive_one k ctx grace d u = Ok v" for d u v
    using that stop_in_cache[OF k] by (auto simp: sweep_unresponsive_one_def split: if_splits)
  show "life_ok t \<and> (\<forall>c. phase_edge\<^sup>*\<^sup>* (GetConsumerPhase s c) (GetConsumerPhase t c))"
  proof (rule advance_loop[OF run launched_ids(1) s])
    show "lview c v = lview c u" if "sweep_unresponsive_one k ctx grace d u = Ok v" "d \<noteq> c" for c d u v
      using one[OF that(1)] stop_frame(1)[OF _ that(2)] by metis
    show "ConsumerId v = ConsumerId u" if "sweep_unresponsive_one k ctx grace d u = Ok v" for d u v
      using one[OF that(1)] stop_frame(2) by metis
    fix d u v
    assume d: "d \<in> set (GetAllLaunchedConsumerIds s)" and u: "lview d u = lview d s"
      and v: "sweep_unresponsive_one k ctx grace d u = Ok v"
    have ph: "GetConsumerPhase s d = CONSUMER_PHASE_LAUNCHED" using launched_ids(2)[OF d] .
    have "stoppable (lview d u)" using life_okD[OF s, of d] ph by (auto intro: view_ok_stoppable simp: u lview_sel(1))
    moreover have "phase_edge\<^sup>*\<^sup>* (GetConsumerPhase s d) CONSUMER_PHASE_STOPPED"
      using ph by (auto intro: phase_edge.intros)
    moreover have "GetConsumerPhase u d = GetConsumerPhase s d" using u lview_sel(1) by metis
    ultimately show "view_ok (lview d v) \<and> phase_edge\<^sup>*\<^sup>* (GetConsumerPhase s d) (GetConsumerPhase v d)"
      using one[OF v] stop_frame(3,4)[of k ctx d u v] life_okD[OF s, of d] u by auto
  qed (use life_okD[OF s] in \<open>auto dest: launched_ids(2)\<close>)
qed

lemma advance_PauseFrozen: "advance s (PauseConsumersWithFrozenClients k ctx s)"
  unfolding PauseConsumersWithFrozenClients_def
proof (rule advancing.kept_fold)
  show "advance u (pause_frozen k ctx c u)" for c u
    using advance_Pause[of k ctx c PAUSE_REASON_LIGHT_CLIENT_ATTACK u]
    by (auto simp: pause_frozen_def advance_refl split: option.splits res.splits)
qed

lemma BeginBlock_hooks:
  assumes "BeginBlock k ctx s = Ok t"
  obtains s1 s2 s4 s5 where "BeginBlockLaunchConsumers k ctx s = Ok s1" "BeginBlockRemoveConsumers k ctx s1 = Ok s2"
    "SweepUnresponsiveConsumers k ctx (PauseConsumersWithFrozenClients k ctx s2) = Ok s4"
    "BeginBlockAutoStopPausedConsumers k ctx s4 = Ok s5" "life t = life s5"
proof -
  have cache: "in_cache (DistributeConsumerFees k ctx) u = Ok v \<Longrightarrow> life v = life u" for u v
    using life_DistributeConsumerFees[of k ctx u v] by (auto simp: in_cache_def split: res.splits)
  show thesis
    using assms that unfolding BeginBlock_def Let_def
    by (auto simp: res_simps life_frame dest!: cache split: if_splits)
qed

lemma advance_BeginBlock:
  assumes k: "unbonding_known k" and run: "BeginBlock k ctx s = Ok t"
  shows "advance s t"
  using run
proof (cases rule: BeginBlock_hooks)
  case (1 s1 s2 s4 s5)
  show ?thesis
    using advance_BeginBlockLaunch[OF 1(1)] advance_Remove[OF 1(2)] advance_PauseFrozen[of s2 k ctx]
      advance_SweepUnresponsive[OF k 1(3)] advance_AutoStop[OF k 1(4)] advance_life[OF 1(5)]
    by (blast intro: advance_trans)
qed

subsection \<open>Registration and its updates\<close>

lemma PrepareConsumerForLaunch_Ok:
  assumes "PrepareConsumerForLaunch d prev x s = Ok t"
  shows "d \<noteq> c \<Longrightarrow> lview c t = lview c s" "ConsumerId t = ConsumerId s"
    "\<exists>q. lview d t = (lview d s)\<lparr>lv_spawn_queue := q\<rparr> \<and>
       (lv_spawn_queue (lview d s) (if prev = zero_time then None else Some prev) \<longrightarrow> q (Some x))"
proof -
  obtain s2 where rm: "(if prev \<noteq> zero_time then RemoveConsumerToBeLaunched d prev s else Ok s) = Ok s2"
    and t: "t = AppendConsumerToBeLaunched d x s2"
    using assms by (auto simp: PrepareConsumerForLaunch_def res_simps)
  show "lview c t = lview c s" if "d \<noteq> c"
    unfolding t lview_append_spawn(2)[OF that]
    using rm lview_remove_spawn(1)[of d prev s s2 c] that by (auto split: if_splits)
  show "ConsumerId t = ConsumerId s"
    using rm by (auto simp: t AppendConsumerToBeLaunched_def RemoveConsumerToBeLaunched_def res_simps split: if_splits)
  have "\<exists>q. lview d s2 = (lview d s)\<lparr>lv_spawn_queue := q\<rparr> \<and>
    (lv_spawn_queue (lview d s) (if prev = zero_time then None else Some prev) \<longrightarrow> q None)"
  proof (cases "prev = zero_time")
    case True
    then have "s2 = s" using rm by simp
    then show ?thesis using True by (intro exI[of _ "lv_spawn_queue (lview d s)"]) simp
  next
    case False
    then have "RemoveConsumerToBeLaunched d prev s = Ok s2" using rm by simp
    then show ?thesis using lview_remove_spawn(2,3)[of d prev s s2 d] False
      by (intro exI[of _ "lv_spawn_queue (lview d s2)"]) auto
  qed
  then obtain q where q: "lview d s2 = (lview d s)\<lparr>lv_spawn_queue := q\<rparr>"
    "lv_spawn_queue (lview d s) (if prev = zero_time then None else Some prev) \<longrightarrow> q None" by blast
  obtain q' where q': "lview d t = (lview d s2)\<lparr>lv_spawn_queue := q'\<rparr>"
    "lv_spawn_queue (lview d s2) None \<Longrightarrow> q' (Some x)"
    using lview_append_spawn(1)[of d s2 x] lview_append_spawn(3)[of d x s2] unfolding t by blast
  then show "\<exists>q. lview d t = (lview d s)\<lparr>lv_spawn_queue := q\<rparr> \<and>
       (lv_spawn_queue (lview d s) (if prev = zero_time then None else Some prev) \<longrightarrow> q (Some x))"
    using q(2) by (intro exI[of _ q']) (auto simp: q(1))
qed

lemma initialize_and_prepare_cases:
  assumes "initialize_and_prepare d prev s = Ok t"
  obtains (same) "t = s" "Prelaunched (GetConsumerPhase s d) \<Longrightarrow> lv_spawn (lview d s) \<in> {None, Some zero_time}"
  | (init) x where "Prelaunched (GetConsumerPhase s d)" "lv_spawn (lview d s) = Some x" "x \<noteq> zero_time"
      "PrepareConsumerForLaunch d prev x (SetConsumerPhase d CONSUMER_PHASE_INITIALIZED s) = Ok t"
proof -
  obtain o1 s1 where "InitializeConsumer d s = (o1, s1)" by (cases "InitializeConsumer d s")
  then show thesis
    using assms same init
    by (auto simp: initialize_and_prepare_def InitializeConsumer_def Let_def res_simps
        Prelaunched_def lview_sel(2) split: if_splits option.splits)
qed

lemma initialize_and_prepare_frame:
  assumes "initialize_and_prepare d prev s = Ok t"
  shows "d \<noteq> c \<Longrightarrow> lview c t = lview c s" "ConsumerId t = ConsumerId s"
  using assms
  by (cases rule: initialize_and_prepare_cases; simp add: PrepareConsumerForLaunch_Ok lview_phase; simp add: SetConsumerPhase_def)+

text \<open>What the tail of a registration message makes of a pre-launch consumer and its queue entry.\<close>

lemma view_ok_initialized:
  "v = w\<lparr>lv_phase := CONSUMER_PHASE_INITIALIZED, lv_spawn_queue := q\<rparr> \<Longrightarrow> lv_spawn w = Some x \<Longrightarrow>
     x \<noteq> zero_time \<Longrightarrow> q (Some x) \<Longrightarrow> lv_pause_queue w None \<Longrightarrow> lv_pause_end w = None \<Longrightarrow>
     lv_removal_queue w None \<Longrightarrow> lv_removal w = None \<Longrightarrow> view_ok v"
  by (simp add: view_ok_def)

lemma initialize_and_prepare_view:
  assumes run: "initialize_and_prepare d prev s = Ok t" and pre: "Prelaunched (GetConsumerPhase s d)"
    and v: "lv_pause_queue (lview d s) None" "lv_pause_end (lview d s) = None"
      "lv_removal_queue (lview d s) None" "lv_removal (lview d s) = None" "lv_spawn (lview d s) \<noteq> None"
    and q: "lv_spawn (lview d s) \<noteq> Some zero_time \<Longrightarrow> lv_spawn_queue (lview d s) (if prev = zero_time then None else Some prev)"
    and zero: "lv_spawn (lview d s) = Some zero_time \<Longrightarrow>
      GetConsumerPhase s d = CONSUMER_PHASE_REGISTERED \<and> lv_spawn_queue (lview d s) None"
  shows "view_ok (lview d t)" "Prelaunched (GetConsumerPhase t d)"
proof -
  have "view_ok (lview d t) \<and> Prelaunched (GetConsumerPhase t d)"
    using run
  proof (cases rule: initialize_and_prepare_cases)
    case same
    then have "lv_spawn (lview d s) = Some zero_time" using v pre by blast
    then show ?thesis using zero pre v unfolding same(1) by (simp add: view_ok_def lview_sel(1))
  next
    case (init x)
    obtain q' where "lview d t = (lview d s)\<lparr>lv_phase := CONSUMER_PHASE_INITIALIZED, lv_spawn_queue := q'\<rparr>" "q' (Some x)"
      using PrepareConsumerForLaunch_Ok(3)[OF init(4)] q init(2,3) by (auto simp: lview_phase)
    then show ?thesis
      using view_ok_initialized[OF _ init(2,3) _ v(1-4)] lview_sel(1)[of d t] by (auto simp: Prelaunched_def)
  qed
  then show "view_ok (lview d t)" "Prelaunched (GetConsumerPhase t d)" by blast+
qed

lemma view_ok_prelaunch:
  assumes "view_ok v" "Prelaunched (lv_phase v)"
  shows "lv_pause_queue v None" "lv_pause_end v = None" "lv_removal_queue v None" "lv_removal v = None"
    "lv_spawn v \<noteq> None" "lv_spawn_queue v (if lv_spawn v = Some zero_time then None else lv_spawn v)"
    "lv_spawn v = Some zero_time \<longleftrightarrow> lv_phase v = CONSUMER_PHASE_REGISTERED"
  using assms by (auto simp: view_ok_def Prelaunched_def)

lemma prelaunch_edges: "Prelaunched p \<Longrightarrow> Prelaunched q \<Longrightarrow> phase_edge\<^sup>*\<^sup>* p q"
  by (auto simp: Prelaunched_def intro: phase_edge.intros)

lemma update_init_params_cases:
  assumes run: "update_init_params k d prev init s = Ok t"
  obtains (none) "t = s"
  | (set) ps where "Prelaunched (GetConsumerPhase s d)"
      "SpawnTime ps \<noteq> zero_time \<or> GetConsumerPhase s d \<noteq> CONSUMER_PHASE_INITIALIZED"
      "t = s\<lparr>ConsumerInitParams := store_set d ps (ConsumerInitParams s)\<rparr>"
  | (unset) ps s1 where "SpawnTime ps = zero_time" "GetConsumerPhase s d = CONSUMER_PHASE_INITIALIZED"
      "RemoveConsumerToBeLaunched d prev s = Ok s1"
      "t = (SetConsumerPhase d CONSUMER_PHASE_REGISTERED s1)\<lparr>ConsumerInitParams := store_set d ps (ConsumerInitParams s1)\<rparr>"
proof (cases init)
  case None
  then show thesis using run none by (simp add: update_init_params_def)
next
  case (Some ps)
  define s1 where "s1 = (if SpawnTime ps = zero_time \<and> GetConsumerPhase s d = CONSUMER_PHASE_INITIALIZED
                    then bind_res (as_error ErrInvalidMsgUpdateConsumer (RemoveConsumerToBeLaunched d prev s)) (\<lambda>s1.
                         Ok (SetConsumerPhase d CONSUMER_PHASE_REGISTERED s1))
                    else Ok s)"
  obtain u where u: "s1 = Ok u" "SetConsumerInitializationParameters k d ps u = Ok t"
    and pre: "Prelaunched (GetConsumerPhase s d)"
    using run by (auto simp: update_init_params_def Some res_simps s1_def[symmetric] IsConsumerPrelaunched_def)
  show thesis
  proof (cases "SpawnTime ps = zero_time \<and> GetConsumerPhase s d = CONSUMER_PHASE_INITIALIZED")
    case True
    then obtain v where v: "RemoveConsumerToBeLaunched d prev s = Ok v" and "u = SetConsumerPhase d CONSUMER_PHASE_REGISTERED v"
      using u(1) by (auto simp: s1_def res_simps)
    then show thesis using unset[of ps v] True SetInit_Ok[OF u(2)] by (simp add: SetConsumerPhase_def)
  next
    case False
    then have "s = u" using u(1) unfolding s1_def if_not_P[OF False] by simp
    then show thesis using set[OF pre, of ps] False SetInit_Ok[OF u(2)] by blast
  qed
qed

lemma update_init_params_frame:
  assumes run: "update_init_params k d prev init s = Ok t"
  shows "d \<noteq> c \<Longrightarrow> lview c t = lview c s" "ConsumerId t = ConsumerId s"
proof -
  have rm: "RemoveConsumerToBeLaunched d prev s = Ok s1 \<Longrightarrow> ConsumerId s1 = ConsumerId s" for s1
    by (auto simp: RemoveConsumerToBeLaunched_def res_simps)
  have times: "lview c (u\<lparr>ConsumerInitParams := store_set d ps x\<rparr>) = lview c u"
    if "d \<noteq> c" "x = ConsumerInitParams u" for u :: "'a pstate" and ps x
    using that by (simp add: lview_times)
  have "(d \<noteq> c \<longrightarrow> lview c t = lview c s) \<and> ConsumerId t = ConsumerId s"
    using run
  proof (cases rule: update_init_params_cases)
    case (unset ps s1)
    have "d \<noteq> c \<Longrightarrow> lview c t = lview c s1"
      unfolding unset(4) by (subst times, assumption, simp add: SetConsumerPhase_def) (simp add: lview_phase)
    then show ?thesis using lview_remove_spawn(1)[OF unset(3), of c] rm[OF unset(3)]
      by (simp add: unset(4) SetConsumerPhase_def)
  next
    case (set ps)
    show ?thesis unfolding set(3) by (simp add: times)
  qed simp
  then show "d \<noteq> c \<Longrightarrow> lview c t = lview c s" "ConsumerId t = ConsumerId s" by blast+
qed

lemma update_then_prepare:
  assumes run: "update_init_params k d prev init s = Ok t" and prep: "initialize_and_prepare d prev t = Ok u"
    and ok: "view_ok (lview d s)" and prev: "lv_spawn (lview d s) = Some prev" and pre: "Prelaunched (GetConsumerPhase s d)"
  shows "view_ok (lview d u) \<and> Prelaunched (GetConsumerPhase u d)"
proof -
  note P = view_ok_prelaunch[OF ok, unfolded lview_sel(1), OF pre] lview_sel(1)[of d s]
  have "\<exists>p x q. lview d t = (lview d s)\<lparr>lv_phase := p, lv_spawn := Some x, lv_spawn_queue := q\<rparr> \<and> Prelaunched p \<and>
      (x \<noteq> zero_time \<longrightarrow> q (if prev = zero_time then None else Some prev)) \<and>
      (x = zero_time \<longrightarrow> p = CONSUMER_PHASE_REGISTERED \<and> q None)"
    using run
  proof (cases rule: update_init_params_cases)
    case none
    show ?thesis unfolding none
      by (rule exI[of _ "lv_phase (lview d s)"], rule exI[of _ prev], rule exI[of _ "lv_spawn_queue (lview d s)"])
        (use P prev pre in \<open>auto simp: life_view.equality\<close>)
  next
    case (set ps)
    have "SpawnTime ps = zero_time \<Longrightarrow> GetConsumerPhase s d = CONSUMER_PHASE_REGISTERED" using set(1,2) by (auto simp: Prelaunched_def)
    then show ?thesis unfolding set(3) lview_times
      by (intro exI[of _ "lv_phase (lview d s)"], intro exI[of _ "SpawnTime ps"], intro exI[of _ "lv_spawn_queue (lview d s)"])
        (use P prev pre in \<open>auto simp: life_view.equality\<close>)
  next
    case (unset ps s1)
    have "lv_spawn_queue (lview d s1) None" using lview_remove_spawn(3)[OF unset(3) refl, of "Some prev"] P unset(2) prev by auto
    moreover obtain q where q: "lview d s1 = (lview d s)\<lparr>lv_spawn_queue := q\<rparr>" using lview_remove_spawn(2)[OF unset(3) refl] by blast
    moreover have "t = (SetConsumerPhase d CONSUMER_PHASE_REGISTERED s1)\<lparr>ConsumerInitParams :=
        store_set d ps (ConsumerInitParams (SetConsumerPhase d CONSUMER_PHASE_REGISTERED s1))\<rparr>"
      by (simp add: unset(4) SetConsumerPhase_def)
    then have "lview d t = (lview d s1)\<lparr>lv_phase := CONSUMER_PHASE_REGISTERED, lv_spawn := Some zero_time\<rparr>"
      by (simp add: lview_times lview_phase unset(1))
    ultimately show ?thesis
      by (intro exI[of _ CONSUMER_PHASE_REGISTERED], intro exI[of _ zero_time], intro exI[of _ q]) (simp add: Prelaunched_def)
  qed
  then obtain p x q where v: "lview d t = (lview d s)\<lparr>lv_phase := p, lv_spawn := Some x, lv_spawn_queue := q\<rparr>"
    "Prelaunched p" "x \<noteq> zero_time \<longrightarrow> q (if prev = zero_time then None else Some prev)"
    "x = zero_time \<longrightarrow> p = CONSUMER_PHASE_REGISTERED \<and> q None" by blast
  moreover have "GetConsumerPhase t d = p" using v(1) lview_sel(1)[of d t] by simp
  ultimately show ?thesis using P by (intro conjI initialize_and_prepare_view[OF prep]) simp_all
qed

lemma life_SetConsumerClient: "SetConsumerClient k c cl s = Ok t \<Longrightarrow> life t = life s"
proof -
  assume run: "SetConsumerClient k c cl s = Ok t"
  then obtain tm where "GetClientState k (world s) cl = Some (TmClient tm)"
    unfolding SetConsumerClient_def
    by (cases "GetClientState k (world s) cl"; cases "the (GetClientState k (world s) cl)") (auto simp: res_simps)
  then show "life t = life s"
    using run by (auto simp: SetConsumerClient_def SetConsumerClientId_def res_simps split: if_splits)
qed

lemma UpdateConsumer_cases:
  assumes "UpdateConsumer k ctx msg s = Ok t"
  obtains s4 prev s5 where "life s4 = life s"
    "GetConsumerPhase s (uc_ConsumerId msg) \<in> {CONSUMER_PHASE_REGISTERED, CONSUMER_PHASE_INITIALIZED, CONSUMER_PHASE_LAUNCHED}"
    "GetConsumerInitializationParameters s4 (uc_ConsumerId msg) = Some prev"
    "update_init_params k (uc_ConsumerId msg) (SpawnTime prev) (uc_InitializationParameters msg) s4 = Ok s5"
    "initialize_and_prepare (uc_ConsumerId msg) (SpawnTime prev) s5 = Ok t"
proof -
  let ?c = "uc_ConsumerId msg"
  have client: "life s1 = life s" if "(if \<not> blank (uc_ClientId msg) then SetConsumerClient k ?c (uc_ClientId msg) s else Ok s) = Ok s1" for s1
    using that life_SetConsumerClient by (auto split: if_splits)
  have chain: "life s2 = life s1" if "update_chain_id k ctx ?c nc ci s1 = Ok s2" for nc ci s1 s2
    using that by (auto simp: update_chain_id_def res_simps SetConsumerChainId_def split: if_splits)
  have owner: "life s3 = life s2" if "(if \<not> blank (NewOwnerAddress msg)
      then guard_res (AddressCodecStringToBytes k (NewOwnerAddress msg) \<noteq> None) ErrInvalidNewOwnerAddress
             (Ok (SetConsumerOwnerAddress ?c (NewOwnerAddress msg) s2)) else Ok s2) = Ok s3" for s2 s3
    using that by (auto simp: res_simps SetConsumerOwnerAddress_def split: if_splits)
  have meta: "life (case uc_Metadata msg of None \<Rightarrow> s3 | Some m \<Rightarrow> SetConsumerMetadata ?c m s3) = life s3" for s3
    by (simp add: SetConsumerMetadata_def split: option.splits)
  obtain s1 ci s2 s3 prev s5
    where ph: "\<not> (GetConsumerPhase s ?c \<noteq> CONSUMER_PHASE_REGISTERED \<and> GetConsumerPhase s ?c \<noteq> CONSUMER_PHASE_INITIALIZED \<and>
                    GetConsumerPhase s ?c \<noteq> CONSUMER_PHASE_LAUNCHED)"
      and 1: "(if \<not> blank (uc_ClientId msg) then SetConsumerClient k ?c (uc_ClientId msg) s else Ok s) = Ok s1"
      and 2: "update_chain_id k ctx ?c (NewChainId msg) ci s1 = Ok s2"
      and 3: "(if \<not> blank (NewOwnerAddress msg)
      then guard_res (AddressCodecStringToBytes k (NewOwnerAddress msg) \<noteq> None) ErrInvalidNewOwnerAddress
             (Ok (SetConsumerOwnerAddress ?c (NewOwnerAddress msg) s2)) else Ok s2) = Ok s3"
      and 4: "GetConsumerInitializationParameters (case uc_Metadata msg of None \<Rightarrow> s3 | Some m \<Rightarrow> SetConsumerMetadata ?c m s3) ?c = Some prev"
      and 5: "update_init_params k ?c (SpawnTime prev) (uc_InitializationParameters msg)
          (case uc_Metadata msg of None \<Rightarrow> s3 | Some m \<Rightarrow> SetConsumerMetadata ?c m s3) = Ok s5"
      and 6: "initialize_and_prepare ?c (SpawnTime prev) s5 = Ok t"
    using assms unfolding UpdateConsumer_def Let_def by (simp only: res_simps) blast
  show thesis
    using meta[of s3] owner[OF 3] chain[OF 2] client[OF 1] ph by (intro that[OF _ _ 4 5 6]) auto
qed

lemma UpdateConsumer_view:
  assumes run: "UpdateConsumer k ctx msg s = Ok t"
  shows "uc_ConsumerId msg \<noteq> c \<Longrightarrow> lview c t = lview c s" "ConsumerId t = ConsumerId s"
    "GetConsumerPhase s (uc_ConsumerId msg) \<in> {CONSUMER_PHASE_REGISTERED, CONSUMER_PHASE_INITIALIZED, CONSUMER_PHASE_LAUNCHED}"
    "view_ok (lview (uc_ConsumerId msg) s) \<Longrightarrow> view_ok (lview (uc_ConsumerId msg) t) \<and>
       (GetConsumerPhase t (uc_ConsumerId msg) = GetConsumerPhase s (uc_ConsumerId msg) \<or>
        Prelaunched (GetConsumerPhase s (uc_ConsumerId msg)) \<and> Prelaunched (GetConsumerPhase t (uc_ConsumerId msg)))"
proof -
  let ?c = "uc_ConsumerId msg"
  obtain s4 prev s5 where l: "life s4 = life s"
    and ph: "GetConsumerPhase s ?c \<in> {CONSUMER_PHASE_REGISTERED, CONSUMER_PHASE_INITIALIZED, CONSUMER_PHASE_LAUNCHED}"
    and prev: "GetConsumerInitializationParameters s4 ?c = Some prev"
    and 4: "update_init_params k ?c (SpawnTime prev) (uc_InitializationParameters msg) s4 = Ok s5"
    and 5: "initialize_and_prepare ?c (SpawnTime prev) s5 = Ok t"
    using UpdateConsumer_cases[OF run] .
  note frame = update_init_params_frame[OF 4] initialize_and_prepare_frame[OF 5]
  show "lview c t = lview c s" if "?c \<noteq> c" using frame(1,3)[OF that] lview_life[OF l] by simp
  show "ConsumerId t = ConsumerId s" using frame(2,4) lifeD[OF l] by simp
  show "GetConsumerPhase s ?c \<in> {CONSUMER_PHASE_REGISTERED, CONSUMER_PHASE_INITIALIZED, CONSUMER_PHASE_LAUNCHED}" by (rule ph)
  assume "view_ok (lview ?c s)"
  then have ok: "view_ok (lview ?c s4)" by (simp add: lview_life[OF l])
  have same: "GetConsumerPhase s4 ?c = GetConsumerPhase s ?c" using lifeD[OF l] by simp
  show "view_ok (lview ?c t) \<and> (GetConsumerPhase t ?c = GetConsumerPhase s ?c \<or>
      Prelaunched (GetConsumerPhase s ?c) \<and> Prelaunched (GetConsumerPhase t ?c))"
  proof (cases "Prelaunched (GetConsumerPhase s4 ?c)")
    case True
    then show ?thesis using update_then_prepare[OF 4 5 ok _ True] prev same by (simp add: lview_sel)
  next
    case False
    have s5: "s5 = s4" using 4 False by (cases rule: update_init_params_cases) (auto simp: Prelaunched_def)
    have "t = s4" using 5 False unfolding s5 by (cases rule: initialize_and_prepare_cases) auto
    then show ?thesis using ok same by simp
  qed
qed

lemma advance_Update:
  assumes "UpdateConsumer k ctx msg s = Ok t"
  shows "advance s t"
  using UpdateConsumer_view[OF assms] prelaunch_edges
  by (intro advance_local[of "uc_ConsumerId msg"]) auto

lemma CreateConsumer_cases:
  assumes "CreateConsumer k ctx msg s = Ok (c, t)"
  obtains ps s6 s7 x where "c = ConsumerId s"
    "SetConsumerInitializationParameters k c ps (SetConsumerMetadata c (cc_Metadata msg)
        (SetConsumerPhase c CONSUMER_PHASE_REGISTERED (SetConsumerChainId c (cc_ChainId msg)
          (SetConsumerOwnerAddress c (cc_Submitter msg) (s\<lparr>ConsumerId := ConsumerId s + 1\<rparr>))))) = Ok s6"
    "initialize_and_prepare c zero_time s6 = Ok s7" "t = s7\<lparr>FeePoolAddressToConsumerId := x\<rparr>"
  using assms unfolding CreateConsumer_def FetchAndIncrementConsumerId_def Let_def
  by (simp only: res_simps split_conv prod.inject res.inject) blast

lemma register_edges:
  assumes "Prelaunched p" shows "phase_edge\<^sup>*\<^sup>* CONSUMER_PHASE_UNSPECIFIED p"
  using converse_rtranclp_into_rtranclp[OF register prelaunch_edges[OF _ assms]] by (simp add: Prelaunched_def)

lemma CreateConsumer_view:
  assumes run: "CreateConsumer k ctx msg s = Ok (c, t)" and s: "life_ok s"
  shows "c = ConsumerId s" "ConsumerId t = ConsumerId s + 1" "c \<noteq> d \<Longrightarrow> lview d t = lview d s"
    "GetConsumerPhase s c = CONSUMER_PHASE_UNSPECIFIED" "Prelaunched (GetConsumerPhase t c)" "view_ok (lview c t)"
proof -
  define s1 where "s1 = s\<lparr>ConsumerId := ConsumerId s + 1\<rparr>"
  define s2 where "s2 = SetConsumerMetadata c (cc_Metadata msg) (SetConsumerPhase c CONSUMER_PHASE_REGISTERED
        (SetConsumerChainId c (cc_ChainId msg) (SetConsumerOwnerAddress c (cc_Submitter msg) s1)))"
  obtain ps s6 s7 x where c: "c = ConsumerId s" and 6: "SetConsumerInitializationParameters k c ps s2 = Ok s6"
    and 7: "initialize_and_prepare c zero_time s6 = Ok s7" and t: "t = s7\<lparr>FeePoolAddressToConsumerId := x\<rparr>"
    using run unfolding s2_def s1_def by (rule CreateConsumer_cases)
  have 2: "life s2 = life (SetConsumerPhase c CONSUMER_PHASE_REGISTERED s1)"
    by (simp add: s2_def life_def keeper_simps SetConsumerPhase_def)
  show "c = ConsumerId s" by (rule c)
  show fresh: "GetConsumerPhase s c = CONSUMER_PHASE_UNSPECIFIED" using s by (simp add: life_ok_def c)
  have s1: "lview d s1 = lview d s" for d by (simp add: lview_def s1_def GetConsumerPhase_def)
  have v6: "lview d s6 = (if c = d then (lview d s)\<lparr>lv_phase := CONSUMER_PHASE_REGISTERED, lv_spawn := Some (SpawnTime ps)\<rparr>
      else lview d s)" for d
    by (simp add: SetInit_Ok[OF 6] lview_times lview_life[OF 2] lview_phase s1)
  have lt: "life t = life s7" by (simp add: t)
  note frame = initialize_and_prepare_frame[OF 7]
  show "lview d t = lview d s" if "c \<noteq> d" using frame(1)[OF that] v6[of d] that by (simp add: lview_life[OF lt])
  show "ConsumerId t = ConsumerId s + 1"
    using frame(2) lifeD[OF 2] lifeD[OF lt] by (simp add: SetInit_Ok[OF 6] s1_def SetConsumerPhase_def)
  have pre: "Prelaunched (GetConsumerPhase s6 c)" using v6[of c] lview_sel(1)[of c s6] by (simp add: Prelaunched_def)
  have "view_ok (lview c s7)" "Prelaunched (GetConsumerPhase s7 c)"
    using life_okD[OF s, of c] fresh v6[of c] lview_sel(1)[of c s] lview_sel(1)[of c s6]
    by (intro initialize_and_prepare_view[OF 7 pre]; simp add: view_ok_def)+
  then show "view_ok (lview c t)" "Prelaunched (GetConsumerPhase t c)"
    using lview_life[OF lt] lview_sel(1)[of c t] lview_sel(1)[of c s7] by simp_all
qed

lemma advance_Create:
  assumes run: "CreateConsumer k ctx msg s = Ok (c, t)"
  shows "advance s t"
  unfolding advance_def
proof (intro impI)
  assume s: "life_ok s"
  note V = CreateConsumer_view[OF run s]
  have ph: "GetConsumerPhase t d = GetConsumerPhase s d" if "c \<noteq> d" for d using V(3)[OF that] lview_sel(1) by metis
  have self: "phase_edge\<^sup>*\<^sup>* (GetConsumerPhase s c) (GetConsumerPhase t c)" using V(4,5) by (simp add: register_edges)
  show "life_ok t \<and> (\<forall>c. phase_edge\<^sup>*\<^sup>* (GetConsumerPhase s c) (GetConsumerPhase t c))"
    using self V(1,2,3,6) ph s unfolding life_ok_def by (metis Suc_eq_plus1 Suc_n_not_le_n le_SucI rtranclp.rtrancl_refl Suc_leD)
qed

lemma advance_RemoveConsumer: "RemoveConsumer k ctx signer c s = Ok t \<Longrightarrow> advance s t"
  by (auto simp: RemoveConsumer_def Let_def res_simps split: if_splits intro: advance_Delete advance_Stop)

subsection \<open>Evidence that pauses a consumer\<close>

lemma HandleChallenge_pauses:
  "HandleChallengeConsumerDowntime k v ctx msg s = Ok t \<Longrightarrow>
     PauseConsumerChain k ctx (chal_ConsumerId msg) PAUSE_REASON_DOWNTIME_CHALLENGE s = Ok t"
  unfolding HandleChallengeConsumerDowntime_def Let_def by (simp only: res_simps) blast

lemma HandleMisbehaviour_pauses:
  assumes "HandleConsumerMisbehaviour k v ctx c m s = Ok (addrs, t)"
  obtains w where "PauseConsumerChain k ctx c PAUSE_REASON_LIGHT_CLIENT_ATTACK (s\<lparr>world := w\<rparr>) = Ok t"
proof -
  obtain bs where run: "containLightClientAttack k v ctx c m bs s = Ok (addrs, t)"
    using assms by (auto simp: HandleConsumerMisbehaviour_def res_simps)
  then have bs: "None \<notin> set bs" by (rule contrapos_pn) (simp add: containLightClientAttack_def)
  obtain clientId s1 where s1: "(if GetClientStatus k (world s) clientId = Active
      then bind_res (of_option ErrPlain (UpdateClient v (world s) clientId m)) (\<lambda>w. Ok (s\<lparr>world := w\<rparr>)) else Ok s) = Ok s1"
    and p: "PauseConsumerChain k ctx c PAUSE_REASON_LIGHT_CLIENT_ATTACK s1 = Ok t"
    using run unfolding containLightClientAttack_def Let_def if_not_P[OF bs]
    by (simp only: res_simps res.inject prod.inject) blast
  have "\<exists>w. s1 = s\<lparr>world := w\<rparr>"
  proof (cases "GetClientStatus k (world s) clientId = Active")
    case False
    then have "s1 = s" using s1 by simp
    then show ?thesis by (intro exI[of _ "world s"]) simp
  qed (use s1 in \<open>auto simp: res_simps\<close>)
  then show thesis using p that by blast
qed

lemma advance_world: "advance s (s\<lparr>world := w\<rparr>)"
  by (rule advance_life) simp

subsection \<open>Every step\<close>

theorem provider_step_advance:
  assumes "provider_step k v s t" "unbonding_known k"
  shows "advance s t"
  using assms(1)
proof cases
  case (misbehaviour ctx c m)
  then obtain addrs where "HandleConsumerMisbehaviour k v ctx c m s = Ok (addrs, t)"
    by (auto simp: SubmitConsumerMisbehaviour_def res_simps)
  then show ?thesis using HandleMisbehaviour_pauses advance_Pause advance_world advance_trans by metis
next
  case (challenge ctx chal)
  then show ?thesis using HandleChallenge_pauses advance_Pause unfolding ChallengeConsumerDowntime_def by blast
next
  case (resume ctx auth c)
  then show ?thesis by (auto simp: ResumeConsumer_def res_simps intro: advance_Resume)
qed (use assms(2) in \<open>auto intro: advance_life life_step advance_BeginBlock advance_Create advance_Update
    advance_RemoveConsumer simp: life_frame advance_world\<close>)

end
