(* ===== verification/LifecycleMoves.thy ===== *)
theory LifecycleMoves
  imports LifecycleSteps
begin

text \<open>
  Which operation makes which move. Each hook of a block makes one kind of move and leaves the
  standing of every other consumer alone; a message moves the one consumer it names. Put together,
  they say of every step of the provider which phase of a consumer may follow which, by what and when.
\<close>

subsection \<open>The standing of a consumer\<close>

text \<open>What the later hooks of a block read of a consumer: its phase and its two deadlines.\<close>

definition standing :: "consumer_id \<Rightarrow> 'w pstate \<Rightarrow> ConsumerPhase \<times> time option \<times> time option" where
  "standing c s = (GetConsumerPhase s c, GetConsumerPauseExpirationTime s c, store_get (ConsumerRemovalTime s) c)"

lemma standing_view: "standing c s = (lv_phase (lview c s), lv_pause_end (lview c s), lv_removal (lview c s))"
  by (simp add: standing_def lview_sel)

lemma standing_eqD:
  assumes "standing c t = standing c s"
  shows "GetConsumerPhase t c = GetConsumerPhase s c"
    "GetConsumerPauseExpirationTime t c = GetConsumerPauseExpirationTime s c"
    "store_get (ConsumerRemovalTime t) c = store_get (ConsumerRemovalTime s) c"
  using assms by (simp_all add: standing_def)

lemma standing_life: "life t = life s \<Longrightarrow> standing c t = standing c s"
  using lview_life[of t s c] by (simp add: standing_view)

lemma phase_view: "lview c t = lview c s \<Longrightarrow> GetConsumerPhase t c = GetConsumerPhase s c"
  by (metis lview_sel(1))

text \<open>The removal of a stopped consumer waits for the staking module's unbonding time.\<close>

definition removal_after_unbonding :: "'w keeper \<Rightarrow> sdk_ctx \<Rightarrow> consumer_id \<Rightarrow> 'w pstate \<Rightarrow> bool" where
  "removal_after_unbonding k ctx c t \<longleftrightarrow>
     (\<exists>w u. UnbondingTime k w = Some u \<and> store_get (ConsumerRemovalTime t) c = Some (BlockTime ctx + u))"

definition due :: "sdk_ctx \<Rightarrow> time option \<Rightarrow> bool" where
  "due ctx deadline \<longleftrightarrow> (\<exists>x\<le>BlockTime ctx. deadline = Some x)"

lemma stop_removal:
  assumes "StopAndPrepareForConsumerRemoval k ctx c s = Ok t"
  shows "removal_after_unbonding k ctx c t"
proof -
  obtain u where "UnbondingTime k (world s) = Some u" "lv_removal (lview c t) = Some (BlockTime ctx + u)"
    using StopAndPrepare_Ok[OF assms] by metis
  then show ?thesis unfolding removal_after_unbonding_def lview_sel by blast
qed

subsection \<open>The hooks of a block\<close>

text \<open>In a loop over distinct ids a consumer has at most its own turn.\<close>

lemma own_turn [consumes 3, case_names out turn]:
  assumes "fold_res f ids s1 = Ok t" "distinct ids"
    and "\<forall>d u v. f d u = Ok v \<longrightarrow> d \<noteq> c \<longrightarrow> lview c v = lview c u"
  obtains (out) "lview c t = lview c s1"
  | (turn) u v where "c \<in> set ids" "lview c u = lview c s1" "f c u = Ok v" "lview c t = lview c v"
  using fold_res_local[OF assms(1,2), of c "lview c"] assms(3) by (auto split: if_splits)

lemma move_Launch:
  assumes run: "BeginBlockLaunchConsumers k ctx s = Ok t" and s: "life_ok s"
  shows "standing c t = standing c s \<or>
    GetConsumerPhase s c = CONSUMER_PHASE_INITIALIZED \<and> due ctx (lv_spawn (lview c s)) \<and>
    GetConsumerPhase t c \<in> {CONSUMER_PHASE_LAUNCHED, CONSUMER_PHASE_REGISTERED}"
proof -
  obtain ids q bonded where q: "ConsumeIdsFromTimeQueue ctx 200 (SpawnTimeToConsumerIds s) = (ids, q)"
    and run: "fold_res (launch_one k ctx bonded) ids (s\<lparr>SpawnTimeToConsumerIds := q\<rparr>) = Ok t"
    using run by (auto simp: BeginBlockLaunchConsumers_def Let_def res_simps split: prod.splits)
  note due = consume_due_ids[OF q life_ok_sched(1)[OF s]]
  have other: "\<forall>d u v. launch_one k ctx bonded d u = Ok v \<longrightarrow> d \<noteq> c \<longrightarrow> lview c v = lview c u"
    using launch_one_Ok(1) by blast
  from run due(1) other show ?thesis
  proof (cases rule: own_turn)
    case (turn u v)
    have "lv_phase (lview c v) \<in> {CONSUMER_PHASE_LAUNCHED, CONSUMER_PHASE_REGISTERED}"
      using launch_one_Ok(3)[OF turn(3)] by auto
    then show ?thesis using due(2)[OF turn(1)] turn(4) by (auto simp: due_def lview_sel(1)[symmetric])
  qed (simp add: standing_view lview_set_queues)
qed

lemma move_Remove:
  assumes run: "BeginBlockRemoveConsumers k ctx s = Ok t" and s: "life_ok s"
  shows "standing c t = standing c s \<or>
    GetConsumerPhase s c = CONSUMER_PHASE_STOPPED \<and> due ctx (store_get (ConsumerRemovalTime s) c) \<and>
    GetConsumerPhase t c = CONSUMER_PHASE_DELETED"
proof -
  let ?f = "\<lambda>c. in_cache (DeleteConsumerChain k c)"
  obtain ids q where q: "ConsumeIdsFromTimeQueue ctx 200 (RemovalTimeToConsumerIds s) = (ids, q)"
    and run: "fold_res ?f ids (s\<lparr>RemovalTimeToConsumerIds := q\<rparr>) = Ok t"
    using run by (auto simp: BeginBlockRemoveConsumers_def split: prod.splits)
  note due = consume_due_ids[OF q life_ok_sched(3)[OF s]]
  have one: "u = v \<or> DeleteConsumerChain k d u = Ok v" if "?f d u = Ok v" for d u v
    using that by (auto simp: in_cache_def split: res.splits)
  have other: "\<forall>d u v. ?f d u = Ok v \<longrightarrow> d \<noteq> c \<longrightarrow> lview c v = lview c u"
    using one DeleteConsumerChain_Ok(1) by metis
  from run due(1) other show ?thesis
  proof (cases rule: own_turn)
    case (turn u v)
    from one[OF turn(3)] show ?thesis
    proof
      assume "u = v"
      then show ?thesis using turn by (simp add: standing_view lview_set_queues)
    next
      assume "DeleteConsumerChain k c u = Ok v"
      then have "GetConsumerPhase t c = CONSUMER_PHASE_DELETED" using DeleteConsumerChain_Ok(3) phase_view[OF turn(4)] by metis
      then show ?thesis using due(2)[OF turn(1)] by (auto simp: due_def lview_sel)
    qed
  qed (simp add: standing_view lview_set_queues)
qed

definition paused_or_kept :: "consumer_id \<Rightarrow> 'w pstate \<Rightarrow> 'w pstate \<Rightarrow> bool" where
  "paused_or_kept c s t \<longleftrightarrow> standing c t = standing c s \<or>
     GetConsumerPhase s c = CONSUMER_PHASE_LAUNCHED \<and> GetConsumerPhase t c = CONSUMER_PHASE_PAUSED"

interpretation pausing: kept_relation "paused_or_kept c" for c
  by unfold_locales (auto simp: paused_or_kept_def standing_def)

lemma pause_moves: "PauseConsumerChain k ctx d reason s = Ok t \<Longrightarrow> paused_or_kept c s t"
  using PauseConsumerChain_Ok[of k ctx d reason s t] by (cases "d = c") (auto simp: paused_or_kept_def standing_view)

lemma move_PauseFrozen: "paused_or_kept c s (PauseConsumersWithFrozenClients k ctx s)"
  unfolding PauseConsumersWithFrozenClients_def
  by (rule pausing.kept_fold)
    (auto simp: pause_frozen_def pausing.kept_refl intro: pause_moves split: option.splits res.splits)

lemma stop_turn:
  assumes "StopAndPrepareForConsumerRemoval k ctx c u = Ok v" "lview c t = lview c v"
  shows "GetConsumerPhase t c = CONSUMER_PHASE_STOPPED \<and> removal_after_unbonding k ctx c t"
  using stop_frame(3)[OF assms(1)] stop_removal[OF assms(1)] phase_view[OF assms(2)]
    arg_cong[OF assms(2), of lv_removal] by (simp add: removal_after_unbonding_def lview_sel)

lemma move_SweepUnresponsive:
  assumes k: "unbonding_known k" and run: "SweepUnresponsiveConsumers k ctx s = Ok t"
  shows "standing c t = standing c s \<or>
    GetConsumerPhase s c = CONSUMER_PHASE_LAUNCHED \<and> GetConsumerPhase t c = CONSUMER_PHASE_STOPPED \<and>
    removal_after_unbonding k ctx c t"
proof -
  obtain grace where run: "fold_res (sweep_unresponsive_one k ctx grace) (GetAllLaunchedConsumerIds s) s = Ok t"
    using run by (auto simp: SweepUnresponsiveConsumers_def res_simps)
  have one: "u = v \<or> StopAndPrepareForConsumerRemoval k ctx d u = Ok v"
    if "sweep_unresponsive_one k ctx grace d u = Ok v" for d u v
    using that stop_in_cache[OF k] by (auto simp: sweep_unresponsive_one_def split: if_splits)
  have other: "\<forall>d u v. sweep_unresponsive_one k ctx grace d u = Ok v \<longrightarrow> d \<noteq> c \<longrightarrow> lview c v = lview c u"
    using one stop_frame(1) by metis
  from run launched_ids(1) other show ?thesis
  proof (cases rule: own_turn)
    case (turn u v)
    then show ?thesis
      using one[OF turn(3)] stop_turn[OF _ turn(4)] launched_ids(2)[OF turn(1)] by (auto simp: standing_view)
  qed (simp add: standing_view)
qed

lemma move_AutoStop:
  assumes k: "unbonding_known k" and run: "BeginBlockAutoStopPausedConsumers k ctx s = Ok t" and s: "life_ok s"
  shows "standing c t = standing c s \<or>
    GetConsumerPhase s c = CONSUMER_PHASE_PAUSED \<and> due ctx (GetConsumerPauseExpirationTime s c) \<and>
    GetConsumerPhase t c = CONSUMER_PHASE_STOPPED \<and> removal_after_unbonding k ctx c t"
proof -
  obtain ids q where q: "ConsumeIdsFromTimeQueue ctx 200 (PauseExpirationTimeToConsumerIds s) = (ids, q)"
    and run: "fold_res (auto_stop_one k ctx) ids (s\<lparr>PauseExpirationTimeToConsumerIds := q\<rparr>) = Ok t"
    using run by (auto simp: BeginBlockAutoStopPausedConsumers_def split: prod.splits)
  note due = consume_due_ids[OF q life_ok_sched(2)[OF s]]
  have one: "u = v \<or> StopAndPrepareForConsumerRemoval k ctx d u = Ok v"
    if "auto_stop_one k ctx d u = Ok v" for d u v
    using that stop_in_cache[OF k] by (auto simp: auto_stop_one_def split: if_splits)
  have other: "\<forall>d u v. auto_stop_one k ctx d u = Ok v \<longrightarrow> d \<noteq> c \<longrightarrow> lview c v = lview c u"
    using one stop_frame(1) by metis
  from run due(1) other show ?thesis
  proof (cases rule: own_turn)
    case (turn u v)
    have due: "GetConsumerPhase s c = CONSUMER_PHASE_PAUSED \<and> due ctx (GetConsumerPauseExpirationTime s c)"
      using due(2)[OF turn(1)] by (auto simp: due_def lview_sel)
    have "standing c t = standing c s" if "u = v" using turn that by (simp add: standing_view lview_set_queues)
    then show ?thesis using one[OF turn(3)] stop_turn[OF _ turn(4)] due by blast
  qed (simp add: standing_view lview_set_queues)
qed

text \<open>
  What a block's start may do to a consumer: launch it or send it back when its spawn time is due,
  and in the same block pause or stop what was launched; pause or stop a launched one; stop a paused
  one whose pause is over; delete a stopped one whose removal is due.
\<close>

definition block_move :: "sdk_ctx \<Rightarrow> consumer_id \<Rightarrow> 'w pstate \<Rightarrow> ConsumerPhase \<Rightarrow> ConsumerPhase \<Rightarrow> bool" where
  "block_move ctx c s p q \<longleftrightarrow>
     p = CONSUMER_PHASE_INITIALIZED \<and> due ctx (map_option SpawnTime (GetConsumerInitializationParameters s c)) \<and>
       q \<in> {CONSUMER_PHASE_LAUNCHED, CONSUMER_PHASE_REGISTERED, CONSUMER_PHASE_PAUSED, CONSUMER_PHASE_STOPPED} \<or>
     p = CONSUMER_PHASE_LAUNCHED \<and> q \<in> {CONSUMER_PHASE_PAUSED, CONSUMER_PHASE_STOPPED} \<or>
     p = CONSUMER_PHASE_PAUSED \<and> due ctx (GetConsumerPauseExpirationTime s c) \<and> q = CONSUMER_PHASE_STOPPED \<or>
     p = CONSUMER_PHASE_STOPPED \<and> due ctx (store_get (ConsumerRemovalTime s) c) \<and> q = CONSUMER_PHASE_DELETED"

lemma move_BeginBlock:
  assumes k: "unbonding_known k" and run: "BeginBlock k ctx s = Ok t" and s: "life_ok s"
    and moved: "GetConsumerPhase s c \<noteq> GetConsumerPhase t c"
  shows "block_move ctx c s (GetConsumerPhase s c) (GetConsumerPhase t c) \<and>
    (GetConsumerPhase t c = CONSUMER_PHASE_STOPPED \<longrightarrow> removal_after_unbonding k ctx c t)"
  using run
proof (cases rule: BeginBlock_hooks)
  case (1 s1 s2 s4 s5)
  define s3 where "s3 = PauseConsumersWithFrozenClients k ctx s2"
  have ok1: "life_ok s1" using advance_BeginBlockLaunch[OF 1(1)] s by (simp add: advance_def)
  then have ok2: "life_ok s2" using advance_Remove[OF 1(2)] by (simp add: advance_def)
  then have "life_ok s3" using advance_PauseFrozen[of s2 k ctx] by (simp add: advance_def s3_def)
  then have ok4: "life_ok s4" using advance_SweepUnresponsive[OF k 1(3)] by (simp add: advance_def s3_def)
  have m2: "standing c s2 = standing c s \<or>
      GetConsumerPhase s c = CONSUMER_PHASE_INITIALIZED \<and> due ctx (lv_spawn (lview c s)) \<and>
        GetConsumerPhase s2 c \<in> {CONSUMER_PHASE_LAUNCHED, CONSUMER_PHASE_REGISTERED} \<or>
      GetConsumerPhase s c = CONSUMER_PHASE_STOPPED \<and> due ctx (store_get (ConsumerRemovalTime s) c) \<and>
        GetConsumerPhase s2 c = CONSUMER_PHASE_DELETED"
    using move_Launch[OF 1(1) s, of c] move_Remove[OF 1(2) ok1, of c] by (auto simp: standing_def)
  have m4: "standing c s4 = standing c s2 \<or> GetConsumerPhase s2 c = CONSUMER_PHASE_LAUNCHED \<and>
      (GetConsumerPhase s4 c = CONSUMER_PHASE_PAUSED \<or>
       GetConsumerPhase s4 c = CONSUMER_PHASE_STOPPED \<and> removal_after_unbonding k ctx c s4)"
    using move_PauseFrozen[of c s2 k ctx] move_SweepUnresponsive[OF k 1(3), of c] unfolding paused_or_kept_def
    by (auto simp: standing_def)
  have m5: "standing c s5 = standing c s2 \<or>
      GetConsumerPhase s2 c = CONSUMER_PHASE_LAUNCHED \<and> GetConsumerPhase s5 c = CONSUMER_PHASE_PAUSED \<or>
      GetConsumerPhase s5 c = CONSUMER_PHASE_STOPPED \<and> removal_after_unbonding k ctx c s5 \<and>
        (GetConsumerPhase s2 c = CONSUMER_PHASE_LAUNCHED \<or>
         GetConsumerPhase s2 c = CONSUMER_PHASE_PAUSED \<and> due ctx (GetConsumerPauseExpirationTime s2 c))"
    using m4 move_AutoStop[OF k 1(4) ok4, of c] by (auto simp: standing_def removal_after_unbonding_def)
  have t: "standing c t = standing c s5" by (rule standing_life[OF 1(5)])
  show ?thesis
    using m2 m5 t moved by (auto simp: standing_def removal_after_unbonding_def block_move_def lview_sel)
qed

subsection \<open>The messages\<close>

lemma move_Create:
  assumes "CreateConsumer k ctx msg s = Ok (d, t)" "life_ok s" "GetConsumerPhase s c \<noteq> GetConsumerPhase t c"
  shows "d = c \<and> GetConsumerPhase s c = CONSUMER_PHASE_UNSPECIFIED \<and> Prelaunched (GetConsumerPhase t c)"
  using CreateConsumer_view[OF assms(1,2)] phase_view assms(3) by metis

lemma move_Update:
  assumes "UpdateConsumer k ctx msg s = Ok t" "life_ok s" "GetConsumerPhase s c \<noteq> GetConsumerPhase t c"
  shows "uc_ConsumerId msg = c \<and> Prelaunched (GetConsumerPhase s c) \<and> Prelaunched (GetConsumerPhase t c)"
  using UpdateConsumer_view[OF assms(1)] phase_view life_okD[OF assms(2)] assms(3) by metis

lemma move_RemoveConsumer:
  assumes "RemoveConsumer k ctx signer d s = Ok t" "GetConsumerPhase s c \<noteq> GetConsumerPhase t c"
  shows "d = c \<and> (Prelaunched (GetConsumerPhase s c) \<and> GetConsumerPhase t c = CONSUMER_PHASE_DELETED \<or>
    signer = authority k \<and> GetConsumerPhase s c \<in> {CONSUMER_PHASE_LAUNCHED, CONSUMER_PHASE_PAUSED} \<and>
    GetConsumerPhase t c = CONSUMER_PHASE_STOPPED \<and> removal_after_unbonding k ctx c t)"
proof -
  consider (delete) "Prelaunched (GetConsumerPhase s d)" "DeleteConsumerChain k d s = Ok t"
    | (stop) "signer = authority k" "GetConsumerPhase s d \<in> {CONSUMER_PHASE_LAUNCHED, CONSUMER_PHASE_PAUSED}"
        "StopAndPrepareForConsumerRemoval k ctx d s = Ok t"
    using assms(1) by (auto simp: RemoveConsumer_def Let_def res_simps split: if_splits)
  then show ?thesis
  proof cases
    case delete
    have "d = c" using DeleteConsumerChain_Ok(1)[OF delete(2)] phase_view assms(2) by metis
    then show ?thesis using delete DeleteConsumerChain_Ok(3)[OF delete(2)] by simp
  next
    case stop
    have "d = c" using stop_frame(1)[OF stop(3)] phase_view assms(2) by metis
    then show ?thesis using stop stop_turn[OF stop(3) refl] by simp
  qed
qed

lemma move_Pause:
  assumes "PauseConsumerChain k ctx d reason s = Ok t" "GetConsumerPhase s c \<noteq> GetConsumerPhase t c"
  shows "d = c \<and> GetConsumerPhase s c = CONSUMER_PHASE_LAUNCHED \<and> GetConsumerPhase t c = CONSUMER_PHASE_PAUSED"
  using PauseConsumerChain_Ok[OF assms(1)] phase_view assms(2) by metis

lemma move_Resume:
  assumes "ResumeConsumer k ctx auth d s = Ok t" "GetConsumerPhase s c \<noteq> GetConsumerPhase t c"
  shows "d = c \<and> auth = authority k \<and> GetConsumerPhase s c = CONSUMER_PHASE_PAUSED \<and> GetConsumerPhase t c = CONSUMER_PHASE_LAUNCHED"
proof -
  have "ResumeConsumerChain k ctx d s = Ok t" "auth = authority k"
    using assms(1) by (auto simp: ResumeConsumer_def res_simps)
  then show ?thesis using ResumeConsumerChain_Ok[of k ctx d s t] phase_view assms(2) by metis
qed

lemma move_Misbehaviour:
  assumes "SubmitConsumerMisbehaviour k v ctx d m s = Ok t" "GetConsumerPhase s c \<noteq> GetConsumerPhase t c"
  shows "d = c \<and> GetConsumerPhase s c = CONSUMER_PHASE_LAUNCHED \<and> GetConsumerPhase t c = CONSUMER_PHASE_PAUSED"
proof -
  obtain addrs where "HandleConsumerMisbehaviour k v ctx d m s = Ok (addrs, t)"
    using assms(1) by (auto simp: SubmitConsumerMisbehaviour_def res_simps)
  then obtain w where p: "PauseConsumerChain k ctx d PAUSE_REASON_LIGHT_CLIENT_ATTACK (s\<lparr>world := w\<rparr>) = Ok t"
    by (rule HandleMisbehaviour_pauses)
  show ?thesis using move_Pause[OF p, of c] assms(2) by (simp add: GetConsumerPhase_def)
qed

lemma move_Challenge:
  assumes "ChallengeConsumerDowntime k v ctx chal s = Ok t" "GetConsumerPhase s c \<noteq> GetConsumerPhase t c"
  shows "chal_ConsumerId chal = c \<and> GetConsumerPhase s c = CONSUMER_PHASE_LAUNCHED \<and>
    GetConsumerPhase t c = CONSUMER_PHASE_PAUSED"
  using move_Pause[OF HandleChallenge_pauses assms(2)] assms(1) by (simp add: ChallengeConsumerDowntime_def)

subsection \<open>Every other step\<close>

text \<open>The steps that can move a consumer; all others keep the lifecycle state as it is.\<close>

lemma moving_steps [consumes 2, case_names block misbehaviour challenge create update remove resume]:
  assumes "provider_step k v s t" "GetConsumerPhase s c \<noteq> GetConsumerPhase t c"
  obtains (block) ctx where "BeginBlock k ctx s = Ok t"
  | (misbehaviour) ctx d m where "SubmitConsumerMisbehaviour k v ctx d m s = Ok t"
  | (challenge) ctx chal where "ChallengeConsumerDowntime k v ctx chal s = Ok t"
  | (create) ctx msg d where "CreateConsumer k ctx msg s = Ok (d, t)"
  | (update) ctx msg where "UpdateConsumer k ctx msg s = Ok t"
  | (remove) ctx signer d where "RemoveConsumer k ctx signer d s = Ok t"
  | (resume) ctx auth d where "ResumeConsumer k ctx auth d s = Ok t"
proof -
  have l: "life t \<noteq> life s" using assms(2) lifeD[of t s] by auto
  from assms(1) show thesis
    by cases (use l that in \<open>auto dest: life_step simp: life_frame\<close>)
qed

end
