(* ===== verification/LifecycleProps.thy ===== *)
theory LifecycleProps
  imports LifecycleMoves
begin

text \<open>
  What holds of the lifecycle in every state the provider can reach: the time queues agree with
  the phases, a consumer moves only along the edges of the state machine, and there is no way back
  from a launch, a stop or a deletion; and how a renaming before the launch turns the failure of one
  launch into an error of the block hook.
\<close>

subsection \<open>Reachable states\<close>

definition no_consumers :: "'w pstate \<Rightarrow> bool" where
  "no_consumers s \<longleftrightarrow> life s = life (blank_pstate (world s))"

inductive provider_reachable :: "'w keeper \<Rightarrow> 'w verifier \<Rightarrow> 'w pstate \<Rightarrow> bool"
  for k :: "'w keeper" and v :: "'w verifier" where
  start: "no_consumers s \<Longrightarrow> provider_reachable k v s"
| step: "provider_reachable k v s \<Longrightarrow> provider_step k v s t \<Longrightarrow> provider_reachable k v t"

lemma life_ok_start: "no_consumers s \<Longrightarrow> life_ok s"
proof -
  have "life_ok (blank_pstate (world s))"
    by (simp add: life_ok_def view_ok_def lview_def blank_pstate_def GetConsumerPhase_def sched_empty)
  then show "no_consumers s \<Longrightarrow> life_ok s" using life_ok_frame[of s "blank_pstate (world s)"] by (simp add: no_consumers_def)
qed

lemma reachable_life_ok:
  assumes "provider_reachable k v s" "unbonding_known k"
  shows "life_ok s"
  using assms(1)
proof induction
  case (step s t)
  then show ?case using provider_step_advance[OF step.hyps(2) assms(2)] by (simp add: advance_def)
qed (rule life_ok_start)

interpretation provider_run: step_contract advance "\<lambda>s t. unbonding_known k \<and> provider_step k v s t" for k v
  by unfold_locales (blast intro: provider_step_advance)

lemma steps_phases:
  assumes "(provider_step k v)\<^sup>*\<^sup>* s t" "life_ok s" "unbonding_known k"
  shows "life_ok t \<and> phase_edge\<^sup>*\<^sup>* (GetConsumerPhase s c) (GetConsumerPhase t c)"
  using provider_run.steps_kept[of k v s t] assms by (simp add: advance_def)

lemma phase_edge_closed:
  "phase_edge p q \<Longrightarrow> p = CONSUMER_PHASE_DELETED \<Longrightarrow> q = CONSUMER_PHASE_DELETED"
  "phase_edge p q \<Longrightarrow> p \<in> {CONSUMER_PHASE_STOPPED, CONSUMER_PHASE_DELETED} \<Longrightarrow> q \<in> {CONSUMER_PHASE_STOPPED, CONSUMER_PHASE_DELETED}"
  "phase_edge p q \<Longrightarrow> p \<noteq> CONSUMER_PHASE_UNSPECIFIED \<and> \<not> Prelaunched p \<Longrightarrow> q \<noteq> CONSUMER_PHASE_UNSPECIFIED \<and> \<not> Prelaunched q"
  by (auto elim!: phase_edge.cases simp: Prelaunched_def)

lemma closed_rtranclp: "R\<^sup>*\<^sup>* x y \<Longrightarrow> (\<And>x y. R x y \<Longrightarrow> P x \<Longrightarrow> P y) \<Longrightarrow> P x \<Longrightarrow> P y"
  by (induction rule: rtranclp_induct) auto

lemma distinct_count: "(\<And>c. count_list xs c \<le> 1) \<Longrightarrow> distinct xs"
proof (induction xs)
  case (Cons x xs)
  have "count_list xs c \<le> 1" for c using Cons.prems[of c] by (simp split: if_splits)
  moreover have "x \<notin> set xs" using Cons.prems[of x] by (simp add: count_list_0_iff[symmetric])
  ultimately show ?case using Cons.IH by simp
qed simp

lemma sched_queue:
  assumes "\<And>c. sched q c (if P c then f c else None)"
  shows "distinct (flat_ids q)" "c \<in> set (bucket q x) \<longleftrightarrow> P c \<and> f c = Some x"
proof -
  show "distinct (flat_ids q)"
    by (rule distinct_count) (use assms in \<open>auto simp: sched_def split: if_splits\<close>)
  show "c \<in> set (bucket q x) \<longleftrightarrow> P c \<and> f c = Some x" using assms[of c] by (auto simp: sched_def split: if_splits)
qed

subsection \<open>An example\<close>

definition ex_life_keeper :: "unit keeper" where
  "ex_life_keeper = blank_keeper\<lparr>UnbondingTime := (\<lambda>_. Some (21 * 24 * 3600 * 10 ^ 9)),
     DecFromStr := (\<lambda>_. Some (66 * 10 ^ 16)), GetBondedValidatorsByPower := (\<lambda>_. Some []), MaxValidators := (\<lambda>_. Some 100),
     ParseChainID := (\<lambda>chainId. if chainId = ''shop-1'' then 1 else if chainId = ''shop-2'' then 2 else 0),
     GetClientState := (\<lambda>_ clientId. if clientId = ''07-tendermint-0''
        then Some (TmClient \<lparr>tm_ChainId = ''shop-1'', tm_LatestHeight = (1, 5), tm_TrustingPeriod = 14 * 24 * 3600 * 10 ^ 9,
          tm_UnbondingPeriod = 21 * 24 * 3600 * 10 ^ 9, tm_MaxClockDrift = 10 * 10 ^ 9\<rparr>) else None),
     GetClientStatus := (\<lambda>_ _. Active), GetClientCounterparty := (\<lambda>_ _. Some ''08-provider'')\<rparr>"

definition ex_life_ctx :: "time \<Rightarrow> sdk_ctx" where
  "ex_life_ctx t = \<lparr>BlockTime = t, BlockHeight = 7, ChainID = ''provider-1''\<rparr>"

definition ex_life_start :: "unit pstate" where
  "ex_life_start = (blank_pstate ())\<lparr>Params := DefaultParams, InfractionParams := DefaultInfractionParameters\<rparr>"

text \<open>The owner registers the chain \<^verbatim>\<open>shop-1\<close>, to be launched at time 1000.\<close>

definition ex_create :: MsgCreateConsumer where
  "ex_create = \<lparr>cc_Submitter = ''owner'', cc_ChainId = ''shop-1'',
     cc_Metadata = \<lparr>meta_Name = ''shop'', meta_Description = ''a shop'', meta_Metadata = ''-''\<rparr>,
     cc_InitializationParameters = Some ((DefaultConsumerInitializationParameters ex_life_keeper)\<lparr>SpawnTime := 1000\<rparr>)\<rparr>"

definition ex_registered :: "unit pstate" where
  "ex_registered = SetConsumerMetadata 0 (cc_Metadata ex_create) (SetConsumerPhase 0 CONSUMER_PHASE_REGISTERED
     (SetConsumerChainId 0 ''shop-1'' (SetConsumerOwnerAddress 0 ''owner'' (ex_life_start\<lparr>ConsumerId := 1\<rparr>))))"

definition ex_init_params :: ConsumerInitializationParameters where
  "ex_init_params = (DefaultConsumerInitializationParameters ex_life_keeper)\<lparr>SpawnTime := 1000\<rparr>"

definition ex_created :: "unit pstate" where
  "ex_created = (let s7 = value_or ex_registered (initialize_and_prepare 0 zero_time
       (value_or ex_registered (SetConsumerInitializationParameters ex_life_keeper 0 ex_init_params ex_registered)))
     in s7\<lparr>FeePoolAddressToConsumerId := store_set (GetConsumerFeePoolAddress ex_life_keeper 0) 0 (FeePoolAddressToConsumerId s7)\<rparr>)"

lemma value_or_Ok: "is_ok r \<Longrightarrow> r = Ok (value_or d r)"
  by (cases r) simp_all

lemma CreateConsumer_OkI:
  assumes "c = ConsumerId s" "s2 = SetConsumerOwnerAddress c (cc_Submitter msg) (s\<lparr>ConsumerId := c + 1\<rparr>)"
    "ValidateConsumerChainIdFree ctx (cc_ChainId msg) s2 = Ok ()"
    "s5 = SetConsumerMetadata c (cc_Metadata msg) (SetConsumerPhase c CONSUMER_PHASE_REGISTERED (SetConsumerChainId c (cc_ChainId msg) s2))"
    "cc_InitializationParameters msg = Some ps" "validateConsumerInitParams k ps s5 = Ok ()"
    "SetConsumerInitializationParameters k c ps s5 = Ok s6" "initialize_and_prepare c zero_time s6 = Ok s7"
  shows "CreateConsumer k ctx msg s = Ok (c, s7\<lparr>FeePoolAddressToConsumerId :=
     store_set (GetConsumerFeePoolAddress k c) c (FeePoolAddressToConsumerId s7)\<rparr>)"
  using assms by (simp add: CreateConsumer_def FetchAndIncrementConsumerId_def Let_def as_error_def)

lemma ex_created_step: "CreateConsumer ex_life_keeper (ex_life_ctx 100) ex_create ex_life_start = Ok (0, ex_created)"
proof -
  have free: "ValidateConsumerChainIdFree (ex_life_ctx 100) ''shop-1'' (SetConsumerOwnerAddress 0 ''owner'' (ex_life_start\<lparr>ConsumerId := 1\<rparr>)) = Ok ()"
    by code_simp
  have valid: "validateConsumerInitParams ex_life_keeper ex_init_params ex_registered = Ok ()" by code_simp
  have set: "SetConsumerInitializationParameters ex_life_keeper 0 ex_init_params ex_registered =
      Ok (value_or ex_registered (SetConsumerInitializationParameters ex_life_keeper 0 ex_init_params ex_registered))"
    by (rule value_or_Ok) code_simp
  have prep: "initialize_and_prepare 0 zero_time
        (value_or ex_registered (SetConsumerInitializationParameters ex_life_keeper 0 ex_init_params ex_registered)) =
      Ok (value_or ex_registered (initialize_and_prepare 0 zero_time
        (value_or ex_registered (SetConsumerInitializationParameters ex_life_keeper 0 ex_init_params ex_registered))))"
    by (rule value_or_Ok) code_simp
  have c: "ConsumerId ex_life_start = 0" by (simp add: ex_life_start_def blank_pstate_def)
  show ?thesis unfolding ex_created_def Let_def
    by (rule CreateConsumer_OkI[OF _ refl _ _ _ valid set prep])
      (simp_all add: free[simplified] ex_registered_def ex_create_def ex_init_params_def c)
qed

lemma ex_life_reachable:
  "unbonding_known ex_life_keeper" "provider_reachable ex_life_keeper v ex_life_start"
  "provider_reachable ex_life_keeper v ex_created"
proof -
  show "unbonding_known ex_life_keeper" by (simp add: unbonding_known_def ex_life_keeper_def)
  show s: "provider_reachable ex_life_keeper v ex_life_start"
    by (rule start) (simp add: no_consumers_def ex_life_start_def blank_pstate_def life_def)
  show "provider_reachable ex_life_keeper v ex_created"
    using provider_step.create[OF ex_created_step] by (rule step[OF s])
qed

subsection \<open>Properties\<close>

text \<open>
  C7. The queues agree with the phases. In every reachable state a consumer stands in the launch queue
  exactly when it is initialized, under its spawn time, in the auto-stop queue exactly when it is
  paused, under the end of its pause, in the removal queue exactly when it is stopped, under its
  removal time; no queue holds an id twice; and the three times are set in these phases, so a
  paused or stopped consumer is never forgotten.
\<close>

theorem queues_agree_with_phases:
  assumes "provider_reachable k v s" "unbonding_known k"
  shows "distinct (flat_ids (SpawnTimeToConsumerIds s)) \<and> distinct (flat_ids (PauseExpirationTimeToConsumerIds s)) \<and>
    distinct (flat_ids (RemovalTimeToConsumerIds s)) \<and>
    (c \<in> set (bucket (SpawnTimeToConsumerIds s) x) \<longleftrightarrow> GetConsumerPhase s c = CONSUMER_PHASE_INITIALIZED \<and>
       map_option SpawnTime (GetConsumerInitializationParameters s c) = Some x) \<and>
    (c \<in> set (bucket (PauseExpirationTimeToConsumerIds s) x) \<longleftrightarrow> GetConsumerPhase s c = CONSUMER_PHASE_PAUSED \<and>
       GetConsumerPauseExpirationTime s c = Some x) \<and>
    (c \<in> set (bucket (RemovalTimeToConsumerIds s) x) \<longleftrightarrow> GetConsumerPhase s c = CONSUMER_PHASE_STOPPED \<and>
       store_get (ConsumerRemovalTime s) c = Some x) \<and>
    (GetConsumerPhase s c = CONSUMER_PHASE_PAUSED \<longleftrightarrow> GetConsumerPauseExpirationTime s c \<noteq> None) \<and>
    (GetConsumerPhase s c = CONSUMER_PHASE_STOPPED \<longleftrightarrow> store_get (ConsumerRemovalTime s) c \<noteq> None)"
proof -
  have s: "life_ok s" using reachable_life_ok[OF assms] .
  note q = life_ok_sched[OF s, unfolded lview_sel]
  show ?thesis
    using life_okD[OF s, of c] unfolding view_ok_def lview_sel
    by (intro conjI sched_queue[OF q(1)] sched_queue[OF q(2)] sched_queue[OF q(3)]) blast+
qed

theorem queues_agree_with_phases_witness:
  "provider_reachable ex_life_keeper blank_verifier ex_created \<and> unbonding_known ex_life_keeper \<and>
   0 \<in> set (bucket (SpawnTimeToConsumerIds ex_created) 1000) \<and>
   GetConsumerPhase ex_created 0 = CONSUMER_PHASE_INITIALIZED"
proof -
  have "0 \<in> set (bucket (SpawnTimeToConsumerIds ex_created) 1000)" by code_simp
  then show ?thesis
    using queues_agree_with_phases[OF ex_life_reachable(3,1), where c = 0 and x = 1000] ex_life_reachable by blast
qed

text \<open>
  C8. The state machine of a consumer, step by step: whatever block hook, packet, message or staking
  hook the provider runs, a consumer that changes its phase does so in one of these ways and in no
  other. It is registered by \<^verbatim>\<open>MsgCreateConsumer\<close>; before its launch the owner's
  \<^verbatim>\<open>MsgUpdateConsumer\<close> moves it between registered and initialized, and a removal of it by
  \<^verbatim>\<open>MsgRemoveConsumer\<close> deletes it; governance alone resumes it from its pause; a downtime
  challenge or a misbehaviour that names it pauses it, if it was launched; governance alone stops it by
  a message, from launched or paused, and then the removal time is set an unbonding period ahead. All
  else is done by the start of a block: it launches an initialized consumer, or sends it back to
  registered, once its spawn time is due (the later hooks of the same block may already pause
  or stop what was launched); it pauses or stops a launched one; it stops a paused one once its pause is
  over; and it deletes a stopped one once its removal time has come. So a launched consumer is never deleted
  but from the stopped phase, after its removal time, and a stop by a block schedules the removal too.
\<close>

theorem phases_follow_the_state_machine:
  assumes "provider_reachable k v s" "unbonding_known k" "provider_step k v s t"
    and p: "p = GetConsumerPhase s c" and q: "q = GetConsumerPhase t c" and "p \<noteq> q"
  shows "(p = CONSUMER_PHASE_UNSPECIFIED \<and> Prelaunched q \<and> (\<exists>ctx msg. CreateConsumer k ctx msg s = Ok (c, t))) \<or>
    (Prelaunched p \<and> Prelaunched q \<and> (\<exists>ctx msg. uc_ConsumerId msg = c \<and> UpdateConsumer k ctx msg s = Ok t)) \<or>
    (Prelaunched p \<and> q = CONSUMER_PHASE_DELETED \<and> (\<exists>ctx signer. RemoveConsumer k ctx signer c s = Ok t)) \<or>
    (p = CONSUMER_PHASE_PAUSED \<and> q = CONSUMER_PHASE_LAUNCHED \<and> (\<exists>ctx. ResumeConsumer k ctx (authority k) c s = Ok t)) \<or>
    (p = CONSUMER_PHASE_LAUNCHED \<and> q = CONSUMER_PHASE_PAUSED \<and>
       ((\<exists>ctx chal. chal_ConsumerId chal = c \<and> ChallengeConsumerDowntime k v ctx chal s = Ok t) \<or>
        (\<exists>ctx m. SubmitConsumerMisbehaviour k v ctx c m s = Ok t))) \<or>
    (p \<in> {CONSUMER_PHASE_LAUNCHED, CONSUMER_PHASE_PAUSED} \<and> q = CONSUMER_PHASE_STOPPED \<and>
       (\<exists>ctx. RemoveConsumer k ctx (authority k) c s = Ok t \<and> removal_after_unbonding k ctx c t)) \<or>
    (\<exists>ctx. BeginBlock k ctx s = Ok t \<and> block_move ctx c s p q \<and>
       (q = CONSUMER_PHASE_STOPPED \<longrightarrow> removal_after_unbonding k ctx c t))"
proof -
  have s: "life_ok s" using reachable_life_ok[OF assms(1,2)] .
  have moved: "GetConsumerPhase s c \<noteq> GetConsumerPhase t c" using assms(6) p q by simp
  from assms(3) moved show ?thesis
  proof (cases rule: moving_steps)
    case (block ctx)
    then show ?thesis using move_BeginBlock[OF assms(2) block s moved] p q by blast
  next
    case (misbehaviour ctx d m)
    then show ?thesis using move_Misbehaviour[OF misbehaviour moved] p q by blast
  next
    case (challenge ctx chal)
    then show ?thesis using move_Challenge[OF challenge moved] p q by blast
  next
    case (create ctx msg d)
    then show ?thesis using move_Create[OF create s moved] p q by blast
  next
    case (update ctx msg)
    then show ?thesis using move_Update[OF update s moved] p q by blast
  next
    case (remove ctx signer d)
    then show ?thesis using move_RemoveConsumer[OF remove moved] p q by blast
  next
    case (resume ctx auth d)
    then show ?thesis using move_Resume[OF resume moved] p q by blast
  qed
qed

text \<open>
  C9. What is final. Once a consumer has been launched, no further sequence of steps brings it back
  before its launch; once stopped, it is never validated again; once deleted, it stays deleted,
  and its id is never given to another consumer.
\<close>

theorem no_way_back:
  assumes "provider_reachable k v s" "unbonding_known k" "(provider_step k v)\<^sup>*\<^sup>* s t"
  shows "(GetConsumerPhase s c = CONSUMER_PHASE_DELETED \<longrightarrow> GetConsumerPhase t c = CONSUMER_PHASE_DELETED) \<and>
    (GetConsumerPhase s c = CONSUMER_PHASE_STOPPED \<longrightarrow>
       GetConsumerPhase t c = CONSUMER_PHASE_STOPPED \<or> GetConsumerPhase t c = CONSUMER_PHASE_DELETED) \<and>
    (GetConsumerPhase s c = CONSUMER_PHASE_LAUNCHED \<longrightarrow>
       \<not> Prelaunched (GetConsumerPhase t c) \<and> GetConsumerPhase t c \<noteq> CONSUMER_PHASE_UNSPECIFIED)"
proof -
  have e: "phase_edge\<^sup>*\<^sup>* (GetConsumerPhase s c) (GetConsumerPhase t c)"
    using steps_phases[OF assms(3) reachable_life_ok[OF assms(1,2)] assms(2)] by blast
  show ?thesis
    using closed_rtranclp[OF e, where P = "\<lambda>p. p = CONSUMER_PHASE_DELETED"]
      closed_rtranclp[OF e, where P = "\<lambda>p. p \<in> {CONSUMER_PHASE_STOPPED, CONSUMER_PHASE_DELETED}"]
      closed_rtranclp[OF e, where P = "\<lambda>p. p \<noteq> CONSUMER_PHASE_UNSPECIFIED \<and> \<not> Prelaunched p"] phase_edge_closed
    by (auto simp: Prelaunched_def)
qed

lemma RemoveConsumer_unlaunched:
  assumes "store_has (phase_of s) c" "GetConsumerChainId s c = Some chainId" "GetConsumerPhase s c = CONSUMER_PHASE_INITIALIZED"
    "GetConsumerOwnerAddress s c = Some signer"
    "map_option SpawnTime (GetConsumerInitializationParameters s c) = Some x"
    "RemoveConsumerToBeLaunched c x s = Ok s1" "SweepConsumerFeePool k c [] s1 = Ok s2"
  shows "RemoveConsumer k ctx signer c s = Ok (erase_consumer k c s2)"
  using assms by (auto simp: RemoveConsumer_def DeleteConsumerChain_eq Let_def Prelaunched_def EqualFold_def as_error_def)

text \<open>
  A launch that fails is undone by clearing the spawn time, and that write checks the initial height
  against the chain id again. Renaming a registered chain does not, so after a renaming that changes
  the revision the failure of one launch is returned from the block's start, for all consumers.
\<close>

lemma failed_launch_after_renaming:
  assumes "LaunchConsumer k ctx bonded c s = Err e" "GetConsumerInitializationParameters s c = Some ps"
    "GetConsumerPhase s c \<noteq> CONSUMER_PHASE_DELETED" "GetConsumerChainId s c = Some chainId"
    "ValidateInitialHeight k (InitialHeight ps) chainId = Err e'"
  shows "launch_one k ctx bonded c s = Err e'"
  using assms by (simp add: launch_one_def SetConsumerInitializationParameters_def)

definition ex_unqueued :: "unit pstate" where
  "ex_unqueued = value_or ex_created (RemoveConsumerToBeLaunched 0 1000 ex_created)"

definition ex_deleted :: "unit pstate" where
  "ex_deleted = erase_consumer ex_life_keeper 0 (value_or ex_unqueued (SweepConsumerFeePool ex_life_keeper 0 [] ex_unqueued))"

lemma value_or_field: "(\<And>t. r = Ok t \<Longrightarrow> f t = f d) \<Longrightarrow> f (value_or d r) = f d"
  by (cases r) simp_all

lemma shares_kept:
  "SetConsumerInitializationParameters k c ps s = Ok t \<Longrightarrow> ConsumerFeePoolTotalShares t = ConsumerFeePoolTotalShares s"
  "RemoveConsumerToBeLaunched c x s = Ok t \<Longrightarrow> ConsumerFeePoolTotalShares t = ConsumerFeePoolTotalShares s"
  by (auto simp: SetConsumerInitializationParameters_def RemoveConsumerToBeLaunched_def bind_res_Ok_iff)

lemma prepare_keeps_shares:
  assumes "initialize_and_prepare c x s = Ok t"
  shows "ConsumerFeePoolTotalShares t = ConsumerFeePoolTotalShares s"
proof (cases "InitializeConsumer c s")
  case (Pair spawn s1)
  then have s1: "ConsumerFeePoolTotalShares s1 = ConsumerFeePoolTotalShares s"
    by (auto simp: InitializeConsumer_def Let_def SetConsumerPhase_def split: if_splits option.splits)
  show ?thesis
  proof (cases spawn)
    case (Some y)
    then obtain s2 where "(if x \<noteq> zero_time then RemoveConsumerToBeLaunched c x s1 else Ok s1) = Ok s2"
      "t = AppendConsumerToBeLaunched c y s2"
      using assms Pair by (auto simp: initialize_and_prepare_def PrepareConsumerForLaunch_def as_error_Ok_iff bind_res_Ok_iff)
    then show ?thesis using s1
      by (auto simp: AppendConsumerToBeLaunched_def split: if_split_asm dest: shares_kept(2))
  qed (use assms Pair s1 in \<open>simp add: initialize_and_prepare_def\<close>)
qed

lemma ex_unqueued_shares: "ConsumerFeePoolTotalShares ex_unqueued = empty_store"
proof -
  have "ConsumerFeePoolTotalShares ex_registered = empty_store"
    by (simp add: ex_registered_def SetConsumerMetadata_def SetConsumerPhase_def SetConsumerChainId_def
        SetConsumerOwnerAddress_def ex_life_start_def blank_pstate_def)
  moreover define s6 where
    "s6 = value_or ex_registered (SetConsumerInitializationParameters ex_life_keeper 0 ex_init_params ex_registered)"
  have "ConsumerFeePoolTotalShares s6 = ConsumerFeePoolTotalShares ex_registered"
    unfolding s6_def by (rule value_or_field) (rule shares_kept(1))
  moreover have "ConsumerFeePoolTotalShares ex_created = ConsumerFeePoolTotalShares ex_registered"
    using prepare_keeps_shares[of 0 zero_time s6] \<open>ConsumerFeePoolTotalShares s6 = _\<close>
    unfolding ex_created_def Let_def s6_def[symmetric] by (simp add: value_or_field)
  moreover have "ConsumerFeePoolTotalShares ex_unqueued = ConsumerFeePoolTotalShares ex_created"
    unfolding ex_unqueued_def by (rule value_or_field) (rule shares_kept(2))
  ultimately show ?thesis by simp
qed

lemma ex_deleted_step: "RemoveConsumer ex_life_keeper (ex_life_ctx 200) ''owner'' 0 ex_created = Ok ex_deleted"
  unfolding ex_deleted_def
proof (rule RemoveConsumer_unlaunched)
  show "store_has (phase_of ex_created) 0" by code_simp
  show "GetConsumerChainId ex_created 0 = Some ''shop-1''" by code_simp
  show "GetConsumerPhase ex_created 0 = CONSUMER_PHASE_INITIALIZED" by code_simp
  show "GetConsumerOwnerAddress ex_created 0 = Some ''owner''" by code_simp
  show "map_option SpawnTime (GetConsumerInitializationParameters ex_created 0) = Some 1000" by code_simp
  show "RemoveConsumerToBeLaunched 0 1000 ex_created = Ok ex_unqueued"
    unfolding ex_unqueued_def by (rule value_or_Ok) code_simp
  show "SweepConsumerFeePool ex_life_keeper 0 [] ex_unqueued =
      Ok (value_or ex_unqueued (SweepConsumerFeePool ex_life_keeper 0 [] ex_unqueued))"
  proof -
    have "sweep_denoms ex_life_keeper 0 ex_unqueued = []"
      by (simp add: sweep_denoms_def store_range_def ex_unqueued_shares ex_life_keeper_def blank_keeper_def)
    then show ?thesis by (simp add: SweepConsumerFeePool_def)
  qed
qed

lemma ex_deleted_phase: "GetConsumerPhase ex_deleted 0 = CONSUMER_PHASE_DELETED"
  using lview_erase[of 0 ex_life_keeper 0] lview_sel(1)[of 0 ex_deleted] by (simp add: ex_deleted_def)

theorem phases_follow_the_state_machine_witness:
  "provider_reachable ex_life_keeper blank_verifier ex_created \<and> unbonding_known ex_life_keeper \<and>
   provider_step ex_life_keeper blank_verifier ex_created ex_deleted \<and>
   GetConsumerPhase ex_created 0 = CONSUMER_PHASE_INITIALIZED \<and> GetConsumerPhase ex_deleted 0 = CONSUMER_PHASE_DELETED \<and>
   (\<exists>ctx signer. RemoveConsumer ex_life_keeper ctx signer 0 ex_created = Ok ex_deleted)"
proof -
  have st: "provider_step ex_life_keeper blank_verifier ex_created ex_deleted"
    by (rule provider_step.remove[OF ex_deleted_step])
  have p: "CONSUMER_PHASE_INITIALIZED = GetConsumerPhase ex_created 0" by code_simp
  show ?thesis
    using phases_follow_the_state_machine[OF ex_life_reachable(3,1) st p ex_deleted_phase[symmetric]]
      ex_life_reachable st p ex_deleted_phase
    by (simp add: block_move_def Prelaunched_def)
qed

theorem no_way_back_witness:
  "provider_step ex_life_keeper blank_verifier ex_created ex_deleted \<and>
   GetConsumerPhase ex_deleted 0 = CONSUMER_PHASE_DELETED \<and>
   GetConsumerPhase (OnTimeoutPacket ''07-tendermint-0'' ex_deleted) 0 = CONSUMER_PHASE_DELETED"
proof -
  have st: "provider_step ex_life_keeper blank_verifier ex_created ex_deleted"
    by (rule provider_step.remove[OF ex_deleted_step])
  have "(provider_step ex_life_keeper blank_verifier)\<^sup>*\<^sup>* ex_deleted (OnTimeoutPacket ''07-tendermint-0'' ex_deleted)"
    by (rule r_into_rtranclp) (rule provider_step.timeout)
  then show ?thesis
    using no_way_back[OF step[OF ex_life_reachable(3) st] ex_life_reachable(1), where c = 0] st ex_deleted_phase by blast
qed

end
