(* ===== verification/ProviderGenesis.thy ===== *)
theory ProviderGenesis
  imports LifecycleProps
begin

text \<open>
  The genesis of the provider: \<^verbatim>\<open>InitGenesis\<close>, \<^verbatim>\<open>InitGenesisValUpdates\<close> and \<^verbatim>\<open>ExportGenesis\<close> of
  \<^verbatim>\<open>x/vaas/provider/keeper/genesis.go\<close> with their helpers. A restart exports the state, starts from
  an empty store and imports what was exported. The theorem says what such a restart keeps: every
  collection but the validator sets of the consumers, with the time queues and the totals of the fee
  pools rebuilt.
\<close>

subsection \<open>The genesis file\<close>

text \<open>
  The state of one consumer. A pointer is an option, and so is \<^verbatim>\<open>ConsumerGenesis\<close>, whose zero value
  stands for its absence (\<^verbatim>\<open>reflect.DeepEqual\<close> with the empty struct, which no launch produces).
\<close>

record ConsumerState =
  co_ConsumerId :: consumer_id
  co_ChainId :: string
  co_Phase :: ConsumerPhase
  co_OwnerAddress :: string
  co_Metadata :: "ConsumerMetadata option"
  co_InitParams :: "ConsumerInitializationParameters option"
  co_ClientId :: string
  co_ConsumerGenesis :: "ConsumerGenesisState option"
  co_RemovalTime :: "time option"
  co_PauseExpirationTime :: "time option"
  co_PauseReason :: PauseReason
  co_PausedAt :: "time option"
  co_LastAckTime :: "time option"
  co_HighestSentVscId :: nat
  co_HighestAckedVscId :: nat
  co_InDebt :: bool
  co_PendingValsetChanges :: "ValidatorSetChangePacketData list"

record ConsumerFeePoolShare =
  fps_ConsumerId :: consumer_id
  fps_Depositor :: string
  fps_Denom :: denom
  fps_Shares :: int

record AcceptedDowntimeWindowRecord =
  adw_ConsumerId :: consumer_id
  adw_ProviderConsAddr :: addr
  adw_WindowEndHeight :: int
  adw_WindowStartHeight :: int
  adw_AcceptedAt :: time

record ProviderGenesisState =
  pg_ValsetUpdateId :: nat
  pg_ConsumerStates :: "ConsumerState list"
  pg_Params :: ProviderParams
  pg_ValidatorConsumerPubkeys :: "((consumer_id \<times> addr) \<times> pubkey) list"
  pg_ValidatorsByConsumerAddr :: "((consumer_id \<times> addr) \<times> addr) list"
  pg_ConsumerAddrsToPrune :: "((consumer_id \<times> time) \<times> addr list) list"
  pg_ConsumerFeesPerBlockOverrides :: "(consumer_id \<times> string) list"
  pg_ConsumerFeePoolShares :: "ConsumerFeePoolShare list"
  pg_PendingDowntimeSlashes :: "PendingDowntimeSlash list"
  pg_PreviousDowntimeParams :: "PrevDowntimeParams option"
  pg_EpochShareRecords :: "((consumer_id \<times> time) \<times> int) list"
  pg_InfractionParameters :: "InfractionParameters option"
  pg_WithheldFeeRecords :: "WithheldFeeRecord list"
  pg_AcceptedDowntimeWindows :: "AcceptedDowntimeWindowRecord list"
  pg_DowntimeWindowFloors :: "((consumer_id \<times> addr) \<times> int) list"
  pg_PunishedEquivocations :: "(string \<times> addr \<times> int) list"
  pg_EpochDowntimeEntries :: "(consumer_id \<times> addr) list"

definition NewProviderGenesisState ::
    "nat \<Rightarrow> ConsumerState list \<Rightarrow> ProviderParams \<Rightarrow> ((consumer_id \<times> addr) \<times> pubkey) list
       \<Rightarrow> ((consumer_id \<times> addr) \<times> addr) list \<Rightarrow> ((consumer_id \<times> time) \<times> addr list) list
       \<Rightarrow> (consumer_id \<times> string) list \<Rightarrow> ConsumerFeePoolShare list \<Rightarrow> ProviderGenesisState" where
  "NewProviderGenesisState vscID consumerStates params pubkeys byAddr toPrune overrides shares =
     \<lparr>pg_ValsetUpdateId = vscID, pg_ConsumerStates = consumerStates, pg_Params = params,
      pg_ValidatorConsumerPubkeys = pubkeys, pg_ValidatorsByConsumerAddr = byAddr,
      pg_ConsumerAddrsToPrune = toPrune, pg_ConsumerFeesPerBlockOverrides = overrides,
      pg_ConsumerFeePoolShares = shares, pg_PendingDowntimeSlashes = [], pg_PreviousDowntimeParams = None,
      pg_EpochShareRecords = [], pg_InfractionParameters = None, pg_WithheldFeeRecords = [],
      pg_AcceptedDowntimeWindows = [], pg_DowntimeWindowFloors = [], pg_PunishedEquivocations = [],
      pg_EpochDowntimeEntries = []\<rparr>"

subsection \<open>Import\<close>

text \<open>The first pass over the consumers, in three groups of setters; every error panics.\<close>

definition import_identity :: "ConsumerState \<Rightarrow> 'w pstate \<Rightarrow> 'w pstate" where
  "import_identity cs s0 =
     (let c = co_ConsumerId cs;
          s1 = (if co_ChainId cs \<noteq> '''' then SetConsumerChainId c (co_ChainId cs) s0 else s0);
          s2 = SetConsumerPhase c (co_Phase cs) s1;
          s3 = (if co_OwnerAddress cs \<noteq> '''' then SetConsumerOwnerAddress c (co_OwnerAddress cs) s2 else s2)
      in case co_Metadata cs of None \<Rightarrow> s3 | Some m \<Rightarrow> SetConsumerMetadata c m s3)"

definition import_lifecycle :: "ConsumerState \<Rightarrow> 'w pstate \<Rightarrow> 'w pstate" where
  "import_lifecycle cs s0 =
     (let c = co_ConsumerId cs;
          s1 = (case co_ConsumerGenesis cs of None \<Rightarrow> s0 | Some g \<Rightarrow> SetConsumerGenesis c g s0);
          s2 = (case co_RemovalTime cs of None \<Rightarrow> s1 | Some t \<Rightarrow> SetConsumerRemovalTime c t s1);
          s3 = (case co_PauseExpirationTime cs of None \<Rightarrow> s2 | Some t \<Rightarrow> SetConsumerPauseExpirationTime c t s2);
          s4 = (if co_PauseReason cs \<noteq> PAUSE_REASON_UNSPECIFIED
                then SetConsumerPauseReason c (co_PauseReason cs) s3 else s3)
      in case co_PausedAt cs of None \<Rightarrow> s4 | Some t \<Rightarrow> SetConsumerPausedAt c t s4)"

definition import_relay :: "ConsumerState \<Rightarrow> 'w pstate \<Rightarrow> 'w pstate" where
  "import_relay cs s0 =
     (let c = co_ConsumerId cs;
          s1 = (case co_LastAckTime cs of None \<Rightarrow> s0 | Some t \<Rightarrow> SetConsumerLastAckTime c t s0);
          s2 = (if co_HighestSentVscId cs \<noteq> 0
                then SetConsumerHighestSentVscId c (co_HighestSentVscId cs) s1 else s1);
          s3 = (if co_HighestAckedVscId cs \<noteq> 0
                then SetConsumerHighestAckedVscId c (co_HighestAckedVscId cs) s2 else s2);
          s4 = (if co_InDebt cs then SetConsumerInDebt c True s3 else s3)
      in if co_PendingValsetChanges cs \<noteq> []
         then AppendPendingVSCPackets c (co_PendingValsetChanges cs) s4 else s4)"

definition import_consumer :: "'w keeper \<Rightarrow> ConsumerState \<Rightarrow> 'w pstate \<Rightarrow> 'w pstate result" where
  "import_consumer k cs s =
     (let c = co_ConsumerId cs; s1 = import_identity cs s in
      bind_res (case co_InitParams cs of
          None \<Rightarrow> Ok s1
        | Some ps \<Rightarrow> (case SetConsumerInitializationParameters k c ps s1 of Ok t \<Rightarrow> Ok t | _ \<Rightarrow> Panic)) (\<lambda>s2.
      bind_res (if co_ClientId cs \<noteq> '''' then SetConsumerClientId c (co_ClientId cs) s2 else Ok s2) (\<lambda>s3.
      Ok (import_relay cs (import_lifecycle cs s3)))))"

text \<open>The second pass: the queues and the minimal height of equivocation evidence.\<close>

definition set_min_height :: "ConsumerState \<Rightarrow> 'w pstate \<Rightarrow> 'w pstate" where
  "set_min_height cs s =
     (case co_InitParams cs of
        None \<Rightarrow> s
      | Some ps \<Rightarrow> SetEquivocationEvidenceMinHeight (co_ConsumerId cs) (snd (InitialHeight ps)) s)"

definition derive_consumer :: "ConsumerState \<Rightarrow> 'w pstate \<Rightarrow> 'w pstate" where
  "derive_consumer cs s =
     (let c = co_ConsumerId cs in
      case co_Phase cs of
        CONSUMER_PHASE_INITIALIZED \<Rightarrow>
          (case co_InitParams cs of None \<Rightarrow> s | Some ps \<Rightarrow> AppendConsumerToBeLaunched c (SpawnTime ps) s)
      | CONSUMER_PHASE_LAUNCHED \<Rightarrow> set_min_height cs s
      | CONSUMER_PHASE_STOPPED \<Rightarrow>
          (case co_RemovalTime cs of None \<Rightarrow> set_min_height cs s
           | Some t \<Rightarrow> AppendConsumerToBeRemoved c t (set_min_height cs s))
      | CONSUMER_PHASE_PAUSED \<Rightarrow>
          (case co_PauseExpirationTime cs of None \<Rightarrow> set_min_height cs s
           | Some t \<Rightarrow> AppendConsumerToBeAutoStopped c t (set_min_height cs s))
      | _ \<Rightarrow> s)"

definition max_consumer_id :: "ConsumerState list \<Rightarrow> nat" where
  "max_consumer_id css = fold (\<lambda>cs m. if co_ConsumerId cs > m then co_ConsumerId cs else m) css 0"

text \<open>An amount that does not parse is the zero value, which is stored as zero.\<close>

definition import_override :: "'w keeper \<Rightarrow> consumer_id \<times> string \<Rightarrow> 'w pstate \<Rightarrow> 'w pstate" where
  "import_override k ov s =
     s\<lparr>ConsumerFeesPerBlockOverride :=
         store_set (fst ov) (case IntFromString k (snd ov) of None \<Rightarrow> 0 | Some amt \<Rightarrow> amt) (ConsumerFeesPerBlockOverride s)\<rparr>"

definition import_to_prune :: "(consumer_id \<times> time) \<times> addr list \<Rightarrow> 'w pstate \<Rightarrow> 'w pstate" where
  "import_to_prune item s = fold (AppendConsumerAddrsToPrune (fst (fst item)) (snd (fst item))) (snd item) s"

definition add_total :: "consumer_id \<times> denom \<Rightarrow> int \<Rightarrow> (consumer_id \<times> denom, int) store \<Rightarrow> (consumer_id \<times> denom, int) store" where
  "add_total key x totals =
     (case store_get totals key of None \<Rightarrow> store_set key x totals | Some cur \<Rightarrow> store_set key (cur + x) totals)"

definition import_share ::
    "'w keeper \<Rightarrow> ConsumerFeePoolShare \<Rightarrow> (consumer_id \<times> denom, int) store \<times> 'w pstate
       \<Rightarrow> ((consumer_id \<times> denom, int) store \<times> 'w pstate) result" where
  "import_share k sh acc =
     (case AccAddressFromBech32 k (fps_Depositor sh) of
        None \<Rightarrow> Panic
      | Some a \<Rightarrow>
          Ok (add_total (fps_ConsumerId sh, fps_Denom sh) (fps_Shares sh) (fst acc),
              (snd acc)\<lparr>ConsumerFeePoolShares :=
                 store_set (fps_ConsumerId sh, fps_Denom sh, a) (fps_Shares sh) (ConsumerFeePoolShares (snd acc))\<rparr>))"

text \<open>The pool of one consumer: its reverse lookup, and the balances no share accounts for.\<close>

definition import_pool ::
    "'w keeper \<Rightarrow> (consumer_id \<times> denom, int) store \<Rightarrow> consumer_id \<times> ConsumerPhase \<Rightarrow> 'w pstate \<Rightarrow> 'w pstate" where
  "import_pool k totals cp s =
     (if snd cp = CONSUMER_PHASE_DELETED then s
      else let poolAddr = GetConsumerFeePoolAddress k (fst cp);
               s1 = s\<lparr>FeePoolAddressToConsumerId := store_set poolAddr (fst cp) (FeePoolAddressToConsumerId s)\<rparr>
           in fold (\<lambda>coin u. if store_has totals (fst cp, Denom coin) then u
                             else absorbUnaccountedBalance k (fst cp) (Denom coin) (Amount coin) u)
                (GetAllBalances k (world s1) poolAddr) s1)"

definition import_withheld :: "'w keeper \<Rightarrow> WithheldFeeRecord \<Rightarrow> 'w pstate \<Rightarrow> 'w pstate result" where
  "import_withheld k rec s =
     (if Denom (wfr_Amount rec) \<noteq> feeDenom k then Panic
      else Ok (s\<lparr>WithheldFeeRecords :=
             store_set (wfr_ConsumerId rec, wfr_ProviderConsAddr rec) rec (WithheldFeeRecords s)\<rparr>))"

definition import_downtime :: "ProviderGenesisState \<Rightarrow> 'w pstate \<Rightarrow> 'w pstate" where
  "import_downtime gs s =
     s\<lparr>PendingDowntimeSlashes := fold (\<lambda>p. store_set
           (pds_ConsumerId p, pds_ProviderConsAddr p, pds_WindowStartHeight p + pds_Span p - 1) p)
         (pg_PendingDowntimeSlashes gs) (PendingDowntimeSlashes s),
       PreviousDowntimeParams := (case pg_PreviousDowntimeParams gs of
           None \<Rightarrow> PreviousDowntimeParams s | Some p \<Rightarrow> Some p),
       EpochShareRecords := fold (\<lambda>e. store_set (fst e) (snd e)) (pg_EpochShareRecords gs) (EpochShareRecords s)\<rparr>"

definition import_windows :: "ProviderGenesisState \<Rightarrow> 'w pstate \<Rightarrow> 'w pstate" where
  "import_windows gs s =
     s\<lparr>AcceptedDowntimeWindows := fold (\<lambda>e. store_set
           (adw_ConsumerId e, adw_ProviderConsAddr e, adw_WindowEndHeight e)
           \<lparr>WindowStart = adw_WindowStartHeight e, AcceptedAt = adw_AcceptedAt e\<rparr>)
         (pg_AcceptedDowntimeWindows gs) (AcceptedDowntimeWindows s),
       DowntimeWindowFloors := fold (\<lambda>e. store_set (fst e) (snd e)) (pg_DowntimeWindowFloors gs) (DowntimeWindowFloors s),
       PunishedEquivocations := fold (\<lambda>key. store_set key ()) (pg_PunishedEquivocations gs) (PunishedEquivocations s),
       EpochDowntime := fold (\<lambda>key. store_set key True) (pg_EpochDowntimeEntries gs) (EpochDowntime s)\<rparr>"

definition InitGenesisValUpdates :: "'w keeper \<Rightarrow> 'w pstate \<Rightarrow> (ValidatorUpdate list \<times> 'w pstate) result" where
  "InitGenesisValUpdates k s =
     (case GetBondedValidatorsByPower k (world s) of
        None \<Rightarrow> Panic
      | Some valSet \<Rightarrow>
          (case fold_res (\<lambda>val acc. bind_res (CreateProviderConsensusValidator k s val) (\<lambda>v. Ok (acc @ [v]))) valSet [] of
             Ok consensusValSet \<Rightarrow>
               Ok (map (\<lambda>v. \<lparr>PubKey = PublicKey v, Power = cv_Power v\<rparr>) consensusValSet,
                   SetLastProviderConsensusValSet consensusValSet s)
           | _ \<Rightarrow> Panic))"

text \<open>
  \<^verbatim>\<open>SetInfractionParams\<close> finds no earlier parameters at genesis, so it records no previous downtime
  parameters.
\<close>

definition set_genesis_params :: "'w keeper \<Rightarrow> ProviderGenesisState \<Rightarrow> 'w pstate \<Rightarrow> 'w pstate result" where
  "set_genesis_params k gs s =
     (let s1 = s\<lparr>Params := pg_Params gs\<rparr>;
          ips = (case pg_InfractionParameters gs of None \<Rightarrow> DefaultInfractionParameters | Some ip \<Rightarrow> ip)
      in if InfractionParameters_Validate ips \<noteq> Ok () then Panic
         else if ValidateInfractionParamsAgainst k ips (TrustingPeriodFraction (pg_Params gs)) \<noteq> Ok () then Panic
         else Ok (s1\<lparr>InfractionParams := ips\<rparr>))"

definition Provider_InitGenesis ::
    "'w keeper \<Rightarrow> ProviderGenesisState \<Rightarrow> 'w pstate \<Rightarrow> (ValidatorUpdate list \<times> 'w pstate) result" where
  "Provider_InitGenesis k gs s0 =
     (let css = pg_ConsumerStates gs in
      bind_res (fold_res (import_consumer k) css (s0\<lparr>ValidatorSetUpdateId := pg_ValsetUpdateId gs\<rparr>)) (\<lambda>s1.
      let s2 = fold derive_consumer css s1;
          s3 = (if css \<noteq> [] then s2\<lparr>ConsumerId := max_consumer_id css + 1\<rparr> else s2);
          s4 = fold (import_override k) (pg_ConsumerFeesPerBlockOverrides gs) s3;
          s5 = fold (\<lambda>item. SetValidatorConsumerPubKey (fst (fst item)) (snd (fst item)) (snd item))
                 (pg_ValidatorConsumerPubkeys gs) s4;
          s6 = fold (\<lambda>item. SetValidatorByConsumerAddr (fst (fst item)) (snd (fst item)) (snd item))
                 (pg_ValidatorsByConsumerAddr gs) s5;
          s7 = fold import_to_prune (pg_ConsumerAddrsToPrune gs) s6
      in bind_res (fold_res (import_share k) (pg_ConsumerFeePoolShares gs) (empty_store, s7)) (\<lambda>(totals, s8).
         let s9 = s8\<lparr>ConsumerFeePoolTotalShares :=
                fold (\<lambda>e. store_set (fst e) (snd e)) (entries totals) (ConsumerFeePoolTotalShares s8)\<rparr>;
             s10 = fold (import_pool k totals) (entries (phase_of s9)) s9
         in bind_res (set_genesis_params k gs s10) (\<lambda>s11.
            bind_res (fold_res (import_withheld k) (pg_WithheldFeeRecords gs) (import_downtime gs s11)) (\<lambda>s12.
            InitGenesisValUpdates k (import_windows gs s12))))))"

subsection \<open>Export\<close>

definition string_or_empty :: "string option \<Rightarrow> string" where
  "string_or_empty o' = (case o' of None \<Rightarrow> '''' | Some x \<Rightarrow> x)"

definition export_consumer :: "'w pstate \<Rightarrow> consumer_id \<Rightarrow> ConsumerState" where
  "export_consumer s c =
     \<lparr>co_ConsumerId = c, co_ChainId = string_or_empty (GetConsumerChainId s c), co_Phase = GetConsumerPhase s c,
      co_OwnerAddress = string_or_empty (GetConsumerOwnerAddress s c),
      co_Metadata = store_get (ConsumerMetadata s) c,
      co_InitParams = GetConsumerInitializationParameters s c,
      co_ClientId = string_or_empty (GetConsumerClientId s c),
      co_ConsumerGenesis = store_get (ConsumerGenesis s) c,
      co_RemovalTime = store_get (ConsumerRemovalTime s) c,
      co_PauseExpirationTime = GetConsumerPauseExpirationTime s c,
      co_PauseReason = GetConsumerPauseReason s c,
      co_PausedAt = GetConsumerPausedAt s c,
      co_LastAckTime = store_get (ConsumerLastAckTime s) c,
      co_HighestSentVscId = GetConsumerHighestSentVscId s c,
      co_HighestAckedVscId = GetConsumerHighestAckedVscId s c,
      co_InDebt = IsConsumerInDebt s c,
      co_PendingValsetChanges = GetPendingVSCPackets s c\<rparr>"

text \<open>\<open>AccAddressString\<close> prints an account address, \<open>IntString\<close> an amount.\<close>

definition exportFeePoolShares ::
    "(addr \<Rightarrow> string) \<Rightarrow> 'w pstate \<Rightarrow> ConsumerFeePoolShare list \<times> (consumer_id \<times> denom, int) store" where
  "exportFeePoolShares AccAddressString s =
     (map (\<lambda>e. \<lparr>fps_ConsumerId = fst (fst e), fps_Depositor = AccAddressString (snd (snd (fst e))),
                 fps_Denom = fst (snd (fst e)), fps_Shares = snd e\<rparr>) (entries (ConsumerFeePoolShares s)),
      fold (\<lambda>e. add_total (fst (fst e), fst (snd (fst e))) (snd e)) (entries (ConsumerFeePoolShares s)) empty_store)"

text \<open>The pools it logs: stored totals that differ from the sum, and sums without a stored total.\<close>

definition checkFeePoolTotalsConsistency ::
    "(consumer_id \<times> denom, int) store \<Rightarrow> 'w pstate \<Rightarrow> (consumer_id \<times> denom) list \<times> (consumer_id \<times> denom) list" where
  "checkFeePoolTotalsConsistency recomputed s =
     (map fst (filter (\<lambda>e. store_get recomputed (fst e) \<noteq> Some (snd e)) (entries (ConsumerFeePoolTotalShares s))),
      filter (\<lambda>key. \<not> store_has (ConsumerFeePoolTotalShares s) key) (map fst (entries recomputed)))"

definition exportWithheldFeeRecords :: "'w pstate \<Rightarrow> WithheldFeeRecord list" where
  "exportWithheldFeeRecords s = map snd (entries (WithheldFeeRecords s))"

definition exportAcceptedDowntimeWindows :: "'w pstate \<Rightarrow> AcceptedDowntimeWindowRecord list" where
  "exportAcceptedDowntimeWindows s =
     map (\<lambda>e. \<lparr>adw_ConsumerId = fst (fst e), adw_ProviderConsAddr = fst (snd (fst e)),
                adw_WindowEndHeight = snd (snd (fst e)), adw_WindowStartHeight = WindowStart (snd e),
                adw_AcceptedAt = AcceptedAt (snd e)\<rparr>) (entries (AcceptedDowntimeWindows s))"

definition exportDowntimeWindowFloors :: "'w pstate \<Rightarrow> ((consumer_id \<times> addr) \<times> int) list" where
  "exportDowntimeWindowFloors s = entries (DowntimeWindowFloors s)"

definition exportPunishedEquivocations :: "'w pstate \<Rightarrow> (string \<times> addr \<times> int) list" where
  "exportPunishedEquivocations s = map fst (entries (PunishedEquivocations s))"

definition exportEpochDowntimeEntries :: "'w pstate \<Rightarrow> (consumer_id \<times> addr) list" where
  "exportEpochDowntimeEntries s = map fst (entries (EpochDowntime s))"

definition exportPendingDowntimeSlashes :: "'w pstate \<Rightarrow> PendingDowntimeSlash list" where
  "exportPendingDowntimeSlashes s = map snd (entries (PendingDowntimeSlashes s))"

definition exportEpochShareRecords :: "'w pstate \<Rightarrow> ((consumer_id \<times> time) \<times> int) list" where
  "exportEpochShareRecords s = entries (EpochShareRecords s)"

definition Provider_ExportGenesis ::
    "(addr \<Rightarrow> string) \<Rightarrow> (int \<Rightarrow> string) \<Rightarrow> 'w pstate \<Rightarrow> ProviderGenesisState" where
  "Provider_ExportGenesis AccAddressString IntString s =
     (let allConsumerIds = GetAllConsumerIds s;
          overrides = map (\<lambda>e. (fst e, IntString (snd e))) (entries (ConsumerFeesPerBlockOverride s));
          (feePoolShares, _) = exportFeePoolShares AccAddressString s
      in (NewProviderGenesisState (ValidatorSetUpdateId s) (map (export_consumer s) allConsumerIds) (Params s)
            (GetAllValidatorConsumerPubKeys None s) (GetAllValidatorsByConsumerAddr None s)
            (concat (map (\<lambda>c. GetAllConsumerAddrsToPrune c s) allConsumerIds)) overrides feePoolShares)
         \<lparr>pg_PendingDowntimeSlashes := exportPendingDowntimeSlashes s,
          pg_PreviousDowntimeParams := PreviousDowntimeParams s,
          pg_EpochShareRecords := exportEpochShareRecords s,
          pg_InfractionParameters := Some (InfractionParams s),
          pg_WithheldFeeRecords := exportWithheldFeeRecords s,
          pg_AcceptedDowntimeWindows := exportAcceptedDowntimeWindows s,
          pg_DowntimeWindowFloors := exportDowntimeWindowFloors s,
          pg_PunishedEquivocations := exportPunishedEquivocations s,
          pg_EpochDowntimeEntries := exportEpochDowntimeEntries s\<rparr>)"

subsection \<open>The first pass as one write per collection\<close>

definition present :: "'a \<Rightarrow> 'a \<Rightarrow> 'a option" where
  "present zero x = (if x = zero then None else Some x)"

definition append_pending ::
    "ConsumerState \<Rightarrow> (consumer_id, ValidatorSetChangePacketData list) store
       \<Rightarrow> (consumer_id, ValidatorSetChangePacketData list) store" where
  "append_pending cs m =
     (if co_PendingValsetChanges cs = [] then m
      else store_set (co_ConsumerId cs)
        ((case store_get m (co_ConsumerId cs) of None \<Rightarrow> [] | Some ps \<Rightarrow> ps) @ co_PendingValsetChanges cs) m)"

definition imported :: "ConsumerState list \<Rightarrow> 'w pstate \<Rightarrow> 'w pstate" where
  "imported css s =
     s\<lparr>ConsumerChainId := fold (\<lambda>cs. opt_set (co_ConsumerId cs) (present '''' (co_ChainId cs))) css (ConsumerChainId s),
       phase_of := fold (\<lambda>cs. opt_set (co_ConsumerId cs) (Some (co_Phase cs))) css (phase_of s),
       ConsumerOwnerAddress := fold (\<lambda>cs. opt_set (co_ConsumerId cs) (present '''' (co_OwnerAddress cs))) css (ConsumerOwnerAddress s),
       ConsumerMetadata := fold (\<lambda>cs. opt_set (co_ConsumerId cs) (co_Metadata cs)) css (ConsumerMetadata s),
       ConsumerInitParams := fold (\<lambda>cs. opt_set (co_ConsumerId cs) (co_InitParams cs)) css (ConsumerInitParams s),
       ConsumerClients := fold (\<lambda>cs. opt_set (co_ConsumerId cs) (present '''' (co_ClientId cs))) css (ConsumerClients s),
       ConsumerGenesis := fold (\<lambda>cs. opt_set (co_ConsumerId cs) (co_ConsumerGenesis cs)) css (ConsumerGenesis s),
       ConsumerRemovalTime := fold (\<lambda>cs. opt_set (co_ConsumerId cs) (co_RemovalTime cs)) css (ConsumerRemovalTime s),
       ConsumerPauseExpirationTime :=
         fold (\<lambda>cs. opt_set (co_ConsumerId cs) (co_PauseExpirationTime cs)) css (ConsumerPauseExpirationTime s),
       ConsumerPauseReason :=
         fold (\<lambda>cs. opt_set (co_ConsumerId cs) (present PAUSE_REASON_UNSPECIFIED (co_PauseReason cs))) css (ConsumerPauseReason s),
       ConsumerPausedAt := fold (\<lambda>cs. opt_set (co_ConsumerId cs) (co_PausedAt cs)) css (ConsumerPausedAt s),
       ConsumerLastAckTime := fold (\<lambda>cs. opt_set (co_ConsumerId cs) (co_LastAckTime cs)) css (ConsumerLastAckTime s),
       ConsumerHighestSentVscId :=
         fold (\<lambda>cs. opt_set (co_ConsumerId cs) (present 0 (co_HighestSentVscId cs))) css (ConsumerHighestSentVscId s),
       ConsumerHighestAckedVscId :=
         fold (\<lambda>cs. opt_set (co_ConsumerId cs) (present 0 (co_HighestAckedVscId cs))) css (ConsumerHighestAckedVscId s),
       ConsumerDebt := fold (\<lambda>cs. opt_set (co_ConsumerId cs) (present False (co_InDebt cs))) css (ConsumerDebt s),
       PendingVSCPackets := fold append_pending css (PendingVSCPackets s)\<rparr>"

lemma imported_Cons: "imported (cs # css) s = imported css (imported [cs] s)"
  by (simp add: imported_def)

lemma import_identity_eq:
  "import_identity cs s =
     s\<lparr>ConsumerChainId := opt_set (co_ConsumerId cs) (present '''' (co_ChainId cs)) (ConsumerChainId s),
       phase_of := opt_set (co_ConsumerId cs) (Some (co_Phase cs)) (phase_of s),
       ConsumerOwnerAddress := opt_set (co_ConsumerId cs) (present '''' (co_OwnerAddress cs)) (ConsumerOwnerAddress s),
       ConsumerMetadata := opt_set (co_ConsumerId cs) (co_Metadata cs) (ConsumerMetadata s)\<rparr>"
  by (simp add: import_identity_def Let_def SetConsumerPhase_def keeper_simps opt_set_def present_def split: option.split)

lemma import_lifecycle_eq:
  "import_lifecycle cs s =
     s\<lparr>ConsumerGenesis := opt_set (co_ConsumerId cs) (co_ConsumerGenesis cs) (ConsumerGenesis s),
       ConsumerRemovalTime := opt_set (co_ConsumerId cs) (co_RemovalTime cs) (ConsumerRemovalTime s),
       ConsumerPauseExpirationTime := opt_set (co_ConsumerId cs) (co_PauseExpirationTime cs) (ConsumerPauseExpirationTime s),
       ConsumerPauseReason :=
         opt_set (co_ConsumerId cs) (present PAUSE_REASON_UNSPECIFIED (co_PauseReason cs)) (ConsumerPauseReason s),
       ConsumerPausedAt := opt_set (co_ConsumerId cs) (co_PausedAt cs) (ConsumerPausedAt s)\<rparr>"
  by (simp add: import_lifecycle_def Let_def keeper_simps opt_set_def present_def split: option.split)

lemma import_relay_eq:
  "import_relay cs s =
     s\<lparr>ConsumerLastAckTime := opt_set (co_ConsumerId cs) (co_LastAckTime cs) (ConsumerLastAckTime s),
       ConsumerHighestSentVscId :=
         opt_set (co_ConsumerId cs) (present 0 (co_HighestSentVscId cs)) (ConsumerHighestSentVscId s),
       ConsumerHighestAckedVscId :=
         opt_set (co_ConsumerId cs) (present 0 (co_HighestAckedVscId cs)) (ConsumerHighestAckedVscId s),
       ConsumerDebt := opt_set (co_ConsumerId cs) (present False (co_InDebt cs)) (ConsumerDebt s),
       PendingVSCPackets := append_pending cs (PendingVSCPackets s)\<rparr>"
  by (simp add: import_relay_def Let_def keeper_simps opt_set_def present_def SetConsumerInDebt_def
      AppendPendingVSCPackets_def GetPendingVSCPackets_def append_pending_def split: option.split)

text \<open>What the setters refuse: a height of another revision than the chain id's, a client id taken.\<close>

definition init_params_fit :: "'w keeper \<Rightarrow> ConsumerState \<Rightarrow> bool" where
  "init_params_fit k cs \<longleftrightarrow>
     (case co_InitParams cs of
        None \<Rightarrow> True
      | Some ps \<Rightarrow> co_Phase cs = CONSUMER_PHASE_DELETED \<or>
          (co_ChainId cs \<noteq> '''' \<and> fst (InitialHeight ps) = ParseChainID k (co_ChainId cs)))"

lemma import_consumer_Ok:
  assumes "init_params_fit k cs"
    "co_ClientId cs \<noteq> '''' \<Longrightarrow> \<forall>d. d \<noteq> co_ConsumerId cs \<longrightarrow> store_get (ConsumerClients s) d \<noteq> Some (co_ClientId cs)"
  shows "import_consumer k cs s = Ok (imported [cs] s)"
proof -
  define s1 where "s1 = import_identity cs s"
  have s1: "GetConsumerPhase s1 (co_ConsumerId cs) = co_Phase cs"
    "co_ChainId cs \<noteq> '''' \<Longrightarrow> GetConsumerChainId s1 (co_ConsumerId cs) = Some (co_ChainId cs)"
    "ConsumerClients s1 = ConsumerClients s"
    by (simp_all add: s1_def import_identity_eq GetConsumerPhase_def GetConsumerChainId_def opt_set_def present_def)
  define s2 where "s2 = s1\<lparr>ConsumerInitParams := opt_set (co_ConsumerId cs) (co_InitParams cs) (ConsumerInitParams s1)\<rparr>"
  have i: "(case co_InitParams cs of None \<Rightarrow> Ok s1
      | Some ps \<Rightarrow> (case SetConsumerInitializationParameters k (co_ConsumerId cs) ps s1 of Ok t \<Rightarrow> Ok t | _ \<Rightarrow> Panic)) = Ok s2"
    using assms(1) s1(1,2)
    by (auto simp: init_params_fit_def s2_def opt_set_def SetConsumerInitializationParameters_def ValidateInitialHeight_def
        split: option.split)
  have "co_ClientId cs \<noteq> '''' \<Longrightarrow> \<not> list_ex (\<lambda>e. snd e = co_ClientId cs \<and> fst e \<noteq> co_ConsumerId cs) (entries (ConsumerClients s2))"
    using assms(2) s1(3) by (auto simp: list_ex_iff s2_def kv.iter_mem)
  then have c: "(if co_ClientId cs \<noteq> '''' then SetConsumerClientId (co_ConsumerId cs) (co_ClientId cs) s2 else Ok s2) =
      Ok (s2\<lparr>ConsumerClients := opt_set (co_ConsumerId cs) (present '''' (co_ClientId cs)) (ConsumerClients s2)\<rparr>)"
    by (simp add: SetConsumerClientId_def opt_set_def present_def)
  show ?thesis
    by (simp add: import_consumer_def Let_def s1_def[symmetric] i c)
      (simp add: s2_def s1_def import_identity_eq import_lifecycle_eq import_relay_eq imported_def)
qed

lemma clients_imported:
  "store_get (ConsumerClients (imported [cs] s)) d =
     (if d = co_ConsumerId cs \<and> co_ClientId cs \<noteq> '''' then Some (co_ClientId cs) else store_get (ConsumerClients s) d)"
  by (simp add: imported_def opt_set_def present_def)

lemma import_consumers_Ok:
  assumes "\<forall>cs \<in> set css. init_params_fit k cs" "distinct (map co_ConsumerId css)"
    "\<forall>cs \<in> set css. co_ClientId cs \<noteq> '''' \<longrightarrow> (\<forall>d. store_get (ConsumerClients s) d \<noteq> Some (co_ClientId cs))"
    "\<forall>cs \<in> set css. \<forall>cs' \<in> set css. co_ClientId cs \<noteq> '''' \<longrightarrow> co_ClientId cs = co_ClientId cs' \<longrightarrow> co_ConsumerId cs = co_ConsumerId cs'"
  shows "fold_res (import_consumer k) css s = Ok (imported css s)"
  using assms
proof (induction css arbitrary: s)
  case Nil
  show ?case by (simp add: imported_def)
next
  case (Cons cs css)
  have "import_consumer k cs s = Ok (imported [cs] s)"
    by (rule import_consumer_Ok) (use Cons.prems(1,3) in simp_all)
  moreover have "fold_res (import_consumer k) css (imported [cs] s) = Ok (imported css (imported [cs] s))"
  proof (rule Cons.IH)
    show "\<forall>x \<in> set css. co_ClientId x \<noteq> '''' \<longrightarrow> (\<forall>d. store_get (ConsumerClients (imported [cs] s)) d \<noteq> Some (co_ClientId x))"
    proof (intro ballI impI allI)
      fix x d assume x: "x \<in> set css" "co_ClientId x \<noteq> ''''"
      have "co_ConsumerId x \<noteq> co_ConsumerId cs" using Cons.prems(2) x(1) by (metis distinct.simps(2) imageI list.map(2) list.set_map)
      then have "co_ClientId x \<noteq> co_ClientId cs" using Cons.prems(4) x by (metis list.set_intros)
      then show "store_get (ConsumerClients (imported [cs] s)) d \<noteq> Some (co_ClientId x)"
        using Cons.prems(3) x by (auto simp: clients_imported)
    qed
    show "\<forall>x \<in> set css. \<forall>y \<in> set css. co_ClientId x \<noteq> '''' \<longrightarrow> co_ClientId x = co_ClientId y \<longrightarrow> co_ConsumerId x = co_ConsumerId y"
      using Cons.prems(4) by (meson list.set_intros(2))
  qed (use Cons.prems(1,2) in simp_all)
  ultimately show ?case by (simp add: imported_Cons[of cs css])
qed


subsection \<open>The second pass\<close>

definition opt_append :: "consumer_id \<Rightarrow> time option \<Rightarrow> queue \<Rightarrow> queue" where
  "opt_append c ot q = (case ot of None \<Rightarrow> q | Some t \<Rightarrow> append_id c t q)"

lemma sched_opt_other: "j \<notin> set ids \<Longrightarrow> sched (fold (\<lambda>c. opt_append c (h c)) ids q) j ot = sched q j ot"
  by (induction ids arbitrary: q) (auto simp: opt_append_def split: option.split)

lemma sched_opt_fold:
  assumes "distinct ids" "sched q j None"
  shows "sched (fold (\<lambda>c. opt_append c (h c)) ids q) j (if j \<in> set ids then h j else None)"
  using assms
proof (induction ids arbitrary: q)
  case (Cons c ids)
  show ?case
  proof (cases "j = c")
    case True
    have "sched (opt_append c (h c) q) c (h c)"
      using Cons.prems(2) True by (auto simp: opt_append_def sched_append split: option.split)
    then show ?thesis using True Cons.prems(1) by (simp add: sched_opt_other)
  next
    case False
    then have "sched (opt_append c (h c) q) j None" using Cons.prems(2) by (simp add: opt_append_def split: option.split)
    then show ?thesis using Cons.IH[of "opt_append c (h c) q"] Cons.prems(1) False by simp
  qed
qed simp

definition launch_at :: "ConsumerState \<Rightarrow> time option" where
  "launch_at cs = (if co_Phase cs = CONSUMER_PHASE_INITIALIZED then map_option SpawnTime (co_InitParams cs) else None)"

definition auto_stop_at :: "ConsumerState \<Rightarrow> time option" where
  "auto_stop_at cs = (if co_Phase cs = CONSUMER_PHASE_PAUSED then co_PauseExpirationTime cs else None)"

definition remove_at :: "ConsumerState \<Rightarrow> time option" where
  "remove_at cs = (if co_Phase cs = CONSUMER_PHASE_STOPPED then co_RemovalTime cs else None)"

definition min_height_of :: "ConsumerState \<Rightarrow> nat option" where
  "min_height_of cs =
     (if co_Phase cs \<in> {CONSUMER_PHASE_LAUNCHED, CONSUMER_PHASE_STOPPED, CONSUMER_PHASE_PAUSED}
      then map_option (\<lambda>ps. snd (InitialHeight ps)) (co_InitParams cs) else None)"

definition derived :: "ConsumerState list \<Rightarrow> 'w pstate \<Rightarrow> 'w pstate" where
  "derived css s =
     s\<lparr>SpawnTimeToConsumerIds := fold (\<lambda>cs. opt_append (co_ConsumerId cs) (launch_at cs)) css (SpawnTimeToConsumerIds s),
       PauseExpirationTimeToConsumerIds :=
         fold (\<lambda>cs. opt_append (co_ConsumerId cs) (auto_stop_at cs)) css (PauseExpirationTimeToConsumerIds s),
       RemovalTimeToConsumerIds := fold (\<lambda>cs. opt_append (co_ConsumerId cs) (remove_at cs)) css (RemovalTimeToConsumerIds s),
       EquivocationEvidenceMinHeight :=
         fold (\<lambda>cs. opt_set (co_ConsumerId cs) (min_height_of cs)) css (EquivocationEvidenceMinHeight s)\<rparr>"

lemma derive_consumer_eq: "derive_consumer cs s = derived [cs] s"
  by (cases "co_Phase cs")
    (simp_all add: derive_consumer_def derived_def launch_at_def auto_stop_at_def remove_at_def min_height_of_def
      set_min_height_def opt_append_def opt_set_def AppendConsumerToBeLaunched_def AppendConsumerToBeRemoved_def
      AppendConsumerToBeAutoStopped_def keeper_simps split: option.split)

lemma derive_consumers: "fold derive_consumer css s = derived css s"
proof (induction css arbitrary: s)
  case (Cons cs css)
  have "derived css (derived [cs] s) = derived (cs # css) s" by (simp add: derived_def)
  then show ?case using Cons by (simp add: derive_consumer_eq)
qed (simp add: derived_def)

lemma max_consumer_id_Max: "max_consumer_id css = Max (insert 0 (co_ConsumerId ` set css))"
proof -
  have "fold (\<lambda>cs m. if co_ConsumerId cs > m then co_ConsumerId cs else m) css a = Max (insert a (co_ConsumerId ` set css))" for a
  proof (induction css arbitrary: a)
    case (Cons cs css)
    have "Max (insert a (insert (co_ConsumerId cs) (co_ConsumerId ` set css))) =
        Max (insert (max a (co_ConsumerId cs)) (co_ConsumerId ` set css))"
      by (cases "css = []") (simp_all add: Max.insert_not_elem max.assoc Max_insert)
    moreover have "(if co_ConsumerId cs > a then co_ConsumerId cs else a) = max a (co_ConsumerId cs)" by simp
    ultimately show ?case using Cons[of "max a (co_ConsumerId cs)"] by (simp only: fold.simps comp_apply list.set image_insert)
  qed simp
  then show ?thesis by (simp add: max_consumer_id_def)
qed

subsection \<open>The other collections\<close>

definition put_all :: "('k::linorder \<times> 'v) list \<Rightarrow> ('k, 'v) store \<Rightarrow> ('k, 'v) store" where
  "put_all es m = fold (\<lambda>e. store_set (fst e) (snd e)) es m"

lemma put_all_simps [simp]: "put_all [] m = m" "put_all (e # es) m = put_all es (store_set (fst e) (snd e) m)"
  by (simp_all add: put_all_def)

lemma put_all_entries [simp]: "put_all (entries m) empty_store = m"
  by (simp add: put_all_def rebuild_store)

text \<open>A list of values that are stored under a key they carry.\<close>

lemma put_keyed:
  assumes "\<forall>e \<in> set es. key (g e) = fst e \<and> val (g e) = snd e"
  shows "fold (\<lambda>x. store_set (key x) (val x)) (map g es) m = put_all es m"
  using assms by (induction es arbitrary: m) simp_all

lemma import_overrides:
  assumes "\<forall>e \<in> set es. IntFromString k (IntString (snd e)) = Some (snd e)"
  shows "fold (import_override k) (map (\<lambda>e. (fst e, IntString (snd e))) es) s =
    s\<lparr>ConsumerFeesPerBlockOverride := put_all es (ConsumerFeesPerBlockOverride s)\<rparr>"
  using assms by (induction es arbitrary: s) (simp_all add: import_override_def)

lemma import_pubkeys:
  "fold (\<lambda>item. SetValidatorConsumerPubKey (fst (fst item)) (snd (fst item)) (snd item)) es s =
     s\<lparr>ValidatorConsumerPubKey := put_all es (ValidatorConsumerPubKey s)\<rparr>"
  by (induction es arbitrary: s) (simp_all add: SetValidatorConsumerPubKey_def)

lemma import_by_addr:
  "fold (\<lambda>item. SetValidatorByConsumerAddr (fst (fst item)) (snd (fst item)) (snd item)) es s =
     s\<lparr>ValidatorByConsumerAddr := put_all es (ValidatorByConsumerAddr s)\<rparr>"
  by (induction es arbitrary: s) (simp_all add: SetValidatorByConsumerAddr_def)

text \<open>The addresses to prune, appended one by one.\<close>

lemma append_to_prune:
  "\<exists>x. fold (AppendConsumerAddrsToPrune c ts) as s = s\<lparr>ConsumerAddrsToPrune := x\<rparr> \<and>
     (\<forall>d u. GetConsumerAddrsToPrune (s\<lparr>ConsumerAddrsToPrune := x\<rparr>) d u =
        GetConsumerAddrsToPrune s d u @ (if (d, u) = (c, ts) then as else []))"
proof (induction as arbitrary: s)
  case Nil
  show ?case by (intro exI[of _ "ConsumerAddrsToPrune s"]) simp
next
  case (Cons a as)
  define s1 where "s1 = AppendConsumerAddrsToPrune c ts a s"
  obtain x where x: "fold (AppendConsumerAddrsToPrune c ts) as s1 = s1\<lparr>ConsumerAddrsToPrune := x\<rparr>"
    "\<forall>d u. GetConsumerAddrsToPrune (s1\<lparr>ConsumerAddrsToPrune := x\<rparr>) d u =
        GetConsumerAddrsToPrune s1 d u @ (if (d, u) = (c, ts) then as else [])" using Cons[of s1] by blast
  have "s1\<lparr>ConsumerAddrsToPrune := x\<rparr> = s\<lparr>ConsumerAddrsToPrune := x\<rparr>" by (simp add: s1_def AppendConsumerAddrsToPrune_def)
  then show ?case using x
    by (intro exI[of _ x]) (auto simp: s1_def[symmetric], auto simp: s1_def AppendConsumerAddrsToPrune_def GetConsumerAddrsToPrune_def)
qed

lemma import_prune_list:
  assumes "distinct (map fst items)"
  shows "\<exists>x. fold import_to_prune items s = s\<lparr>ConsumerAddrsToPrune := x\<rparr> \<and>
     (\<forall>d u. GetConsumerAddrsToPrune (s\<lparr>ConsumerAddrsToPrune := x\<rparr>) d u =
        GetConsumerAddrsToPrune s d u @ (case map_of items (d, u) of None \<Rightarrow> [] | Some as \<Rightarrow> as))"
  using assms
proof (induction items arbitrary: s)
  case Nil
  show ?case by (intro exI[of _ "ConsumerAddrsToPrune s"]) simp
next
  case (Cons item items)
  obtain c ts as where i: "item = ((c, ts), as)" by (metis prod.collapse)
  obtain x where x: "import_to_prune item s = s\<lparr>ConsumerAddrsToPrune := x\<rparr>"
    "\<forall>d u. GetConsumerAddrsToPrune (s\<lparr>ConsumerAddrsToPrune := x\<rparr>) d u =
       GetConsumerAddrsToPrune s d u @ (if (d, u) = (c, ts) then as else [])"
    using append_to_prune[of c ts as s] by (auto simp: i import_to_prune_def)
  define s1 where "s1 = s\<lparr>ConsumerAddrsToPrune := x\<rparr>"
  obtain y where y: "fold import_to_prune items s1 = s1\<lparr>ConsumerAddrsToPrune := y\<rparr>"
    "\<forall>d u. GetConsumerAddrsToPrune (s1\<lparr>ConsumerAddrsToPrune := y\<rparr>) d u =
        GetConsumerAddrsToPrune s1 d u @ (case map_of items (d, u) of None \<Rightarrow> [] | Some as \<Rightarrow> as)"
    using Cons.IH[of s1] Cons.prems by auto
  have none: "map_of items (c, ts) = None" using Cons.prems by (simp add: i map_of_eq_None_iff)
  have eq: "s1\<lparr>ConsumerAddrsToPrune := y\<rparr> = s\<lparr>ConsumerAddrsToPrune := y\<rparr>" by (simp add: s1_def)
  have "GetConsumerAddrsToPrune (s\<lparr>ConsumerAddrsToPrune := y\<rparr>) d u =
      GetConsumerAddrsToPrune s d u @ (case map_of (item # items) (d, u) of None \<Rightarrow> [] | Some as \<Rightarrow> as)" for d u
    using y(2) x(2) none unfolding eq s1_def by (auto simp: i)
  moreover have "fold import_to_prune (item # items) s = s\<lparr>ConsumerAddrsToPrune := y\<rparr>"
    using y(1) eq by (simp add: x(1) s1_def)
  ultimately show ?case by blast
qed


text \<open>The shares and the totals recomputed from them.\<close>

definition pool_of :: "consumer_id \<times> denom \<times> addr \<Rightarrow> consumer_id \<times> denom" where
  "pool_of key = (fst key, fst (snd key))"

definition recomputed_totals :: "((consumer_id \<times> denom \<times> addr) \<times> int) list \<Rightarrow> (consumer_id \<times> denom, int) store" where
  "recomputed_totals es = fold (\<lambda>e. add_total (pool_of (fst e)) (snd e)) es empty_store"

lemma import_shares:
  assumes "\<forall>e \<in> set es. AccAddressFromBech32 k (A (snd (snd (fst e)))) = Some (snd (snd (fst e)))"
  shows "fold_res (import_share k) (map (\<lambda>e. \<lparr>fps_ConsumerId = fst (fst e), fps_Depositor = A (snd (snd (fst e))),
        fps_Denom = fst (snd (fst e)), fps_Shares = snd e\<rparr>) es) (m, s) =
    Ok (fold (\<lambda>e. add_total (pool_of (fst e)) (snd e)) es m, s\<lparr>ConsumerFeePoolShares := put_all es (ConsumerFeePoolShares s)\<rparr>)"
  using assms by (induction es arbitrary: m s) (simp_all add: import_share_def pool_of_def)

lemma get_totals:
  "store_get (fold (\<lambda>e. add_total (pool_of (fst e)) (snd e)) es m) (c, d) =
     (let xs = filter (\<lambda>e. in_pool c d (fst e)) es in
      if xs = [] then store_get m (c, d)
      else Some ((case store_get m (c, d) of None \<Rightarrow> 0 | Some v \<Rightarrow> v) + sum_list (map snd xs)))"
proof (induction es arbitrary: m)
  case (Cons e es)
  have p: "pool_of (fst e) = (c, d) \<longleftrightarrow> in_pool c d (fst e)" by (auto simp: pool_of_def in_pool_def)
  have "store_get (add_total (pool_of (fst e)) (snd e) m) (c, d) =
      (if in_pool c d (fst e) then Some ((case store_get m (c, d) of None \<Rightarrow> 0 | Some v \<Rightarrow> v) + snd e) else store_get m (c, d))"
    using p by (auto simp: add_total_def split: option.split)
  then show ?case using Cons[of "add_total (pool_of (fst e)) (snd e) m"] by (auto simp: Let_def)
qed simp

lemma sum_list_positive:
  assumes "xs \<noteq> []" "\<forall>x \<in> set xs. 0 < x"
  shows "0 < sum_list (xs :: int list)"
  using assms
proof (induction xs)
  case (Cons x xs)
  then show ?case by (cases "xs = []") auto
qed simp

lemma totals_recomputed:
  assumes "ledger_ok s"
  shows "recomputed_totals (entries (ConsumerFeePoolShares s)) = ConsumerFeePoolTotalShares s"
proof (rule store_ext, rule ext)
  fix key :: "consumer_id \<times> denom"
  obtain c d where key: "key = (c, d)" by fastforce
  define xs where "xs = filter (\<lambda>e. in_pool c d (fst e)) (entries (ConsumerFeePoolShares s))"
  have sum: "sum_list (map snd xs) = total_of s c d"
    using assms by (simp add: ledger_ok_def shares_sum_def range_sum_def store_range_def xs_def)
  have pos: "\<forall>x \<in> set (map snd xs). 0 < x"
    using assms by (auto simp: ledger_ok_def xs_def kv.iter_mem)
  have get: "store_get (recomputed_totals (entries (ConsumerFeePoolShares s))) (c, d) =
      (if xs = [] then None else Some (sum_list (map snd xs)))"
    by (simp add: recomputed_totals_def get_totals xs_def Let_def)
  have "store_get (ConsumerFeePoolTotalShares s) (c, d) = (if xs = [] then None else Some (sum_list (map snd xs)))"
  proof (cases "store_get (ConsumerFeePoolTotalShares s) (c, d)")
    case None
    then have "sum_list (map snd xs) = 0" by (simp add: sum total_of_def)
    moreover have "xs \<noteq> [] \<Longrightarrow> 0 < sum_list (map snd xs)" using pos sum_list_positive[of "map snd xs"] by simp
    ultimately show ?thesis using None by auto
  next
    case (Some t)
    then have "0 < t" "sum_list (map snd xs) = t" using assms sum by (auto simp: ledger_ok_def total_of_def)
    then show ?thesis using Some by auto
  qed
  then show "store_get (recomputed_totals (entries (ConsumerFeePoolShares s))) key = store_get (ConsumerFeePoolTotalShares s) key"
    by (simp add: get key)
qed

lemma consistent_totals_not_logged:
  assumes "ledger_ok s"
  shows "checkFeePoolTotalsConsistency (snd (exportFeePoolShares A s)) s = ([], [])"
proof -
  have "snd (exportFeePoolShares A s) = ConsumerFeePoolTotalShares s"
    using totals_recomputed[OF assms] by (simp add: exportFeePoolShares_def recomputed_totals_def pool_of_def)
  then show ?thesis
    by (auto simp: checkFeePoolTotalsConsistency_def filter_empty_conv kv.iter_mem store_has_def)
qed

text \<open>The pools, when a share accounts for every balance.\<close>

definition pool_lookup :: "'w keeper \<Rightarrow> (consumer_id \<times> ConsumerPhase) list \<Rightarrow> (addr \<times> consumer_id) list" where
  "pool_lookup k es = map (\<lambda>e. (GetConsumerFeePoolAddress k (fst e), fst e)) (filter (\<lambda>e. snd e \<noteq> CONSUMER_PHASE_DELETED) es)"

lemma import_pools:
  assumes "\<forall>e \<in> set es. snd e \<noteq> CONSUMER_PHASE_DELETED \<longrightarrow>
    (\<forall>coin \<in> set (GetAllBalances k (world s) (GetConsumerFeePoolAddress k (fst e))). store_has totals (fst e, Denom coin))"
  shows "fold (import_pool k totals) es s =
    s\<lparr>FeePoolAddressToConsumerId := put_all (pool_lookup k es) (FeePoolAddressToConsumerId s)\<rparr>"
  using assms
proof (induction es arbitrary: s)
  case (Cons e es)
  have skip: "(\<forall>coin \<in> set coins. store_has totals (fst e, Denom coin)) \<Longrightarrow>
      fold (\<lambda>coin u. if store_has totals (fst e, Denom coin) then u
        else absorbUnaccountedBalance k (fst e) (Denom coin) (Amount coin) u) coins u = u" for coins u
    by (induction coins) simp_all
  have "import_pool k totals e s = s\<lparr>FeePoolAddressToConsumerId := put_all (pool_lookup k [e]) (FeePoolAddressToConsumerId s)\<rparr>"
    using Cons.prems by (simp add: import_pool_def Let_def pool_lookup_def skip)
  moreover have "world (s\<lparr>FeePoolAddressToConsumerId := x\<rparr>) = world s" for x by simp
  ultimately show ?case
    using Cons.IH[of "s\<lparr>FeePoolAddressToConsumerId := put_all (pool_lookup k [e]) (FeePoolAddressToConsumerId s)\<rparr>"] Cons.prems
    by (simp add: pool_lookup_def)
qed (simp add: pool_lookup_def)

lemma import_withhelds:
  assumes "\<forall>e \<in> set es. (wfr_ConsumerId (snd e), wfr_ProviderConsAddr (snd e)) = fst e \<and> Denom (wfr_Amount (snd e)) = feeDenom k"
  shows "fold_res (import_withheld k) (map snd es) s = Ok (s\<lparr>WithheldFeeRecords := put_all es (WithheldFeeRecords s)\<rparr>)"
  using assms by (induction es arbitrary: s) (simp_all add: import_withheld_def)

lemma genesis_val_updates:
  assumes "GetBondedValidatorsByPower k (world s) = Some vals"
    "\<forall>v \<in> set vals. \<exists>cv. CreateProviderConsensusValidator k s v = Ok cv" "world t = world s"
  shows "\<exists>us x. InitGenesisValUpdates k t = Ok (us, t\<lparr>LastProviderConsensusVals := x\<rparr>)"
proof -
  have same: "CreateProviderConsensusValidator k t v = CreateProviderConsensusValidator k s v" for v
    by (simp add: CreateProviderConsensusValidator_def assms(3))
  have "\<exists>r. fold_res (\<lambda>val acc. bind_res (CreateProviderConsensusValidator k t val) (\<lambda>v. Ok (acc @ [v]))) vals acc = Ok r" for acc
    using assms(2) unfolding same by (induction vals arbitrary: acc) auto
  then obtain r where "fold_res (\<lambda>val acc. bind_res (CreateProviderConsensusValidator k t val) (\<lambda>v. Ok (acc @ [v]))) vals [] = Ok r"
    by blast
  then show ?thesis using assms(1,3)
    by (simp add: InitGenesisValUpdates_def SetLastProviderConsensusValSet_def Let_def) blast
qed


subsection \<open>A restart\<close>

text \<open>No collection holds anything for an id that was never given out.\<close>

definition unregistered :: "'w pstate \<Rightarrow> consumer_id \<Rightarrow> bool" where
  "unregistered s c \<longleftrightarrow>
     store_get (phase_of s) c = None \<and> GetConsumerChainId s c = None \<and> GetConsumerOwnerAddress s c = None \<and>
     store_get (ConsumerMetadata s) c = None \<and> GetConsumerInitializationParameters s c = None \<and>
     GetConsumerClientId s c = None \<and> store_get (ConsumerGenesis s) c = None \<and>
     store_get (ConsumerRemovalTime s) c = None \<and> GetConsumerPauseExpirationTime s c = None \<and>
     store_get (ConsumerPauseReason s) c = None \<and> GetConsumerPausedAt s c = None \<and>
     store_get (ConsumerLastAckTime s) c = None \<and> store_get (ConsumerHighestSentVscId s) c = None \<and>
     store_get (ConsumerHighestAckedVscId s) c = None \<and> store_get (ConsumerDebt s) c = None \<and>
     store_get (PendingVSCPackets s) c = None \<and> store_get (EquivocationEvidenceMinHeight s) c = None \<and>
     (\<forall>ts. store_get (ConsumerAddrsToPrune s) (c, ts) = None)"

text \<open>
  The states that a restart carries over: the invariants of the queues and of the share ledger, no
  stored empty string, heights of the revision of their chain id, one consumer per client, the
  records stored under the key they carry, withheld fees in the fee denom, every pool balance
  accounted for by shares, and the minimal height of equivocation evidence as the launch sets it.
\<close>

definition consumers_exportable :: "'w keeper \<Rightarrow> 'w pstate \<Rightarrow> bool" where
  "consumers_exportable k s \<longleftrightarrow>
     (\<forall>c. store_has (phase_of s) c \<longleftrightarrow> c < ConsumerId s) \<and> (\<forall>c \<ge> ConsumerId s. unregistered s c) \<and>
     (\<forall>c. GetConsumerChainId s c \<noteq> Some '''' \<and> GetConsumerOwnerAddress s c \<noteq> Some '''' \<and> GetConsumerClientId s c \<noteq> Some '''') \<and>
     (\<forall>c. init_params_fit k (export_consumer s c)) \<and>
     (\<forall>c d x. GetConsumerClientId s c = Some x \<longrightarrow> GetConsumerClientId s d = Some x \<longrightarrow> c = d) \<and>
     (\<forall>c. store_get (EquivocationEvidenceMinHeight s) c = min_height_of (export_consumer s c))"

definition records_exportable :: "'w keeper \<Rightarrow> 'w pstate \<Rightarrow> bool" where
  "records_exportable k s \<longleftrightarrow>
     (\<forall>key p. store_get (PendingDowntimeSlashes s) key = Some p \<longrightarrow>
        key = (pds_ConsumerId p, pds_ProviderConsAddr p, pds_WindowStartHeight p + pds_Span p - 1)) \<and>
     (\<forall>key r. store_get (WithheldFeeRecords s) key = Some r \<longrightarrow>
        key = (wfr_ConsumerId r, wfr_ProviderConsAddr r) \<and> Denom (wfr_Amount r) = feeDenom k) \<and>
     (\<forall>key b. store_get (EpochDowntime s) key = Some b \<longrightarrow> b)"

definition pools_accounted :: "'w keeper \<Rightarrow> 'w pstate \<Rightarrow> bool" where
  "pools_accounted k s \<longleftrightarrow>
     (\<forall>c. store_has (phase_of s) c \<longrightarrow> GetConsumerPhase s c \<noteq> CONSUMER_PHASE_DELETED \<longrightarrow>
       (\<forall>coin \<in> set (GetAllBalances k (world s) (GetConsumerFeePoolAddress k c)).
          store_has (ConsumerFeePoolTotalShares s) (c, Denom coin)))"

text \<open>What the printing of addresses and amounts, the parameters and the staking module have to allow.\<close>

definition importable :: "'w keeper \<Rightarrow> (addr \<Rightarrow> string) \<Rightarrow> (int \<Rightarrow> string) \<Rightarrow> 'w pstate \<Rightarrow> bool" where
  "importable k A I s \<longleftrightarrow>
     (\<forall>a. AccAddressFromBech32 k (A a) = Some a) \<and> (\<forall>i. IntFromString k (I i) = Some i) \<and>
     InfractionParameters_Validate (InfractionParams s) = Ok () \<and>
     ValidateInfractionParamsAgainst k (InfractionParams s) (TrustingPeriodFraction (Params s)) = Ok () \<and>
     (case GetBondedValidatorsByPower k (world s) of None \<Rightarrow> False
      | Some vals \<Rightarrow> \<forall>v \<in> set vals. \<exists>cv. CreateProviderConsensusValidator k s v = Ok cv)"

definition same_consumer :: "'w pstate \<Rightarrow> 'w pstate \<Rightarrow> consumer_id \<Rightarrow> bool" where
  "same_consumer s t c \<longleftrightarrow>
     GetConsumerChainId t c = GetConsumerChainId s c \<and> GetConsumerPhase t c = GetConsumerPhase s c \<and>
     GetConsumerOwnerAddress t c = GetConsumerOwnerAddress s c \<and>
     store_get (ConsumerMetadata t) c = store_get (ConsumerMetadata s) c \<and>
     GetConsumerInitializationParameters t c = GetConsumerInitializationParameters s c \<and>
     GetConsumerClientId t c = GetConsumerClientId s c \<and>
     store_get (ConsumerGenesis t) c = store_get (ConsumerGenesis s) c \<and>
     store_get (ConsumerRemovalTime t) c = store_get (ConsumerRemovalTime s) c \<and>
     GetConsumerPauseExpirationTime t c = GetConsumerPauseExpirationTime s c \<and>
     GetConsumerPauseReason t c = GetConsumerPauseReason s c \<and> GetConsumerPausedAt t c = GetConsumerPausedAt s c \<and>
     store_get (ConsumerLastAckTime t) c = store_get (ConsumerLastAckTime s) c \<and>
     GetConsumerHighestSentVscId t c = GetConsumerHighestSentVscId s c \<and>
     GetConsumerHighestAckedVscId t c = GetConsumerHighestAckedVscId s c \<and>
     IsConsumerInDebt t c = IsConsumerInDebt s c \<and> GetPendingVSCPackets t c = GetPendingVSCPackets s c \<and>
     GetEquivocationEvidenceMinHeight t c = GetEquivocationEvidenceMinHeight s c \<and>
     (\<forall>ts. GetConsumerAddrsToPrune t c ts = GetConsumerAddrsToPrune s c ts)"

definition same_records :: "'w pstate \<Rightarrow> 'w pstate \<Rightarrow> bool" where
  "same_records s t \<longleftrightarrow>
     Params t = Params s \<and> InfractionParams t = InfractionParams s \<and>
     PreviousDowntimeParams t = PreviousDowntimeParams s \<and> ValidatorSetUpdateId t = ValidatorSetUpdateId s \<and>
     ConsumerId t = ConsumerId s \<and> ConsumerFeesPerBlockOverride t = ConsumerFeesPerBlockOverride s \<and>
     ValidatorConsumerPubKey t = ValidatorConsumerPubKey s \<and> ValidatorByConsumerAddr t = ValidatorByConsumerAddr s \<and>
     ConsumerFeePoolShares t = ConsumerFeePoolShares s \<and> ConsumerFeePoolTotalShares t = ConsumerFeePoolTotalShares s \<and>
     EpochDowntime t = EpochDowntime s \<and> EpochShareRecords t = EpochShareRecords s \<and>
     PendingDowntimeSlashes t = PendingDowntimeSlashes s \<and> AcceptedDowntimeWindows t = AcceptedDowntimeWindows s \<and>
     DowntimeWindowFloors t = DowntimeWindowFloors s \<and> PunishedEquivocations t = PunishedEquivocations s \<and>
     WithheldFeeRecords t = WithheldFeeRecords s \<and> world t = world s"

text \<open>The lists of the exported file, read back.\<close>

lemma export_fold:
  "fold (\<lambda>cs. opt_set (co_ConsumerId cs) (g cs)) (map (export_consumer s) ids) m =
     fold (\<lambda>c. opt_set c (g (export_consumer s c))) ids m"
  "fold (\<lambda>cs. opt_append (co_ConsumerId cs) (h cs)) (map (export_consumer s) ids) q =
     fold (\<lambda>c. opt_append c (h (export_consumer s c))) ids q"
  by (simp_all add: fold_map comp_def export_consumer_def)

lemma append_pending_fold:
  assumes "distinct ids" "\<forall>c \<in> set ids. store_get m c = None"
  shows "(case store_get (fold append_pending (map (export_consumer s) ids) m) c of None \<Rightarrow> [] | Some ps \<Rightarrow> ps) =
    (if c \<in> set ids then GetPendingVSCPackets s c else case store_get m c of None \<Rightarrow> [] | Some ps \<Rightarrow> ps)"
  using assms
proof (induction ids arbitrary: m)
  case (Cons d ids)
  define m1 where "m1 = append_pending (export_consumer s d) m"
  have m1: "store_get m1 j = (if j = d \<and> GetPendingVSCPackets s d \<noteq> [] then Some (GetPendingVSCPackets s d) else store_get m j)" for j
    using Cons.prems(2) by (simp add: m1_def append_pending_def export_consumer_def)
  have "\<forall>c \<in> set ids. store_get m1 c = None" using Cons.prems by (auto simp: m1)
  then show ?case using Cons.IH[of m1] Cons.prems by (auto simp: m1_def[symmetric] m1)
qed simp

lemma map_of_to_prune:
  assumes "distinct ids"
  shows "distinct (map fst (concat (map (\<lambda>c. GetAllConsumerAddrsToPrune c s) ids)))"
    "map_of (concat (map (\<lambda>c. GetAllConsumerAddrsToPrune c s) ids)) (d, u) =
       (if d \<in> set ids then store_get (ConsumerAddrsToPrune s) (d, u) else None)"
proof -
  define R where "R = (\<lambda>c. GetAllConsumerAddrsToPrune c s)"
  have R: "(key, as) \<in> set (R c) \<longleftrightarrow> fst key = c \<and> store_get (ConsumerAddrsToPrune s) key = Some as" for key as c
    by (auto simp: R_def GetAllConsumerAddrsToPrune_def mem_store_range)
  have dR: "distinct (map fst (R c))" for c by (simp add: R_def GetAllConsumerAddrsToPrune_def distinct_store_range)
  show dist: "distinct (map fst (concat (map R ids)))"
    using assms
  proof (induction ids)
    case (Cons c ids)
    have "fst ` set (R c) \<inter> fst ` set (concat (map R ids)) = {}" using Cons.prems R by fastforce
    then show ?case using Cons dR by simp
  qed simp
  have "map_of (concat (map R ids)) (d, u) = Some as \<longleftrightarrow> d \<in> set ids \<and> store_get (ConsumerAddrsToPrune s) (d, u) = Some as" for as
    using map_of_eq_Some_iff[OF dist] R by fastforce
  then show "map_of (concat (map R ids)) (d, u) = (if d \<in> set ids then store_get (ConsumerAddrsToPrune s) (d, u) else None)"
    by (metis not_Some_eq)
qed


abbreviation exported_consumers :: "'w pstate \<Rightarrow> ConsumerState list" where
  "exported_consumers s \<equiv> map (export_consumer s) (GetAllConsumerIds s)"

text \<open>The state after both passes over the consumers, from an empty store.\<close>

definition rebuilt :: "'w pstate \<Rightarrow> 'w pstate" where
  "rebuilt s = derived (exported_consumers s)
     (imported (exported_consumers s) ((blank_pstate (world s))\<lparr>ValidatorSetUpdateId := ValidatorSetUpdateId s\<rparr>))"

lemma all_ids: "distinct (GetAllConsumerIds s)" "c \<in> set (GetAllConsumerIds s) \<longleftrightarrow> c < ConsumerId s"
  by (simp_all add: GetAllConsumerIds_def GetConsumerId_def)

lemma import_exported:
  assumes "consumers_exportable k s"
  shows "fold_res (import_consumer k) (exported_consumers s) ((blank_pstate (world s))\<lparr>ValidatorSetUpdateId := v\<rparr>) =
    Ok (imported (exported_consumers s) ((blank_pstate (world s))\<lparr>ValidatorSetUpdateId := v\<rparr>))"
proof (rule import_consumers_Ok)
  show "\<forall>cs \<in> set (exported_consumers s). init_params_fit k cs"
    using assms by (auto simp: consumers_exportable_def)
  show "distinct (map co_ConsumerId (exported_consumers s))"
    using all_ids(1)[of s] by (simp add: comp_def export_consumer_def)
  show "\<forall>cs \<in> set (exported_consumers s). co_ClientId cs \<noteq> '''' \<longrightarrow>
      (\<forall>d. store_get (ConsumerClients ((blank_pstate (world s))\<lparr>ValidatorSetUpdateId := v\<rparr>)) d \<noteq> Some (co_ClientId cs))"
    by (simp add: blank_pstate_def)
  have "GetConsumerClientId s c = Some (co_ClientId (export_consumer s c))" if "co_ClientId (export_consumer s c) \<noteq> ''''" for c
    using that by (auto simp: export_consumer_def string_or_empty_def split: option.splits)
  then show "\<forall>cs \<in> set (exported_consumers s). \<forall>cs' \<in> set (exported_consumers s).
      co_ClientId cs \<noteq> '''' \<longrightarrow> co_ClientId cs = co_ClientId cs' \<longrightarrow> co_ConsumerId cs = co_ConsumerId cs'"
    using assms unfolding consumers_exportable_def by (auto simp: image_iff) (metis export_consumer_def ConsumerState.select_convs(1))
qed

lemma rebuilt_get:
  assumes "consumers_exportable k s"
  shows "store_get (fold (\<lambda>cs. opt_set (co_ConsumerId cs) (g cs)) (exported_consumers s) empty_store) c =
    (if c < ConsumerId s then g (export_consumer s c) else None)"
  using assms get_opt_fold[OF all_ids(1)[of s], of "\<lambda>c. g (export_consumer s c)" empty_store c]
  by (simp add: export_fold(1) all_ids(2) consumers_exportable_def)

lemma rebuilt_phases:
  assumes "consumers_exportable k s"
  shows "phase_of (rebuilt s) = phase_of s"
proof (rule store_ext, rule ext)
  fix c
  have "store_has (phase_of s) c \<longleftrightarrow> c < ConsumerId s" using assms by (simp add: consumers_exportable_def)
  then have "store_get (phase_of s) c = (if c < ConsumerId s then Some (GetConsumerPhase s c) else None)"
    by (auto simp: store_has_def GetConsumerPhase_def)
  then show "store_get (phase_of (rebuilt s)) c = store_get (phase_of s) c"
    using rebuilt_get[OF assms, of "\<lambda>cs. Some (co_Phase cs)" c]
    by (simp add: rebuilt_def derived_def imported_def blank_pstate_def) (simp add: export_consumer_def)
qed

lemma next_consumer_id:
  assumes "GetAllConsumerIds s \<noteq> []"
  shows "max_consumer_id (exported_consumers s) + 1 = ConsumerId s"
proof -
  have "co_ConsumerId ` set (exported_consumers s) = {..<ConsumerId s}"
    using all_ids(2)[of _ s] by (auto simp: image_image export_consumer_def)
  moreover have "0 < ConsumerId s" using assms by (auto simp: GetAllConsumerIds_def GetConsumerId_def split: if_splits)
  moreover from this have "Max (insert 0 {..<ConsumerId s}) = ConsumerId s - 1"
    by (intro Max_eqI) auto
  ultimately show ?thesis by (simp add: max_consumer_id_Max)
qed


definition finished :: "'w keeper \<Rightarrow> 'w pstate \<Rightarrow> (consumer_id \<times> time, addr list) store \<Rightarrow> (addr, ConsensusValidator) store \<Rightarrow> 'w pstate" where
  "finished k s x y = (rebuilt s)\<lparr>ConsumerId := ConsumerId s,
     ConsumerFeesPerBlockOverride := ConsumerFeesPerBlockOverride s,
     ValidatorConsumerPubKey := ValidatorConsumerPubKey s, ValidatorByConsumerAddr := ValidatorByConsumerAddr s,
     ConsumerAddrsToPrune := x, ConsumerFeePoolShares := ConsumerFeePoolShares s,
     ConsumerFeePoolTotalShares := ConsumerFeePoolTotalShares s,
     FeePoolAddressToConsumerId := put_all (pool_lookup k (entries (phase_of s))) empty_store,
     Params := Params s, InfractionParams := InfractionParams s,
     PendingDowntimeSlashes := PendingDowntimeSlashes s, PreviousDowntimeParams := PreviousDowntimeParams s,
     EpochShareRecords := EpochShareRecords s, WithheldFeeRecords := WithheldFeeRecords s,
     AcceptedDowntimeWindows := AcceptedDowntimeWindows s, DowntimeWindowFloors := DowntimeWindowFloors s,
     PunishedEquivocations := PunishedEquivocations s, EpochDowntime := EpochDowntime s,
     LastProviderConsensusVals := y\<rparr>"

lemma rebuilt_blank [simp]:
  "ConsumerFeesPerBlockOverride (rebuilt s) = empty_store" "ValidatorConsumerPubKey (rebuilt s) = empty_store"
  "ValidatorByConsumerAddr (rebuilt s) = empty_store" "ConsumerAddrsToPrune (rebuilt s) = empty_store"
  "ConsumerFeePoolShares (rebuilt s) = empty_store" "ConsumerFeePoolTotalShares (rebuilt s) = empty_store"
  "FeePoolAddressToConsumerId (rebuilt s) = empty_store" "PendingDowntimeSlashes (rebuilt s) = empty_store"
  "PreviousDowntimeParams (rebuilt s) = None" "EpochShareRecords (rebuilt s) = empty_store"
  "WithheldFeeRecords (rebuilt s) = empty_store" "AcceptedDowntimeWindows (rebuilt s) = empty_store"
  "DowntimeWindowFloors (rebuilt s) = empty_store" "PunishedEquivocations (rebuilt s) = empty_store"
  "EpochDowntime (rebuilt s) = empty_store" "ConsumerValidators (rebuilt s) = empty_store"
  "ConsumerId (rebuilt s) = 0" "ValidatorSetUpdateId (rebuilt s) = ValidatorSetUpdateId s" "world (rebuilt s) = world s"
  by (simp_all add: rebuilt_def derived_def imported_def blank_pstate_def)

lemma import_downtime_exported:
  assumes "records_exportable k s" "pg_PendingDowntimeSlashes gs = exportPendingDowntimeSlashes s"
    "pg_PreviousDowntimeParams gs = PreviousDowntimeParams s" "pg_EpochShareRecords gs = exportEpochShareRecords s"
    "PendingDowntimeSlashes t = empty_store" "PreviousDowntimeParams t = None" "EpochShareRecords t = empty_store"
  shows "import_downtime gs t = t\<lparr>PendingDowntimeSlashes := PendingDowntimeSlashes s,
     PreviousDowntimeParams := PreviousDowntimeParams s, EpochShareRecords := EpochShareRecords s\<rparr>"
proof -
  define key where "key = (\<lambda>p :: PendingDowntimeSlash. (pds_ConsumerId p, pds_ProviderConsAddr p, pds_WindowStartHeight p + pds_Span p - 1))"
  have "\<forall>e \<in> set (entries (PendingDowntimeSlashes s)). key (snd e) = fst e \<and> snd e = snd e"
    using assms(1) by (auto simp: records_exportable_def kv.iter_mem key_def)
  from put_keyed[where val = "\<lambda>p. p", OF this, of empty_store]
  have "fold (\<lambda>p. store_set (pds_ConsumerId p, pds_ProviderConsAddr p, pds_WindowStartHeight p + pds_Span p - 1) p)
      (map snd (entries (PendingDowntimeSlashes s))) empty_store = PendingDowntimeSlashes s"
    by (simp add: key_def)
  then show ?thesis
    using rebuild_store[of "EpochShareRecords s"]
    by (simp add: import_downtime_def assms(2-) exportPendingDowntimeSlashes_def exportEpochShareRecords_def split: option.split)
qed

lemma import_windows_exported:
  assumes "records_exportable k s" "pg_AcceptedDowntimeWindows gs = exportAcceptedDowntimeWindows s"
    "pg_DowntimeWindowFloors gs = exportDowntimeWindowFloors s" "pg_PunishedEquivocations gs = exportPunishedEquivocations s"
    "pg_EpochDowntimeEntries gs = exportEpochDowntimeEntries s"
    "AcceptedDowntimeWindows t = empty_store" "DowntimeWindowFloors t = empty_store"
    "PunishedEquivocations t = empty_store" "EpochDowntime t = empty_store"
  shows "import_windows gs t = t\<lparr>AcceptedDowntimeWindows := AcceptedDowntimeWindows s,
     DowntimeWindowFloors := DowntimeWindowFloors s, PunishedEquivocations := PunishedEquivocations s,
     EpochDowntime := EpochDowntime s\<rparr>"
proof -
  have "fold (\<lambda>e. store_set (adw_ConsumerId e, adw_ProviderConsAddr e, adw_WindowEndHeight e)
        \<lparr>WindowStart = adw_WindowStartHeight e, AcceptedAt = adw_AcceptedAt e\<rparr>) (exportAcceptedDowntimeWindows s) empty_store =
      AcceptedDowntimeWindows s"
    unfolding exportAcceptedDowntimeWindows_def by (subst put_keyed) simp_all
  moreover have "fold (\<lambda>key. store_set key ()) (exportPunishedEquivocations s) empty_store = PunishedEquivocations s"
    unfolding exportPunishedEquivocations_def
    using put_keyed[of "entries (PunishedEquivocations s)" "\<lambda>key. key" fst "\<lambda>_. ()" empty_store] by simp
  moreover have "fold (\<lambda>key. store_set key True) (exportEpochDowntimeEntries s) empty_store = EpochDowntime s"
  proof -
    have "\<forall>e \<in> set (entries (EpochDowntime s)). fst e = fst e \<and> True = snd e"
      using assms(1) unfolding records_exportable_def by (metis kv.iter_mem prod.collapse)
    from put_keyed[where key = "\<lambda>key. key" and val = "\<lambda>_. True", OF this, of empty_store] show ?thesis
      by (simp add: exportEpochDowntimeEntries_def)
  qed
  ultimately show ?thesis
    using rebuild_store[of "DowntimeWindowFloors s"]
    by (simp add: import_windows_def assms(2-) exportDowntimeWindowFloors_def)
qed

lemma exported_fields:
  "pg_ConsumerStates (Provider_ExportGenesis A I s) = exported_consumers s"
  "pg_ValsetUpdateId (Provider_ExportGenesis A I s) = ValidatorSetUpdateId s"
  "pg_Params (Provider_ExportGenesis A I s) = Params s"
  "pg_InfractionParameters (Provider_ExportGenesis A I s) = Some (InfractionParams s)"
  "pg_ValidatorConsumerPubkeys (Provider_ExportGenesis A I s) = entries (ValidatorConsumerPubKey s)"
  "pg_ValidatorsByConsumerAddr (Provider_ExportGenesis A I s) = entries (ValidatorByConsumerAddr s)"
  "pg_ConsumerAddrsToPrune (Provider_ExportGenesis A I s) = concat (map (\<lambda>c. GetAllConsumerAddrsToPrune c s) (GetAllConsumerIds s))"
  "pg_ConsumerFeesPerBlockOverrides (Provider_ExportGenesis A I s) =
     map (\<lambda>e. (fst e, I (snd e))) (entries (ConsumerFeesPerBlockOverride s))"
  "pg_ConsumerFeePoolShares (Provider_ExportGenesis A I s) = fst (exportFeePoolShares A s)"
  "pg_WithheldFeeRecords (Provider_ExportGenesis A I s) = exportWithheldFeeRecords s"
  "pg_PendingDowntimeSlashes (Provider_ExportGenesis A I s) = exportPendingDowntimeSlashes s"
  "pg_PreviousDowntimeParams (Provider_ExportGenesis A I s) = PreviousDowntimeParams s"
  "pg_EpochShareRecords (Provider_ExportGenesis A I s) = exportEpochShareRecords s"
  "pg_AcceptedDowntimeWindows (Provider_ExportGenesis A I s) = exportAcceptedDowntimeWindows s"
  "pg_DowntimeWindowFloors (Provider_ExportGenesis A I s) = exportDowntimeWindowFloors s"
  "pg_PunishedEquivocations (Provider_ExportGenesis A I s) = exportPunishedEquivocations s"
  "pg_EpochDowntimeEntries (Provider_ExportGenesis A I s) = exportEpochDowntimeEntries s"
  by (simp_all add: Provider_ExportGenesis_def NewProviderGenesisState_def exportFeePoolShares_def Let_def
      GetAllValidatorConsumerPubKeys_def GetAllValidatorsByConsumerAddr_def)

lemma restart_next_id:
  "(if exported_consumers s \<noteq> [] then t\<lparr>ConsumerId := max_consumer_id (exported_consumers s) + 1\<rparr> else t) =
     (if ConsumerId s = 0 then t else t\<lparr>ConsumerId := ConsumerId s\<rparr>)"
proof (cases "ConsumerId s = 0")
  case False
  then have "GetAllConsumerIds s \<noteq> []" by (simp add: GetAllConsumerIds_def GetConsumerId_def)
  then show ?thesis using next_consumer_id[of s] False by simp
qed (simp add: GetAllConsumerIds_def GetConsumerId_def)

lemma restart_keys:
  assumes "ValidatorConsumerPubKey u = empty_store" "ValidatorByConsumerAddr u = empty_store" "ConsumerAddrsToPrune u = empty_store"
  shows "\<exists>x. fold import_to_prune (pg_ConsumerAddrsToPrune (Provider_ExportGenesis A I s))
      (fold (\<lambda>item. SetValidatorByConsumerAddr (fst (fst item)) (snd (fst item)) (snd item)) (entries (ValidatorByConsumerAddr s))
        (fold (\<lambda>item. SetValidatorConsumerPubKey (fst (fst item)) (snd (fst item)) (snd item)) (entries (ValidatorConsumerPubKey s)) u)) =
      u\<lparr>ValidatorConsumerPubKey := ValidatorConsumerPubKey s, ValidatorByConsumerAddr := ValidatorByConsumerAddr s, ConsumerAddrsToPrune := x\<rparr> \<and>
    (\<forall>c ts. (case store_get x (c, ts) of None \<Rightarrow> [] | Some as \<Rightarrow> as) = (if c < ConsumerId s then GetConsumerAddrsToPrune s c ts else []))"
proof -
  define items where "items = concat (map (\<lambda>c. GetAllConsumerAddrsToPrune c s) (GetAllConsumerIds s))"
  define u1 where "u1 = u\<lparr>ValidatorConsumerPubKey := ValidatorConsumerPubKey s, ValidatorByConsumerAddr := ValidatorByConsumerAddr s\<rparr>"
  obtain x where x: "fold import_to_prune items u1 = u1\<lparr>ConsumerAddrsToPrune := x\<rparr>"
    "\<forall>d v. GetConsumerAddrsToPrune (u1\<lparr>ConsumerAddrsToPrune := x\<rparr>) d v =
        GetConsumerAddrsToPrune u1 d v @ (case map_of items (d, v) of None \<Rightarrow> [] | Some as \<Rightarrow> as)"
    using import_prune_list[OF map_of_to_prune(1)[OF all_ids(1)[of s], of s], of u1] unfolding items_def by blast
  have "(case store_get x (c, ts) of None \<Rightarrow> [] | Some as \<Rightarrow> as) = (if c < ConsumerId s then GetConsumerAddrsToPrune s c ts else [])" for c ts
    using x(2)[rule_format, of c ts] map_of_to_prune(2)[OF all_ids(1)[of s], of s c ts] assms(3)
    by (simp add: items_def GetConsumerAddrsToPrune_def u1_def all_ids(2))
  moreover have "fold (\<lambda>item. SetValidatorByConsumerAddr (fst (fst item)) (snd (fst item)) (snd item)) (entries (ValidatorByConsumerAddr s))
        (fold (\<lambda>item. SetValidatorConsumerPubKey (fst (fst item)) (snd (fst item)) (snd item)) (entries (ValidatorConsumerPubKey s)) u) = u1"
    using assms(1,2) by (simp add: import_pubkeys import_by_addr u1_def)
  ultimately show ?thesis using x(1) by (auto simp: exported_fields items_def u1_def)
qed

lemma restart_shares:
  assumes "ledger_ok s" "importable k A I s" "ConsumerFeePoolShares u = empty_store"
  shows "fold_res (import_share k) (fst (exportFeePoolShares A s)) (empty_store, u) =
    Ok (ConsumerFeePoolTotalShares s, u\<lparr>ConsumerFeePoolShares := ConsumerFeePoolShares s\<rparr>)"
  using import_shares[of "entries (ConsumerFeePoolShares s)" k A empty_store u] totals_recomputed[OF assms(1)] assms(2,3)
  by (simp add: exportFeePoolShares_def importable_def recomputed_totals_def)

lemma restart_pools:
  assumes "pools_accounted k s" "world u = world s" "FeePoolAddressToConsumerId u = empty_store"
  shows "fold (import_pool k (ConsumerFeePoolTotalShares s)) (entries (phase_of s)) u =
    u\<lparr>FeePoolAddressToConsumerId := put_all (pool_lookup k (entries (phase_of s))) empty_store\<rparr>"
proof -
  have "GetConsumerPhase s (fst e) = snd e \<and> store_has (phase_of s) (fst e)" if "e \<in> set (entries (phase_of s))" for e
    using that kv.iter_mem[of "fst e" "snd e" "phase_of s"] by (simp add: GetConsumerPhase_def store_has_def)
  then show ?thesis using assms by (subst import_pools) (auto simp: pools_accounted_def)
qed

lemma restart_withheld:
  assumes "records_exportable k s" "WithheldFeeRecords u = empty_store"
  shows "fold_res (import_withheld k) (exportWithheldFeeRecords s) u = Ok (u\<lparr>WithheldFeeRecords := WithheldFeeRecords s\<rparr>)"
proof -
  have "\<forall>e \<in> set (entries (WithheldFeeRecords s)).
      (wfr_ConsumerId (snd e), wfr_ProviderConsAddr (snd e)) = fst e \<and> Denom (wfr_Amount (snd e)) = feeDenom k"
    using assms(1) by (auto simp: records_exportable_def kv.iter_mem)
  then show ?thesis using import_withhelds[of "entries (WithheldFeeRecords s)" k u] assms(2)
    by (simp add: exportWithheldFeeRecords_def)
qed

lemma restart_state:
  assumes ok: "consumers_exportable k s" "records_exportable k s" "pools_accounted k s" "ledger_ok s" "importable k A I s"
  shows "\<exists>us x y. Provider_InitGenesis k (Provider_ExportGenesis A I s) (blank_pstate (world s)) = Ok (us, finished k s x y) \<and>
    (\<forall>c ts. (case store_get x (c, ts) of None \<Rightarrow> [] | Some as \<Rightarrow> as) =
       (if c < ConsumerId s then GetConsumerAddrsToPrune s c ts else []))"
proof -
  define gs where "gs = Provider_ExportGenesis A I s"
  define b where "b = (blank_pstate (world s))\<lparr>ValidatorSetUpdateId := ValidatorSetUpdateId s\<rparr>"
  define s4 where "s4 = (rebuilt s)\<lparr>ConsumerId := ConsumerId s, ConsumerFeesPerBlockOverride := ConsumerFeesPerBlockOverride s\<rparr>"
  have s2: "fold derive_consumer (exported_consumers s) (imported (exported_consumers s) b) = rebuilt s"
    by (simp only: derive_consumers rebuilt_def b_def)
  have s3: "(if exported_consumers s \<noteq> [] then (rebuilt s)\<lparr>ConsumerId := max_consumer_id (exported_consumers s) + 1\<rparr> else rebuilt s)
      = (rebuilt s)\<lparr>ConsumerId := ConsumerId s\<rparr>" unfolding restart_next_id by simp
  have overrides: "fold (import_override k) (pg_ConsumerFeesPerBlockOverrides gs) ((rebuilt s)\<lparr>ConsumerId := ConsumerId s\<rparr>) = s4"
    using ok(5) import_overrides[of "entries (ConsumerFeesPerBlockOverride s)" k I] by (simp add: gs_def exported_fields importable_def s4_def)
  obtain x where keys: "fold import_to_prune (pg_ConsumerAddrsToPrune gs)
      (fold (\<lambda>item. SetValidatorByConsumerAddr (fst (fst item)) (snd (fst item)) (snd item)) (entries (ValidatorByConsumerAddr s))
        (fold (\<lambda>item. SetValidatorConsumerPubKey (fst (fst item)) (snd (fst item)) (snd item)) (entries (ValidatorConsumerPubKey s)) s4)) =
      s4\<lparr>ValidatorConsumerPubKey := ValidatorConsumerPubKey s, ValidatorByConsumerAddr := ValidatorByConsumerAddr s, ConsumerAddrsToPrune := x\<rparr>"
    and prune: "\<forall>c ts. (case store_get x (c, ts) of None \<Rightarrow> [] | Some as \<Rightarrow> as) = (if c < ConsumerId s then GetConsumerAddrsToPrune s c ts else [])"
    using restart_keys[of s4 A I s] by (auto simp: s4_def gs_def)
  define s9 where "s9 = s4\<lparr>ValidatorConsumerPubKey := ValidatorConsumerPubKey s, ValidatorByConsumerAddr := ValidatorByConsumerAddr s,
     ConsumerAddrsToPrune := x, ConsumerFeePoolShares := ConsumerFeePoolShares s, ConsumerFeePoolTotalShares := ConsumerFeePoolTotalShares s\<rparr>"
  define s11 where "s11 = s9\<lparr>FeePoolAddressToConsumerId := put_all (pool_lookup k (entries (phase_of s))) empty_store,
     Params := Params s, InfractionParams := InfractionParams s\<rparr>"
  define s12 where "s12 = s11\<lparr>PendingDowntimeSlashes := PendingDowntimeSlashes s,
      PreviousDowntimeParams := PreviousDowntimeParams s, EpochShareRecords := EpochShareRecords s,
      WithheldFeeRecords := WithheldFeeRecords s\<rparr>"
  note states = s12_def s11_def s9_def s4_def
  have phases: "phase_of s9 = phase_of s" by (simp add: states rebuilt_phases[OF ok(1)])
  have pools: "set_genesis_params k gs (fold (import_pool k (ConsumerFeePoolTotalShares s)) (entries (phase_of s)) s9) = Ok s11"
    using ok(5) restart_pools[OF ok(3), of s9] by (simp add: set_genesis_params_def gs_def exported_fields importable_def states)
  have "import_downtime gs s11 = s11\<lparr>PendingDowntimeSlashes := PendingDowntimeSlashes s,
      PreviousDowntimeParams := PreviousDowntimeParams s, EpochShareRecords := EpochShareRecords s\<rparr>"
    by (rule import_downtime_exported[OF ok(2)]) (simp_all add: gs_def exported_fields states)
  then have withheld: "fold_res (import_withheld k) (pg_WithheldFeeRecords gs) (import_downtime gs s11) = Ok s12"
    using restart_withheld[OF ok(2)] by (simp add: gs_def exported_fields states)
  have windows: "import_windows gs s12 = s12\<lparr>AcceptedDowntimeWindows := AcceptedDowntimeWindows s,
      DowntimeWindowFloors := DowntimeWindowFloors s, PunishedEquivocations := PunishedEquivocations s, EpochDowntime := EpochDowntime s\<rparr>"
    by (rule import_windows_exported[OF ok(2)]) (simp_all add: gs_def exported_fields states)
  obtain vals where "GetBondedValidatorsByPower k (world s) = Some vals"
    "\<forall>v \<in> set vals. \<exists>cv. CreateProviderConsensusValidator k s v = Ok cv"
    using ok(5) by (auto simp: importable_def split: option.splits)
  moreover have "world (import_windows gs s12) = world s" unfolding windows by (simp add: states)
  ultimately obtain us y where last: "InitGenesisValUpdates k (import_windows gs s12) = Ok (us, (import_windows gs s12)\<lparr>LastProviderConsensusVals := y\<rparr>)"
    using genesis_val_updates[of k s vals "import_windows gs s12"] by blast
  have fin: "(import_windows gs s12)\<lparr>LastProviderConsensusVals := y\<rparr> = finished k s x y"
    unfolding windows by (simp add: states finished_def)
  have "Provider_InitGenesis k gs (blank_pstate (world s)) = Ok (us, finished k s x y)"
    unfolding Provider_InitGenesis_def Let_def gs_def exported_fields(1,2,5,6,9) b_def[symmetric]
      import_exported[OF ok(1), of "ValidatorSetUpdateId s", folded b_def] bind_res.simps s2 s3
      overrides[unfolded gs_def] keys[unfolded gs_def]
    using pools withheld last fin phases by (simp add: restart_shares[OF ok(4,5)] rebuild_store gs_def states)
  then show ?thesis using prune unfolding gs_def by blast
qed

definition from_file :: "'w pstate \<Rightarrow> (ConsumerState \<Rightarrow> 'a option) \<Rightarrow> consumer_id \<Rightarrow> 'a option" where
  "from_file s g c = (if c < ConsumerId s then g (export_consumer s c) else None)"

lemma rebuilt_identity:
  assumes "consumers_exportable k s"
  shows "store_get (ConsumerChainId (rebuilt s)) c = from_file s (\<lambda>cs. present '''' (co_ChainId cs)) c"
    "store_get (ConsumerOwnerAddress (rebuilt s)) c = from_file s (\<lambda>cs. present '''' (co_OwnerAddress cs)) c"
    "store_get (ConsumerMetadata (rebuilt s)) c = from_file s co_Metadata c"
    "store_get (ConsumerInitParams (rebuilt s)) c = from_file s co_InitParams c"
    "store_get (ConsumerClients (rebuilt s)) c = from_file s (\<lambda>cs. present '''' (co_ClientId cs)) c"
    "store_get (ConsumerGenesis (rebuilt s)) c = from_file s co_ConsumerGenesis c"
  by (simp_all add: rebuilt_def derived_def imported_def blank_pstate_def rebuilt_get[OF assms] from_file_def)

lemma rebuilt_lifecycle:
  assumes "consumers_exportable k s"
  shows "store_get (ConsumerRemovalTime (rebuilt s)) c = from_file s co_RemovalTime c"
    "store_get (ConsumerPauseExpirationTime (rebuilt s)) c = from_file s co_PauseExpirationTime c"
    "store_get (ConsumerPauseReason (rebuilt s)) c = from_file s (\<lambda>cs. present PAUSE_REASON_UNSPECIFIED (co_PauseReason cs)) c"
    "store_get (ConsumerPausedAt (rebuilt s)) c = from_file s co_PausedAt c"
    "store_get (EquivocationEvidenceMinHeight (rebuilt s)) c = from_file s min_height_of c"
  by (simp_all add: rebuilt_def derived_def imported_def blank_pstate_def rebuilt_get[OF assms] from_file_def)

lemma rebuilt_relay:
  assumes "consumers_exportable k s"
  shows "store_get (ConsumerLastAckTime (rebuilt s)) c = from_file s co_LastAckTime c"
    "store_get (ConsumerHighestSentVscId (rebuilt s)) c = from_file s (\<lambda>cs. present 0 (co_HighestSentVscId cs)) c"
    "store_get (ConsumerHighestAckedVscId (rebuilt s)) c = from_file s (\<lambda>cs. present 0 (co_HighestAckedVscId cs)) c"
    "store_get (ConsumerDebt (rebuilt s)) c = from_file s (\<lambda>cs. present False (co_InDebt cs)) c"
  by (simp_all add: rebuilt_def derived_def imported_def blank_pstate_def rebuilt_get[OF assms] from_file_def)

lemma rebuilt_pending: "GetPendingVSCPackets (rebuilt s) c = (if c < ConsumerId s then GetPendingVSCPackets s c else [])"
proof -
  have "PendingVSCPackets (rebuilt s) = fold append_pending (exported_consumers s) empty_store"
    by (simp add: rebuilt_def derived_def imported_def blank_pstate_def)
  then show ?thesis
    using append_pending_fold[OF all_ids(1)[of s], of empty_store s c]
    by (simp add: GetPendingVSCPackets_def[of "rebuilt s"] all_ids(2))
qed

lemma rebuilt_queues:
  "sched (SpawnTimeToConsumerIds (rebuilt s)) c (from_file s launch_at c)"
  "sched (PauseExpirationTimeToConsumerIds (rebuilt s)) c (from_file s auto_stop_at c)"
  "sched (RemovalTimeToConsumerIds (rebuilt s)) c (from_file s remove_at c)"
proof -
  have "sched (fold (\<lambda>cs. opt_append (co_ConsumerId cs) (h cs)) (exported_consumers s) empty_store) c (from_file s h c)" for h
    using sched_opt_fold[OF all_ids(1)[of s] sched_empty, of "\<lambda>c. h (export_consumer s c)" c]
    by (simp add: export_fold(2) all_ids(2) from_file_def)
  then show "sched (SpawnTimeToConsumerIds (rebuilt s)) c (from_file s launch_at c)"
    "sched (PauseExpirationTimeToConsumerIds (rebuilt s)) c (from_file s auto_stop_at c)"
    "sched (RemovalTimeToConsumerIds (rebuilt s)) c (from_file s remove_at c)"
    by (simp_all add: rebuilt_def derived_def imported_def blank_pstate_def)
qed

lemma present_same: "x \<noteq> Some '''' \<Longrightarrow> present '''' (string_or_empty x) = x"
  by (cases x) (simp_all add: present_def string_or_empty_def)

lemma from_file_exported:
  assumes "consumers_exportable k s"
  shows "from_file s (\<lambda>cs. present '''' (co_ChainId cs)) c = GetConsumerChainId s c"
    "from_file s (\<lambda>cs. present '''' (co_OwnerAddress cs)) c = GetConsumerOwnerAddress s c"
    "from_file s (\<lambda>cs. present '''' (co_ClientId cs)) c = GetConsumerClientId s c"
    "from_file s co_Metadata c = store_get (ConsumerMetadata s) c"
    "from_file s co_InitParams c = GetConsumerInitializationParameters s c"
    "from_file s co_ConsumerGenesis c = store_get (ConsumerGenesis s) c"
    "from_file s co_RemovalTime c = store_get (ConsumerRemovalTime s) c"
    "from_file s co_PauseExpirationTime c = GetConsumerPauseExpirationTime s c"
    "from_file s co_PausedAt c = GetConsumerPausedAt s c"
    "from_file s co_LastAckTime c = store_get (ConsumerLastAckTime s) c"
    "from_file s min_height_of c = store_get (EquivocationEvidenceMinHeight s) c"
proof -
  have "unregistered s c" if "\<not> c < ConsumerId s" using assms that by (simp add: consumers_exportable_def)
  moreover have "GetConsumerChainId s c \<noteq> Some ''''" "GetConsumerOwnerAddress s c \<noteq> Some ''''"
    "GetConsumerClientId s c \<noteq> Some ''''" "store_get (EquivocationEvidenceMinHeight s) c = min_height_of (export_consumer s c)"
    using assms by (simp_all add: consumers_exportable_def)
  ultimately show "from_file s (\<lambda>cs. present '''' (co_ChainId cs)) c = GetConsumerChainId s c"
    "from_file s (\<lambda>cs. present '''' (co_OwnerAddress cs)) c = GetConsumerOwnerAddress s c"
    "from_file s (\<lambda>cs. present '''' (co_ClientId cs)) c = GetConsumerClientId s c"
    "from_file s co_Metadata c = store_get (ConsumerMetadata s) c"
    "from_file s co_InitParams c = GetConsumerInitializationParameters s c"
    "from_file s co_ConsumerGenesis c = store_get (ConsumerGenesis s) c"
    "from_file s co_RemovalTime c = store_get (ConsumerRemovalTime s) c"
    "from_file s co_PauseExpirationTime c = GetConsumerPauseExpirationTime s c"
    "from_file s co_PausedAt c = GetConsumerPausedAt s c"
    "from_file s co_LastAckTime c = store_get (ConsumerLastAckTime s) c"
    "from_file s min_height_of c = store_get (EquivocationEvidenceMinHeight s) c"
    by (auto simp: from_file_def unregistered_def export_consumer_def present_same)
qed

lemma finished_identity:
  assumes "consumers_exportable k s"
  shows "GetConsumerChainId (finished k s x y) c = GetConsumerChainId s c"
    "GetConsumerPhase (finished k s x y) c = GetConsumerPhase s c"
    "GetConsumerOwnerAddress (finished k s x y) c = GetConsumerOwnerAddress s c"
    "store_get (ConsumerMetadata (finished k s x y)) c = store_get (ConsumerMetadata s) c"
    "GetConsumerInitializationParameters (finished k s x y) c = GetConsumerInitializationParameters s c"
    "GetConsumerClientId (finished k s x y) c = GetConsumerClientId s c"
    "store_get (ConsumerGenesis (finished k s x y)) c = store_get (ConsumerGenesis s) c"
  by (simp_all add: finished_def keeper_simps GetConsumerPhase_def rebuilt_phases[OF assms] rebuilt_identity[OF assms]
      from_file_exported[OF assms])

lemma finished_lifecycle:
  assumes "consumers_exportable k s"
  shows "store_get (ConsumerRemovalTime (finished k s x y)) c = store_get (ConsumerRemovalTime s) c"
    "GetConsumerPauseExpirationTime (finished k s x y) c = GetConsumerPauseExpirationTime s c"
    "GetConsumerPausedAt (finished k s x y) c = GetConsumerPausedAt s c"
    "GetConsumerPauseReason (finished k s x y) c = GetConsumerPauseReason s c"
    "store_get (EquivocationEvidenceMinHeight (finished k s x y)) c = store_get (EquivocationEvidenceMinHeight s) c"
proof -
  have "unregistered s c" if "\<not> c < ConsumerId s" using assms that by (simp add: consumers_exportable_def)
  then show "GetConsumerPauseReason (finished k s x y) c = GetConsumerPauseReason s c"
    by (auto simp: finished_def GetConsumerPauseReason_def rebuilt_lifecycle[OF assms] from_file_def unregistered_def
        export_consumer_def present_def)
qed (simp_all add: finished_def keeper_simps rebuilt_lifecycle[OF assms] from_file_exported[OF assms])

lemma finished_relay:
  assumes "consumers_exportable k s"
  shows "store_get (ConsumerLastAckTime (finished k s x y)) c = store_get (ConsumerLastAckTime s) c"
    "GetConsumerHighestSentVscId (finished k s x y) c = GetConsumerHighestSentVscId s c"
    "GetConsumerHighestAckedVscId (finished k s x y) c = GetConsumerHighestAckedVscId s c"
    "IsConsumerInDebt (finished k s x y) c = IsConsumerInDebt s c"
    "GetPendingVSCPackets (finished k s x y) c = GetPendingVSCPackets s c"
proof -
  have "unregistered s c" if "\<not> c < ConsumerId s" using assms that by (simp add: consumers_exportable_def)
  then show "GetConsumerHighestSentVscId (finished k s x y) c = GetConsumerHighestSentVscId s c"
    "GetConsumerHighestAckedVscId (finished k s x y) c = GetConsumerHighestAckedVscId s c"
    "IsConsumerInDebt (finished k s x y) c = IsConsumerInDebt s c"
    by (auto simp: finished_def GetConsumerHighestSentVscId_def GetConsumerHighestAckedVscId_def IsConsumerInDebt_def
        rebuilt_relay[OF assms] from_file_def unregistered_def export_consumer_def present_def store_has_def)
  have "GetPendingVSCPackets (finished k s x y) c = GetPendingVSCPackets (rebuilt s) c"
    by (simp add: GetPendingVSCPackets_def finished_def)
  then show "GetPendingVSCPackets (finished k s x y) c = GetPendingVSCPackets s c"
    using \<open>\<not> c < ConsumerId s \<Longrightarrow> unregistered s c\<close>
    by (auto simp: rebuilt_pending unregistered_def GetPendingVSCPackets_def[of s])
qed (simp add: finished_def rebuilt_relay[OF assms] from_file_exported[OF assms])

lemma finished_consumer:
  assumes "consumers_exportable k s"
    "\<forall>ts. (case store_get x (c, ts) of None \<Rightarrow> [] | Some as \<Rightarrow> as) = (if c < ConsumerId s then GetConsumerAddrsToPrune s c ts else [])"
  shows "same_consumer s (finished k s x y) c"
proof -
  have "unregistered s c" if "\<not> c < ConsumerId s" using assms(1) that by (simp add: consumers_exportable_def)
  then have "GetConsumerAddrsToPrune (finished k s x y) c ts = GetConsumerAddrsToPrune s c ts" for ts
    using assms(2) by (auto simp: GetConsumerAddrsToPrune_def finished_def unregistered_def)
  then show ?thesis
    unfolding same_consumer_def GetEquivocationEvidenceMinHeight_def
    by (simp add: finished_identity[OF assms(1)] finished_lifecycle[OF assms(1)] finished_relay[OF assms(1)])
qed

lemma view_ok_requeued:
  assumes "view_ok v" "lv_phase u = lv_phase v" "lv_spawn u = lv_spawn v" "lv_pause_end u = lv_pause_end v"
    "lv_removal u = lv_removal v"
    "lv_spawn_queue u (if lv_phase v = CONSUMER_PHASE_INITIALIZED then lv_spawn v else None)"
    "lv_pause_queue u (if lv_phase v = CONSUMER_PHASE_PAUSED then lv_pause_end v else None)"
    "lv_removal_queue u (if lv_phase v = CONSUMER_PHASE_STOPPED then lv_removal v else None)"
  shows "view_ok u"
  using assms(1,6-8) unfolding view_ok_def assms(2-5) by blast

lemma finished_life_ok:
  assumes "consumers_exportable k s" "life_ok s"
  shows "life_ok (finished k s x y)"
proof -
  have inv: "ConsumerId s \<le> c \<Longrightarrow> GetConsumerPhase s c = CONSUMER_PHASE_UNSPECIFIED" "view_ok (lview c s)" for c
    using assms(2) by (simp_all add: life_ok_def)
  have dates: "from_file s launch_at c = (if GetConsumerPhase s c = CONSUMER_PHASE_INITIALIZED then lv_spawn (lview c s) else None)"
    "from_file s auto_stop_at c = (if GetConsumerPhase s c = CONSUMER_PHASE_PAUSED then lv_pause_end (lview c s) else None)"
    "from_file s remove_at c = (if GetConsumerPhase s c = CONSUMER_PHASE_STOPPED then lv_removal (lview c s) else None)" for c
    using inv(1)[of c]
    by (auto simp: from_file_def launch_at_def auto_stop_at_def remove_at_def export_consumer_def lview_def keeper_simps)
  have "view_ok (lview c (finished k s x y))" for c
  proof (rule view_ok_requeued[OF inv(2)])
    show "lv_phase (lview c (finished k s x y)) = lv_phase (lview c s)"
      "lv_spawn (lview c (finished k s x y)) = lv_spawn (lview c s)"
      "lv_pause_end (lview c (finished k s x y)) = lv_pause_end (lview c s)"
      "lv_removal (lview c (finished k s x y)) = lv_removal (lview c s)"
      using finished_identity(2,5)[OF assms(1)] finished_lifecycle(1,2)[OF assms(1)]
      by (simp_all add: lview_def keeper_simps)
  qed (use rebuilt_queues[of s c] in \<open>simp_all add: dates lview_def finished_def split del: if_split\<close>)
  then show ?thesis
    unfolding life_ok_def using inv(1) finished_identity(2)[OF assms(1)] by (auto simp: finished_def)
qed

text \<open>
  C12. Exporting the provider's state and starting a new chain from the file gives the state back.
  Whenever every record is stored under the key it carries, heights fit their chain id, no two
  consumers share a client, shares account for the pool balances and the staking module lists its
  bonded validators, the import succeeds; every consumer's identity, parameters, phase, pause and
  removal times, relay counters, pending packets and keys to prune, all parameters, assigned keys,
  fee shares, withheld fees and downtime records are the exported ones. The pool totals and the
  three time queues are not in the file: the import rebuilds them, and both the ledger and the
  queue invariant hold again. What is lost is the validator set of each consumer, which is empty
  until the next epoch.
\<close>

theorem provider_genesis_round_trip:
  assumes "consumers_exportable k s" "records_exportable k s" "pools_accounted k s" "ledger_ok s" "life_ok s"
    "importable k A I s"
  shows "\<exists>us t. Provider_InitGenesis k (Provider_ExportGenesis A I s) (blank_pstate (world s)) = Ok (us, t) \<and>
    (\<forall>c. same_consumer s t c) \<and> same_records s t \<and> ledger_ok t \<and> life_ok t \<and> ConsumerValidators t = empty_store"
proof -
  obtain us x y where init: "Provider_InitGenesis k (Provider_ExportGenesis A I s) (blank_pstate (world s)) = Ok (us, finished k s x y)"
    and prune: "\<forall>c ts. (case store_get x (c, ts) of None \<Rightarrow> [] | Some as \<Rightarrow> as) = (if c < ConsumerId s then GetConsumerAddrsToPrune s c ts else [])"
    using restart_state[OF assms(1-4,6)] by blast
  have "same_records s (finished k s x y)" "ConsumerValidators (finished k s x y) = empty_store"
    by (simp_all add: same_records_def finished_def)
  moreover have "ledger_ok (finished k s x y)"
    using assms(4) ledger_ok_cong[of "finished k s x y" s] by (simp add: finished_def)
  ultimately show ?thesis
    using init finished_consumer[OF assms(1)] finished_life_ok[OF assms(1,5)] prune by blast
qed

text \<open>Until that epoch no downtime evidence is accepted, whatever it accuses.\<close>

lemma restart_refuses_downtime:
  assumes "ConsumerValidators s = empty_store"
  shows "HandleConsumerDowntime k ctx c packet s \<noteq> Ok t"
  using assms by (auto elim!: HandleConsumerDowntime_Ok simp: keeper_simps)

text \<open>A provider with one launched chain, whose pool holds five tokens of one depositor.\<close>

definition ex_print_addr :: "addr \<Rightarrow> string" where
  "ex_print_addr = map (\<lambda>b. char_of (unat b))"

definition ex_parse_addr :: "string \<Rightarrow> addr" where
  "ex_parse_addr = map (\<lambda>ch. word_of_nat (of_char ch))"

definition ex_print_int :: "int \<Rightarrow> string" where
  "ex_print_int i = (if i < 0 then CHR ''-'' # replicate (nat (- i)) CHR ''1'' else replicate (nat i) CHR ''1'')"

definition ex_parse_int :: "string \<Rightarrow> int" where
  "ex_parse_int x = (if x \<noteq> [] \<and> hd x = CHR ''-'' then - int (length (tl x)) else int (length x))"

lemma ex_codecs: "ex_parse_addr (ex_print_addr a) = a" "ex_parse_int (ex_print_int i) = i"
proof -
  have "word_of_nat (of_char (char_of (unat b) :: char)) = (b :: 8 word)" for b
    using unsigned_less[of b, where 'a = nat] by (simp add: of_char_of)
  then show "ex_parse_addr (ex_print_addr a) = a" by (simp add: ex_parse_addr_def ex_print_addr_def map_idI)
  show "ex_parse_int (ex_print_int i) = i" by (cases "nat i") (auto simp: ex_parse_int_def ex_print_int_def)
qed

definition ex_restart_keeper :: "unit keeper" where
  "ex_restart_keeper = ex_life_keeper\<lparr>AccAddressFromBech32 := (\<lambda>x. Some (ex_parse_addr x)),
     IntFromString := (\<lambda>x. Some (ex_parse_int x)),
     GetAllBalances := (\<lambda>_ a. if a = GetConsumerFeePoolAddress ex_life_keeper 0 then [\<lparr>Denom = ''uphoton'', Amount = 5\<rparr>] else [])\<rparr>"

definition ex_running :: "unit pstate" where
  "ex_running = ex_life_start\<lparr>ConsumerId := 1, phase_of := store_set 0 CONSUMER_PHASE_LAUNCHED empty_store,
     ConsumerChainId := store_set 0 ''shop-1'' empty_store, ConsumerOwnerAddress := store_set 0 ''owner'' empty_store,
     ConsumerInitParams := store_set 0 ex_init_params empty_store,
     ConsumerClients := store_set 0 ''07-tendermint-0'' empty_store,
     EquivocationEvidenceMinHeight := store_set 0 1 empty_store,
     ConsumerFeePoolShares := store_set (0, ''uphoton'', [7]) 5 empty_store,
     ConsumerFeePoolTotalShares := store_set (0, ''uphoton'') 5 empty_store\<rparr>"

lemmas ex_running_simps = ex_running_def ex_life_start_def blank_pstate_def ex_restart_keeper_def ex_life_keeper_def
  blank_keeper_def ex_init_params_def

lemma ex_running_exportable: "consumers_exportable ex_restart_keeper ex_running"
  by (auto simp: consumers_exportable_def unregistered_def init_params_fit_def min_height_of_def export_consumer_def
      string_or_empty_def keeper_simps GetConsumerPhase_def ex_running_simps DefaultConsumerInitializationParameters_def
      split: if_splits)

lemma ex_running_ok:
  "records_exportable ex_restart_keeper ex_running" "pools_accounted ex_restart_keeper ex_running"
  "ledger_ok ex_running" "life_ok ex_running" "importable ex_restart_keeper ex_print_addr ex_print_int ex_running"
proof -
  show "records_exportable ex_restart_keeper ex_running" by (simp add: records_exportable_def ex_running_simps)
  show "pools_accounted ex_restart_keeper ex_running"
    by (auto simp: pools_accounted_def ex_running_simps split: if_splits)
  show "ledger_ok ex_running"
    by (auto simp: ledger_ok_def shares_sum_def total_of_def in_pool_def range_sum_set ex_running_simps split: if_splits)
  show "life_ok ex_running"
    by (auto simp: life_ok_def view_ok_def lview_def GetConsumerPhase_def sched_empty ex_running_simps)
  show "importable ex_restart_keeper ex_print_addr ex_print_int ex_running"
    unfolding importable_def by (simp add: ex_codecs ex_running_simps) code_simp
qed

theorem provider_genesis_round_trip_witness:
  "\<exists>us t. Provider_InitGenesis ex_restart_keeper (Provider_ExportGenesis ex_print_addr ex_print_int ex_running)
      (blank_pstate ()) = Ok (us, t) \<and> same_consumer ex_running t 0 \<and> ledger_ok t \<and> life_ok t"
  using provider_genesis_round_trip[OF ex_running_exportable ex_running_ok] by auto

end
