(* ===== verification/Consumer.thy ===== *)
theory Consumer
  imports Blocks
begin

text \<open>
  The consumer chain's module (\<^verbatim>\<open>x/vaas/consumer\<close>): the validator set it takes from the
  provider's packets, the downtime it measures and reports, the pinned provider client, its
  genesis and its entry points. The IBC, slashing and key libraries are the fields of
  \<open>'w ckeeper\<close>, as on the provider; \<^verbatim>\<open>encoding/json\<close> enters as the pair of functions that
  write and read an evidence packet. A stored validator carries its decoded key, so
  \<^verbatim>\<open>ConsPubKey\<close> is the field itself. Downtime parameters whose fraction is nil are read as
  the fraction \<open>0\<close>: every check of the code rejects both alike.
\<close>

subsection \<open>State\<close>

record VaasValidator =
  vv_Address :: addr
  vv_Power :: int
  vv_Pubkey :: pubkey

record HistoricalInfo =
  hist_Header :: bytes
  hist_Valset :: "StakingValidator list"

record VoteInfo =
  vi_Address :: addr
  vi_BlockIdFlag :: BlockIDFlag

record cctx = sdk_ctx +
  VoteInfos :: "VoteInfo list"
  BlockHeader :: bytes

record 'w cstate =
  ProviderClientID :: "string option"
  PendingChanges :: "ValidatorUpdate list option"
  InitGenesisHeight_c :: "int option"
  CParams :: ConsumerParams
  CInDebt :: "bool option"
  VaasValidators :: "(addr, VaasValidator) store"
  HistoricalInfos :: "(int, HistoricalInfo) store"
  HighestValsetUpdateID :: "nat option"
  PendingEvidencePackets :: "(addr \<times> int, bytes) store"
  LastVSCRecvTime :: "time option"
  MissedBlockBitmaps :: "(addr, bytes) store"
  FirstTrackedHeights :: "(addr, int) store"
  StagedDowntimeParams :: "DowntimeParams option"
  ProviderChainId :: "string option"
  cworld :: 'w

record 'w ckeeper =
  c_authority :: string
  FromCmtProtoPublicKey :: "pubkey \<Rightarrow> pubkey option"
  ToCmtProtoPublicKey :: "pubkey \<Rightarrow> pubkey option"
  PubKeyFromProto :: "pubkey \<Rightarrow> bool"
  PubKeyAddr :: "pubkey \<Rightarrow> addr"
  ValAddressString :: "addr \<Rightarrow> string"
  AfterValidatorBonded :: "'w \<Rightarrow> addr \<Rightarrow> addr \<Rightarrow> 'w option"
  c_GetClientState :: "'w \<Rightarrow> string \<Rightarrow> client_state option"
  c_GetClientStatus :: "'w \<Rightarrow> string \<Rightarrow> client_status"
  c_GetClientCounterparty :: "'w \<Rightarrow> string \<Rightarrow> string option"
  c_SendPacket :: "'w \<Rightarrow> string \<Rightarrow> int \<Rightarrow> bytes \<Rightarrow> bool \<times> 'w"
    \<comment> \<open>client, timeout timestamp, payload; whether it succeeded, and the state either way\<close>
  c_MaxTimeoutDelta :: duration
  MarshalEvidence :: "EvidencePacketData \<Rightarrow> bytes option"
  UnmarshalEvidence :: "bytes \<Rightarrow> EvidencePacketData option"
  Bech32DecodeAndConvert :: "string \<Rightarrow> addr option"
  ConsAddressString :: "addr \<Rightarrow> string"
  NewHistoricalInfo :: "bytes \<Rightarrow> StakingValidator list \<Rightarrow> HistoricalInfo"
  ClientStateValid :: "tm_client \<Rightarrow> bool"
  ConsensusStateValid :: "ConsensusState \<Rightarrow> bool"

subsection \<open>The validator set\<close>

definition GetVaasValidator :: "'w cstate \<Rightarrow> addr \<Rightarrow> VaasValidator option" where
  "GetVaasValidator s a = store_get (VaasValidators s) a"

definition SetVaasValidator :: "VaasValidator \<Rightarrow> 'w cstate \<Rightarrow> 'w cstate" where
  "SetVaasValidator v s = s\<lparr>VaasValidators := store_set (vv_Address v) v (VaasValidators s)\<rparr>"

definition DeleteVaasValidator :: "addr \<Rightarrow> 'w cstate \<Rightarrow> 'w cstate" where
  "DeleteVaasValidator a s = s\<lparr>VaasValidators := store_remove a (VaasValidators s)\<rparr>"

definition GetAllVaasValidator :: "'w cstate \<Rightarrow> VaasValidator list" where
  "GetAllVaasValidator s = map snd (entries (VaasValidators s))"

definition NewVaasValidator :: "addr \<Rightarrow> int \<Rightarrow> pubkey \<Rightarrow> VaasValidator" where
  "NewVaasValidator a p pk = \<lparr>vv_Address = a, vv_Power = p, vv_Pubkey = pk\<rparr>"

text \<open>One change: the updates to forward so far, and the state. A key that does not decode panics.\<close>

definition apply_change ::
    "'w ckeeper \<Rightarrow> ValidatorUpdate \<Rightarrow> ValidatorUpdate list \<times> 'w cstate
       \<Rightarrow> (ValidatorUpdate list \<times> 'w cstate) result" where
  "apply_change k change acc =
     (let (ret, s) = acc in
      case FromCmtProtoPublicKey k (PubKey change) of
        None \<Rightarrow> Panic
      | Some pubkey \<Rightarrow>
          let a = PubKeyAddr k pubkey in
          (case GetVaasValidator s a of
             Some val \<Rightarrow>
               if Power change < 1 then Ok (ret @ [change], DeleteVaasValidator a s)
               else Ok (ret @ [change], SetVaasValidator (val\<lparr>vv_Power := Power change\<rparr>) s)
           | None \<Rightarrow>
               if 0 < Power change
               then let s1 = SetVaasValidator (NewVaasValidator a (Power change) pubkey) s in
                    (case AfterValidatorBonded k (cworld s1) a a of
                       None \<Rightarrow> Panic
                     | Some w \<Rightarrow> Ok (ret @ [change], s1\<lparr>cworld := w\<rparr>))
               else Ok (ret, s)))"

definition ApplyVaasValidatorChanges ::
    "'w ckeeper \<Rightarrow> ValidatorUpdate list \<Rightarrow> 'w cstate \<Rightarrow> (ValidatorUpdate list \<times> 'w cstate) result" where
  "ApplyVaasValidatorChanges k changes s = fold_res (apply_change k) changes ([], s)"

definition MustGetCurrentValidatorsAsABCIUpdates :: "'w ckeeper \<Rightarrow> 'w cstate \<Rightarrow> ValidatorUpdate list result" where
  "MustGetCurrentValidatorsAsABCIUpdates k s =
     fold_res (\<lambda>v updates. case ToCmtProtoPublicKey k (vv_Pubkey v) of
           None \<Rightarrow> Panic
         | Some tmPK \<Rightarrow> Ok (updates @ [\<lparr>PubKey = tmPK, Power = vv_Power v\<rparr>]))
       (GetAllVaasValidator s) []"

definition computeReplaceUpdates :: "'w ckeeper \<Rightarrow> ValidatorUpdate list \<Rightarrow> 'w cstate \<Rightarrow> ValidatorUpdate list" where
  "computeReplaceUpdates k target s =
     target @ concat (map (\<lambda>v. case ToCmtProtoPublicKey k (vv_Pubkey v) of
           None \<Rightarrow> []
         | Some tmPk \<Rightarrow> if tmPk \<in> PubKey ` set target then [] else [\<lparr>PubKey = tmPk, Power = 0\<rparr>])
       (GetAllVaasValidator s))"

subsection \<open>Parameters, debt, the staleness clock\<close>

definition IsConsumerInDebt_c :: "'w cstate \<Rightarrow> bool" where
  "IsConsumerInDebt_c s = (case CInDebt s of None \<Rightarrow> False | Some b \<Rightarrow> b)"

definition GetDowntimeParams :: "'w cstate \<Rightarrow> int \<times> dec" where
  "GetDowntimeParams s = (cp_SignedBlocksWindow (CParams s), cp_MinSignedPerWindow (CParams s))"

definition GetLastVSCRecvTime :: "('a sdk_ctx_scheme) \<Rightarrow> 'w cstate \<Rightarrow> time" where
  "GetLastVSCRecvTime ctx s = (case LastVSCRecvTime s of None \<Rightarrow> BlockTime ctx | Some t \<Rightarrow> t)"

definition ArmVSCStalenessClock :: "('a sdk_ctx_scheme) \<Rightarrow> 'w cstate \<Rightarrow> 'w cstate result" where
  "ArmVSCStalenessClock ctx s =
     (case InitGenesisHeight_c s of
        None \<Rightarrow> Panic
      | Some h \<Rightarrow>
          if BlockHeight ctx \<le> h then Ok s
          else if LastVSCRecvTime s \<noteq> None then Ok s
          else Ok (s\<lparr>LastVSCRecvTime := Some (BlockTime ctx)\<rparr>))"

definition IsVSCStale :: "('a sdk_ctx_scheme) \<Rightarrow> 'w cstate \<Rightarrow> bool" where
  "IsVSCStale ctx s \<longleftrightarrow> BlockTime ctx - GetLastVSCRecvTime ctx s > cp_SafeModeThreshold (CParams s)"

definition validDowntimeParams :: "DowntimeParams \<Rightarrow> bool" where
  "validDowntimeParams p \<longleftrightarrow>
     \<not> dp_SignedBlocksWindow p \<le> 0 \<and> 0 < dp_MinSignedPerWindow p \<and> dp_MinSignedPerWindow p < dec_one"

definition StageDowntimeParams :: "DowntimeParams \<Rightarrow> 'w cstate \<Rightarrow> 'w cstate" where
  "StageDowntimeParams p s =
     (if \<not> validDowntimeParams p then s
      else if cp_SignedBlocksWindow (CParams s) = dp_SignedBlocksWindow p \<and>
              cp_MinSignedPerWindow (CParams s) = dp_MinSignedPerWindow p
      then s\<lparr>StagedDowntimeParams := None\<rparr>
      else s\<lparr>StagedDowntimeParams := Some p\<rparr>)"

definition applyStagedDowntimeParams :: "'w cstate \<Rightarrow> 'w cstate" where
  "applyStagedDowntimeParams s =
     (case StagedDowntimeParams s of
        None \<Rightarrow> s
      | Some staged \<Rightarrow>
          s\<lparr>CParams := (CParams s)\<lparr>cp_SignedBlocksWindow := dp_SignedBlocksWindow staged,
                                   cp_MinSignedPerWindow := dp_MinSignedPerWindow staged\<rparr>,
            StagedDowntimeParams := None\<rparr>)"

subsection \<open>Packets from the provider\<close>

definition hasPositivePower :: "ValidatorUpdate list \<Rightarrow> bool" where
  "hasPositivePower updates \<longleftrightarrow> list_ex (\<lambda>u. Power u > 0) updates"

definition wouldEmptyValidatorSet :: "'w ckeeper \<Rightarrow> ValidatorSetChangePacketData \<Rightarrow> 'w cstate \<Rightarrow> bool result" where
  "wouldEmptyValidatorSet k newChanges s =
     (if IsSnapshot newChanges then Ok (\<not> hasPositivePower (ValidatorUpdates newChanges))
      else bind_res (MustGetCurrentValidatorsAsABCIUpdates k s) (\<lambda>resulting0.
           let resulting1 = (case PendingChanges s of
                 None \<Rightarrow> resulting0 | Some pending \<Rightarrow> AccumulateChanges resulting0 pending);
               resulting2 = AccumulateChanges resulting1 (ValidatorUpdates newChanges)
           in Ok (\<not> hasPositivePower resulting2)))"

definition authenticateProviderChainID :: "'w ckeeper \<Rightarrow> string \<Rightarrow> 'w cstate \<Rightarrow> 'w cstate result" where
  "authenticateProviderChainID k consumerClientID s =
     (case c_GetClientState k (cworld s) consumerClientID of
        None \<Rightarrow> Err ErrInvalidProviderClient
      | Some OtherClient \<Rightarrow> Err ErrInvalidProviderClient
      | Some (TmClient tm) \<Rightarrow>
          (case ProviderChainId s of
             None \<Rightarrow> Ok (s\<lparr>ProviderChainId := Some (tm_ChainId tm)\<rparr>)
           | Some pinned \<Rightarrow> guard_res (pinned = tm_ChainId tm) ErrInvalidProviderClient (Ok s)))"

definition enforcePinnedProviderClient :: "string \<Rightarrow> 'w cstate \<Rightarrow> unit result" where
  "enforcePinnedProviderClient consumerClientID s =
     (case ProviderClientID s of
        None \<Rightarrow> Err ErrInvalidProviderClient
      | Some pinned \<Rightarrow>
          guard_res (pinned \<noteq> '''') ErrInvalidProviderClient (
          guard_res (pinned = consumerClientID) ErrInvalidProviderClient (Ok ())))"

definition OnRecvVSCPacketV2 ::
    "'w ckeeper \<Rightarrow> ('a sdk_ctx_scheme) \<Rightarrow> string \<Rightarrow> ValidatorSetChangePacketData \<Rightarrow> 'w cstate \<Rightarrow> 'w cstate result" where
  "OnRecvVSCPacketV2 k ctx consumerClientID newChanges s =
     bind_res (ValidatorSetChangePacketData_Validate (PubKeyFromProto k) newChanges) (\<lambda>_.
     bind_res (authenticateProviderChainID k consumerClientID s) (\<lambda>s1.
     bind_res (enforcePinnedProviderClient consumerClientID s1) (\<lambda>_.
     if (case HighestValsetUpdateID s1 of None \<Rightarrow> False | Some highestID \<Rightarrow> ValsetUpdateId newChanges \<le> highestID)
     then Ok s1
     else
       bind_res (wouldEmptyValidatorSet k newChanges s1) (\<lambda>empties.
       guard_res (\<not> empties) ErrEmptyValidatorSet (
       let s2 = s1\<lparr>LastVSCRecvTime := Some (BlockTime ctx)\<rparr>;
           s3 = (case vsc_DowntimeParams newChanges of None \<Rightarrow> s2 | Some p \<Rightarrow> StageDowntimeParams p s2);
           s4 = s3\<lparr>CInDebt := Some (ConsumerInDebt newChanges)\<rparr>;
           pendingChanges =
             (if IsSnapshot newChanges then computeReplaceUpdates k (ValidatorUpdates newChanges) s4
              else AccumulateChanges (case PendingChanges s4 of None \<Rightarrow> [] | Some current \<Rightarrow> current)
                     (ValidatorUpdates newChanges))
       in Ok (s4\<lparr>PendingChanges := Some pendingChanges,
                 HighestValsetUpdateID := Some (ValsetUpdateId newChanges)\<rparr>))))))"

subsection \<open>The evidence queue\<close>

definition pendingEvidenceKey :: "EvidencePacketData \<Rightarrow> addr \<times> int" where
  "pendingEvidenceKey packet = (ValidatorAddr packet, WindowEndHeight packet)"

definition maxPendingEvidencePerValidator :: nat where
  "maxPendingEvidencePerValidator = 16"

definition maxEvidenceSendsPerBlock :: nat where
  "maxEvidenceSendsPerBlock = 50"

definition evictOldestPendingEvidence :: "addr \<Rightarrow> 'w cstate \<Rightarrow> 'w cstate" where
  "evictOldestPendingEvidence validatorAddr s =
     (let keys = map fst (store_range (\<lambda>key. fst key = validatorAddr) (PendingEvidencePackets s));
          oldest = take (length keys - maxPendingEvidencePerValidator) keys
      in s\<lparr>PendingEvidencePackets := fold store_remove oldest (PendingEvidencePackets s)\<rparr>)"

definition QueueEvidencePacket :: "'w ckeeper \<Rightarrow> EvidencePacketData \<Rightarrow> 'w cstate \<Rightarrow> 'w cstate result" where
  "QueueEvidencePacket k packet s =
     bind_res (of_option ErrPlain (MarshalEvidence k packet)) (\<lambda>bz.
     let s1 = s\<lparr>PendingEvidencePackets := store_set (pendingEvidenceKey packet) bz (PendingEvidencePackets s)\<rparr>
     in Ok (evictOldestPendingEvidence (ValidatorAddr packet) s1))"

definition RequeueEvidencePacket :: "'w ckeeper \<Rightarrow> bytes \<Rightarrow> 'w cstate \<Rightarrow> 'w cstate result" where
  "RequeueEvidencePacket k payload s =
     bind_res (of_option ErrPlain (UnmarshalEvidence k payload)) (\<lambda>packet.
     bind_res (EvidencePacketData_Validate packet) (\<lambda>_. QueueEvidencePacket k packet s))"

text \<open>
  The send loop: how many were sent, the keys to delete, the other modules' state. An entry that
  does not decode is deleted without being sent; a failed send leaves its entry queued.
\<close>

fun send_evidence_loop ::
    "'w ckeeper \<Rightarrow> string \<Rightarrow> int \<Rightarrow> ((addr \<times> int) \<times> bytes) list \<Rightarrow> nat \<Rightarrow> (addr \<times> int) list \<Rightarrow> 'w
       \<Rightarrow> (addr \<times> int) list \<times> 'w" where
  "send_evidence_loop k client ts [] sent keysToDelete w = (keysToDelete, w)"
| "send_evidence_loop k client ts (kv # rest) sent keysToDelete w =
     (if sent \<ge> maxEvidenceSendsPerBlock then (keysToDelete, w)
      else case UnmarshalEvidence k (snd kv) of
        None \<Rightarrow> send_evidence_loop k client ts rest sent (keysToDelete @ [fst kv]) w
      | Some _ \<Rightarrow>
          (case c_SendPacket k w client ts (snd kv) of
             (False, w1) \<Rightarrow> send_evidence_loop k client ts rest sent keysToDelete w1
           | (True, w1) \<Rightarrow> send_evidence_loop k client ts rest (sent + 1) (keysToDelete @ [fst kv]) w1))"

definition SendEvidencePackets :: "'w ckeeper \<Rightarrow> ('a sdk_ctx_scheme) \<Rightarrow> 'w cstate \<Rightarrow> 'w cstate" where
  "SendEvidencePackets k ctx s =
     (case ProviderClientID s of
        None \<Rightarrow> s
      | Some providerClientID \<Rightarrow>
          if c_GetClientStatus k (cworld s) providerClientID \<noteq> Active then s
          else if c_GetClientCounterparty k (cworld s) providerClientID = None then s
          else
            let timeoutPeriod = min (cp_VaasTimeoutPeriod (CParams s)) (c_MaxTimeoutDelta k);
                timeoutTimestamp = Unix (BlockTime ctx + timeoutPeriod) mod 2 ^ 64;
                (keysToDelete, w) = send_evidence_loop k providerClientID timeoutTimestamp
                   (entries (PendingEvidencePackets s)) 0 [] (cworld s)
            in s\<lparr>PendingEvidencePackets := fold store_remove keysToDelete (PendingEvidencePackets s), cworld := w\<rparr>)"

definition GetPendingEvidencePacketCount :: "'w cstate \<Rightarrow> nat" where
  "GetPendingEvidencePacketCount s = length (entries (PendingEvidencePackets s))"

subsection \<open>The queue: its bound, and that the newest window stays\<close>

definition pending_of_validator :: "addr \<Rightarrow> 'w cstate \<Rightarrow> (addr \<times> int) list" where
  "pending_of_validator a s = map fst (store_range (\<lambda>key. fst key = a) (PendingEvidencePackets s))"

lemma pending_of_validator_strict: "sorted_wrt (<) (pending_of_validator a s)"
  using ascending_filter[OF kv.iter_ascending[of "PendingEvidencePackets s"]]
  by (simp add: pending_of_validator_def store_range_def)

lemma set_pending_of_validator:
  "key \<in> set (pending_of_validator a s) \<longleftrightarrow> fst key = a \<and> store_has (PendingEvidencePackets s) key"
  unfolding pending_of_validator_def by (rule range_keys)

definition newest_pending :: "addr \<Rightarrow> 'w cstate \<Rightarrow> (addr \<times> int) list" where
  "newest_pending a s =
     drop (length (pending_of_validator a s) - maxPendingEvidencePerValidator) (pending_of_validator a s)"

lemma evict_get:
  "store_get (PendingEvidencePackets (evictOldestPendingEvidence a s)) key =
     (if fst key = a \<and> key \<notin> set (newest_pending a s) then None
      else store_get (PendingEvidencePackets s) key)"
proof -
  define ks where "ks = pending_of_validator a s"
  define n where "n = length ks - maxPendingEvidencePerValidator"
  have d: "distinct ks" using pending_of_validator_strict[of a s] by (simp add: ks_def strict_sorted_iff)
  have "key \<in> set (take n ks) \<longleftrightarrow> key \<in> set ks \<and> key \<notin> set (drop n ks)"
  proof -
    have "set ks = set (take n ks) \<union> set (drop n ks)" by (metis append_take_drop_id set_append)
    moreover have "set (take n ks) \<inter> set (drop n ks) = {}"
      using set_take_disj_set_drop_if_distinct[OF d, of n n] by simp
    ultimately show ?thesis by blast
  qed
  moreover have "store_get (PendingEvidencePackets (evictOldestPendingEvidence a s)) key
      = (if key \<in> set (take n ks) then None else store_get (PendingEvidencePackets s) key)"
    by (simp add: evictOldestPendingEvidence_def pending_of_validator_def[symmetric] ks_def[symmetric] n_def
        Let_def kv.get_fold_remove)
  moreover have "key \<in> set ks \<longleftrightarrow> fst key = a \<and> store_has (PendingEvidencePackets s) key"
    by (simp add: ks_def set_pending_of_validator)
  moreover have "set (drop n ks) = set (newest_pending a s)" by (simp add: newest_pending_def ks_def n_def)
  ultimately show ?thesis by (auto simp: store_has_def)
qed

lemma evict_frame [simp]:
  "s\<lparr>PendingEvidencePackets := PendingEvidencePackets (evictOldestPendingEvidence a s)\<rparr> = evictOldestPendingEvidence a s"
  by (simp add: evictOldestPendingEvidence_def Let_def)

lemma pending_after_evict: "set (pending_of_validator a (evictOldestPendingEvidence a s)) = set (newest_pending a s)"
proof -
  have "key \<in> set (newest_pending a s) \<Longrightarrow> key \<in> set (pending_of_validator a s)" for key
    unfolding newest_pending_def by (rule in_set_dropD)
  then show ?thesis by (auto simp: set_pending_of_validator store_has_def evict_get split: if_splits)
qed

lemma evict_bound:
  "length (pending_of_validator a (evictOldestPendingEvidence a s)) \<le> maxPendingEvidencePerValidator"
proof -
  have "distinct (pending_of_validator a (evictOldestPendingEvidence a s))"
    using pending_of_validator_strict[of a "evictOldestPendingEvidence a s"] by (simp add: strict_sorted_iff)
  then have "length (pending_of_validator a (evictOldestPendingEvidence a s)) = card (set (newest_pending a s))"
    by (simp add: pending_after_evict[symmetric] distinct_card)
  also have "\<dots> \<le> length (newest_pending a s)" by (rule card_length)
  also have "\<dots> \<le> maxPendingEvidencePerValidator" by (simp add: newest_pending_def)
  finally show ?thesis .
qed

lemma sorted_last_in_drop:
  assumes "sorted_wrt (<) (xs :: 'a :: linorder list)" "x \<in> set xs" "\<And>y. y \<in> set xs \<Longrightarrow> y \<le> x" "n < length xs"
  shows "x \<in> set (drop n xs)"
proof -
  have ne: "xs \<noteq> []" using assms(2) by auto
  have "x = last xs"
  proof (rule ccontr)
    assume "x \<noteq> last xs"
    then have "x \<in> set (butlast xs)" using assms(2) ne by (metis append_butlast_last_id in_set_conv_decomp rotate1.simps(2) set_ConsD set_rotate1)
    moreover have "sorted_wrt (<) (butlast xs @ [last xs])" using assms(1) ne by simp
    ultimately have "x < last xs" by (simp add: sorted_wrt_append)
    with assms(3)[OF last_in_set[OF ne]] show False by simp
  qed
  moreover have "last xs = last (drop n xs)" using assms(4) by (simp add: last_drop)
  moreover have "drop n xs \<noteq> []" using assms(4) by simp
  ultimately show ?thesis by (metis last_in_set)
qed

lemma newest_kept:
  assumes "store_has (PendingEvidencePackets s) (a, h)" "\<And>g. store_has (PendingEvidencePackets s) (a, g) \<Longrightarrow> g \<le> h"
  shows "(a, h) \<in> set (newest_pending a s)"
proof -
  have mem: "(a, h) \<in> set (pending_of_validator a s)" using assms(1) by (simp add: set_pending_of_validator)
  moreover have "y \<le> (a, h)" if "y \<in> set (pending_of_validator a s)" for y
  proof -
    have "fst y = a" "snd y \<le> h"
      using that assms(2)[of "snd y"] by (auto simp: set_pending_of_validator)
    then show ?thesis by (cases y) simp
  qed
  moreover have "length (pending_of_validator a s) - maxPendingEvidencePerValidator < length (pending_of_validator a s)"
    using mem by (cases "pending_of_validator a s") (auto simp: maxPendingEvidencePerValidator_def)
  ultimately show ?thesis unfolding newest_pending_def
    by (intro sorted_last_in_drop) (auto simp: pending_of_validator_strict)
qed

definition queue_evidence :: "EvidencePacketData \<Rightarrow> bytes \<Rightarrow> 'w cstate \<Rightarrow> 'w cstate" where
  "queue_evidence e bz s = evictOldestPendingEvidence (ValidatorAddr e)
     (s\<lparr>PendingEvidencePackets := store_set (pendingEvidenceKey e) bz (PendingEvidencePackets s)\<rparr>)"

lemma QueueEvidencePacket_eq:
  "QueueEvidencePacket k e s =
     (case MarshalEvidence k e of None \<Rightarrow> Err ErrPlain | Some bz \<Rightarrow> Ok (queue_evidence e bz s))"
  by (simp add: QueueEvidencePacket_def queue_evidence_def Let_def split: option.splits)

lemma queue_evidence_frame:
  "s\<lparr>PendingEvidencePackets := PendingEvidencePackets (queue_evidence e bz s)\<rparr> = queue_evidence e bz s"
  by (simp add: queue_evidence_def evictOldestPendingEvidence_def Let_def)

lemma queue_evidence_other:
  "fst key \<noteq> ValidatorAddr e \<Longrightarrow>
     store_get (PendingEvidencePackets (queue_evidence e bz s)) key = store_get (PendingEvidencePackets s) key"
  by (auto simp: queue_evidence_def evict_get pendingEvidenceKey_def)

lemma queue_evidence_old:
  "store_get (PendingEvidencePackets (queue_evidence e bz s)) key = Some v \<Longrightarrow>
     key = pendingEvidenceKey e \<and> v = bz \<or> store_get (PendingEvidencePackets s) key = Some v"
  by (auto simp: queue_evidence_def evict_get split: if_splits)

lemma queue_evidence_bound:
  "length (pending_of_validator (ValidatorAddr e) (queue_evidence e bz s)) \<le> maxPendingEvidencePerValidator"
  unfolding queue_evidence_def by (rule evict_bound)

lemma queue_evidence_newest:
  assumes "\<And>g. store_has (PendingEvidencePackets s) (ValidatorAddr e, g) \<Longrightarrow> g \<le> WindowEndHeight e"
  shows "store_get (PendingEvidencePackets (queue_evidence e bz s)) (pendingEvidenceKey e) = Some bz"
proof -
  let ?s = "s\<lparr>PendingEvidencePackets := store_set (pendingEvidenceKey e) bz (PendingEvidencePackets s)\<rparr>"
  have "(ValidatorAddr e, WindowEndHeight e) \<in> set (newest_pending (ValidatorAddr e) ?s)"
    by (rule newest_kept) (use assms in \<open>auto simp: pendingEvidenceKey_def\<close>)
  then show ?thesis by (simp add: queue_evidence_def evict_get pendingEvidenceKey_def)
qed

end
