(* ===== verification/ConsumerDowntime.thy ===== *)
theory ConsumerDowntime
  imports Consumer
begin

text \<open>
  Downtime as the consumer measures it (\<^verbatim>\<open>x/vaas/consumer/keeper/downtime.go\<close>): the votes of
  each block go into one bitmap per validator; the block that closes a tumbling window queues one
  evidence packet per offender and starts afresh. Heights and windows are \<^verbatim>\<open>int64\<close> and are modelled
  as \<open>int\<close>, the bitmap's length as the list's.
\<close>

subsection \<open>Bitmaps of a window\<close>

definition countMissedBits :: "bytes \<Rightarrow> int \<Rightarrow> int \<Rightarrow> int" where
  "countMissedBits bitmap from to =
     int (length (filter (BitmapIsSet bitmap) [from..to - 1]))"

definition rebaseBitmap :: "bytes \<Rightarrow> int \<Rightarrow> int \<Rightarrow> bytes result" where
  "rebaseBitmap bitmap offset span =
     fold_res (\<lambda>i out. if BitmapIsSet bitmap (offset + i) then BitmapSet out i else Ok out)
       [0..span - 1] (replicate (nat (quo (span + 7) 8)) 0)"

subsection \<open>Tracking\<close>

text \<open>The bitmap to write into: padded to the window's length, or a fresh one.\<close>

definition padded_bitmap :: "int \<Rightarrow> bytes option \<Rightarrow> bytes" where
  "padded_bitmap window stored =
     (let wantLen = nat (quo (window + 7) 8) in
      case stored of
        None \<Rightarrow> replicate wantLen 0
      | Some bitmap \<Rightarrow> bitmap @ replicate (wantLen - length bitmap) 0)"

definition record_vote :: "int \<Rightarrow> int \<Rightarrow> int \<Rightarrow> VoteInfo \<Rightarrow> 'w cstate \<Rightarrow> 'w cstate result" where
  "record_vote voteHeight window idx vote s =
     (let a = vi_Address vote;
          s1 = (case store_get (FirstTrackedHeights s) a of
                  Some _ \<Rightarrow> s
                | None \<Rightarrow> s\<lparr>FirstTrackedHeights := store_set a voteHeight (FirstTrackedHeights s)\<rparr>)
      in if vi_BlockIdFlag vote \<noteq> BlockIDFlagAbsent then Ok s1
         else bind_res (BitmapSet (padded_bitmap window (store_get (MissedBlockBitmaps s1) a)) idx)
                (\<lambda>bitmap. Ok (s1\<lparr>MissedBlockBitmaps := store_set a bitmap (MissedBlockBitmaps s1)\<rparr>)))"

text \<open>What one tracked validator reports at the close of a window; \<open>None\<close> when it signed enough.\<close>

definition window_report ::
    "int \<Rightarrow> int \<Rightarrow> dec \<Rightarrow> 'w cstate \<Rightarrow> addr \<times> bytes \<Rightarrow> EvidencePacketData option result" where
  "window_report windowStart window minSigned s tv =
     (let maxMissed = DowntimeParams_MaxMissed \<lparr>dp_SignedBlocksWindow = window, dp_MinSignedPerWindow = minSigned\<rparr>;
          firstTracked = (case store_get (FirstTrackedHeights s) (fst tv) of None \<Rightarrow> windowStart | Some h \<Rightarrow> h);
          first = (if firstTracked > windowStart then firstTracked else windowStart);
          span = windowStart + window - first;
          offset = first - windowStart;
          missed = countMissedBits (snd tv) offset window
      in if missed \<le> maxMissed then Ok None
         else bind_res (rebaseBitmap (snd tv) offset span) (\<lambda>rebased.
              Ok (Some (NewEvidencePacketData (fst tv) first rebased span window minSigned))))"

text \<open>An error of the queue is raised as a panic.\<close>

definition report_window ::
    "'w ckeeper \<Rightarrow> int \<Rightarrow> int \<Rightarrow> dec \<Rightarrow> addr \<times> bytes \<Rightarrow> 'w cstate \<Rightarrow> 'w cstate result" where
  "report_window k windowStart window minSigned tv s =
     bind_res (window_report windowStart window minSigned s tv) (\<lambda>report.
     case report of
       None \<Rightarrow> Ok s
     | Some packet \<Rightarrow> (case QueueEvidencePacket k packet s of Ok t \<Rightarrow> Ok t | _ \<Rightarrow> Panic))"

definition closeWindow :: "'w ckeeper \<Rightarrow> int \<Rightarrow> int \<Rightarrow> dec \<Rightarrow> 'w cstate \<Rightarrow> 'w cstate result" where
  "closeWindow k windowStart window minSigned s =
     bind_res (fold_res (report_window k windowStart window minSigned) (entries (MissedBlockBitmaps s)) s) (\<lambda>s1.
     Ok (applyStagedDowntimeParams
           (s1\<lparr>MissedBlockBitmaps := empty_store, FirstTrackedHeights := empty_store\<rparr>)))"

definition TrackMissedBlocks :: "'w ckeeper \<Rightarrow> cctx \<Rightarrow> 'w cstate \<Rightarrow> 'w cstate result" where
  "TrackMissedBlocks k ctx s =
     (let voteHeight = BlockHeight ctx - 1; (window, minSigned) = GetDowntimeParams s in
      if voteHeight \<le> 0 then Ok s
      else if window \<le> 0 then Ok s
      else
        let windowStart = quo voteHeight window * window; idx = voteHeight - windowStart in
        bind_res (fold_res (record_vote voteHeight window idx) (VoteInfos ctx) s) (\<lambda>s1.
        if voteHeight = windowStart + window - 1 then closeWindow k windowStart window minSigned s1
        else Ok s1))"

subsection \<open>What the bitmaps say\<close>

definition set_bits :: "bytes \<Rightarrow> int set" where
  "set_bits bm = {i. BitmapIsSet bm i}"

lemma set_bits_nonneg: "i \<in> set_bits bm \<Longrightarrow> 0 \<le> i"
  by (simp add: set_bits_def BitmapIsSet_def Let_def split: if_splits)

lemma set_bits_replicate [simp]: "set_bits (replicate n 0) = {}"
proof -
  have "\<not> BitmapIsSet (replicate n 0) i" for i
  proof (cases "0 \<le> i")
    case True
    then obtain j where "i = int j" using zero_le_imp_eq_int by auto
    then show ?thesis by (auto simp: BitmapIsSet_nat)
  qed (simp add: BitmapIsSet_def)
  then show ?thesis by (simp add: set_bits_def)
qed

lemma BitmapSet_Ok:
  assumes "0 \<le> i" "i < 8 * int (length bm)"
  shows "\<exists>bm'. BitmapSet bm i = Ok bm' \<and> length bm' = length bm \<and> set_bits bm' = insert i (set_bits bm)"
proof -
  obtain j where j: "i = int j" using assms(1) zero_le_imp_eq_int by auto
  then have "j div 8 < length bm" using assms(2) by (simp add: zdiv_int less_mult_imp_div_less mult.commute)
  then obtain bm' where bm': "BitmapSet bm (int j) = Ok bm'" by (auto simp: BitmapSet_nat)
  have "BitmapIsSet bm' g \<longleftrightarrow> g = int j \<or> BitmapIsSet bm g" for g
  proof (cases "0 \<le> g")
    case True
    then obtain n where "g = int n" using zero_le_imp_eq_int by auto
    with BitmapSet_get(2)[OF bm', of n] show ?thesis by simp
  qed (auto simp: BitmapIsSet_def)
  with bm' BitmapSet_get(1)[OF bm'] show ?thesis by (auto simp: j set_bits_def)
qed

lemma want_len: "0 < w \<Longrightarrow> w \<le> 8 * int (nat (quo (w + 7) 8))"
proof -
  assume "0 < w"
  then have "w \<le> 8 * ((w + 7) div 8)" "0 \<le> (w + 7) div 8" by presburger+
  with \<open>0 < w\<close> show ?thesis by (simp add: quo_nonneg)
qed

definition missed_bits :: "'w cstate \<Rightarrow> addr \<Rightarrow> int set" where
  "missed_bits s a = (case store_get (MissedBlockBitmaps s) a of None \<Rightarrow> {} | Some bm \<Rightarrow> set_bits bm)"

definition bitmaps_fit :: "int \<Rightarrow> 'w cstate \<Rightarrow> bool" where
  "bitmaps_fit window s \<longleftrightarrow>
     (\<forall>a bm. store_get (MissedBlockBitmaps s) a = Some bm \<longrightarrow> length bm = nat (quo (window + 7) 8))"

definition tracking_cleared :: "'w cstate \<Rightarrow> 'w cstate" where
  "tracking_cleared s = s\<lparr>MissedBlockBitmaps := empty_store, FirstTrackedHeights := empty_store\<rparr>"

lemma tracking_cleared_simps [simp]:
  "tracking_cleared (s\<lparr>MissedBlockBitmaps := x\<rparr>) = tracking_cleared s"
  "tracking_cleared (s\<lparr>FirstTrackedHeights := y\<rparr>) = tracking_cleared s"
  by (simp_all add: tracking_cleared_def)

definition absent_vote :: "VoteInfo \<Rightarrow> addr \<Rightarrow> bool" where
  "absent_vote v a \<longleftrightarrow> vi_Address v = a \<and> vi_BlockIdFlag v = BlockIDFlagAbsent"

lemma record_vote_effect:
  assumes "bitmaps_fit window s" "0 \<le> idx" "idx < window"
  obtains t where "record_vote g window idx v s = Ok t" "bitmaps_fit window t"
    "tracking_cleared t = tracking_cleared s"
    "\<And>a. missed_bits t a = missed_bits s a \<union> (if absent_vote v a then {idx} else {})"
    "\<And>a. store_get (FirstTrackedHeights t) a =
       (case store_get (FirstTrackedHeights s) a of Some h \<Rightarrow> Some h | None \<Rightarrow> if a = vi_Address v then Some g else None)"
proof -
  define s1 where "s1 = (case store_get (FirstTrackedHeights s) (vi_Address v) of
                  Some _ \<Rightarrow> s
                | None \<Rightarrow> s\<lparr>FirstTrackedHeights := store_set (vi_Address v) g (FirstTrackedHeights s)\<rparr>)"
  have s1: "MissedBlockBitmaps s1 = MissedBlockBitmaps s" "tracking_cleared s1 = tracking_cleared s"
    "\<And>a. store_get (FirstTrackedHeights s1) a =
       (case store_get (FirstTrackedHeights s) a of Some h \<Rightarrow> Some h | None \<Rightarrow> if a = vi_Address v then Some g else None)"
    by (auto simp: s1_def split: option.splits)
  show ?thesis
  proof (cases "vi_BlockIdFlag v = BlockIDFlagAbsent")
    case False
    then have "record_vote g window idx v s = Ok s1" by (simp add: record_vote_def s1_def Let_def)
    then show ?thesis
      by (rule that) (use assms False in \<open>auto simp: s1 bitmaps_fit_def missed_bits_def absent_vote_def\<close>)
  next
    case True
    define bm where "bm = padded_bitmap window (store_get (MissedBlockBitmaps s) (vi_Address v))"
    have len: "length bm = nat (quo (window + 7) 8)" "set_bits bm = missed_bits s (vi_Address v)"
      using assms(1) by (auto simp: bm_def padded_bitmap_def Let_def bitmaps_fit_def missed_bits_def split: option.splits)
    obtain bm' where bm': "BitmapSet bm idx = Ok bm'" "length bm' = length bm" "set_bits bm' = insert idx (set_bits bm)"
      using BitmapSet_Ok[of idx bm] assms len want_len[of window] by auto
    have "record_vote g window idx v s = Ok (s1\<lparr>MissedBlockBitmaps := store_set (vi_Address v) bm' (MissedBlockBitmaps s1)\<rparr>)"
      using True bm'(1) by (simp add: record_vote_def s1_def[symmetric] Let_def s1(1) bm_def)
    then show ?thesis
      by (rule that) (use assms True bm' len in \<open>auto simp: s1 bitmaps_fit_def missed_bits_def absent_vote_def\<close>)
  qed
qed

lemma record_votes_effect:
  assumes "bitmaps_fit window s" "0 \<le> idx" "idx < window"
  obtains t where "fold_res (record_vote g window idx) vs s = Ok t" "bitmaps_fit window t"
    "tracking_cleared t = tracking_cleared s"
    "\<And>a. missed_bits t a = missed_bits s a \<union> (if \<exists>v\<in>set vs. absent_vote v a then {idx} else {})"
    "\<And>a. store_get (FirstTrackedHeights t) a =
       (case store_get (FirstTrackedHeights s) a of Some h \<Rightarrow> Some h | None \<Rightarrow> if a \<in> vi_Address ` set vs then Some g else None)"
  using assms
proof (induction vs arbitrary: s thesis)
  case Nil
  show ?case by (rule Nil.prems(1)[of s]) (use Nil.prems in \<open>auto split: option.splits\<close>)
next
  case (Cons v vs)
  obtain u where u: "record_vote g window idx v s = Ok u" "bitmaps_fit window u"
    "tracking_cleared u = tracking_cleared s"
    "\<And>a. missed_bits u a = missed_bits s a \<union> (if absent_vote v a then {idx} else {})"
    "\<And>a. store_get (FirstTrackedHeights u) a =
       (case store_get (FirstTrackedHeights s) a of Some h \<Rightarrow> Some h | None \<Rightarrow> if a = vi_Address v then Some g else None)"
    by (rule record_vote_effect[OF Cons.prems(2-4), where g = g and v = v]) (rule that)
  obtain t where t: "fold_res (record_vote g window idx) vs u = Ok t" "bitmaps_fit window t"
    "tracking_cleared t = tracking_cleared u"
    "\<And>a. missed_bits t a = missed_bits u a \<union> (if \<exists>v\<in>set vs. absent_vote v a then {idx} else {})"
    "\<And>a. store_get (FirstTrackedHeights t) a =
       (case store_get (FirstTrackedHeights u) a of Some h \<Rightarrow> Some h | None \<Rightarrow> if a \<in> vi_Address ` set vs then Some g else None)"
    by (rule Cons.IH[OF _ u(2) Cons.prems(3,4)]) (rule that)
  show ?case
  proof (rule Cons.prems(1)[of t])
    show "fold_res (record_vote g window idx) (v # vs) s = Ok t" by (simp add: u(1) t(1))
    show "tracking_cleared t = tracking_cleared s" by (simp add: t(3) u(3))
    show "missed_bits t a = missed_bits s a \<union> (if \<exists>v\<in>set (v # vs). absent_vote v a then {idx} else {})" for a
      by (simp add: t(4) u(4))
    show "store_get (FirstTrackedHeights t) a = (case store_get (FirstTrackedHeights s) a of Some h \<Rightarrow> Some h
      | None \<Rightarrow> if a \<in> vi_Address ` set (v # vs) then Some g else None)" for a
      unfolding t(5) u(5) by (simp split: option.splits)
  qed (rule t(2))
qed

subsection \<open>Tracking is a record of the votes\<close>

text \<open>
  \<open>votes g\<close> are the votes for height \<open>g\<close>. Since the last window closed the heights from \<open>since\<close> to
  \<open>h\<close> have been recorded, all of one window, which has not closed.
\<close>

definition window_start :: "int \<Rightarrow> int \<Rightarrow> int" where
  "window_start window g = g div window * window"

definition absent_at :: "(int \<Rightarrow> VoteInfo list) \<Rightarrow> addr \<Rightarrow> int \<Rightarrow> bool" where
  "absent_at votes a g \<longleftrightarrow> list_ex (\<lambda>v. absent_vote v a) (votes g)"

definition first_sighting :: "(int \<Rightarrow> VoteInfo list) \<Rightarrow> addr \<Rightarrow> int \<Rightarrow> int \<Rightarrow> int option" where
  "first_sighting votes a since h = find (\<lambda>g. list_ex (\<lambda>v. vi_Address v = a) (votes g)) [since..h]"

definition recorded :: "(int \<Rightarrow> VoteInfo list) \<Rightarrow> int \<Rightarrow> int \<Rightarrow> int \<Rightarrow> 'w cstate \<Rightarrow> bool" where
  "recorded votes window since h s \<longleftrightarrow>
     bitmaps_fit window s \<and>
     (\<forall>a. store_get (FirstTrackedHeights s) a = first_sighting votes a since h) \<and>
     (\<forall>a. missed_bits s a = (\<lambda>g. g - window_start window since) ` {g. since \<le> g \<and> g \<le> h \<and> absent_at votes a g})"

definition tracking :: "(int \<Rightarrow> VoteInfo list) \<Rightarrow> int \<Rightarrow> int \<Rightarrow> 'w cstate \<Rightarrow> bool" where
  "tracking votes since h s \<longleftrightarrow>
     (let window = cp_SignedBlocksWindow (CParams s) in
      0 < window \<and> 1 \<le> since \<and> since \<le> h + 1 \<and> h < window_start window since + window - 1 \<and>
      recorded votes window since h s)"

lemma window_start_bounds: "0 < window \<Longrightarrow> window_start window g \<le> g \<and> g < window_start window g + window"
  using pos_mod_bound[of window g] pos_mod_sign[of window g] div_mult_mod_eq[of g window]
  unfolding window_start_def by linarith

lemma window_start_same:
  assumes "0 < window" "window_start window since \<le> g" "g < window_start window since + window"
  shows "window_start window g = window_start window since"
proof -
  have "g div window = since div window"
    using assms by (intro int_div_pos_eq[of g window "since div window" "g - window_start window since"])
      (auto simp: window_start_def)
  then show ?thesis by (simp add: window_start_def)
qed

lemma first_sighting_extend:
  "since \<le> h + 1 \<Longrightarrow> first_sighting votes a since (h + 1) =
     (case first_sighting votes a since h of Some g \<Rightarrow> Some g
      | None \<Rightarrow> if a \<in> vi_Address ` set (votes (h + 1)) then Some (h + 1) else None)"
proof -
  assume "since \<le> h + 1"
  then have "[since..h + 1] = [since..h] @ [h + 1]" by (rule upto_rec2[of since "h + 1", simplified])
  then show ?thesis
    by (auto simp: first_sighting_def find_append list_ex_iff image_iff split: option.splits)
qed

lemma recorded_step:
  assumes r: "recorded votes window since h s" and w: "0 < window" "since \<le> h + 1"
    and h: "h + 1 < window_start window since + window"
  obtains t where "fold_res (record_vote (h + 1) window (h + 1 - window_start window since)) (votes (h + 1)) s = Ok t"
    "tracking_cleared t = tracking_cleared s" "recorded votes window since (h + 1) t"
proof -
  define ws where "ws = window_start window since"
  have ws: "ws \<le> since" using window_start_bounds[OF w(1)] by (simp add: ws_def)
  obtain t where t: "fold_res (record_vote (h + 1) window (h + 1 - ws)) (votes (h + 1)) s = Ok t" "bitmaps_fit window t"
    "tracking_cleared t = tracking_cleared s"
    "\<And>a. missed_bits t a = missed_bits s a \<union> (if \<exists>v\<in>set (votes (h + 1)). absent_vote v a then {h + 1 - ws} else {})"
    "\<And>a. store_get (FirstTrackedHeights t) a = (case store_get (FirstTrackedHeights s) a of Some g \<Rightarrow> Some g
       | None \<Rightarrow> if a \<in> vi_Address ` set (votes (h + 1)) then Some (h + 1) else None)"
    by (rule record_votes_effect[of window s "h + 1 - ws" "h + 1" "votes (h + 1)"])
      (use r w h ws in \<open>auto simp: recorded_def ws_def intro: that\<close>)
  have "missed_bits t a = (\<lambda>g. g - ws) ` {g. since \<le> g \<and> g \<le> h + 1 \<and> absent_at votes a g}" for a
  proof -
    have "g \<le> h + 1 \<longleftrightarrow> g \<le> h \<or> g = h + 1" for g by linarith
    then have "{g. since \<le> g \<and> g \<le> h + 1 \<and> absent_at votes a g}
        = {g. since \<le> g \<and> g \<le> h \<and> absent_at votes a g} \<union> (if absent_at votes a (h + 1) then {h + 1} else {})"
      using w(2) by auto
    moreover have "(\<exists>v\<in>set (votes (h + 1)). absent_vote v a) \<longleftrightarrow> absent_at votes a (h + 1)"
      by (simp add: absent_at_def list_ex_iff)
    moreover have "missed_bits s a = (\<lambda>g. g - ws) ` {g. since \<le> g \<and> g \<le> h \<and> absent_at votes a g}"
      using r by (simp add: recorded_def ws_def)
    ultimately show ?thesis by (simp add: t(4) image_Un)
  qed
  moreover have "store_get (FirstTrackedHeights t) a = first_sighting votes a since (h + 1)" for a
    using r by (simp add: t(5) recorded_def first_sighting_extend[OF w(2)])
  ultimately have "recorded votes window since (h + 1) t" using t(2) by (simp add: recorded_def ws_def)
  with t(1,3) that show ?thesis by (simp add: ws_def)
qed

subsection \<open>A window's report\<close>

lemma countMissedBits_card: "countMissedBits bm from to = int (card {i \<in> set_bits bm. from \<le> i \<and> i < to})"
proof -
  have "{i. BitmapIsSet bm i} \<inter> {from..to - 1} = {i \<in> set_bits bm. from \<le> i \<and> i < to}" by (auto simp: set_bits_def)
  then show ?thesis by (simp add: countMissedBits_def distinct_length_filter)
qed

lemma rebaseBitmap_Ok:
  assumes "0 \<le> span"
  obtains out where "rebaseBitmap bm offset span = Ok out" "length out = nat (quo (span + 7) 8)"
    "set_bits out = {i. 0 \<le> i \<and> i < span \<and> offset + i \<in> set_bits bm}"
proof -
  let ?f = "\<lambda>i out. if BitmapIsSet bm (offset + i) then BitmapSet out i else Ok out"
  have step: "\<exists>out'. fold_res ?f xs out = Ok out' \<and> length out' = length out
      \<and> set_bits out' = set_bits out \<union> {i \<in> set xs. offset + i \<in> set_bits bm}"
    if "\<forall>i\<in>set xs. 0 \<le> i \<and> i < 8 * int (length out)" for xs out
    using that
  proof (induction xs arbitrary: out)
    case Nil
    then show ?case by simp
  next
    case (Cons i xs)
    have "\<exists>out1. ?f i out = Ok out1 \<and> length out1 = length out
        \<and> set_bits out1 = set_bits out \<union> {j. j = i \<and> offset + i \<in> set_bits bm}"
      using BitmapSet_Ok[of i out] Cons.prems by (auto simp: set_bits_def)
    then obtain out1 where o: "?f i out = Ok out1" "length out1 = length out"
      "set_bits out1 = set_bits out \<union> {j. j = i \<and> offset + i \<in> set_bits bm}" by blast
    with Cons.IH[of out1] Cons.prems show ?case by auto
  qed
  have "span \<le> 8 * int (nat (quo (span + 7) 8))"
  proof (cases "span = 0")
    case False
    then show ?thesis using want_len assms by simp
  qed simp
  then obtain out where "fold_res ?f [0..span - 1] (replicate (nat (quo (span + 7) 8)) 0) = Ok out"
    "length out = nat (quo (span + 7) 8)" "set_bits out = {i \<in> set [0..span - 1]. offset + i \<in> set_bits bm}"
    using step[of "[0..span - 1]" "replicate (nat (quo (span + 7) 8)) 0"] by auto
  then show ?thesis by (intro that[of out]) (auto simp: rebaseBitmap_def)
qed

text \<open>The heights of the window, since \<open>since\<close>, at which \<open>a\<close> was absent.\<close>

definition absences :: "(int \<Rightarrow> VoteInfo list) \<Rightarrow> addr \<Rightarrow> int \<Rightarrow> int \<Rightarrow> int set" where
  "absences votes a since h = {g. since \<le> g \<and> g \<le> h \<and> absent_at votes a g}"

lemma finite_absences [simp]: "finite (absences votes a since h)"
  by (rule finite_subset[of _ "{since..h}"]) (auto simp: absences_def)

lemma find_upto:
  "find P [i..j] = Some g \<longleftrightarrow> i \<le> g \<and> g \<le> j \<and> P g \<and> (\<forall>x. i \<le> x \<and> x < g \<longrightarrow> \<not> P x)"
proof (induction i j rule: upto.induct)
  case (1 i j)
  show ?case
  proof (cases "i \<le> j")
    case True
    then have "[i..j] = i # [i + 1..j]" by (simp add: upto_rec1)
    with 1 True show ?thesis
      by (auto) (metis int_one_le_iff_zero_less le_less zle_diff1_eq add1_zle_eq order_refl)+
  qed simp
qed

lemma absence_sighted: "g \<in> absences votes a since h \<Longrightarrow> \<exists>f \<le> g. first_sighting votes a since h = Some f"
proof -
  assume "g \<in> absences votes a since h"
  then have g: "since \<le> g" "g \<le> h" "list_ex (\<lambda>v. vi_Address v = a) (votes g)"
    by (auto simp: absences_def absent_at_def absent_vote_def list_ex_iff)
  then have "first_sighting votes a since h \<noteq> None" by (auto simp: first_sighting_def find_None_iff)
  then obtain f where f: "first_sighting votes a since h = Some f" by blast
  with g have "f \<le> g" by (force simp: first_sighting_def find_upto)
  with f show ?thesis by blast
qed

text \<open>
  What a packet says: the validator, the heights from its first sighting to the end of the window,
  a bit for each height it was absent at, the parameters in force, and more absences than they
  allow.
\<close>

definition reports ::
    "(int \<Rightarrow> VoteInfo list) \<Rightarrow> addr \<Rightarrow> int \<Rightarrow> int \<Rightarrow> int \<Rightarrow> dec \<Rightarrow> EvidencePacketData \<Rightarrow> bool" where
  "reports votes a since close window minSigned e \<longleftrightarrow>
     ValidatorAddr e = a \<and> WindowEndHeight e = close \<and>
     first_sighting votes a since close = Some (WindowStartHeight e) \<and>
     ev_SignedBlocksWindow e = window \<and> ev_MinSignedPerWindow e = Some minSigned \<and>
     set_bits (MissedBlocksBitmap e) = (\<lambda>g. g - WindowStartHeight e) ` absences votes a since close \<and>
     MissedCount e = int (card (absences votes a since close)) \<and>
     MaxMissed e < MissedCount e \<and>
     (a \<noteq> [] \<longrightarrow> EvidencePacketData_Validate e = Ok ())"

definition allowed_absences :: "int \<Rightarrow> dec \<Rightarrow> int" where
  "allowed_absences window minSigned =
     DowntimeParams_MaxMissed \<lparr>dp_SignedBlocksWindow = window, dp_MinSignedPerWindow = minSigned\<rparr>"

lemma MissedCount_card:
  assumes "set_bits (MissedBlocksBitmap e) \<subseteq> {i. 0 \<le> i \<and> i < Span e}"
  shows "MissedCount e = int (card (set_bits (MissedBlocksBitmap e)))"
proof -
  have "{i. BitmapIsSet (MissedBlocksBitmap e) (int i)} \<inter> {0..<nat (Span e)} = nat ` set_bits (MissedBlocksBitmap e)"
  proof (rule set_eqI)
    fix i
    show "i \<in> {i. BitmapIsSet (MissedBlocksBitmap e) (int i)} \<inter> {0..<nat (Span e)}
      \<longleftrightarrow> i \<in> nat ` set_bits (MissedBlocksBitmap e)"
      using assms by (force simp: set_bits_def image_iff)
  qed
  moreover have "inj_on nat (set_bits (MissedBlocksBitmap e))"
    by (rule inj_onI) (use assms eq_nat_nat_iff in blast)
  ultimately show ?thesis by (simp add: MissedCount_def distinct_length_filter card_image)
qed

lemma absences_shift:
  assumes "recorded votes window since close s" "store_get (MissedBlockBitmaps s) a = Some bm"
  shows "set_bits bm = (\<lambda>g. g - window_start window since) ` absences votes a since close"
  using assms by (simp add: recorded_def missed_bits_def absences_def) (metis option.simps(5))

lemma window_report_recorded:
  fixes window since :: int
  defines "ws \<equiv> window_start window since"
  defines "close \<equiv> ws + window - 1"
  assumes r: "recorded votes window since close s" and w: "0 < window" "1 \<le> since" "since \<le> close"
    and m: "0 < minSigned" "minSigned < dec_one"
    and bm: "store_get (MissedBlockBitmaps s) a = Some bm"
  obtains report where "window_report ws window minSigned s (a, bm) = Ok report"
    "if allowed_absences window minSigned < int (card (absences votes a since close))
     then \<exists>e. report = Some e \<and> reports votes a since close window minSigned e else report = None"
proof -
  define A where "A = absences votes a since close"
  have bits: "set_bits bm = (\<lambda>g. g - ws) ` A" using absences_shift[OF r bm] by (simp add: A_def ws_def)
  have ws: "ws \<le> since" using window_start_bounds[OF w(1)] by (simp add: ws_def)
  have first: "store_get (FirstTrackedHeights s) a = first_sighting votes a since close" using r by (simp add: recorded_def)
  have allowed: "0 \<le> allowed_absences window minSigned"
    using MaxMissed_bounds(1)[OF w(1) m] by (simp add: allowed_absences_def DowntimeParams_MaxMissed_def)
  show ?thesis
  proof (cases "A = {}")
    case True
    then have "set_bits bm = {}" using bits by simp
    then have "window_report ws window minSigned s (a, bm) = Ok None"
      using allowed by (simp add: window_report_def Let_def countMissedBits_card allowed_absences_def)
    with True allowed show ?thesis by (intro that[of None]) (simp_all add: A_def)
  next
    case False
    then obtain f where f: "first_sighting votes a since close = Some f" "\<forall>g\<in>A. f \<le> g"
      unfolding A_def using absence_sighted by (metis equals0I option.inject)
    have fb: "since \<le> f" "f \<le> close" using f(1) by (auto simp: first_sighting_def find_upto)
    define span where "span = close - f + 1"
    have range: "f \<le> g \<and> g \<le> close" if "g \<in> A" for g using that f(2) by (auto simp: A_def absences_def)
    obtain out where out: "rebaseBitmap bm (f - ws) span = Ok out" "length out = nat (quo (span + 7) 8)"
      "set_bits out = {i. 0 \<le> i \<and> i < span \<and> f - ws + i \<in> set_bits bm}"
      using fb by (rule_tac rebaseBitmap_Ok[of span bm "f - ws"]) (auto simp: span_def)
    have outA: "set_bits out = (\<lambda>g. g - f) ` A"
      using range by (force simp: out(3) bits span_def image_iff)
    define e where "e = NewEvidencePacketData a f out span window minSigned"
    have sp: "Span e = span" "0 < span" "span \<le> window"
      using fb ws by (simp_all add: e_def NewEvidencePacketData_def Span_def span_def close_def)
    have inj: "inj_on (\<lambda>g. g - x) A" for x :: int by (simp add: inj_on_def)
    have "MissedCount e = int (card (set_bits out))"
    proof -
      have "set_bits (MissedBlocksBitmap e) \<subseteq> {i. 0 \<le> i \<and> i < Span e}"
        by (simp add: e_def NewEvidencePacketData_def Span_def out(3)) auto
      from MissedCount_card[OF this] show ?thesis by (simp add: e_def NewEvidencePacketData_def)
    qed
    then have count: "MissedCount e = int (card A)" by (simp add: outA card_image inj)
    have "{i \<in> set_bits bm. f - ws \<le> i \<and> i < window} = set_bits bm"
      using range by (force simp: bits close_def)
    then have missed: "countMissedBits bm (f - ws) window = int (card A)"
      by (simp add: countMissedBits_card) (simp add: bits card_image inj)
    have max: "MaxMissed e = allowed_absences window minSigned"
      by (simp add: MaxMissed_def e_def NewEvidencePacketData_def allowed_absences_def)
    have report: "window_report ws window minSigned s (a, bm) =
        (if int (card A) \<le> allowed_absences window minSigned then Ok None else Ok (Some e))"
    proof -
      have "ws + window - f = span" by (simp add: span_def close_def)
      moreover have "(if f > ws then f else ws) = f" using fb ws by simp
      ultimately show ?thesis
        by (simp add: window_report_def Let_def first f(1) missed out(1) e_def allowed_absences_def)
    qed
    have valid: "reports votes a since close window minSigned e" if "allowed_absences window minSigned < int (card A)"
    proof -
      have "a \<noteq> [] \<longrightarrow> EvidencePacketData_Validate e = Ok ()"
        using that allowed sp w m fb count out(2)
        by (simp add: EvidencePacketData_Validate_def e_def NewEvidencePacketData_def quo_ge_0)
      then show ?thesis using that max count f(1) outA
        by (simp add: reports_def A_def e_def NewEvidencePacketData_def span_def)
    qed
    show ?thesis
      by (rule that[of "if int (card A) \<le> allowed_absences window minSigned then None else Some e"])
        (use valid in \<open>auto simp: A_def report\<close>)
  qed
qed

lemma window_report_cong:
  "FirstTrackedHeights u = FirstTrackedHeights s \<Longrightarrow>
     window_report ws window m u tv = window_report ws window m s tv"
  by (simp add: window_report_def)

lemma report_windows_effect:
  fixes u :: "'w cstate" and k :: "'w ckeeper"
  assumes rep: "\<And>tv (u :: 'w cstate). tv \<in> set xs \<Longrightarrow> FirstTrackedHeights u = F \<Longrightarrow> window_report ws window m u tv = Ok (rep tv)"
    and shape: "\<And>tv e. tv \<in> set xs \<Longrightarrow> rep tv = Some e \<Longrightarrow> ValidatorAddr e = fst tv \<and> WindowEndHeight e = close"
    and mar: "\<And>e. MarshalEvidence k e = Some (mar e)"
    and F: "FirstTrackedHeights u = F" and d: "distinct (map fst xs)"
  obtains t where "fold_res (report_window k ws window m) xs u = Ok t"
    "u\<lparr>PendingEvidencePackets := PendingEvidencePackets t\<rparr> = t"
    "\<forall>a. (\<forall>h. store_has (PendingEvidencePackets u) (a, h) \<longrightarrow> h \<le> close) \<longrightarrow>
       store_get (PendingEvidencePackets t) (a, close) =
         (case Option.bind (map_of xs a) (\<lambda>bm. rep (a, bm)) of
            None \<Rightarrow> store_get (PendingEvidencePackets u) (a, close) | Some e \<Rightarrow> Some (mar e))"
  using rep shape F d
proof (induction xs arbitrary: u thesis)
  case Nil
  show ?case by (rule Nil.prems(1)[of u]) simp_all
next
  case (Cons tv xs)
  define u1 where "u1 = (case rep tv of None \<Rightarrow> u | Some e \<Rightarrow> queue_evidence e (mar e) u)"
  have u1: "report_window k ws window m tv u = Ok u1" "u\<lparr>PendingEvidencePackets := PendingEvidencePackets u1\<rparr> = u1"
    using Cons.prems(2)[of tv u] Cons.prems(4)
    by (auto simp: report_window_def u1_def QueueEvidencePacket_eq mar queue_evidence_frame split: option.splits)
  have F1: "FirstTrackedHeights u1 = F" using Cons.prems(4) u1(2) by (metis cstate.select_convs(12) cstate.surjective cstate.update_convs(9))
  have other: "store_get (PendingEvidencePackets u1) (a, h) = store_get (PendingEvidencePackets u) (a, h)" if "a \<noteq> fst tv" for a h
    using that Cons.prems(3)[of tv] by (auto simp: u1_def queue_evidence_other split: option.splits)
  have mine: "store_get (PendingEvidencePackets u1) (fst tv, close) =
      (case rep tv of None \<Rightarrow> store_get (PendingEvidencePackets u) (fst tv, close) | Some e \<Rightarrow> Some (mar e))"
    if "\<And>h. store_has (PendingEvidencePackets u) (fst tv, h) \<Longrightarrow> h \<le> close"
  proof (cases "rep tv")
    case (Some e)
    with Cons.prems(3)[of tv e] have e: "ValidatorAddr e = fst tv" "WindowEndHeight e = close" by auto
    have "store_get (PendingEvidencePackets (queue_evidence e (mar e) u)) (pendingEvidenceKey e) = Some (mar e)"
      by (rule queue_evidence_newest) (use that e in auto)
    with Some e show ?thesis by (simp add: u1_def pendingEvidenceKey_def)
  qed (simp add: u1_def)
  have rest1: "window_report ws window m u tv = Ok (rep tv)" if "tv \<in> set xs" "FirstTrackedHeights u = F"
    for tv and u :: "'w cstate" by (rule Cons.prems(2)) (use that in simp_all)
  have rest2: "ValidatorAddr e = fst tv \<and> WindowEndHeight e = close" if "tv \<in> set xs" "rep tv = Some e" for tv e
    by (rule Cons.prems(3)) (use that in simp_all)
  have rest3: "distinct (map fst xs)" using Cons.prems(5) by simp
  obtain t where t: "fold_res (report_window k ws window m) xs u1 = Ok t"
    "u1\<lparr>PendingEvidencePackets := PendingEvidencePackets t\<rparr> = t"
    "\<forall>a. (\<forall>h. store_has (PendingEvidencePackets u1) (a, h) \<longrightarrow> h \<le> close) \<longrightarrow>
       store_get (PendingEvidencePackets t) (a, close) =
         (case Option.bind (map_of xs a) (\<lambda>bm. rep (a, bm)) of
            None \<Rightarrow> store_get (PendingEvidencePackets u1) (a, close) | Some e \<Rightarrow> Some (mar e))"
    by (rule Cons.IH[OF _ rest1 rest2 F1 rest3]) (rule that)
  show ?case
  proof (rule Cons.prems(1)[of t])
    show "fold_res (report_window k ws window m) (tv # xs) u = Ok t" by (simp add: u1 t)
    show "u\<lparr>PendingEvidencePackets := PendingEvidencePackets t\<rparr> = t"
      using t(2) by (subst (asm) u1(2)[symmetric]) simp
    show "\<forall>a. (\<forall>h. store_has (PendingEvidencePackets u) (a, h) \<longrightarrow> h \<le> close) \<longrightarrow>
       store_get (PendingEvidencePackets t) (a, close) =
         (case Option.bind (map_of (tv # xs) a) (\<lambda>bm. rep (a, bm)) of
            None \<Rightarrow> store_get (PendingEvidencePackets u) (a, close) | Some e \<Rightarrow> Some (mar e))"
    proof (intro allI impI)
      fix a
      assume low: "\<forall>h. store_has (PendingEvidencePackets u) (a, h) \<longrightarrow> h \<le> close"
      have "h \<le> close" if "store_has (PendingEvidencePackets u1) (a, h)" for h
      proof (cases "a = fst tv")
        case True
        with that low[rule_format, of h] Cons.prems(3)[of tv] show ?thesis
          by (auto simp: u1_def store_has_def pendingEvidenceKey_def dest!: queue_evidence_old split: option.splits)
      qed (use that low other in \<open>auto simp: store_has_def\<close>)
      then have get: "store_get (PendingEvidencePackets t) (a, close) =
         (case Option.bind (map_of xs a) (\<lambda>bm. rep (a, bm)) of
            None \<Rightarrow> store_get (PendingEvidencePackets u1) (a, close) | Some e \<Rightarrow> Some (mar e))"
        using t(3) by blast
      show "store_get (PendingEvidencePackets t) (a, close) =
         (case Option.bind (map_of (tv # xs) a) (\<lambda>bm. rep (a, bm)) of
            None \<Rightarrow> store_get (PendingEvidencePackets u) (a, close) | Some e \<Rightarrow> Some (mar e))"
      proof (cases "a = fst tv")
        case True
        moreover have "map_of xs a = None" using Cons.prems(5) True by (simp add: map_of_eq_None_iff)
        ultimately show ?thesis using get mine low by (cases tv) (simp split: option.splits)
      next
        case False
        then show ?thesis using get other[of a close] by (cases tv) (simp split: option.splits)
      qed
    qed
  qed
qed

definition staged_ok :: "'w cstate \<Rightarrow> bool" where
  "staged_ok s \<longleftrightarrow> (case StagedDowntimeParams s of None \<Rightarrow> True | Some p \<Rightarrow> validDowntimeParams p)"

lemma closeWindow_effect:
  fixes s :: "'w cstate" and window since :: int and votes
  defines "ws \<equiv> window_start window since"
  defines "close \<equiv> ws + window - 1"
  assumes r: "recorded votes window since close s" and w: "0 < window" "1 \<le> since" "since \<le> close"
    and m: "0 < minSigned" "minSigned < dec_one" and mar: "\<And>e. MarshalEvidence k e \<noteq> None"
    and low: "\<And>a g. store_has (PendingEvidencePackets s) (a, g) \<Longrightarrow> g < close"
  obtains u :: "'w cstate" where
    "closeWindow k ws window minSigned s =
       Ok (applyStagedDowntimeParams (tracking_cleared (s\<lparr>PendingEvidencePackets := PendingEvidencePackets u\<rparr>)))"
    "\<And>a. if allowed_absences window minSigned < int (card (absences votes a since close))
         then \<exists>e. reports votes a since close window minSigned e \<and> store_get (PendingEvidencePackets u) (a, close) = MarshalEvidence k e
         else store_get (PendingEvidencePackets u) (a, close) = None"
proof -
  define xs where "xs = entries (MissedBlockBitmaps s)"
  have xs: "(a, bm) \<in> set xs \<longleftrightarrow> store_get (MissedBlockBitmaps s) a = Some bm" "map_of xs = store_get (MissedBlockBitmaps s)"
    "distinct (map fst xs)" for a bm
    unfolding xs_def by (rule kv.iter_mem, rule kv.iter_get[symmetric], rule kv.iter_distinct)
  define good where "good a report \<longleftrightarrow>
    (if allowed_absences window minSigned < int (card (absences votes a since close))
     then \<exists>e. report = Some e \<and> reports votes a since close window minSigned e else report = None)" for a report
  have "\<forall>tv. tv \<in> set xs \<longrightarrow> (\<exists>report. window_report ws window minSigned s tv = Ok report \<and> good (fst tv) report)"
  proof (intro allI impI)
    fix tv assume "tv \<in> set xs"
    then have bm: "store_get (MissedBlockBitmaps s) (fst tv) = Some (snd tv)" using xs(1)[of "fst tv" "snd tv"] by simp
    obtain report where "window_report (window_start window since) window minSigned s (fst tv, snd tv) = Ok report"
      "if allowed_absences window minSigned < int (card (absences votes (fst tv) since (window_start window since + window - 1)))
       then \<exists>e. report = Some e \<and> reports votes (fst tv) since (window_start window since + window - 1) window minSigned e
       else report = None"
      by (rule window_report_recorded[OF r[unfolded close_def ws_def] w(1,2) w(3)[unfolded close_def ws_def] m bm])
        (rule that)
    then show "\<exists>report. window_report ws window minSigned s tv = Ok report \<and> good (fst tv) report"
      by (simp add: good_def close_def ws_def)
  qed
  define rep where "rep tv = value_or None (window_report ws window minSigned s tv)" for tv
  from \<open>\<forall>tv. _\<close> have rep: "window_report ws window minSigned s tv = Ok (rep tv) \<and> good (fst tv) (rep tv)"
    if tv: "tv \<in> set xs" for tv
  proof -
    obtain report where "window_report ws window minSigned s tv = Ok report" "good (fst tv) report"
      using \<open>\<forall>tv. _\<close> tv by blast
    then show ?thesis by (simp add: rep_def)
  qed
  obtain u where u: "fold_res (report_window k ws window minSigned) xs s = Ok u"
    "s\<lparr>PendingEvidencePackets := PendingEvidencePackets u\<rparr> = u"
    "\<forall>a. (\<forall>h. store_has (PendingEvidencePackets s) (a, h) \<longrightarrow> h \<le> close) \<longrightarrow>
       store_get (PendingEvidencePackets u) (a, close) =
         (case Option.bind (map_of xs a) (\<lambda>bm. rep (a, bm)) of
            None \<Rightarrow> store_get (PendingEvidencePackets s) (a, close) | Some e \<Rightarrow> Some (the (MarshalEvidence k e)))"
  proof (rule report_windows_effect[of xs "FirstTrackedHeights s" ws window minSigned rep close k "\<lambda>e. the (MarshalEvidence k e)" s])
    show "window_report ws window minSigned u tv = Ok (rep tv)" if "tv \<in> set xs" "FirstTrackedHeights u = FirstTrackedHeights s"
      for tv and u :: "'w cstate"
      using rep[OF that(1)] window_report_cong[OF that(2)] by simp
    show "ValidatorAddr e = fst tv \<and> WindowEndHeight e = close" if "tv \<in> set xs" "rep tv = Some e" for tv e
      using rep[OF that(1)] that(2) by (auto simp: good_def reports_def split: if_splits)
    show "MarshalEvidence k e = Some (the (MarshalEvidence k e))" for e using mar[of e] by auto
  qed (use xs(3) that in auto)
  have "closeWindow k ws window minSigned s = Ok (applyStagedDowntimeParams (tracking_cleared u))"
    by (simp add: closeWindow_def xs_def[symmetric] u(1) tracking_cleared_def)
  moreover have "if allowed_absences window minSigned < int (card (absences votes a since close))
         then \<exists>e. reports votes a since close window minSigned e \<and> store_get (PendingEvidencePackets u) (a, close) = MarshalEvidence k e
         else store_get (PendingEvidencePackets u) (a, close) = None" for a
  proof -
    have none: "store_get (PendingEvidencePackets s) (a, close) = None" using low[of a close]
      by (cases "store_get (PendingEvidencePackets s) (a, close)") (auto simp: store_has_def)
    have get: "store_get (PendingEvidencePackets u) (a, close) =
         (case Option.bind (map_of xs a) (\<lambda>bm. rep (a, bm)) of
            None \<Rightarrow> None | Some e \<Rightarrow> Some (the (MarshalEvidence k e)))"
      using u(3)[rule_format, of a] low none by (simp add: less_imp_le split: option.splits)
    have "good a (Option.bind (map_of xs a) (\<lambda>bm. rep (a, bm)))"
    proof (cases "map_of xs a")
      case None
      then have "missed_bits s a = {}" by (simp add: missed_bits_def xs(2))
      moreover have "missed_bits s a = (\<lambda>g. g - ws) ` absences votes a since close"
        using r by (simp add: recorded_def absences_def ws_def)
      ultimately have "absences votes a since close = {}" by simp
      moreover have "0 \<le> allowed_absences window minSigned"
        using MaxMissed_bounds(1)[OF w(1) m] by (simp add: allowed_absences_def DowntimeParams_MaxMissed_def)
      ultimately show ?thesis using None by (simp add: good_def)
    next
      case (Some bm)
      then have "(a, bm) \<in> set xs" by (simp add: xs(1,2))
      from rep[OF this] Some show ?thesis by simp
    qed
    then show ?thesis using get mar by (auto simp: good_def split: if_splits)
  qed
  ultimately show ?thesis using that[of u] by (simp add: u(2))
qed

lemma recorded_fresh:
  "MissedBlockBitmaps s = empty_store \<Longrightarrow> FirstTrackedHeights s = empty_store \<Longrightarrow> h < since \<Longrightarrow>
     recorded votes window since h s"
  by (auto simp: recorded_def bitmaps_fit_def first_sighting_def missed_bits_def)

text \<open>One block of the tracking loop: the votes are recorded, and the window is closed at its last height.\<close>

lemma TrackMissedBlocks_run:
  fixes s :: "'w cstate" and ctx :: cctx
  assumes track: "tracking votes since h s" and ctx: "BlockHeight ctx = h + 2" "VoteInfos ctx = votes (h + 1)"
  defines "window \<equiv> cp_SignedBlocksWindow (CParams s)"
  obtains u where "tracking_cleared u = tracking_cleared s" "recorded votes window since (h + 1) u"
    "TrackMissedBlocks k ctx s =
       (if h + 1 = window_start window since + window - 1
        then closeWindow k (window_start window since) window (cp_MinSignedPerWindow (CParams s)) u else Ok u)"
proof -
  define ws where "ws = window_start window since"
  from track have tr: "0 < window" "1 \<le> since" "since \<le> h + 1" "h + 1 < ws + window" "recorded votes window since h s"
    by (simp_all add: tracking_def Let_def window_def ws_def)
  have wsb: "ws \<le> h + 1" using window_start_bounds[OF tr(1), of since] tr(3) by (simp add: ws_def)
  have "window_start window (h + 1) = ws"
    using window_start_same[OF tr(1), of since "h + 1"] wsb tr(4) by (simp add: ws_def)
  moreover have "quo (h + 1) window = (h + 1) div window" using tr(1-3) by (intro quo_nonneg) auto
  ultimately have quo: "quo (h + 1) window * window = ws" by (simp add: window_start_def)
  obtain u where u: "fold_res (record_vote (h + 1) window (h + 1 - ws)) (votes (h + 1)) s = Ok u"
    "tracking_cleared u = tracking_cleared s" "recorded votes window since (h + 1) u"
    using tr by (auto simp: ws_def intro: recorded_step[of votes window since h s])
  define g where "g = h + 1"
  have "BlockHeight ctx - 1 = g" "0 < g" "VoteInfos ctx = votes g" using ctx tr(2,3) by (simp_all add: g_def)
  with tr(1) quo u(1) have "TrackMissedBlocks k ctx s =
      (if h + 1 = ws + window - 1 then closeWindow k ws window (cp_MinSignedPerWindow (CParams s)) u else Ok u)"
    unfolding g_def[symmetric] by (simp add: TrackMissedBlocks_def GetDowntimeParams_def Let_def window_def[symmetric])
  then show thesis using that u(2,3) by (simp add: ws_def)
qed

text \<open>The state after a window was closed starts the next one.\<close>

lemma tracking_afresh:
  fixes u :: "'w cstate" and m :: "(addr \<times> int, bytes) store"
  assumes "staged_ok u" "0 < cp_SignedBlocksWindow (CParams u)" "0 \<le> h"
  defines "t \<equiv> applyStagedDowntimeParams (tracking_cleared (u\<lparr>PendingEvidencePackets := m\<rparr>))"
  shows "tracking votes (h + 2) (h + 1) t" "PendingEvidencePackets t = m"
proof -
  have t: "MissedBlockBitmaps t = empty_store" "FirstTrackedHeights t = empty_store"
    "PendingEvidencePackets t = m" "0 < cp_SignedBlocksWindow (CParams t)"
    using assms(1,2)
    by (auto simp: t_def applyStagedDowntimeParams_def tracking_cleared_def staged_ok_def validDowntimeParams_def split: option.splits)
  show "tracking votes (h + 2) (h + 1) t"
    using t(4) assms(3) recorded_fresh[OF t(1,2), of "h + 1" "h + 2"] window_start_bounds[OF t(4), of "h + 2"]
    by (simp add: tracking_def Let_def)
  show "PendingEvidencePackets t = m" by (rule t(3))
qed

text \<open>
  C4. \<open>downtime_is_reported\<close>: the consumer's downtime evidence is exactly what the votes say. Take a
  state whose tracking records the votes of the heights from \<open>since\<close> to \<open>h\<close>, and give the next
  block's \<^verbatim>\<open>TrackMissedBlocks\<close> the votes of height \<open>h + 1\<close>. It does not panic. Inside the window it
  goes on recording and queues nothing. At the last height of the window the queue holds, for every
  validator that was absent more often than the parameters allow, the packet that names the heights
  from its first sighting to the end of the window with one bit per absence, valid on the wire and
  above the provider's own threshold; for every other validator it holds no packet of that window;
  and tracking starts afresh. The JSON encoder is assumed total, and the queue to hold past windows.
\<close>

theorem downtime_is_reported:
  fixes s :: "'w cstate" and k :: "'w ckeeper" and ctx :: cctx and votes :: "int \<Rightarrow> VoteInfo list"
  assumes track: "tracking votes since h s"
    and ctx: "BlockHeight ctx = h + 2" "VoteInfos ctx = votes (h + 1)"
    and m: "0 < cp_MinSignedPerWindow (CParams s)" "cp_MinSignedPerWindow (CParams s) < dec_one"
    and mar: "\<And>e. MarshalEvidence k e \<noteq> None"
    and low: "\<forall>a g. store_has (PendingEvidencePackets s) (a, g) \<longrightarrow> g \<le> h"
    and staged: "staged_ok s"
  shows "\<exists>t. TrackMissedBlocks k ctx s = Ok t \<and>
    (let window = cp_SignedBlocksWindow (CParams s); minSigned = cp_MinSignedPerWindow (CParams s);
         close = window_start window since + window - 1
     in if h + 1 < close
        then tracking votes since (h + 1) t \<and> PendingEvidencePackets t = PendingEvidencePackets s
        else tracking votes (h + 2) (h + 1) t \<and>
          (\<forall>a. if allowed_absences window minSigned < int (card (absences votes a since close))
               then \<exists>e. reports votes a since close window minSigned e \<and>
                        store_get (PendingEvidencePackets t) (a, close) = MarshalEvidence k e
               else store_get (PendingEvidencePackets t) (a, close) = None))"
proof -
  define window where "window = cp_SignedBlocksWindow (CParams s)"
  define minSigned where "minSigned = cp_MinSignedPerWindow (CParams s)"
  define ws where "ws = window_start window since"
  from track have tr: "0 < window" "1 \<le> since" "since \<le> h + 1" "h + 1 < ws + window"
    by (simp_all add: tracking_def Let_def window_def ws_def)
  obtain u where u: "tracking_cleared u = tracking_cleared s" "recorded votes window since (h + 1) u"
    and run: "TrackMissedBlocks k ctx s = (if h + 1 = ws + window - 1 then closeWindow k ws window minSigned u else Ok u)"
    using TrackMissedBlocks_run[OF track ctx, of k] unfolding window_def ws_def minSigned_def by blast
  have frame: "CParams u = CParams s" "PendingEvidencePackets u = PendingEvidencePackets s"
    "StagedDowntimeParams u = StagedDowntimeParams s"
    using arg_cong[OF u(1), of CParams] arg_cong[OF u(1), of PendingEvidencePackets]
      arg_cong[OF u(1), of StagedDowntimeParams] by (simp_all add: tracking_cleared_def)
  show ?thesis
  proof (cases "h + 1 = ws + window - 1")
    case False
    then have "h + 1 < ws + window - 1" using tr(4) by simp
    moreover from this have "tracking votes since (h + 1) u"
      using tr u(2) by (simp add: tracking_def Let_def frame window_def[symmetric] ws_def[symmetric])
    ultimately show ?thesis using run False frame
      by (simp add: Let_def window_def[symmetric] minSigned_def[symmetric] ws_def[symmetric])
  next
    case True
    have c: "recorded votes window since (ws + window - 1) u" "since \<le> ws + window - 1" "0 < minSigned" "minSigned < dec_one"
      using u(2) tr(3) m unfolding True minSigned_def by simp_all
    have low': "g < ws + window - 1" if "store_has (PendingEvidencePackets u) (a, g)" for a g
      using low[rule_format, of a g] that True by (simp add: frame)
    obtain v :: "'w cstate" where v: "closeWindow k ws window minSigned u =
        Ok (applyStagedDowntimeParams (tracking_cleared (u\<lparr>PendingEvidencePackets := PendingEvidencePackets v\<rparr>)))"
      "\<And>a. if allowed_absences window minSigned < int (card (absences votes a since (ws + window - 1)))
         then \<exists>e. reports votes a since (ws + window - 1) window minSigned e \<and> store_get (PendingEvidencePackets v) (a, ws + window - 1) = MarshalEvidence k e
         else store_get (PendingEvidencePackets v) (a, ws + window - 1) = None"
      unfolding ws_def by (rule closeWindow_effect[OF c(1)[unfolded ws_def] tr(1,2) c(2)[unfolded ws_def] c(3,4) mar])
        (erule low'[unfolded ws_def], rule that[unfolded ws_def])
    have "staged_ok u" "0 < cp_SignedBlocksWindow (CParams u)" "0 \<le> h"
      using staged tr by (auto simp: staged_ok_def frame window_def)
    note t = tracking_afresh(1)[OF this, where m = "PendingEvidencePackets v" and votes = votes]
      tracking_afresh(2)[OF this, where m = "PendingEvidencePackets v"]
    have "\<not> h + 1 < ws + window - 1" using True by simp
    then show ?thesis using run True v t
      by (simp add: Let_def window_def[symmetric] minSigned_def[symmetric] ws_def[symmetric])
  qed
qed

definition ex_ckeeper :: "unit ckeeper" where
  "ex_ckeeper =
     \<lparr>c_authority = ''gov'', FromCmtProtoPublicKey = Some, ToCmtProtoPublicKey = Some, PubKeyFromProto = (\<lambda>_. True),
      PubKeyAddr = (\<lambda>pk. pk), ValAddressString = (\<lambda>_. ''valoper''), AfterValidatorBonded = (\<lambda>w _ _. Some w),
      c_GetClientState = (\<lambda>_ c. if c = ''07-tendermint-0''
        then Some (TmClient \<lparr>tm_ChainId = ''atomone-1'', tm_LatestHeight = (1, 5), tm_TrustingPeriod = 10,
          tm_UnbondingPeriod = 20, tm_MaxClockDrift = 1\<rparr>) else None),
      c_GetClientStatus = (\<lambda>_ _. Active), c_GetClientCounterparty = (\<lambda>_ _. Some ''07-tendermint-9''),
      c_SendPacket = (\<lambda>w _ _ _. (True, w)), c_MaxTimeoutDelta = 86400,
      MarshalEvidence = (\<lambda>e. Some (ValidatorAddr e @ [word_of_int (WindowEndHeight e)])),
      UnmarshalEvidence = (\<lambda>_. None), Bech32DecodeAndConvert = (\<lambda>_. None), ConsAddressString = (\<lambda>_. ''valcons''),
      NewHistoricalInfo = (\<lambda>h vs. \<lparr>hist_Header = h, hist_Valset = vs\<rparr>),
      ClientStateValid = (\<lambda>_. True), ConsensusStateValid = (\<lambda>_. True)\<rparr>"

definition ex_cstate :: "unit cstate" where
  "ex_cstate =
     \<lparr>ProviderClientID = Some ''07-tendermint-0'', PendingChanges = None, InitGenesisHeight_c = Some 1,
      CParams = \<lparr>cp_VaasTimeoutPeriod = 3600, cp_HistoricalEntries = 100, cp_UnbondingPeriod = 1000,
        cp_SafeModeThreshold = 500, cp_SignedBlocksWindow = 1, cp_MinSignedPerWindow = dec_one div 2,
        cp_OwnerAddress = [], cp_PhotonFeesEnabled = False\<rparr>,
      CInDebt = None, VaasValidators = empty_store, HistoricalInfos = empty_store, HighestValsetUpdateID = None,
      PendingEvidencePackets = empty_store, LastVSCRecvTime = None, MissedBlockBitmaps = empty_store,
      FirstTrackedHeights = empty_store, StagedDowntimeParams = None, ProviderChainId = Some ''atomone-1'',
      cworld = ()\<rparr>"

definition ex_votes :: "int \<Rightarrow> VoteInfo list" where
  "ex_votes g = [\<lparr>vi_Address = [1], vi_BlockIdFlag = BlockIDFlagAbsent\<rparr>,
                 \<lparr>vi_Address = [2], vi_BlockIdFlag = BlockIDFlagCommit\<rparr>]"

definition ex_cctx :: cctx where
  "ex_cctx = \<lparr>BlockTime = 100, BlockHeight = 2, ChainID = ''shop-1'', VoteInfos = ex_votes 1, BlockHeader = []\<rparr>"

lemma ex_absences: "absences ex_votes [1] 1 1 = {1}"
  by (auto simp: absences_def absent_at_def ex_votes_def absent_vote_def)

theorem downtime_is_reported_witness:
  "\<exists>t e. TrackMissedBlocks ex_ckeeper ex_cctx ex_cstate = Ok t \<and>
     reports ex_votes [1] 1 1 1 (dec_one div 2) e \<and>
     store_get (PendingEvidencePackets t) ([1], 1) = MarshalEvidence ex_ckeeper e"
proof -
  have track: "tracking ex_votes 1 0 ex_cstate"
    using recorded_fresh[of ex_cstate 0 1 ex_votes 1] by (simp add: tracking_def ex_cstate_def window_start_def)
  have p: "cp_SignedBlocksWindow (CParams ex_cstate) = 1" "cp_MinSignedPerWindow (CParams ex_cstate) = dec_one div 2"
    by (simp_all add: ex_cstate_def)
  have c: "window_start 1 1 + 1 - 1 = 1" "allowed_absences 1 (dec_one div 2) = 0"
    by (simp add: window_start_def, code_simp)
  have hyp: "BlockHeight ex_cctx = 0 + 2" "VoteInfos ex_cctx = ex_votes (0 + 1)"
    "0 < cp_MinSignedPerWindow (CParams ex_cstate)" "cp_MinSignedPerWindow (CParams ex_cstate) < dec_one"
    "MarshalEvidence ex_ckeeper e \<noteq> None" "\<forall>a g. store_has (PendingEvidencePackets ex_cstate) (a, g) \<longrightarrow> g \<le> 0"
    "staged_ok ex_cstate" for e
    by (simp_all add: ex_cctx_def ex_cstate_def ex_ckeeper_def staged_ok_def)
  obtain t where t: "TrackMissedBlocks ex_ckeeper ex_cctx ex_cstate = Ok t"
    "\<forall>a. if 0 < int (card (absences ex_votes a 1 1))
         then \<exists>e. reports ex_votes a 1 1 1 (dec_one div 2) e \<and> store_get (PendingEvidencePackets t) (a, 1) = MarshalEvidence ex_ckeeper e
         else store_get (PendingEvidencePackets t) (a, 1) = None"
    using downtime_is_reported[OF track hyp(1-4) hyp(5) hyp(6) hyp(7)] unfolding p Let_def c
    by auto
  from t(1) spec[OF t(2), of "[1]"] ex_absences show ?thesis by auto
qed

end
