(* ===== verification/ConsumerModule.thy ===== *)
theory ConsumerModule
  imports ConsumerDowntime
begin

text \<open>
  The rest of the consumer module: the historical infos of \<^verbatim>\<open>validators.go\<close>, its two messages, its
  genesis, and the block hooks and packet callbacks of \<^verbatim>\<open>module.go\<close> and \<^verbatim>\<open>ibc_module.go\<close>.
\<close>

subsection \<open>Historical infos\<close>

definition GetHistoricalInfo :: "'w cstate \<Rightarrow> int \<Rightarrow> HistoricalInfo option" where
  "GetHistoricalInfo s height = store_get (HistoricalInfos s) height"

definition SetHistoricalInfo :: "int \<Rightarrow> HistoricalInfo \<Rightarrow> 'w cstate \<Rightarrow> 'w cstate" where
  "SetHistoricalInfo height hi s = s\<lparr>HistoricalInfos := store_set height hi (HistoricalInfos s)\<rparr>"

definition DeleteHistoricalInfo :: "int \<Rightarrow> 'w cstate \<Rightarrow> 'w cstate" where
  "DeleteHistoricalInfo height s = s\<lparr>HistoricalInfos := store_remove height (HistoricalInfos s)\<rparr>"

text \<open>Downwards from the newest height to drop, until the first height that has no entry.\<close>

function prune_historical :: "int \<Rightarrow> 'w cstate \<Rightarrow> 'w cstate" where
  "prune_historical i s =
     (if i < 0 then s
      else case GetHistoricalInfo s i of
        None \<Rightarrow> s
      | Some _ \<Rightarrow> prune_historical (i - 1) (DeleteHistoricalInfo i s))"
  by pat_completeness auto
termination by (relation "measure (\<lambda>(i, s). nat (i + 1))") auto

declare prune_historical.simps [simp del]

definition DefaultPowerReduction :: int where
  "DefaultPowerReduction = 1000000"

definition historical_validator :: "'w ckeeper \<Rightarrow> VaasValidator \<Rightarrow> StakingValidator" where
  "historical_validator k v =
     \<lparr>OperatorAddress = ValAddressString k (PubKeyAddr k (vv_Pubkey v)),
      val_ConsensusPubkey = vv_Pubkey v, val_Tokens = vv_Power v * DefaultPowerReduction,
      val_Unbonded = False, val_Jailed = False\<rparr>"

definition TrackHistoricalInfo :: "'w ckeeper \<Rightarrow> cctx \<Rightarrow> 'w cstate \<Rightarrow> 'w cstate" where
  "TrackHistoricalInfo k ctx s =
     (let numHistoricalEntries = cp_HistoricalEntries (CParams s);
          s1 = prune_historical (BlockHeight ctx - numHistoricalEntries) s
      in if numHistoricalEntries = 0 then s1
         else SetHistoricalInfo (BlockHeight ctx)
                (NewHistoricalInfo k (BlockHeader ctx) (map (historical_validator k) (GetAllVaasValidator s1))) s1)"

subsection \<open>Messages\<close>

definition ConsumerParams_Validate :: "'w ckeeper \<Rightarrow> ConsumerParams \<Rightarrow> unit result" where
  "ConsumerParams_Validate k p =
     bind_res (ValidateDuration (cp_VaasTimeoutPeriod p)) (\<lambda>_.
     bind_res (ValidatePositiveInt64 (cp_HistoricalEntries p)) (\<lambda>_.
     bind_res (ValidateDuration (cp_UnbondingPeriod p)) (\<lambda>_.
     bind_res (ValidateDuration (cp_SafeModeThreshold p)) (\<lambda>_.
     bind_res (ValidatePositiveInt64 (cp_SignedBlocksWindow p)) (\<lambda>_.
     guard_res (0 < cp_MinSignedPerWindow p \<and> cp_MinSignedPerWindow p < dec_one) ErrPlain (
     guard_res (cp_OwnerAddress p = '''' \<or> Bech32DecodeAndConvert k (cp_OwnerAddress p) \<noteq> None) ErrPlain (
     Ok ())))))))"

definition Consumer_UpdateParams :: "'w ckeeper \<Rightarrow> string \<Rightarrow> ConsumerParams \<Rightarrow> 'w cstate \<Rightarrow> 'w cstate result" where
  "Consumer_UpdateParams k auth params s =
     guard_res (c_authority k = auth) ErrInvalidSigner (
     bind_res (ConsumerParams_Validate k params) (\<lambda>_.
     Ok (s\<lparr>CParams := params\<lparr>cp_SignedBlocksWindow := cp_SignedBlocksWindow (CParams s),
                             cp_MinSignedPerWindow := cp_MinSignedPerWindow (CParams s)\<rparr>\<rparr>)))"

definition isProviderClientAuthority :: "'w ckeeper \<Rightarrow> string \<Rightarrow> 'w cstate \<Rightarrow> bool" where
  "isProviderClientAuthority k signer s =
     (if signer = c_authority k then True
      else
        let owner = cp_OwnerAddress (CParams s) in
        if owner = '''' then False
        else case Bech32DecodeAndConvert k owner of
          None \<Rightarrow> False
        | Some ownerBytes \<Rightarrow>
            (case Bech32DecodeAndConvert k signer of
               None \<Rightarrow> False
             | Some signerBytes \<Rightarrow> ownerBytes = signerBytes))"

definition SetProviderClient :: "'w ckeeper \<Rightarrow> string \<Rightarrow> string \<Rightarrow> 'w cstate \<Rightarrow> 'w cstate result" where
  "SetProviderClient k signer clientId s =
     guard_res (isProviderClientAuthority k signer s) ErrInvalidProviderClient (
     guard_res (ProviderClientID s = None \<or> ProviderClientID s = Some '''') ErrInvalidProviderClient (
     bind_res (of_option ErrInvalidProviderClient (ProviderChainId s)) (\<lambda>providerChainID.
     bind_res (of_option ErrInvalidProviderClient (c_GetClientState k (cworld s) clientId)) (\<lambda>clientState.
     case clientState of
       OtherClient \<Rightarrow> Err ErrInvalidProviderClient
     | TmClient tm \<Rightarrow>
         guard_res (tm_ChainId tm = providerChainID) ErrInvalidProviderClient (
         guard_res (c_GetClientStatus k (cworld s) clientId = Active) ErrInvalidProviderClient (
         guard_res (case c_GetClientCounterparty k (cworld s) clientId of None \<Rightarrow> False | Some cp \<Rightarrow> cp \<noteq> '''')
           ErrInvalidProviderClient (
         Ok (s\<lparr>ProviderClientID := Some clientId\<rparr>))))))))"

definition HasRoutableProviderClient :: "'w ckeeper \<Rightarrow> 'w cstate \<Rightarrow> bool" where
  "HasRoutableProviderClient k s =
     (case ProviderClientID s of
        None \<Rightarrow> False
      | Some pinned \<Rightarrow> c_GetClientCounterparty k (cworld s) pinned \<noteq> None)"

definition GetProviderInfoV2 :: "'w ckeeper \<Rightarrow> ('a sdk_ctx_scheme) \<Rightarrow> 'w cstate \<Rightarrow> (string \<times> string \<times> string) result" where
  "GetProviderInfoV2 k ctx s =
     bind_res (of_option ErrClientNotFound (ProviderClientID s)) (\<lambda>providerClientID.
     bind_res (of_option ErrClientNotFound (c_GetClientState k (cworld s) providerClientID)) (\<lambda>clientState.
     case clientState of
       OtherClient \<Rightarrow> Err ErrInvalidProviderClient
     | TmClient tm \<Rightarrow> Ok (ChainID ctx, providerClientID, tm_ChainId tm)))"

subsection \<open>Genesis\<close>

record GenesisState =
  gs_Params :: ConsumerParams
  gs_NewChain :: bool
  gs_ClientState :: "tm_client option"
  gs_ConsensusState :: "ConsensusState option"
  gs_InitialValSet :: "ValidatorUpdate list"
  gs_ProviderClientId :: string
  gs_HighestValsetUpdateId :: nat
  gs_LastVscRecvTime :: "time option"
  gs_MissedBlockBitmaps :: "(addr \<times> bytes) list"
  gs_FirstTrackedHeights :: "(addr \<times> int) list"
  gs_StagedDowntimeParams :: "DowntimeParams option"
  gs_ProviderChainId :: string
  gs_PendingEvidencePackets :: "(addr \<times> bytes) list"
  gs_ConsumerInDebt :: bool

definition NewRestartGenesisState :: "string \<Rightarrow> ValidatorUpdate list \<Rightarrow> ConsumerParams \<Rightarrow> GenesisState" where
  "NewRestartGenesisState clientID initValSet params =
     \<lparr>gs_Params = params, gs_NewChain = False, gs_ClientState = None, gs_ConsensusState = None,
      gs_InitialValSet = initValSet, gs_ProviderClientId = clientID, gs_HighestValsetUpdateId = 0,
      gs_LastVscRecvTime = None, gs_MissedBlockBitmaps = [], gs_FirstTrackedHeights = [],
      gs_StagedDowntimeParams = None, gs_ProviderChainId = '''', gs_PendingEvidencePackets = [],
      gs_ConsumerInDebt = False\<rparr>"

definition NewInitialGenesisState ::
    "tm_client \<Rightarrow> ConsensusState \<Rightarrow> ValidatorUpdate list \<Rightarrow> ConsumerParams \<Rightarrow> GenesisState" where
  "NewInitialGenesisState cs consState initValSet params =
     (NewRestartGenesisState '''' initValSet params)
       \<lparr>gs_NewChain := True, gs_ClientState := Some cs, gs_ConsensusState := Some consState\<rparr>"

definition validate_provider_info :: "'w ckeeper \<Rightarrow> GenesisState \<Rightarrow> unit result" where
  "validate_provider_info k gs =
     (if gs_NewChain gs
      then bind_res (of_option ErrInvalidGenesis (gs_ClientState gs)) (\<lambda>cs.
           guard_res (ClientStateValid k cs) ErrInvalidGenesis (
           bind_res (of_option ErrInvalidGenesis (gs_ConsensusState gs)) (\<lambda>consState.
           guard_res (ConsensusStateValid k consState) ErrInvalidGenesis (
           guard_res (gs_ProviderClientId gs = '''') ErrInvalidGenesis (
           guard_res (\<not> gs_ConsumerInDebt gs) ErrInvalidGenesis (Ok ()))))))
      else guard_res (gs_ClientState gs = None \<and> gs_ConsensusState gs = None) ErrInvalidGenesis (Ok ()))"

definition validate_pending_evidence :: "'w ckeeper \<Rightarrow> addr \<times> bytes \<Rightarrow> unit \<Rightarrow> unit result" where
  "validate_pending_evidence k e _ =
     guard_res (fst e \<noteq> []) ErrInvalidGenesis (
     bind_res (of_option ErrInvalidGenesis (UnmarshalEvidence k (snd e))) (\<lambda>packet.
     bind_res (as_error ErrInvalidGenesis (EvidencePacketData_Validate packet)) (\<lambda>_.
     guard_res (fst e = ValidatorAddr packet) ErrInvalidGenesis (Ok ()))))"

definition GenesisState_Validate :: "'w ckeeper \<Rightarrow> GenesisState \<Rightarrow> unit result" where
  "GenesisState_Validate k gs =
     guard_res (gs_InitialValSet gs \<noteq> []) ErrInvalidGenesis (
     bind_res (ConsumerParams_Validate k (gs_Params gs)) (\<lambda>_.
     bind_res (validate_provider_info k gs) (\<lambda>_.
     let wantBitmapLen = quo (cp_SignedBlocksWindow (gs_Params gs) + 7) 8 in
     bind_res (fold_res (\<lambda>e _. guard_res (fst e \<noteq> []) ErrInvalidGenesis (
                               guard_res (int (length (snd e)) = wantBitmapLen) ErrInvalidGenesis (Ok ())))
                (gs_MissedBlockBitmaps gs) ()) (\<lambda>_.
     bind_res (fold_res (\<lambda>e _. guard_res (fst e \<noteq> []) ErrInvalidGenesis (
                               guard_res (\<not> snd e \<le> 0) ErrInvalidGenesis (Ok ())))
                (gs_FirstTrackedHeights gs) ()) (\<lambda>_.
     bind_res (fold_res (validate_pending_evidence k) (gs_PendingEvidencePackets gs) ()) (\<lambda>_.
     case gs_StagedDowntimeParams gs of
       None \<Rightarrow> Ok ()
     | Some p \<Rightarrow>
         guard_res (\<not> dp_SignedBlocksWindow p \<le> 0) ErrInvalidGenesis (
         guard_res (0 < dp_MinSignedPerWindow p \<and> dp_MinSignedPerWindow p < dec_one) ErrInvalidGenesis (
         Ok ()))))))))"

text \<open>The part of \<^verbatim>\<open>InitGenesis\<close> that depends on whether the chain is new.\<close>

definition init_provider_info :: "'w ckeeper \<Rightarrow> GenesisState \<Rightarrow> 'w cstate \<Rightarrow> 'w cstate result" where
  "init_provider_info k gs s =
     (if gs_NewChain gs
      then case gs_ClientState gs of
             None \<Rightarrow> Panic
           | Some cs \<Rightarrow> Ok (s\<lparr>ProviderChainId := Some (tm_ChainId cs)\<rparr>)
      else
        bind_res (if gs_ProviderClientId gs \<noteq> ''''
                  then (case c_GetClientState k (cworld s) (gs_ProviderClientId gs) of
                          None \<Rightarrow> Panic
                        | Some _ \<Rightarrow> Ok (s\<lparr>ProviderClientID := Some (gs_ProviderClientId gs)\<rparr>))
                  else Ok s) (\<lambda>s1.
        let s2 = (if gs_ProviderChainId gs \<noteq> '''' then s1\<lparr>ProviderChainId := Some (gs_ProviderChainId gs)\<rparr> else s1);
            s3 = (if gs_ConsumerInDebt gs then s2\<lparr>CInDebt := Some True\<rparr> else s2)
        in Ok (if gs_HighestValsetUpdateId gs \<noteq> 0
               then s3\<lparr>HighestValsetUpdateID := Some (gs_HighestValsetUpdateId gs)\<rparr> else s3)))"

definition init_pending_evidence :: "'w ckeeper \<Rightarrow> addr \<times> bytes \<Rightarrow> 'w cstate \<Rightarrow> 'w cstate result" where
  "init_pending_evidence k e s =
     (case UnmarshalEvidence k (snd e) of
        None \<Rightarrow> Panic
      | Some packet \<Rightarrow>
          Ok (s\<lparr>PendingEvidencePackets := store_set (pendingEvidenceKey packet) (snd e) (PendingEvidencePackets s)\<rparr>))"

definition Consumer_InitGenesis ::
    "'w ckeeper \<Rightarrow> ('a sdk_ctx_scheme) \<Rightarrow> GenesisState \<Rightarrow> 'w cstate \<Rightarrow> (ValidatorUpdate list \<times> 'w cstate) result" where
  "Consumer_InitGenesis k ctx gs s0 =
     bind_res (init_provider_info k gs
        (s0\<lparr>InitGenesisHeight_c := Some (BlockHeight ctx), CParams := gs_Params gs\<rparr>)) (\<lambda>s1.
     let s2 = (case gs_LastVscRecvTime gs of None \<Rightarrow> s1 | Some t \<Rightarrow> s1\<lparr>LastVSCRecvTime := Some t\<rparr>);
         s3 = s2\<lparr>MissedBlockBitmaps := fold (\<lambda>e. store_set (fst e) (snd e)) (gs_MissedBlockBitmaps gs) (MissedBlockBitmaps s2),
                 FirstTrackedHeights := fold (\<lambda>e. store_set (fst e) (snd e)) (gs_FirstTrackedHeights gs) (FirstTrackedHeights s2)\<rparr>
     in bind_res (fold_res (init_pending_evidence k) (gs_PendingEvidencePackets gs) s3) (\<lambda>s4.
        bind_res (case gs_StagedDowntimeParams gs of
                    None \<Rightarrow> Ok s4
                  | Some p \<Rightarrow> if \<not> validDowntimeParams p then Panic
                             else Ok (s4\<lparr>StagedDowntimeParams := Some p\<rparr>)) (\<lambda>s5.
        bind_res (ApplyVaasValidatorChanges k (gs_InitialValSet gs) s5) (\<lambda>(_, s6).
        Ok (gs_InitialValSet gs, s6)))))"

definition exportMissedBlockBitmaps :: "'w cstate \<Rightarrow> (addr \<times> bytes) list" where
  "exportMissedBlockBitmaps s = entries (MissedBlockBitmaps s)"

definition exportFirstTrackedHeights :: "'w cstate \<Rightarrow> (addr \<times> int) list" where
  "exportFirstTrackedHeights s = entries (FirstTrackedHeights s)"

definition exportPendingEvidencePackets :: "'w cstate \<Rightarrow> (addr \<times> bytes) list" where
  "exportPendingEvidencePackets s = map (\<lambda>kv. (fst (fst kv), snd kv)) (entries (PendingEvidencePackets s))"

definition Consumer_ExportGenesis :: "'w ckeeper \<Rightarrow> 'w cstate \<Rightarrow> GenesisState result" where
  "Consumer_ExportGenesis k s =
     bind_res (MustGetCurrentValidatorsAsABCIUpdates k s) (\<lambda>valset.
     Ok ((NewRestartGenesisState (case ProviderClientID s of None \<Rightarrow> '''' | Some clientID \<Rightarrow> clientID)
            valset (CParams s))
         \<lparr>gs_HighestValsetUpdateId := (case HighestValsetUpdateID s of None \<Rightarrow> 0 | Some i \<Rightarrow> i),
          gs_ProviderChainId := (case ProviderChainId s of None \<Rightarrow> '''' | Some chainId \<Rightarrow> chainId),
          gs_LastVscRecvTime := LastVSCRecvTime s,
          gs_ConsumerInDebt := IsConsumerInDebt_c s,
          gs_MissedBlockBitmaps := exportMissedBlockBitmaps s,
          gs_FirstTrackedHeights := exportFirstTrackedHeights s,
          gs_PendingEvidencePackets := exportPendingEvidencePackets s,
          gs_StagedDowntimeParams := StagedDowntimeParams s\<rparr>))"

subsection \<open>Block hooks and packet callbacks\<close>

definition Consumer_BeginBlock :: "'w ckeeper \<Rightarrow> cctx \<Rightarrow> 'w cstate \<Rightarrow> 'w cstate result" where
  "Consumer_BeginBlock k ctx s =
     bind_res (ArmVSCStalenessClock ctx (TrackHistoricalInfo k ctx s)) (TrackMissedBlocks k ctx)"

definition Consumer_EndBlock ::
    "'w ckeeper \<Rightarrow> ('a sdk_ctx_scheme) \<Rightarrow> 'w cstate \<Rightarrow> (ValidatorUpdate list \<times> 'w cstate) result" where
  "Consumer_EndBlock k ctx s =
     (let s1 = SendEvidencePackets k ctx s in
      case PendingChanges s1 of
        None \<Rightarrow> Ok ([], s1)
      | Some updates \<Rightarrow>
          bind_res (ApplyVaasValidatorChanges k updates s1) (\<lambda>(tendermintUpdates, s2).
          Ok (tendermintUpdates, s2\<lparr>PendingChanges := None\<rparr>)))"

definition Consumer_OnSendPacket :: "'w ckeeper \<Rightarrow> Payload \<Rightarrow> string \<Rightarrow> unit result" where
  "Consumer_OnSendPacket k payload signer =
     guard_res (SourcePort payload = ConsumerAppID) ErrInvalidRequest (
     guard_res (DestinationPort payload = ProviderAppID) ErrInvalidRequest (
     guard_res (signer = c_authority k) ErrUnauthorized (Ok ())))"

text \<open>Whether the callback reported success, and the state then.\<close>

definition Consumer_OnRecvPacket ::
    "'w ckeeper \<Rightarrow> ('a sdk_ctx_scheme) \<Rightarrow> string \<Rightarrow> Payload \<Rightarrow> 'w cstate \<Rightarrow> (bool \<times> 'w cstate) result" where
  "Consumer_OnRecvPacket k ctx destinationClient payload s =
     (if DestinationPort payload \<noteq> ConsumerAppID then Ok (False, s)
      else if SourcePort payload \<noteq> ProviderAppID then Ok (False, s)
      else case VSCValue payload of
        None \<Rightarrow> Ok (False, s)
      | Some data \<Rightarrow>
          (case OnRecvVSCPacketV2 k ctx destinationClient data s of
             Ok s1 \<Rightarrow> Ok (True, s1)
           | Err _ \<Rightarrow> Ok (False, s)
           | Panic \<Rightarrow> Panic))"

text \<open>The timed-out packet is queued again from its payload; a payload that is refused is logged.\<close>

definition Consumer_OnTimeoutPacket :: "'w ckeeper \<Rightarrow> bytes \<Rightarrow> 'w cstate \<Rightarrow> 'w cstate" where
  "Consumer_OnTimeoutPacket k payload s =
     (case RequeueEvidencePacket k payload s of Ok s1 \<Rightarrow> s1 | _ \<Rightarrow> s)"

text \<open>The attributes of the event that reports a rejection; the state is only read.\<close>

definition ReportRejectedEvidencePacket :: "'w ckeeper \<Rightarrow> bytes \<Rightarrow> string \<times> int" where
  "ReportRejectedEvidencePacket k payload =
     (case UnmarshalEvidence k payload of
        None \<Rightarrow> ('''', 0)
      | Some packet \<Rightarrow> (ConsAddressString k (ValidatorAddr packet), WindowEndHeight packet))"

definition Consumer_OnAcknowledgementPacket ::
    "'w ckeeper \<Rightarrow> bool \<Rightarrow> bytes \<Rightarrow> 'w cstate \<Rightarrow> (string \<times> int) option \<times> 'w cstate" where
  "Consumer_OnAcknowledgementPacket k isErrorAcknowledgement payload s =
     (if isErrorAcknowledgement then (Some (ReportRejectedEvidencePacket k payload), s) else (None, s))"

end
