(* ===== verification/GenesisCheck.thy ===== *)
theory GenesisCheck
  imports ProviderGenesis ConsumerModule
begin

text \<open>
  The validation of a provider genesis file: \<^verbatim>\<open>GenesisState.Validate\<close>, \<^verbatim>\<open>ConsumerState.Validate\<close> and
  their helpers in \<^verbatim>\<open>x/vaas/provider/types/genesis.go\<close>, with \<^verbatim>\<open>KeyAssignmentValidateBasic\<close>
  (\<^verbatim>\<open>key_assignment.go\<close>) and \<^verbatim>\<open>ConsumerGenesisState.Validate\<close> (\<^verbatim>\<open>x/vaas/types/genesis.go\<close>). The theorems say
  what a validated file gives when it is imported, and which states of a running provider export a
  file that is not valid. The checks of the SDK on denominations, coins and raw addresses are the
  fields of \<open>sdk_checks\<close>. A nil \<^verbatim>\<open>math.Int\<close>, a nil key and a number that names no pause reason have no
  counterpart, so their checks are left out; sums of heights do not wrap.
\<close>

subsection \<open>The checks\<close>

record sdk_checks =
  ValidateDenom :: "denom \<Rightarrow> bool"
  VerifyAddressFormat :: "bytes \<Rightarrow> bool"
  CoinValidate :: "Coin \<Rightarrow> bool"

text \<open>A loop over records: the checks of each, then its key against those seen before.\<close>

definition check_each :: "('x \<Rightarrow> unit result) \<Rightarrow> ('x \<Rightarrow> 'k) \<Rightarrow> 'x list \<Rightarrow> unit result" where
  "check_each check key xs =
     bind_res (fold_res (\<lambda>x seen. bind_res (check x) (\<lambda>_.
         guard_res (key x \<notin> set seen) ErrPlain (Ok (key x # seen)))) xs []) (\<lambda>_. Ok ())"

definition ConsumerGenesisState_Validate :: "'v ckeeper \<Rightarrow> ConsumerGenesisState option \<Rightarrow> unit result" where
  "ConsumerGenesisState_Validate ck og =
     bind_res (of_option ErrInvalidGenesis og) (\<lambda>gs.
     guard_res (gen_InitialValSet gs \<noteq> []) ErrInvalidGenesis (
     bind_res (ConsumerParams_Validate ck (gen_Params gs)) (\<lambda>_.
     guard_res (gen_NewChain gs) ErrInvalidGenesis (
     guard_res (ClientStateValid ck (gen_ClientState gs)) ErrInvalidGenesis (
     guard_res (ConsensusStateValid ck (gen_ConsensusState gs)) ErrInvalidGenesis (Ok ()))))))"

text \<open>What the phases from the launch to the removal require alike.\<close>

definition validate_live :: "'v ckeeper \<Rightarrow> ConsumerState \<Rightarrow> unit result" where
  "validate_live ck cs =
     guard_res (co_InitParams cs \<noteq> None) ErrPlain (
     guard_res (co_ClientId cs \<noteq> '''') ErrPlain (
     ConsumerGenesisState_Validate ck (co_ConsumerGenesis cs)))"

definition validate_phase :: "'v ckeeper \<Rightarrow> ConsumerState \<Rightarrow> unit result" where
  "validate_phase ck cs =
     (case co_Phase cs of
        CONSUMER_PHASE_REGISTERED \<Rightarrow>
          guard_res (co_ClientId cs = '''') ErrPlain (
          guard_res (co_InitParams cs = None) ErrPlain (
          guard_res (co_RemovalTime cs = None) ErrPlain (Ok ())))
      | CONSUMER_PHASE_INITIALIZED \<Rightarrow>
          guard_res (co_InitParams cs \<noteq> None) ErrPlain (
          guard_res (co_ClientId cs = '''') ErrPlain (
          guard_res (co_RemovalTime cs = None) ErrPlain (Ok ())))
      | CONSUMER_PHASE_LAUNCHED \<Rightarrow>
          bind_res (validate_live ck cs) (\<lambda>_. guard_res (co_RemovalTime cs = None) ErrPlain (Ok ()))
      | CONSUMER_PHASE_STOPPED \<Rightarrow>
          bind_res (validate_live ck cs) (\<lambda>_. guard_res (co_RemovalTime cs \<noteq> None) ErrPlain (Ok ()))
      | CONSUMER_PHASE_PAUSED \<Rightarrow>
          bind_res (validate_live ck cs) (\<lambda>_.
          guard_res (co_RemovalTime cs = None) ErrPlain (
          guard_res (co_PauseExpirationTime cs \<noteq> None) ErrPlain (Ok ())))
      | CONSUMER_PHASE_DELETED \<Rightarrow>
          guard_res (co_InitParams cs \<noteq> None) ErrPlain (
          guard_res (co_Metadata cs \<noteq> None) ErrPlain (
          guard_res (co_ClientId cs = '''') ErrPlain (
          guard_res (co_RemovalTime cs = None) ErrPlain (Ok ()))))
      | CONSUMER_PHASE_UNSPECIFIED \<Rightarrow> Err ErrPlain)"

definition ConsumerState_Validate :: "'w keeper \<Rightarrow> 'v ckeeper \<Rightarrow> ConsumerState \<Rightarrow> unit result" where
  "ConsumerState_Validate k ck cs =
     (let paused = (co_Phase cs = CONSUMER_PHASE_PAUSED) in
      guard_res (if co_Phase cs = CONSUMER_PHASE_DELETED then co_ChainId cs = '''' else co_ChainId cs \<noteq> '''') ErrPlain (
      guard_res (co_OwnerAddress cs \<noteq> '''') ErrPlain (
      guard_res (AccAddressFromBech32 k (co_OwnerAddress cs) \<noteq> None) ErrPlain (
      guard_res (list_all (\<lambda>p. ValsetUpdateId p \<noteq> 0) (co_PendingValsetChanges cs)) ErrPlain (
      bind_res (validate_phase ck cs) (\<lambda>_.
      guard_res (\<not> (paused \<and> co_PauseReason cs = PAUSE_REASON_UNSPECIFIED)) ErrPlain (
      guard_res (\<not> (\<not> paused \<and> co_PauseReason cs \<noteq> PAUSE_REASON_UNSPECIFIED)) ErrPlain (
      guard_res (\<not> (paused \<and> co_PausedAt cs = None)) ErrPlain (
      guard_res (\<not> (\<not> paused \<and> co_PausedAt cs \<noteq> None)) ErrPlain (Ok ()))))))))))"

definition KeyAssignmentValidateBasic ::
    "sdk_checks \<Rightarrow> ((consumer_id \<times> addr) \<times> pubkey) list \<Rightarrow> ((consumer_id \<times> addr) \<times> addr) list
       \<Rightarrow> ((consumer_id \<times> time) \<times> addr list) list \<Rightarrow> unit result" where
  "KeyAssignmentValidateBasic x assignedKeys byConsumerAddrs consumerAddrsToPrune =
     guard_res (list_all (\<lambda>e. VerifyAddressFormat x (snd (fst e))) assignedKeys) ErrInvalidGenesis (
     guard_res (list_all (\<lambda>e. VerifyAddressFormat x (snd e) \<and> VerifyAddressFormat x (snd (fst e))) byConsumerAddrs)
       ErrInvalidGenesis (
     guard_res (list_all (\<lambda>e. list_all (VerifyAddressFormat x) (snd e)) consumerAddrsToPrune) ErrInvalidGenesis (Ok ())))"

definition validate_override :: "'w keeper \<Rightarrow> consumer_id list \<Rightarrow> int \<Rightarrow> consumer_id \<times> string \<Rightarrow> unit \<Rightarrow> unit result" where
  "validate_override k known floor ov _ =
     bind_res (of_option ErrPlain (IntFromString k (snd ov))) (\<lambda>amt.
     guard_res (fst ov \<in> set known) ErrPlain (
     guard_res (amt > floor) ErrPlain (Ok ())))"

definition validateConsumerFeePoolShares ::
    "'w keeper \<Rightarrow> sdk_checks \<Rightarrow> ConsumerFeePoolShare list \<Rightarrow> consumer_id list \<Rightarrow> unit result" where
  "validateConsumerFeePoolShares k x shares known =
     check_each (\<lambda>s. guard_res (AccAddressFromBech32 k (fps_Depositor s) \<noteq> None) ErrPlain (
                    guard_res (ValidateDenom x (fps_Denom s)) ErrPlain (
                    guard_res (0 < fps_Shares s) ErrPlain (
                    guard_res (fps_ConsumerId s \<in> set known) ErrPlain (Ok ())))))
       (\<lambda>s. (fps_ConsumerId s, fps_Depositor s, fps_Denom s)) shares"

text \<open>
  The windows of one validator on one consumer, sorted by their start: each begins after the one
  before has ended. The order in which the pairs are visited does not matter to the result.
\<close>

definition apart :: "('x \<Rightarrow> int) \<Rightarrow> ('x \<Rightarrow> int) \<Rightarrow> 'x list \<Rightarrow> bool" where
  "apart start end_of xs =
     (let ws = sort_key start xs in list_all (\<lambda>i. \<not> start (ws ! i) \<le> end_of (ws ! (i - 1))) [1..<length ws])"

definition pairs_apart :: "('x \<Rightarrow> 'k) \<Rightarrow> ('x \<Rightarrow> int) \<Rightarrow> ('x \<Rightarrow> int) \<Rightarrow> 'x list \<Rightarrow> bool" where
  "pairs_apart pair start end_of xs =
     list_all (\<lambda>pk. apart start end_of (filter (\<lambda>x. pair x = pk) xs)) (remdups (map pair xs))"

definition pds_end :: "PendingDowntimeSlash \<Rightarrow> int" where
  "pds_end p = pds_WindowStartHeight p + pds_Span p - 1"

definition validatePendingDowntimeSlashes :: "PendingDowntimeSlash list \<Rightarrow> consumer_id list \<Rightarrow> unit result" where
  "validatePendingDowntimeSlashes slashes known =
     bind_res (check_each (\<lambda>p. guard_res (pds_ProviderConsAddr p \<noteq> []) ErrPlain (
                    guard_res (pds_ConsumerConsAddr p \<noteq> []) ErrPlain (
                    guard_res (\<not> SlashTokens p < 0) ErrPlain (
                    guard_res (\<not> pds_Span p \<le> 0) ErrPlain (
                    guard_res (int (length (pds_MissedBlocksBitmap p)) = quo (pds_Span p + 7) 8) ErrPlain (
                    guard_res (pds_ConsumerId p \<in> set known) ErrPlain (Ok ())))))))
       (\<lambda>p. (pds_ConsumerId p, pds_ProviderConsAddr p, pds_end p)) slashes) (\<lambda>_.
     guard_res (pairs_apart (\<lambda>p. (pds_ConsumerId p, pds_ProviderConsAddr p)) pds_WindowStartHeight pds_end slashes)
       ErrPlain (Ok ()))"

definition validatePendingDowntimeSlashesAgainstAcceptedWindows ::
    "PendingDowntimeSlash list \<Rightarrow> AcceptedDowntimeWindowRecord list \<Rightarrow> unit result" where
  "validatePendingDowntimeSlashesAgainstAcceptedWindows slashes accepted =
     (let startByEntry = fold (\<lambda>a m. m((adw_ConsumerId a, adw_ProviderConsAddr a, adw_WindowEndHeight a)
                            \<mapsto> adw_WindowStartHeight a)) accepted Map.empty
      in fold_res (\<lambda>p _. bind_res (of_option ErrPlain
             (startByEntry (pds_ConsumerId p, pds_ProviderConsAddr p, pds_end p))) (\<lambda>start.
           guard_res (start = pds_WindowStartHeight p) ErrPlain (Ok ()))) slashes ())"

definition validateWithheldFeeRecords :: "sdk_checks \<Rightarrow> WithheldFeeRecord list \<Rightarrow> consumer_id list \<Rightarrow> unit result" where
  "validateWithheldFeeRecords x records known =
     check_each (\<lambda>r. guard_res (wfr_ProviderConsAddr r \<noteq> []) ErrPlain (
                    guard_res (CoinValidate x (wfr_Amount r)) ErrPlain (
                    guard_res (ExpiresAt r \<noteq> zero_time) ErrPlain (
                    guard_res (wfr_ConsumerId r \<in> set known) ErrPlain (Ok ())))))
       (\<lambda>r. (wfr_ConsumerId r, wfr_ProviderConsAddr r)) records"

definition validateAcceptedDowntimeWindows ::
    "AcceptedDowntimeWindowRecord list \<Rightarrow> ((consumer_id \<times> addr) \<times> int) list \<Rightarrow> consumer_id list \<Rightarrow> unit result" where
  "validateAcceptedDowntimeWindows es floors known =
     (let floorByPair = fold (\<lambda>f m. m(fst f \<mapsto> snd f)) floors Map.empty in
      bind_res (check_each (\<lambda>e. guard_res (adw_ProviderConsAddr e \<noteq> []) ErrPlain (
                    guard_res (adw_ConsumerId e \<in> set known) ErrPlain (
                    guard_res (\<not> adw_WindowStartHeight e > adw_WindowEndHeight e) ErrPlain (
                    guard_res (adw_AcceptedAt e \<noteq> zero_time) ErrPlain (
                    guard_res (case floorByPair (adw_ConsumerId e, adw_ProviderConsAddr e) of
                                 None \<Rightarrow> True | Some floor \<Rightarrow> \<not> adw_WindowStartHeight e \<le> floor) ErrPlain (Ok ()))))))
        (\<lambda>e. (adw_ConsumerId e, adw_ProviderConsAddr e, adw_WindowEndHeight e)) es) (\<lambda>_.
      guard_res (pairs_apart (\<lambda>e. (adw_ConsumerId e, adw_ProviderConsAddr e))
                   adw_WindowStartHeight adw_WindowEndHeight es) ErrPlain (Ok ())))"

definition validateDowntimeWindowFloors :: "((consumer_id \<times> addr) \<times> int) list \<Rightarrow> consumer_id list \<Rightarrow> unit result" where
  "validateDowntimeWindowFloors floors known =
     check_each (\<lambda>f. guard_res (snd (fst f) \<noteq> []) ErrPlain (
                    guard_res (fst (fst f) \<in> set known) ErrPlain (Ok ()))) fst floors"

definition validatePunishedEquivocations :: "(string \<times> addr \<times> int) list \<Rightarrow> unit result" where
  "validatePunishedEquivocations es =
     check_each (\<lambda>e. guard_res (\<not> blank (fst e)) ErrPlain (
                    guard_res (fst (snd e) \<noteq> []) ErrPlain (
                    guard_res (\<not> snd (snd e) \<le> 0) ErrPlain (Ok ())))) (\<lambda>e. e) es"

definition validateEpochDowntimeEntries :: "(consumer_id \<times> addr) list \<Rightarrow> consumer_id list \<Rightarrow> unit result" where
  "validateEpochDowntimeEntries es known =
     check_each (\<lambda>e. guard_res (snd e \<noteq> []) ErrPlain (
                    guard_res (fst e \<in> set known) ErrPlain (Ok ()))) (\<lambda>e. e) es"

definition validate_consumer :: "'w keeper \<Rightarrow> 'v ckeeper \<Rightarrow> ConsumerState \<Rightarrow> consumer_id list \<Rightarrow> consumer_id list result" where
  "validate_consumer k ck cs seen =
     guard_res (co_ConsumerId cs \<notin> set seen) ErrInvalidGenesis (
     bind_res (as_error ErrInvalidGenesis (ConsumerState_Validate k ck cs)) (\<lambda>_.
     Ok (co_ConsumerId cs # seen)))"

definition ProviderGenesisState_Validate ::
    "'w keeper \<Rightarrow> 'v ckeeper \<Rightarrow> sdk_checks \<Rightarrow> ProviderGenesisState \<Rightarrow> unit result" where
  "ProviderGenesisState_Validate k ck x gs =
     guard_res (pg_ValsetUpdateId gs \<noteq> 0) ErrInvalidGenesis (
     bind_res (fold_res (validate_consumer k ck) (pg_ConsumerStates gs) []) (\<lambda>known.
     bind_res (Params_Validate k (pg_Params gs)) (\<lambda>_.
     bind_res (KeyAssignmentValidateBasic x (pg_ValidatorConsumerPubkeys gs) (pg_ValidatorsByConsumerAddr gs)
                 (pg_ConsumerAddrsToPrune gs)) (\<lambda>_.
     bind_res (fold_res (validate_override k known (FeesPerBlockAmount (pg_Params gs)))
                 (pg_ConsumerFeesPerBlockOverrides gs) ()) (\<lambda>_.
     bind_res (as_error ErrInvalidGenesis (validateConsumerFeePoolShares k x (pg_ConsumerFeePoolShares gs) known)) (\<lambda>_.
     bind_res (as_error ErrInvalidGenesis (validatePendingDowntimeSlashes (pg_PendingDowntimeSlashes gs) known)) (\<lambda>_.
     bind_res (as_error ErrInvalidGenesis (validatePendingDowntimeSlashesAgainstAcceptedWindows
                 (pg_PendingDowntimeSlashes gs) (pg_AcceptedDowntimeWindows gs))) (\<lambda>_.
     guard_res (list_all (\<lambda>r. \<not> snd r < 0) (pg_EpochShareRecords gs)) ErrInvalidGenesis (
     bind_res (as_error ErrInvalidGenesis (validateWithheldFeeRecords x (pg_WithheldFeeRecords gs) known)) (\<lambda>_.
     bind_res (as_error ErrInvalidGenesis (validateAcceptedDowntimeWindows
                 (pg_AcceptedDowntimeWindows gs) (pg_DowntimeWindowFloors gs) known)) (\<lambda>_.
     bind_res (as_error ErrInvalidGenesis (validateDowntimeWindowFloors (pg_DowntimeWindowFloors gs) known)) (\<lambda>_.
     bind_res (as_error ErrInvalidGenesis (validatePunishedEquivocations (pg_PunishedEquivocations gs))) (\<lambda>_.
     bind_res (as_error ErrInvalidGenesis (validateEpochDowntimeEntries (pg_EpochDowntimeEntries gs) known)) (\<lambda>_.
     case pg_InfractionParameters gs of
       None \<Rightarrow> Ok ()
     | Some ip \<Rightarrow>
         bind_res (as_error ErrInvalidGenesis (InfractionParameters_Validate ip)) (\<lambda>_.
         as_error ErrInvalidGenesis (ValidateInfractionParamsAgainst k ip (TrustingPeriodFraction (pg_Params gs))))))))))))))))))"

subsection \<open>What a passed check says\<close>

lemma check_each_Ok_iff [res_simps]:
  "check_each check key xs = Ok () \<longleftrightarrow> (\<forall>x \<in> set xs. check x = Ok ()) \<and> distinct (map key xs)"
proof -
  have "(\<exists>r. fold_res (\<lambda>x seen. bind_res (check x) (\<lambda>_. guard_res (key x \<notin> set seen) ErrPlain (Ok (key x # seen)))) xs seen = Ok r) \<longleftrightarrow>
      (\<forall>x \<in> set xs. check x = Ok ()) \<and> distinct (map key xs) \<and> key ` set xs \<inter> set seen = {}" for seen
  proof (induction xs arbitrary: seen)
    case (Cons x xs)
    show ?case
    proof (cases "check x = Ok () \<and> key x \<notin> set seen")
      case True
      then show ?thesis using Cons[of "key x # seen"] by auto
    qed (auto simp: res_simps)
  qed simp
  from this[of "[]"] show ?thesis by (auto simp: check_each_def res_simps)
qed

lemma apart_disjoint:
  assumes "apart start end_of xs" "\<forall>x \<in> set xs. start x \<le> end_of x" "x \<in> set xs" "y \<in> set xs" "x \<noteq> y"
  shows "end_of x < start y \<or> end_of y < start x"
proof -
  define ws where "ws = sort_key start xs"
  have step: "end_of (ws ! i) < start (ws ! Suc i)" if "Suc i < length ws" for i
    using assms(1) that by (auto simp: apart_def Let_def ws_def[symmetric] list_all_iff dest: bspec[of _ _ "Suc i"])
  have le: "start (ws ! i) \<le> end_of (ws ! i)" if "i < length ws" for i
    using assms(2) that nth_mem[of i ws] by (simp add: ws_def)
  have later: "end_of (ws ! i) < start (ws ! (i + Suc n))" if "i + Suc n < length ws" for i n
    using that
  proof (induction n)
    case (Suc n)
    then show ?case using step[of "i + Suc n"] le[of "i + Suc n"] by simp
  qed (use step in simp)
  obtain i j where ij: "i < length ws" "j < length ws" "ws ! i = x" "ws ! j = y"
    using assms(3,4) by (metis in_set_conv_nth set_sort ws_def)
  then have "i \<noteq> j" using assms(5) by blast
  then show ?thesis using later[of i "j - Suc i"] later[of j "i - Suc j"] ij by (cases "i < j") auto
qed

lemma pairs_apart_disjoint:
  assumes "pairs_apart pair start end_of xs" "\<forall>x \<in> set xs. start x \<le> end_of x"
    "x \<in> set xs" "y \<in> set xs" "pair x = pair y" "x \<noteq> y"
  shows "end_of x < start y \<or> end_of y < start x"
  using assms apart_disjoint[of start end_of "filter (\<lambda>z. pair z = pair x) xs" x y]
  by (auto simp: pairs_apart_def list_all_iff)

text \<open>The check of the consumers stops with an error at the first one that is not valid.\<close>

lemma validate_consumers:
  "fold_res (validate_consumer k ck) css seen = Ok known \<Longrightarrow> cs \<in> set css \<Longrightarrow> ConsumerState_Validate k ck cs = Ok ()"
  by (induction css arbitrary: seen) (auto simp: validate_consumer_def res_simps)

lemma ConsumerState_Validate_no_panic: "ConsumerState_Validate k ck cs \<noteq> Panic"
  by (auto simp: ConsumerState_Validate_def validate_phase_def validate_live_def ConsumerGenesisState_Validate_def
      ConsumerParams_Validate_def ValidateDuration_def ValidatePositiveInt64_def Let_def res_simps split: ConsumerPhase.splits)

lemma validate_consumers_no_panic: "fold_res (validate_consumer k ck) css seen \<noteq> Panic"
proof (induction css arbitrary: seen)
  case (Cons cs css)
  have "as_error ErrInvalidGenesis (ConsumerState_Validate k ck cs) \<noteq> Panic"
    using ConsumerState_Validate_no_panic[of k ck cs] by (cases "ConsumerState_Validate k ck cs") (simp_all add: as_error_def)
  then show ?case using Cons by (auto simp: validate_consumer_def res_simps)
qed simp

lemma export_rejected:
  assumes "c < ConsumerId s" "ConsumerState_Validate k ck (export_consumer s c) \<noteq> Ok ()"
  shows "\<exists>e. ProviderGenesisState_Validate k ck x (Provider_ExportGenesis A I s) = Err e"
proof -
  let ?r = "fold_res (validate_consumer k ck) (exported_consumers s) []"
  have "export_consumer s c \<in> set (exported_consumers s)" using assms(1) all_ids(2)[of c s] by simp
  then have "?r \<noteq> Ok known" for known using validate_consumers[of k ck "exported_consumers s"] assms(2) by blast
  then obtain e where "?r = Err e" using validate_consumers_no_panic[of k ck "exported_consumers s" "[]"] by (cases ?r) auto
  then show ?thesis
    by (simp add: ProviderGenesisState_Validate_def Provider_ExportGenesis_def NewProviderGenesisState_def
        exportFeePoolShares_def Let_def guard_res_def)
qed

subsection \<open>Running states whose export is not valid\<close>

text \<open>
  C14. \<^verbatim>\<open>Validate\<close> rejects states that a running provider reaches. \<^verbatim>\<open>CreateConsumer\<close> stores initialization
  parameters for every consumer, and a failed launch keeps them, but a registered consumer must have
  none; the owner may declare the client before the launch, but an initialized consumer must have
  none; and nothing ties the launch to the client, but a launched consumer must have one. In any of
  these states the file that \<^verbatim>\<open>ExportGenesis\<close> writes fails the validation, with an error.
\<close>

theorem running_state_fails_validation:
  assumes "provider_reachable k v s" "unbonding_known k"
    "GetConsumerPhase s c = CONSUMER_PHASE_REGISTERED \<or>
     GetConsumerPhase s c = CONSUMER_PHASE_INITIALIZED \<and> string_or_empty (GetConsumerClientId s c) \<noteq> '''' \<or>
     GetConsumerPhase s c \<in> {CONSUMER_PHASE_LAUNCHED, CONSUMER_PHASE_PAUSED, CONSUMER_PHASE_STOPPED} \<and>
       GetConsumerClientId s c = None"
  shows "\<exists>e. ProviderGenesisState_Validate k ck x (Provider_ExportGenesis A I s) = Err e"
proof (rule export_rejected)
  have ok: "life_ok s" using reachable_life_ok[OF assms(1,2)] .
  show "c < ConsumerId s" using ok assms(3) unfolding life_ok_def by (metis ConsumerPhase.distinct(1,3,5,7,11) insertE not_le singletonD)
  have "GetConsumerPhase s c = CONSUMER_PHASE_REGISTERED \<Longrightarrow> GetConsumerInitializationParameters s c \<noteq> None"
    using ok by (auto simp: life_ok_def view_ok_def lview_def keeper_simps)
  then show "ConsumerState_Validate k ck (export_consumer s c) \<noteq> Ok ()"
    using assms(3)
    by (auto simp: ConsumerState_Validate_def validate_phase_def validate_live_def export_consumer_def string_or_empty_def
        Let_def res_simps)
qed

text \<open>A chain registered with the default parameters, which leave the spawn time open.\<close>

definition ex_default_params :: ConsumerInitializationParameters where
  "ex_default_params = DefaultConsumerInitializationParameters ex_life_keeper"

definition ex_waiting :: "unit pstate" where
  "ex_waiting = (let s7 = value_or ex_registered (initialize_and_prepare 0 zero_time
       (value_or ex_registered (SetConsumerInitializationParameters ex_life_keeper 0 ex_default_params ex_registered)))
     in s7\<lparr>FeePoolAddressToConsumerId := store_set (GetConsumerFeePoolAddress ex_life_keeper 0) 0 (FeePoolAddressToConsumerId s7)\<rparr>)"

lemma ex_waiting_step:
  "CreateConsumer ex_life_keeper (ex_life_ctx 100) (ex_create\<lparr>cc_InitializationParameters := Some ex_default_params\<rparr>) ex_life_start =
     Ok (0, ex_waiting)"
proof -
  have free: "ValidateConsumerChainIdFree (ex_life_ctx 100) ''shop-1'' (SetConsumerOwnerAddress 0 ''owner'' (ex_life_start\<lparr>ConsumerId := 1\<rparr>)) = Ok ()"
    by code_simp
  have valid: "validateConsumerInitParams ex_life_keeper ex_default_params ex_registered = Ok ()" by code_simp
  have set: "SetConsumerInitializationParameters ex_life_keeper 0 ex_default_params ex_registered =
      Ok (value_or ex_registered (SetConsumerInitializationParameters ex_life_keeper 0 ex_default_params ex_registered))"
    by (rule value_or_Ok) code_simp
  have prep: "initialize_and_prepare 0 zero_time
        (value_or ex_registered (SetConsumerInitializationParameters ex_life_keeper 0 ex_default_params ex_registered)) =
      Ok (value_or ex_registered (initialize_and_prepare 0 zero_time
        (value_or ex_registered (SetConsumerInitializationParameters ex_life_keeper 0 ex_default_params ex_registered))))"
    by (rule value_or_Ok) code_simp
  have c: "ConsumerId ex_life_start = 0" by (simp add: ex_life_start_def blank_pstate_def)
  show ?thesis unfolding ex_waiting_def Let_def
    by (rule CreateConsumer_OkI[OF _ refl _ _ _ valid set prep]) (simp_all add: free[simplified] ex_registered_def ex_create_def c)
qed

theorem running_state_fails_validation_witness:
  "GetConsumerPhase ex_waiting 0 = CONSUMER_PHASE_REGISTERED \<and>
   (\<exists>e. ProviderGenesisState_Validate ex_life_keeper ex_ckeeper
      \<lparr>ValidateDenom = (\<lambda>_. True), VerifyAddressFormat = (\<lambda>_. True), CoinValidate = (\<lambda>_. True)\<rparr>
      (Provider_ExportGenesis ex_print_addr ex_print_int ex_waiting) = Err e)"
proof -
  have "GetConsumerPhase ex_waiting 0 = CONSUMER_PHASE_REGISTERED" by code_simp
  moreover have "provider_reachable ex_life_keeper blank_verifier ex_waiting"
    using provider_step.create[OF ex_waiting_step] by (rule step[OF ex_life_reachable(2)])
  ultimately show ?thesis
    using running_state_fails_validation[OF _ ex_life_reachable(1), of blank_verifier ex_waiting 0] by blast
qed

subsection \<open>Importing a validated file\<close>

text \<open>
  What \<^verbatim>\<open>Validate\<close> leaves to \<^verbatim>\<open>InitGenesis\<close>: heights of the revision of their chain id, one consumer per
  client, one spelling per depositor, withheld fees in the fee denom, default infraction parameters
  that fit the trusting period; and of the other modules, that the bank reports positive balances
  and staking its bonded validators.
\<close>

definition startable :: "'w keeper \<Rightarrow> 'w \<Rightarrow> ProviderGenesisState \<Rightarrow> bool" where
  "startable k w gs \<longleftrightarrow>
     (\<forall>cs \<in> set (pg_ConsumerStates gs). init_params_fit k cs) \<and>
     (\<forall>cs \<in> set (pg_ConsumerStates gs). \<forall>cs' \<in> set (pg_ConsumerStates gs).
        co_ClientId cs \<noteq> '''' \<longrightarrow> co_ClientId cs = co_ClientId cs' \<longrightarrow> co_ConsumerId cs = co_ConsumerId cs') \<and>
     inj_on (AccAddressFromBech32 k) (fps_Depositor ` set (pg_ConsumerFeePoolShares gs)) \<and>
     (\<forall>r \<in> set (pg_WithheldFeeRecords gs). Denom (wfr_Amount r) = feeDenom k) \<and>
     (pg_InfractionParameters gs = None \<longrightarrow>
        ValidateInfractionParamsAgainst k DefaultInfractionParameters (TrustingPeriodFraction (pg_Params gs)) = Ok ()) \<and>
     (\<forall>a. \<forall>coin \<in> set (GetAllBalances k w a). 0 < Amount coin) \<and>
     (case GetBondedValidatorsByPower k w of None \<Rightarrow> False
      | Some vals \<Rightarrow> \<forall>v \<in> set vals. \<exists>cv. CreateProviderConsensusValidator k (blank_pstate w) v = Ok cv)"

text \<open>The collections that the passes over the consumers and the keys leave alone.\<close>

definition pristine :: "'w \<Rightarrow> 'w pstate \<Rightarrow> bool" where
  "pristine w s \<longleftrightarrow> world s = w \<and> ConsumerFeePoolShares s = empty_store \<and> ConsumerFeePoolTotalShares s = empty_store \<and>
     PendingDowntimeSlashes s = empty_store \<and> AcceptedDowntimeWindows s = empty_store \<and> DowntimeWindowFloors s = empty_store"

lemma pristine_passes:
  assumes "pristine w s"
  shows "pristine w (imported css s)" "pristine w (derived css s)" "pristine w (s\<lparr>ConsumerId := n\<rparr>)"
    "pristine w (fold (import_override k) ovs s)"
    "pristine w (fold (\<lambda>item. SetValidatorConsumerPubKey (fst (fst item)) (snd (fst item)) (snd item)) ks s)"
    "pristine w (fold (\<lambda>item. SetValidatorByConsumerAddr (fst (fst item)) (snd (fst item)) (snd item)) as s)"
    "pristine w (fold import_to_prune items s)"
proof -
  show "pristine w (imported css s)" "pristine w (derived css s)" "pristine w (s\<lparr>ConsumerId := n\<rparr>)"
    using assms by (simp_all add: pristine_def imported_def derived_def)
  show "pristine w (fold (import_override k) ovs s)"
    by (rule fold_invariant[where P = "pristine w", OF assms]) (simp add: pristine_def import_override_def)
  show "pristine w (fold import_to_prune items s)"
  proof (rule fold_invariant[where P = "pristine w", OF assms])
    fix item u assume "pristine w u"
    then show "pristine w (import_to_prune item u)"
      unfolding import_to_prune_def by (rule fold_invariant) (simp add: pristine_def AppendConsumerAddrsToPrune_def)
  qed
qed (use assms in \<open>simp_all add: import_pubkeys import_by_addr pristine_def\<close>)

text \<open>The shares: what is stored, and that the totals are its sums.\<close>

definition share_entry :: "'w keeper \<Rightarrow> ConsumerFeePoolShare \<Rightarrow> (consumer_id \<times> denom \<times> addr) \<times> int" where
  "share_entry k sh =
     ((fps_ConsumerId sh, fps_Denom sh, the (AccAddressFromBech32 k (fps_Depositor sh))), fps_Shares sh)"

lemma import_valid_shares:
  assumes "\<forall>sh \<in> set shs. AccAddressFromBech32 k (fps_Depositor sh) \<noteq> None"
  shows "fold_res (import_share k) shs (m, s) =
    Ok (fold (\<lambda>e. add_total (pool_of (fst e)) (snd e)) (map (share_entry k) shs) m,
        s\<lparr>ConsumerFeePoolShares := put_all (map (share_entry k) shs) (ConsumerFeePoolShares s)\<rparr>)"
  using assms by (induction shs arbitrary: m s) (auto simp: import_share_def share_entry_def pool_of_def)

lemma get_put_all:
  assumes "distinct (map fst es)"
  shows "store_get (put_all es m) key = (case map_of es key of None \<Rightarrow> store_get m key | Some v \<Rightarrow> Some v)"
  using assms kv.get_fold_put[of es m key] by (simp add: put_all_def case_prod_beta')

lemma range_sum_put_all:
  assumes "distinct (map fst es)" "\<forall>e \<in> set es. store_get m (fst e) = None"
  shows "range_sum f P (put_all es m) = range_sum f P m + sum_list (map (\<lambda>e. f (snd e)) (filter (\<lambda>e. P (fst e)) es))"
  using assms
proof (induction es arbitrary: m)
  case (Cons e es)
  have "\<forall>e' \<in> set es. store_get (store_set (fst e) (snd e) m) (fst e') = None" using Cons.prems by (auto simp: image_iff)
  then show ?case using Cons.IH[of "store_set (fst e) (snd e) m"] Cons.prems by (simp add: range_sum_set)
qed simp

lemma ledger_of_entries:
  assumes "distinct (map fst es)" "\<forall>e \<in> set es. 0 < snd e" "ConsumerFeePoolShares s = put_all es empty_store"
    "ConsumerFeePoolTotalShares s = recomputed_totals es"
  shows "ledger_ok s"
proof -
  have totals: "store_get (ConsumerFeePoolTotalShares s) (c, d) =
      (let xs = filter (\<lambda>e. in_pool c d (fst e)) es in if xs = [] then None else Some (sum_list (map snd xs)))" for c d
    by (simp add: assms(4) recomputed_totals_def get_totals Let_def)
  have "shares_sum s c d = total_of s c d" for c d
    by (simp add: shares_sum_def total_of_def assms(3) range_sum_put_all[OF assms(1)] totals Let_def)
  moreover have "0 < x" if "store_get (ConsumerFeePoolShares s) key = Some x" for key x
    using that assms(2) by (auto simp: assms(3) get_put_all[OF assms(1)] split: option.splits dest!: map_of_SomeD)
  moreover have "0 < t" if "store_get (ConsumerFeePoolTotalShares s) key = Some t" for key t
  proof -
    obtain c d where key: "key = (c, d)" by fastforce
    define xs where "xs = filter (\<lambda>e. in_pool c d (fst e)) es"
    have "xs \<noteq> []" "t = sum_list (map snd xs)" using that totals[of c d] by (auto simp: key xs_def Let_def split: if_splits)
    moreover have "\<forall>e \<in> set xs. 0 < snd e" using assms(2) by (simp add: xs_def)
    ultimately show ?thesis using sum_list_positive[of "map snd xs"] by simp
  qed
  ultimately show ?thesis by (simp add: ledger_ok_def)
qed

text \<open>The balances no share accounts for.\<close>

lemma absorb_frame:
  "world (absorbUnaccountedBalance k c d b s) = world s"
  "PendingDowntimeSlashes (absorbUnaccountedBalance k c d b s) = PendingDowntimeSlashes s"
  "AcceptedDowntimeWindows (absorbUnaccountedBalance k c d b s) = AcceptedDowntimeWindows s"
  "DowntimeWindowFloors (absorbUnaccountedBalance k c d b s) = DowntimeWindowFloors s"
  by (simp_all add: absorbUnaccountedBalance_def Let_def clearAllShares_eq)

lemma import_pools_kept:
  assumes "ledger_ok s" "\<forall>a. \<forall>coin \<in> set (GetAllBalances k (world s) a). 0 < Amount coin"
  shows "ledger_ok (fold (import_pool k totals) es s) \<and> world (fold (import_pool k totals) es s) = world s \<and>
    PendingDowntimeSlashes (fold (import_pool k totals) es s) = PendingDowntimeSlashes s \<and>
    AcceptedDowntimeWindows (fold (import_pool k totals) es s) = AcceptedDowntimeWindows s \<and>
    DowntimeWindowFloors (fold (import_pool k totals) es s) = DowntimeWindowFloors s" (is "?P (fold _ _ _)")
proof -
  have absorbed: "?P (fold (\<lambda>coin u. if store_has totals (c, Denom coin) then u
      else absorbUnaccountedBalance k c (Denom coin) (Amount coin) u) coins u)" if "?P u" "\<forall>coin \<in> set coins. 0 < Amount coin" for c coins u
    by (rule fold_invariant[where P = ?P, OF that(1)])
      (use that(2) in \<open>auto intro: ledger_ok_absorb(1) simp: absorb_frame\<close>)
  have "?P (import_pool k totals e u)" if "?P u" for e u
  proof -
    define u1 where "u1 = u\<lparr>FeePoolAddressToConsumerId :=
      store_set (GetConsumerFeePoolAddress k (fst e)) (fst e) (FeePoolAddressToConsumerId u)\<rparr>"
    have "?P u1" using that ledger_ok_cong[of u1 u] by (simp add: u1_def)
    then show ?thesis
      using that absorbed[of u1 "GetAllBalances k (world u1) (GetConsumerFeePoolAddress k (fst e))" "fst e"] assms(2)
      by (simp add: import_pool_def Let_def u1_def)
  qed
  then show ?thesis using fold_invariant[where P = ?P and s = s and xs = es and f = "import_pool k totals"] assms(1) by blast
qed

text \<open>The downtime records.\<close>

lemma get_fold_upd:
  "store_get (fold (\<lambda>e. store_set (fst e) (snd e)) es m) = fold (\<lambda>e g. g(fst e \<mapsto> snd e)) es (store_get m)"
proof (induction es arbitrary: m)
  case (Cons e es)
  have "store_get (store_set (fst e) (snd e) m) = (store_get m)(fst e \<mapsto> snd e)" by (simp add: fun_eq_iff)
  then show ?case using Cons[of "store_set (fst e) (snd e) m"] by simp
qed simp

definition window_entry :: "AcceptedDowntimeWindowRecord \<Rightarrow> (consumer_id \<times> addr \<times> int) \<times> AcceptedDowntimeWindow" where
  "window_entry e = ((adw_ConsumerId e, adw_ProviderConsAddr e, adw_WindowEndHeight e),
     \<lparr>WindowStart = adw_WindowStartHeight e, AcceptedAt = adw_AcceptedAt e\<rparr>)"

lemma imported_windows_ok:
  assumes "validateAcceptedDowntimeWindows es floors known = Ok ()"
    "AcceptedDowntimeWindows t = put_all (map window_entry es) empty_store"
    "DowntimeWindowFloors t = put_all floors empty_store"
  shows "windows_ok t"
proof -
  let ?pair = "\<lambda>e. (adw_ConsumerId e, adw_ProviderConsAddr e)"
  define fl where "fl = fold (\<lambda>f g. g(fst f \<mapsto> snd f)) floors Map.empty"
  have "store_get empty_store = (Map.empty :: consumer_id \<times> addr \<Rightarrow> int option)" by (simp add: fun_eq_iff)
  then have fl: "store_get (DowntimeWindowFloors t) = fl"
    by (simp add: assms(3) put_all_def get_fold_upd fl_def)
  have checks: "\<forall>e \<in> set es. adw_WindowStartHeight e \<le> adw_WindowEndHeight e \<and>
      (\<forall>f. fl (?pair e) = Some f \<longrightarrow> f < adw_WindowStartHeight e)"
    and keys: "distinct (map (\<lambda>e. (adw_ConsumerId e, adw_ProviderConsAddr e, adw_WindowEndHeight e)) es)"
    and disj: "pairs_apart ?pair adw_WindowStartHeight adw_WindowEndHeight es"
    using assms(1) by (auto simp: validateAcceptedDowntimeWindows_def fl_def[symmetric] Let_def res_simps not_less not_le split: option.splits)
  have "distinct (map fst (map window_entry es))" using keys by (simp add: window_entry_def comp_def)
  then have get: "\<exists>e \<in> set es. adw_ConsumerId e = c \<and> adw_ProviderConsAddr e = p \<and> adw_WindowEndHeight e = en \<and>
      adw_WindowStartHeight e = WindowStart r"
    if "store_get (AcceptedDowntimeWindows t) (c, p, en) = Some r" for c p en r
    using that by (auto simp: assms(2) get_put_all window_entry_def split: option.splits dest!: map_of_SomeD)
  show ?thesis unfolding windows_ok_def
  proof (intro allI impI conjI)
    fix c p en r assume r: "store_get (AcceptedDowntimeWindows t) (c, p, en) = Some r"
    obtain e where e: "e \<in> set es" "adw_ConsumerId e = c" "adw_ProviderConsAddr e = p" "adw_WindowEndHeight e = en"
      "adw_WindowStartHeight e = WindowStart r" using get[OF r] by blast
    show "WindowStart r \<le> en" using checks e by auto
    show "f < WindowStart r" if "store_get (DowntimeWindowFloors t) (c, p) = Some f" for f
      using checks e that by (auto simp: fl)
    show "en' < WindowStart r" if r': "store_get (AcceptedDowntimeWindows t) (c, p, en') = Some r'" and lt: "en' < en" for en' r'
    proof -
      obtain e' where e': "e' \<in> set es" "adw_ConsumerId e' = c" "adw_ProviderConsAddr e' = p" "adw_WindowEndHeight e' = en'"
        using get[OF r'] by blast
      then have "e' \<noteq> e" using e lt by auto
      then have "adw_WindowEndHeight e' < adw_WindowStartHeight e \<or> adw_WindowEndHeight e < adw_WindowStartHeight e'"
        using pairs_apart_disjoint[OF disj _ e'(1) e(1)] checks e e' by auto
      then show ?thesis using checks e e' lt by force
    qed
  qed
qed

text \<open>Every slash that awaits the end of its challenge window stands for an accepted window.\<close>

definition slashes_backed :: "'w pstate \<Rightarrow> bool" where
  "slashes_backed s \<longleftrightarrow>
     (\<forall>key p. store_get (PendingDowntimeSlashes s) key = Some p \<longrightarrow>
        map_option WindowStart (store_get (AcceptedDowntimeWindows s) key) = Some (pds_WindowStartHeight p))"

lemma imported_slashes_backed:
  assumes "validatePendingDowntimeSlashesAgainstAcceptedWindows ps es = Ok ()"
    "AcceptedDowntimeWindows t = put_all (map window_entry es) empty_store"
    "PendingDowntimeSlashes t = put_all (map (\<lambda>p. ((pds_ConsumerId p, pds_ProviderConsAddr p, pds_end p), p)) ps) empty_store"
  shows "slashes_backed t"
proof -
  define starts where "starts = fold (\<lambda>a g. g((adw_ConsumerId a, adw_ProviderConsAddr a, adw_WindowEndHeight a)
    \<mapsto> adw_WindowStartHeight a)) es Map.empty"
  have "map_option WindowStart (store_get (put_all (map window_entry es) m) key) =
      fold (\<lambda>a g. g((adw_ConsumerId a, adw_ProviderConsAddr a, adw_WindowEndHeight a) \<mapsto> adw_WindowStartHeight a)) es
        (\<lambda>key. map_option WindowStart (store_get m key)) key" for m key
  proof (induction es arbitrary: m)
    case (Cons e es)
    have "(\<lambda>key. map_option WindowStart (store_get (store_set (fst (window_entry e)) (snd (window_entry e)) m) key)) =
        (\<lambda>key. map_option WindowStart (store_get m key))
          ((adw_ConsumerId e, adw_ProviderConsAddr e, adw_WindowEndHeight e) \<mapsto> adw_WindowStartHeight e)"
      by (auto simp: fun_eq_iff window_entry_def)
    then show ?case using Cons[of "store_set (fst (window_entry e)) (snd (window_entry e)) m"]
      by (simp only: list.map put_all_simps fold.simps comp_apply)
  qed simp
  then have starts: "map_option WindowStart (store_get (AcceptedDowntimeWindows t) key) = starts key" for key
    by (simp add: assms(2) starts_def)
  have "fold_res (\<lambda>p _. bind_res (of_option ErrPlain (starts (pds_ConsumerId p, pds_ProviderConsAddr p, pds_end p))) (\<lambda>start.
      guard_res (start = pds_WindowStartHeight p) ErrPlain (Ok ()))) ps () = Ok ()"
    using assms(1) by (simp add: validatePendingDowntimeSlashesAgainstAcceptedWindows_def starts_def Let_def)
  then have all: "\<forall>p \<in> set ps. starts (pds_ConsumerId p, pds_ProviderConsAddr p, pds_end p) = Some (pds_WindowStartHeight p)"
    by (induction ps) (auto simp: res_simps)
  have "\<forall>key p. store_get (PendingDowntimeSlashes t) key = Some p \<longrightarrow>
      p \<in> set ps \<and> key = (pds_ConsumerId p, pds_ProviderConsAddr p, pds_end p)"
    unfolding assms(3) put_all_def by (rule fold_invariant) (auto split: if_splits)
  then show ?thesis using all unfolding slashes_backed_def starts by blast
qed

text \<open>What the validation of a file says of its lists.\<close>

lemma validated_consumers:
  assumes "fold_res (validate_consumer k ck) css seen = Ok known"
  shows "distinct (map co_ConsumerId css)"
proof -
  have "distinct (map co_ConsumerId css) \<and> co_ConsumerId ` set css \<inter> set seen = {}"
    using assms
  proof (induction css arbitrary: seen)
    case (Cons cs css)
    from Cons.prems have "co_ConsumerId cs \<notin> set seen" "fold_res (validate_consumer k ck) css (co_ConsumerId cs # seen) = Ok known"
      by (auto simp: validate_consumer_def[of k ck cs] res_simps)
    then show ?case using Cons.IH[of "co_ConsumerId cs # seen"] by auto
  qed simp
  then show ?thesis by simp
qed

lemma validated_file:
  assumes "ProviderGenesisState_Validate k ck x gs = Ok ()"
  obtains known where "fold_res (validate_consumer k ck) (pg_ConsumerStates gs) [] = Ok known"
    "validateConsumerFeePoolShares k x (pg_ConsumerFeePoolShares gs) known = Ok ()"
    "validatePendingDowntimeSlashesAgainstAcceptedWindows (pg_PendingDowntimeSlashes gs) (pg_AcceptedDowntimeWindows gs) = Ok ()"
    "validateAcceptedDowntimeWindows (pg_AcceptedDowntimeWindows gs) (pg_DowntimeWindowFloors gs) known = Ok ()"
    "\<And>ip. pg_InfractionParameters gs = Some ip \<Longrightarrow> InfractionParameters_Validate ip = Ok () \<and>
       ValidateInfractionParamsAgainst k ip (TrustingPeriodFraction (pg_Params gs)) = Ok ()"
proof -
  obtain known where f: "fold_res (validate_consumer k ck) (pg_ConsumerStates gs) [] = Ok known"
    "validateConsumerFeePoolShares k x (pg_ConsumerFeePoolShares gs) known = Ok ()"
    "validatePendingDowntimeSlashesAgainstAcceptedWindows (pg_PendingDowntimeSlashes gs) (pg_AcceptedDowntimeWindows gs) = Ok ()"
    "validateAcceptedDowntimeWindows (pg_AcceptedDowntimeWindows gs) (pg_DowntimeWindowFloors gs) known = Ok ()"
    and ip: "(case pg_InfractionParameters gs of None \<Rightarrow> Ok ()
      | Some ip \<Rightarrow> bind_res (as_error ErrInvalidGenesis (InfractionParameters_Validate ip)) (\<lambda>_.
          as_error ErrInvalidGenesis (ValidateInfractionParamsAgainst k ip (TrustingPeriodFraction (pg_Params gs))))) = Ok ()"
    using assms unfolding ProviderGenesisState_Validate_def by (auto simp: res_simps)
  show thesis by (rule that[OF f]) (use ip in \<open>simp add: res_simps\<close>)
qed

lemma validated_shares:
  assumes "validateConsumerFeePoolShares k x shs known = Ok ()" "inj_on (AccAddressFromBech32 k) (fps_Depositor ` set shs)"
  shows "\<forall>sh \<in> set shs. AccAddressFromBech32 k (fps_Depositor sh) \<noteq> None"
    "distinct (map fst (map (share_entry k) shs))" "\<forall>e \<in> set (map (share_entry k) shs). 0 < snd e"
proof -
  show parse: "\<forall>sh \<in> set shs. AccAddressFromBech32 k (fps_Depositor sh) \<noteq> None"
    and pos: "\<forall>e \<in> set (map (share_entry k) shs). 0 < snd e"
    using assms(1) by (auto simp: validateConsumerFeePoolShares_def res_simps share_entry_def)
  have dist: "distinct (map (\<lambda>s. (fps_ConsumerId s, fps_Depositor s, fps_Denom s)) shs)"
    using assms(1) by (simp add: validateConsumerFeePoolShares_def res_simps)
  have "inj_on (fst \<circ> share_entry k) (set shs)"
  proof (rule inj_onI)
    fix a b assume ab: "a \<in> set shs" "b \<in> set shs" "(fst \<circ> share_entry k) a = (fst \<circ> share_entry k) b"
    then have "AccAddressFromBech32 k (fps_Depositor a) = AccAddressFromBech32 k (fps_Depositor b)"
      using parse by (auto simp: share_entry_def) (metis option.sel)
    then have "fps_Depositor a = fps_Depositor b" using assms(2) ab(1,2) by (auto dest: inj_onD)
    then show "a = b" using ab dist by (auto simp: share_entry_def distinct_map dest: inj_onD)
  qed
  then show "distinct (map fst (map (share_entry k) shs))" using dist by (simp add: distinct_map)
qed

lemma genesis_params_Ok:
  assumes "\<And>ip. pg_InfractionParameters gs = Some ip \<Longrightarrow> InfractionParameters_Validate ip = Ok () \<and>
       ValidateInfractionParamsAgainst k ip (TrustingPeriodFraction (pg_Params gs)) = Ok ()"
    "pg_InfractionParameters gs = None \<longrightarrow>
       ValidateInfractionParamsAgainst k DefaultInfractionParameters (TrustingPeriodFraction (pg_Params gs)) = Ok ()"
  obtains ip where "set_genesis_params k gs s = Ok (s\<lparr>Params := pg_Params gs, InfractionParams := ip\<rparr>)"
proof (cases "pg_InfractionParameters gs")
  case None
  moreover have "InfractionParameters_Validate DefaultInfractionParameters = Ok ()" by code_simp
  ultimately show ?thesis using assms(2) that by (simp add: set_genesis_params_def)
qed (use assms(1) that in \<open>simp add: set_genesis_params_def\<close>)

lemma import_withheld_Ok:
  assumes "\<forall>r \<in> set rs. Denom (wfr_Amount r) = feeDenom k"
  shows "\<exists>m. fold_res (import_withheld k) rs s = Ok (s\<lparr>WithheldFeeRecords := m\<rparr>)"
  using assms
proof (induction rs arbitrary: s)
  case (Cons r rs)
  then obtain m where "fold_res (import_withheld k) rs (s\<lparr>WithheldFeeRecords :=
      store_set (wfr_ConsumerId r, wfr_ProviderConsAddr r) r (WithheldFeeRecords s)\<rparr>) =
    Ok (s\<lparr>WithheldFeeRecords := store_set (wfr_ConsumerId r, wfr_ProviderConsAddr r) r (WithheldFeeRecords s)\<rparr>\<lparr>WithheldFeeRecords := m\<rparr>)"
    by fastforce
  then show ?case using Cons.prems by (auto simp: import_withheld_def[of k r])
next
  case Nil
  show ?case by (rule exI[of _ "WithheldFeeRecords s"]) simp
qed

definition import_keys :: "'w keeper \<Rightarrow> ProviderGenesisState \<Rightarrow> 'w pstate \<Rightarrow> 'w pstate" where
  "import_keys k gs s2 =
     (let css = pg_ConsumerStates gs
      in fold import_to_prune (pg_ConsumerAddrsToPrune gs)
      (fold (\<lambda>item. SetValidatorByConsumerAddr (fst (fst item)) (snd (fst item)) (snd item)) (pg_ValidatorsByConsumerAddr gs)
        (fold (\<lambda>item. SetValidatorConsumerPubKey (fst (fst item)) (snd (fst item)) (snd item)) (pg_ValidatorConsumerPubkeys gs)
          (fold (import_override k) (pg_ConsumerFeesPerBlockOverrides gs)
            (if css \<noteq> [] then s2\<lparr>ConsumerId := max_consumer_id css + 1\<rparr> else s2)))))"

lemma pristine_import_keys: "pristine w s2 \<Longrightarrow> pristine w (import_keys k gs s2)"
  unfolding import_keys_def Let_def by (intro pristine_passes(4-7)) (auto intro: pristine_passes(3))

text \<open>The first half of the import: the consumers, their keys and the fee pools.\<close>

lemma validated_pools:
  assumes v: "fold_res (validate_consumer k ck) (pg_ConsumerStates gs) [] = Ok known"
    "validateConsumerFeePoolShares k x (pg_ConsumerFeePoolShares gs) known = Ok ()" and st: "startable k w gs"
  obtains totals s1 s9 where "fold_res (import_consumer k) (pg_ConsumerStates gs)
      ((blank_pstate w)\<lparr>ValidatorSetUpdateId := pg_ValsetUpdateId gs\<rparr>) = Ok s1"
    "fold_res (import_share k) (pg_ConsumerFeePoolShares gs) (empty_store, import_keys k gs (fold derive_consumer (pg_ConsumerStates gs) s1)) =
       Ok (totals, s9)"
    "pristine w (s9\<lparr>ConsumerFeePoolShares := empty_store\<rparr>)"
    "ledger_ok (s9\<lparr>ConsumerFeePoolTotalShares := totals\<rparr>)"
proof -
  define b where "b = (blank_pstate w)\<lparr>ValidatorSetUpdateId := pg_ValsetUpdateId gs\<rparr>"
  define css es where "css = pg_ConsumerStates gs" and "es = map (share_entry k) (pg_ConsumerFeePoolShares gs)"
  define s7 where "s7 = import_keys k gs (derived css (imported css b))"
  have consumers: "fold_res (import_consumer k) css b = Ok (imported css b)"
  proof (rule import_consumers_Ok)
    show "distinct (map co_ConsumerId css)" unfolding css_def by (rule validated_consumers[OF v(1)])
    show "\<forall>cs \<in> set css. co_ClientId cs \<noteq> '''' \<longrightarrow> (\<forall>d. store_get (ConsumerClients b) d \<noteq> Some (co_ClientId cs))"
      by (simp add: b_def blank_pstate_def)
  qed (use st in \<open>unfold css_def startable_def, blast+\<close>)
  have "pristine w b" by (simp add: pristine_def b_def blank_pstate_def)
  then have s7: "pristine w s7" unfolding s7_def by (intro pristine_import_keys pristine_passes(1,2))
  have inj: "inj_on (AccAddressFromBech32 k) (fps_Depositor ` set (pg_ConsumerFeePoolShares gs))"
    using st by (simp add: startable_def)
  note shs = validated_shares[OF v(2) inj, folded es_def]
  have shares: "fold_res (import_share k) (pg_ConsumerFeePoolShares gs) (empty_store, s7) =
      Ok (recomputed_totals es, s7\<lparr>ConsumerFeePoolShares := put_all es empty_store\<rparr>)"
    using import_valid_shares[OF shs(1), of empty_store s7] s7 by (simp add: es_def recomputed_totals_def pristine_def)
  have "ledger_ok (s7\<lparr>ConsumerFeePoolShares := put_all es empty_store, ConsumerFeePoolTotalShares := recomputed_totals es\<rparr>)"
    by (rule ledger_of_entries[OF shs(2,3)]) simp_all
  then show thesis
    using that[OF consumers[unfolded css_def b_def], of "recomputed_totals es"] shares s7
    by (simp add: derive_consumers css_def b_def s7_def pristine_def)
qed

lemma validated_import:
  assumes "ProviderGenesisState_Validate k ck x gs = Ok ()" "startable k w gs"
  obtains us t where "Provider_InitGenesis k gs (blank_pstate w) = Ok (us, t)" "ledger_ok t"
    "AcceptedDowntimeWindows t = put_all (map window_entry (pg_AcceptedDowntimeWindows gs)) empty_store"
    "DowntimeWindowFloors t = put_all (pg_DowntimeWindowFloors gs) empty_store"
    "PendingDowntimeSlashes t = put_all (map (\<lambda>p. ((pds_ConsumerId p, pds_ProviderConsAddr p, pds_end p), p))
       (pg_PendingDowntimeSlashes gs)) empty_store"
proof -
  obtain known where v: "fold_res (validate_consumer k ck) (pg_ConsumerStates gs) [] = Ok known"
    "validateConsumerFeePoolShares k x (pg_ConsumerFeePoolShares gs) known = Ok ()"
    and ips: "\<And>ip. pg_InfractionParameters gs = Some ip \<Longrightarrow> InfractionParameters_Validate ip = Ok () \<and>
       ValidateInfractionParamsAgainst k ip (TrustingPeriodFraction (pg_Params gs)) = Ok ()"
    using validated_file[OF assms(1)] by metis
  note st = assms(2)[unfolded startable_def]
  obtain totals s1 s8 where consumers: "fold_res (import_consumer k) (pg_ConsumerStates gs)
      ((blank_pstate w)\<lparr>ValidatorSetUpdateId := pg_ValsetUpdateId gs\<rparr>) = Ok s1"
    and shares: "fold_res (import_share k) (pg_ConsumerFeePoolShares gs)
      (empty_store, import_keys k gs (fold derive_consumer (pg_ConsumerStates gs) s1)) = Ok (totals, s8)"
    and s8: "pristine w (s8\<lparr>ConsumerFeePoolShares := empty_store\<rparr>)" "ledger_ok (s8\<lparr>ConsumerFeePoolTotalShares := totals\<rparr>)"
    by (rule validated_pools[OF v assms(2)])
  define s9 where "s9 = s8\<lparr>ConsumerFeePoolTotalShares := totals\<rparr>"
  have s9: "fold (\<lambda>e. store_set (fst e) (snd e)) (entries totals) (ConsumerFeePoolTotalShares s8) = totals"
    using s8(1) by (simp add: pristine_def rebuild_store)
  define s10 where "s10 = fold (import_pool k totals) (entries (phase_of s9)) s9"
  have s10: "ledger_ok s10" "world s10 = w" "PendingDowntimeSlashes s10 = empty_store" "AcceptedDowntimeWindows s10 = empty_store"
    "DowntimeWindowFloors s10 = empty_store"
    using import_pools_kept[OF s8(2), of k totals "entries (phase_of s9)"] st s8(1) by (auto simp: s10_def s9_def pristine_def)
  obtain ip where params: "set_genesis_params k gs s10 = Ok (s10\<lparr>Params := pg_Params gs, InfractionParams := ip\<rparr>)"
    using genesis_params_Ok[of gs k s10] ips st by metis
  define s11 where "s11 = import_downtime gs (s10\<lparr>Params := pg_Params gs, InfractionParams := ip\<rparr>)"
  obtain m where withheld: "fold_res (import_withheld k) (pg_WithheldFeeRecords gs) s11 = Ok (s11\<lparr>WithheldFeeRecords := m\<rparr>)"
    using import_withheld_Ok[of "pg_WithheldFeeRecords gs" k s11] st by blast
  define t where "t = import_windows gs (s11\<lparr>WithheldFeeRecords := m\<rparr>)"
  obtain vals where "GetBondedValidatorsByPower k w = Some vals"
    "\<forall>v \<in> set vals. \<exists>cv. CreateProviderConsensusValidator k (blank_pstate w) v = Ok cv"
    using st by (auto split: option.splits)
  moreover have "world t = w" using s10 by (simp add: t_def import_windows_def s11_def import_downtime_def)
  ultimately obtain us y where last: "InitGenesisValUpdates k t = Ok (us, t\<lparr>LastProviderConsensusVals := y\<rparr>)"
    using genesis_val_updates[of k "blank_pstate w" vals t] by (auto simp: blank_pstate_def)
  have "Provider_InitGenesis k gs (blank_pstate w) = Ok (us, t\<lparr>LastProviderConsensusVals := y\<rparr>)"
    using shares params withheld last
    by (simp add: Provider_InitGenesis_def consumers import_keys_def Let_def s9 s10_def s9_def s11_def t_def)
  moreover have "ledger_ok (t\<lparr>LastProviderConsensusVals := y\<rparr>)"
    using s10(1) ledger_ok_cong[of "t\<lparr>LastProviderConsensusVals := y\<rparr>" s10]
    by (simp add: t_def import_windows_def s11_def import_downtime_def)
  ultimately show thesis
    by (rule that)
      (simp_all add: t_def import_windows_def s11_def import_downtime_def s10 put_all_def fold_map comp_def window_entry_def pds_end_def)
qed

text \<open>
  C13. A file that passes \<^verbatim>\<open>Validate\<close> can be imported: apart from what the validation leaves unchecked (heights
  of another revision, a client shared by two consumers, two spellings of one depositor, an escrow
  in another denom, default infraction parameters that do not fit) \<^verbatim>\<open>InitGenesis\<close> does not panic, and
  the state it builds satisfies the invariants of the running module: accepted downtime windows are
  disjoint and above the pruned floor, every pending slash stands for an accepted window, and the
  shares of every fee pool add up to its total, also after unaccounted balances were absorbed.
\<close>

theorem validated_genesis_starts:
  assumes "ProviderGenesisState_Validate k ck x gs = Ok ()" "startable k w gs"
  shows "\<exists>us t. Provider_InitGenesis k gs (blank_pstate w) = Ok (us, t) \<and> windows_ok t \<and> slashes_backed t \<and> ledger_ok t"
proof -
  obtain known where v: "validatePendingDowntimeSlashesAgainstAcceptedWindows (pg_PendingDowntimeSlashes gs) (pg_AcceptedDowntimeWindows gs) = Ok ()"
    "validateAcceptedDowntimeWindows (pg_AcceptedDowntimeWindows gs) (pg_DowntimeWindowFloors gs) known = Ok ()"
    using validated_file[OF assms(1)] by metis
  show ?thesis
    by (rule validated_import[OF assms]) (use imported_windows_ok[OF v(2)] imported_slashes_backed[OF v(1)] in blast)
qed

text \<open>A file with an initialized chain, one depositor and one accusation that awaits its challenge.\<close>

definition ex_checks :: sdk_checks where
  "ex_checks = \<lparr>ValidateDenom = (\<lambda>d. d \<noteq> []), VerifyAddressFormat = (\<lambda>a. a \<noteq> []), CoinValidate = (\<lambda>c. 0 \<le> Amount c)\<rparr>"

definition ex_file_keeper :: "unit keeper" where
  "ex_file_keeper = ex_restart_keeper\<lparr>MaxTimeoutDelta := 24 * 3600 * 10 ^ 9\<rparr>"

definition ex_file :: ProviderGenesisState where
  "ex_file = (NewProviderGenesisState 1
       [\<lparr>co_ConsumerId = 0, co_ChainId = ''shop-1'', co_Phase = CONSUMER_PHASE_INITIALIZED, co_OwnerAddress = ''owner'',
         co_Metadata = None, co_InitParams = Some ex_init_params, co_ClientId = '''', co_ConsumerGenesis = None,
         co_RemovalTime = None, co_PauseExpirationTime = None, co_PauseReason = PAUSE_REASON_UNSPECIFIED,
         co_PausedAt = None, co_LastAckTime = None, co_HighestSentVscId = 0, co_HighestAckedVscId = 0,
         co_InDebt = False, co_PendingValsetChanges = []\<rparr>]
       DefaultParams [] [] [] [] [\<lparr>fps_ConsumerId = 0, fps_Depositor = ''alice'', fps_Denom = ''uphoton'', fps_Shares = 5\<rparr>])
     \<lparr>pg_PendingDowntimeSlashes := [\<lparr>pds_ConsumerId = 0, pds_ProviderConsAddr = [1], pds_ConsumerConsAddr = [2],
         pds_WindowStartHeight = 10, pds_Span = 4, pds_MissedCount = 3, pds_MissedBlocksBitmap = [7], SlashTokens = 1,
         MaturesAt = 50\<rparr>],
      pg_AcceptedDowntimeWindows := [\<lparr>adw_ConsumerId = 0, adw_ProviderConsAddr = [1], adw_WindowEndHeight = 13,
         adw_WindowStartHeight = 10, adw_AcceptedAt = 40\<rparr>],
      pg_DowntimeWindowFloors := [((0, [1]), 9)]\<rparr>"

lemma ex_file_valid: "ProviderGenesisState_Validate ex_file_keeper ex_ckeeper ex_checks ex_file = Ok ()"
  by code_simp

lemma ex_file_startable: "startable ex_file_keeper () ex_file"
proof -
  have "ValidateInfractionParamsAgainst ex_file_keeper DefaultInfractionParameters (TrustingPeriodFraction (pg_Params ex_file)) = Ok ()"
    by code_simp
  then show ?thesis
    by (auto simp: startable_def ex_file_def NewProviderGenesisState_def init_params_fit_def ex_file_keeper_def ex_running_simps
        DefaultConsumerInitializationParameters_def)
qed

theorem validated_genesis_starts_witness:
  "ProviderGenesisState_Validate ex_file_keeper ex_ckeeper ex_checks ex_file = Ok () \<and>
   (\<exists>us t. Provider_InitGenesis ex_file_keeper ex_file (blank_pstate ()) = Ok (us, t) \<and>
      windows_ok t \<and> slashes_backed t \<and> ledger_ok t)"
  using validated_genesis_starts[OF ex_file_valid ex_file_startable] ex_file_valid by blast

end
