(* ===== verification/Ante.thy ===== *)
theory Ante
  imports ConsumerModule
begin

text \<open>
  The admission of transactions: the decorators of \<^verbatim>\<open>x/vaas/consumer/ante\<close> (message filter,
  disabled modules, photon fees, fee checker) and the provider's guard against rotating onto a
  consumer key (\<^verbatim>\<open>x/vaas/provider/ante\<close>). A decorator that calls the next one is \<open>Ok ()\<close>.
\<close>

subsection \<open>Transactions\<close>

text \<open>
  A message is an authz execution of inner messages (\<open>None\<close> when they do not decode), a rotation
  of a validator's consensus key (with the key it declares, if it decodes), or any other message,
  known by its type URL.
\<close>

datatype Msg =
    MsgExec "Msg list option"
  | MsgRotateConsPubKey "pubkey option"
  | OtherMsg string

fun MsgTypeURL :: "Msg \<Rightarrow> string" where
  "MsgTypeURL (MsgExec _) = ''/cosmos.authz.v1beta1.MsgExec''"
| "MsgTypeURL (MsgRotateConsPubKey _) = ''/cosmos.staking.v1beta1.MsgRotateConsPubKey''"
| "MsgTypeURL (OtherMsg url) = url"

text \<open>\<open>tx_Fee\<close> is \<open>None\<close> for a transaction that is no \<^verbatim>\<open>sdk.FeeTx\<close>.\<close>

record Tx =
  tx_Msgs :: "Msg list"
  tx_Fee :: "(Coin list \<times> 64 word) option"

fun HasPrefix :: "string \<Rightarrow> string \<Rightarrow> bool" where
  "HasPrefix s [] \<longleftrightarrow> True"
| "HasPrefix [] (p # ps) \<longleftrightarrow> False"
| "HasPrefix (c # s) (p # ps) \<longleftrightarrow> c = p \<and> HasPrefix s ps"

subsection \<open>Disabled modules\<close>

definition hasDisabledModuleMsgs :: "string list \<Rightarrow> Msg \<Rightarrow> bool" where
  "hasDisabledModuleMsgs prefixes msg \<longleftrightarrow> list_ex (HasPrefix (MsgTypeURL msg)) prefixes"

fun nestedAuthzMsgExecCheck :: "string list \<Rightarrow> Msg \<Rightarrow> bool" where
  "nestedAuthzMsgExecCheck prefixes (MsgExec (Some sdkMsgs)) \<longleftrightarrow>
     list_ex (\<lambda>msg. hasDisabledModuleMsgs prefixes msg \<or> nestedAuthzMsgExecCheck prefixes msg) sdkMsgs"
| "nestedAuthzMsgExecCheck prefixes (MsgExec None) \<longleftrightarrow> False"
| "nestedAuthzMsgExecCheck prefixes (MsgRotateConsPubKey pk) \<longleftrightarrow> False"
| "nestedAuthzMsgExecCheck prefixes (OtherMsg url) \<longleftrightarrow> False"

definition DisabledModules_AnteHandle :: "string list \<Rightarrow> Tx \<Rightarrow> unit result" where
  "DisabledModules_AnteHandle prefixes tx =
     guard_res (\<not> list_ex (\<lambda>msg. hasDisabledModuleMsgs prefixes msg \<or> nestedAuthzMsgExecCheck prefixes msg)
                  (tx_Msgs tx)) ErrPlain (Ok ())"

subsection \<open>The message filter\<close>

definition MsgSetProviderClient_URL :: string where
  "MsgSetProviderClient_URL = ''/vaas.consumer.v1.MsgSetProviderClient''"

definition isAllowedBootstrapTx :: "Msg list \<Rightarrow> bool" where
  "isAllowedBootstrapTx msgs \<longleftrightarrow>
     list_all (\<lambda>msg. let msgType = MsgTypeURL msg in
       HasPrefix msgType ''/ibc.'' \<or> HasPrefix msgType ''/cosmos.gov.'' \<or> msgType = MsgSetProviderClient_URL) msgs"

definition isAllowedRestrictedTx :: "Msg list \<Rightarrow> bool" where
  "isAllowedRestrictedTx msgs \<longleftrightarrow>
     list_all (\<lambda>msg. let url = MsgTypeURL msg in
       \<not> (\<not> HasPrefix url ''/ibc.core.'' \<and> \<not> HasPrefix url ''/cosmos.gov.'')) msgs"

definition MsgFilter_AnteHandle :: "('a sdk_ctx_scheme) \<Rightarrow> 'w cstate \<Rightarrow> Tx \<Rightarrow> unit result" where
  "MsgFilter_AnteHandle ctx s tx =
     (case ProviderClientID s of
        None \<Rightarrow> guard_res (isAllowedBootstrapTx (tx_Msgs tx)) ErrPlain (Ok ())
      | Some _ \<Rightarrow>
          if IsConsumerInDebt_c s \<or> IsVSCStale ctx s
          then guard_res (isAllowedRestrictedTx (tx_Msgs tx)) ErrConsumerInDebt (Ok ())
          else Ok ())"

subsection \<open>Fees\<close>

definition MsgSendPacket_URL :: string where
  "MsgSendPacket_URL = ''/ibc.core.channel.v2.MsgSendPacket''"

definition isInfrastructureTx :: "Msg list \<Rightarrow> bool" where
  "isInfrastructureTx msgs \<longleftrightarrow>
     msgs \<noteq> [] \<and>
     list_all (\<lambda>msg. let url = MsgTypeURL msg in
       url \<noteq> MsgSendPacket_URL \<and> (HasPrefix url ''/ibc.core.'' \<or> HasPrefix url ''/cosmos.gov.'')) msgs"

text \<open>\<open>IBCDenom\<close> is ibc-go's voucher name of a denom path (a hash).\<close>

definition ExpectedPhotonDenom :: "(string \<Rightarrow> string) \<Rightarrow> string \<Rightarrow> denom" where
  "ExpectedPhotonDenom IBCDenom providerClientID =
     IBCDenom (''transfer/'' @ providerClientID @ ''/uphoton'')"

definition Coins_IsZero :: "Coin list \<Rightarrow> bool" where
  "Coins_IsZero coins \<longleftrightarrow> list_all (\<lambda>c. Amount c = 0) coins"

definition PhotonFee_AnteHandle ::
    "(string \<Rightarrow> string) \<Rightarrow> 'w ckeeper \<Rightarrow> bool \<Rightarrow> 'w cstate \<Rightarrow> Tx \<Rightarrow> unit result" where
  "PhotonFee_AnteHandle IBCDenom k simulate s tx =
     (case tx_Fee tx of
        None \<Rightarrow> Ok ()
      | Some (fee, _) \<Rightarrow>
          if \<not> cp_PhotonFeesEnabled (CParams s) then Ok ()
          else if isInfrastructureTx (tx_Msgs tx) then Ok ()
          else case ProviderClientID s of
            None \<Rightarrow> Ok ()
          | Some providerClientID \<Rightarrow>
              if \<not> HasRoutableProviderClient k s then Ok ()
              else
                guard_res (\<not> (Coins_IsZero fee \<and> \<not> simulate)) ErrInvalidFeeDenom (
                guard_res (list_all (\<lambda>c. Denom c = ExpectedPhotonDenom IBCDenom providerClientID) fee)
                  ErrInvalidFeeDenom (Ok ())))"

text \<open>
  \<^verbatim>\<open>Coins.IsAnyGTE\<close>: some coin covers a nonzero required amount of its denom. A required fee is the
  gas price times the gas, rounded up; the price is a decimal, the gas the \<^verbatim>\<open>int64\<close> the wallet's
  \<^verbatim>\<open>uint64\<close> reads as, and a negative coin panics.
\<close>

definition AmountOf :: "denom \<Rightarrow> Coin list \<Rightarrow> int" where
  "AmountOf d coins = (case find (\<lambda>c. Denom c = d) coins of None \<Rightarrow> 0 | Some c \<Rightarrow> Amount c)"

definition IsAnyGTE :: "Coin list \<Rightarrow> Coin list \<Rightarrow> bool" where
  "IsAnyGTE coins required \<longleftrightarrow>
     list_ex (\<lambda>c. let amt = AmountOf (Denom c) required in Amount c \<ge> amt \<and> amt \<noteq> 0) coins"

definition requiredFees :: "(denom \<times> dec) list \<Rightarrow> int \<Rightarrow> Coin list result" where
  "requiredFees minGasPrices gas =
     fold_res (\<lambda>gp acc. let amt = dec_ceil (snd gp * gas) in
         if amt < 0 then Panic else Ok (acc @ [\<lparr>Denom = fst gp, Amount = amt\<rparr>]))
       minGasPrices []"

definition txPriority :: "Coin list \<Rightarrow> int \<Rightarrow> int" where
  "txPriority fee gas =
     (if gas = 0 then 0
      else fold (\<lambda>c priority.
          let gasPrice = quo (Amount c) gas;
              p = (if - (2 ^ 63) \<le> gasPrice \<and> gasPrice < 2 ^ 63 then gasPrice else 2 ^ 63 - 1)
          in if priority = 0 \<or> p < priority then p else priority) fee 0)"

definition InfrastructureExemptTxFeeChecker ::
    "bool \<Rightarrow> (denom \<times> dec) list \<Rightarrow> Tx \<Rightarrow> (Coin list \<times> int) result" where
  "InfrastructureExemptTxFeeChecker isCheckTx minGasPrices tx =
     bind_res (of_option ErrTxDecode (tx_Fee tx)) (\<lambda>(feeCoins, gas).
     bind_res
       (if isCheckTx \<and> \<not> isInfrastructureTx (tx_Msgs tx) \<and> \<not> list_all (\<lambda>gp. snd gp = 0) minGasPrices
        then bind_res (requiredFees minGasPrices (sint gas)) (\<lambda>required.
             guard_res (IsAnyGTE feeCoins required) ErrInsufficientFee (Ok ()))
        else Ok ()) (\<lambda>_.
     Ok (feeCoins, txPriority feeCoins (sint gas))))"

subsection \<open>The provider's guard\<close>

definition checkRotation :: "'w verifier \<Rightarrow> 'w pstate \<Rightarrow> pubkey option \<Rightarrow> unit result" where
  "checkRotation v s newPubkey =
     (case newPubkey of
        None \<Rightarrow> Ok ()
      | Some pubKey \<Rightarrow>
          guard_res (\<not> IsConsumerConsAddrInUse s (PubKeyAddress v pubKey)) ErrConsumerKeyInUse (Ok ()))"

lemma fold_res_cong [fundef_cong]:
  assumes "xs = ys" "s = t" "\<And>x u. x \<in> set ys \<Longrightarrow> f x u = g x u"
  shows "fold_res f xs s = fold_res g ys t"
proof -
  have "fold_res f ys t = fold_res g ys t"
    using assms(3) by (induction ys arbitrary: t) (auto intro!: arg_cong2[where f = bind_res])
  with assms(1,2) show ?thesis by simp
qed

fun checkMsg :: "'w verifier \<Rightarrow> 'w pstate \<Rightarrow> Msg \<Rightarrow> unit result" where
  "checkMsg v s (MsgRotateConsPubKey newPubkey) = checkRotation v s newPubkey"
| "checkMsg v s (MsgExec None) = Ok ()"
| "checkMsg v s (MsgExec (Some innerMsgs)) = fold_res (\<lambda>innerMsg _. checkMsg v s innerMsg) innerMsgs ()"
| "checkMsg v s (OtherMsg url) = Ok ()"

definition ConsPubKeyRotation_AnteHandle :: "'w verifier \<Rightarrow> 'w pstate \<Rightarrow> Tx \<Rightarrow> unit result" where
  "ConsPubKeyRotation_AnteHandle v s tx = fold_res (\<lambda>msg _. checkMsg v s msg) (tx_Msgs tx) ()"

subsection \<open>What the guards see\<close>

text \<open>A message with all the messages it executes, however deep they are nested.\<close>

fun carried :: "Msg \<Rightarrow> Msg list" where
  "carried (MsgExec (Some ms)) = MsgExec (Some ms) # concat (map carried ms)"
| "carried (MsgExec None) = [MsgExec None]"
| "carried (MsgRotateConsPubKey pk) = [MsgRotateConsPubKey pk]"
| "carried (OtherMsg url) = [OtherMsg url]"

definition executed :: "Tx \<Rightarrow> Msg set" where
  "executed tx = (\<Union>m \<in> set (tx_Msgs tx). set (carried m))"

lemma nested_check:
  "hasDisabledModuleMsgs prefixes m \<or> nestedAuthzMsgExecCheck prefixes m \<longleftrightarrow>
     (\<exists>x \<in> set (carried m). hasDisabledModuleMsgs prefixes x)"
  by (induction m rule: carried.induct) (auto simp: list_ex_iff)

lemma fold_res_unit_Ok: "fold_res (\<lambda>x _. f x) xs () = Ok () \<longleftrightarrow> (\<forall>x \<in> set xs. f x = Ok ())"
  by (induction xs) (auto simp: bind_res_Ok_iff)

lemma checkMsg_iff:
  "checkMsg v s m = Ok () \<longleftrightarrow>
     (\<forall>pk. MsgRotateConsPubKey (Some pk) \<in> set (carried m) \<longrightarrow> \<not> IsConsumerConsAddrInUse s (PubKeyAddress v pk))"
proof (induction m rule: carried.induct)
  case (1 ms)
  then show ?case by (auto simp: fold_res_unit_Ok)
next
  case (3 pk)
  then show ?case by (auto simp: checkRotation_def guard_res_Ok_iff split: option.split)
qed simp_all

lemma HasPrefix_append: "HasPrefix url (p @ q) \<Longrightarrow> HasPrefix url p"
proof (induction p arbitrary: url)
  case (Cons c p)
  then show ?case by (cases url) auto
qed simp

text \<open>
  C38. The disabled-modules decorator cannot be bypassed by wrapping: a transaction passes exactly
  when no message it would execute, at any depth of nested authz executions, is of a type with a
  disabled prefix.
\<close>

theorem disabled_modules_unreachable:
  "DisabledModules_AnteHandle prefixes tx = Ok () \<longleftrightarrow>
     \<not> (\<exists>m p. m \<in> executed tx \<and> p \<in> set prefixes \<and> HasPrefix (MsgTypeURL m) p)"
proof -
  have "DisabledModules_AnteHandle prefixes tx = Ok () \<longleftrightarrow>
      \<not> (\<exists>m \<in> set (tx_Msgs tx). \<exists>x \<in> set (carried m). hasDisabledModuleMsgs prefixes x)"
    by (simp add: DisabledModules_AnteHandle_def guard_res_Ok_iff list_ex_iff nested_check)
  then show ?thesis by (auto simp: executed_def hasDisabledModuleMsgs_def list_ex_iff)
qed

text \<open>
  C39. The provider admits a transaction past the rotation guard exactly when none of the consensus
  keys it would rotate a validator to, directly or inside nested authz executions, is in use as a
  consumer key.
\<close>

theorem rotation_guard_complete:
  "ConsPubKeyRotation_AnteHandle v s tx = Ok () \<longleftrightarrow>
     \<not> (\<exists>pk. MsgRotateConsPubKey (Some pk) \<in> executed tx \<and> IsConsumerConsAddrInUse s (PubKeyAddress v pk))"
  by (auto simp: ConsPubKeyRotation_AnteHandle_def fold_res_unit_Ok checkMsg_iff executed_def)

text \<open>
  C40. The way out of restricted mode stays open: a transaction of ibc-core messages other than packet
  sends, or of governance messages, is admitted by the message filter, by the photon-fee decorator
  and by the fee checker of the mempool in every state, before and after the provider's client is
  pinned, in debt, with a stale validator set, with any fee and any minimal gas prices.
\<close>

theorem recovery_transactions_admitted:
  assumes "isInfrastructureTx (tx_Msgs tx)" "tx_Fee tx = Some (fee, gas)"
  shows "MsgFilter_AnteHandle ctx s tx = Ok () \<and> PhotonFee_AnteHandle IBCDenom k simulate s tx = Ok () \<and>
    InfrastructureExemptTxFeeChecker check prices tx = Ok (fee, txPriority fee (sint gas))"
proof -
  have core: "HasPrefix url ''/ibc.core.'' \<Longrightarrow> HasPrefix url ''/ibc.''" for url
    using HasPrefix_append[of url "''/ibc.''" "''core.''"] by simp
  have "isAllowedBootstrapTx (tx_Msgs tx)" "isAllowedRestrictedTx (tx_Msgs tx)"
    using assms(1) core
    by (auto simp: isInfrastructureTx_def isAllowedBootstrapTx_def isAllowedRestrictedTx_def list_all_iff Let_def
        simp del: HasPrefix.simps)
  then show ?thesis using assms
    by (simp add: MsgFilter_AnteHandle_def PhotonFee_AnteHandle_def InfrastructureExemptTxFeeChecker_def
        split: option.split)
qed

theorem recovery_transactions_admitted_witness:
  "MsgFilter_AnteHandle ex_cctx (ex_cstate\<lparr>CInDebt := Some True\<rparr>)
     \<lparr>tx_Msgs = [OtherMsg ''/ibc.core.client.v1.MsgUpdateClient''], tx_Fee = Some ([], 7)\<rparr> = Ok ()"
  by (rule recovery_transactions_admitted[where fee = "[]" and gas = 7, THEN conjunct1])
    (simp_all add: isInfrastructureTx_def MsgSendPacket_URL_def)

text \<open>
  A coin of price zero does not hold the priority down: the loop takes a priority of zero as unset,
  so the next coin replaces it.
\<close>

lemma zero_price_is_overwritten:
  "txPriority [\<lparr>Denom = ''aaa'', Amount = 3\<rparr>, \<lparr>Denom = ''bbb'', Amount = 500\<rparr>] 5 = 100"
  by (simp add: txPriority_def quo_def)

end
