(* ===== verification/ConsumerSet.thy ===== *)
theory ConsumerSet
  imports ConsumerModule
begin

text \<open>
  The consumer's validator set as the consensus engine sees it: what a packet and a block's end do
  to the set the chain is heading for, whatever is still pending.
\<close>

subsection \<open>Keys\<close>

text \<open>
  What the code relies on of the key libraries: converting a key there and back gives it again, two
  keys never share an address, and a key that passes CometBFT's check converts.
\<close>

definition key_laws :: "'w ckeeper \<Rightarrow> bool" where
  "key_laws k \<longleftrightarrow>
     (\<forall>p q. FromCmtProtoPublicKey k p = Some q \<longrightarrow> ToCmtProtoPublicKey k q = Some p) \<and>
     (\<forall>p q p' q'. FromCmtProtoPublicKey k p = Some q \<longrightarrow> FromCmtProtoPublicKey k p' = Some q' \<longrightarrow>
        PubKeyAddr k q = PubKeyAddr k q' \<longrightarrow> p = p') \<and>
     (\<forall>p. PubKeyFromProto k p \<longrightarrow> FromCmtProtoPublicKey k p \<noteq> None)"

definition decodable :: "'w ckeeper \<Rightarrow> ValidatorUpdate list \<Rightarrow> bool" where
  "decodable k us \<longleftrightarrow> (\<forall>u \<in> set us. FromCmtProtoPublicKey k (PubKey u) \<noteq> None \<and> 0 \<le> Power u)"

definition stored_well :: "'w ckeeper \<Rightarrow> 'w cstate \<Rightarrow> bool" where
  "stored_well k s \<longleftrightarrow>
     (\<forall>a v. GetVaasValidator s a = Some v \<longrightarrow> vv_Address v = a \<and> 0 < vv_Power v \<and> PubKeyAddr k (vv_Pubkey v) = a \<and>
        (\<exists>p. FromCmtProtoPublicKey k p = Some (vv_Pubkey v)))"

definition pending_updates :: "'w cstate \<Rightarrow> ValidatorUpdate list" where
  "pending_updates s = (case PendingChanges s of None \<Rightarrow> [] | Some us \<Rightarrow> us)"

definition set_ok :: "'w ckeeper \<Rightarrow> 'w cstate \<Rightarrow> bool" where
  "set_ok k s \<longleftrightarrow> stored_well k s \<and> decodable k (pending_updates s)"

definition consumer_powers :: "'w ckeeper \<Rightarrow> 'w cstate \<Rightarrow> (pubkey \<rightharpoonup> int)" where
  "consumer_powers k s p =
     (case FromCmtProtoPublicKey k p of None \<Rightarrow> None
      | Some q \<Rightarrow> map_option vv_Power (GetVaasValidator s (PubKeyAddr k q)))"

text \<open>The set the chain runs on once its pending changes are flushed.\<close>

definition effective_set :: "'w ckeeper \<Rightarrow> 'w cstate \<Rightarrow> (pubkey \<rightharpoonup> int)" where
  "effective_set k s = apply_updates (pending_updates s) (consumer_powers k s)"

subsection \<open>Applying changes\<close>

lemma apply_change_effect:
  assumes "key_laws k" "stored_well k s" "FromCmtProtoPublicKey k (PubKey u) = Some q" "0 \<le> Power u"
    and run: "apply_change k u (ret, s) = Ok (ret', t)"
  shows "stored_well k t" "consumer_powers k t = apply_update u (consumer_powers k s)"
    "\<exists>x w. t = s\<lparr>VaasValidators := x, cworld := w\<rparr>"
proof -
  define a where "a = PubKeyAddr k q"
  have here: "PubKeyAddr k q' = a \<longleftrightarrow> p = PubKey u" if "FromCmtProtoPublicKey k p = Some q'" for p q'
    using assms(1,3) that unfolding key_laws_def a_def by (metis option.inject)
  define new where "new = (case GetVaasValidator s a of Some v \<Rightarrow> v\<lparr>vv_Power := Power u\<rparr> | None \<Rightarrow> NewVaasValidator a (Power u) q)"
  have new: "vv_Address new = a" "vv_Power new = Power u" "PubKeyAddr k (vv_Pubkey new) = a"
    "\<exists>p. FromCmtProtoPublicKey k p = Some (vv_Pubkey new)"
    using assms(2,3) by (auto simp: new_def stored_well_def NewVaasValidator_def a_def split: option.splits)
  have t: "\<exists>w. t = (if Power u = 0 then (case GetVaasValidator s a of Some _ \<Rightarrow> DeleteVaasValidator a s | None \<Rightarrow> s)
      else SetVaasValidator new s)\<lparr>cworld := w\<rparr>"
  proof (cases "GetVaasValidator s a")
    case None
    show ?thesis
    proof (cases "Power u = 0")
      case True
      with run assms(3) None have "t = s" by (simp add: apply_change_def Let_def a_def[symmetric])
      then show ?thesis using True None by (intro exI[of _ "cworld s"]) simp
    next
      case False
      with run assms(3,4) None obtain w where "t = SetVaasValidator (NewVaasValidator a (Power u) q) s\<lparr>cworld := w\<rparr>"
        by (auto simp: apply_change_def Let_def a_def[symmetric] split: option.splits)
      then show ?thesis using False None by (intro exI[of _ w]) (simp add: new_def)
    qed
  next
    case (Some v)
    with run assms(3,4) have "t = (if Power u = 0 then DeleteVaasValidator a s else SetVaasValidator new s)"
      by (simp add: apply_change_def Let_def a_def[symmetric] new_def split: if_splits)
    then show ?thesis using Some
      by (intro exI[of _ "cworld s"]) (simp add: DeleteVaasValidator_def SetVaasValidator_def)
  qed
  have get: "GetVaasValidator t b = (if b = a then if Power u = 0 then None else Some new else GetVaasValidator s b)" for b
    using t new(1) by (auto simp: GetVaasValidator_def DeleteVaasValidator_def SetVaasValidator_def split: option.splits)
  show "stored_well k t" using assms(2,4) new unfolding stored_well_def get by (auto split: if_splits)
  show "consumer_powers k t = apply_update u (consumer_powers k s)"
  proof (rule ext)
    fix p
    show "consumer_powers k t p = apply_update u (consumer_powers k s) p"
    proof (cases "FromCmtProtoPublicKey k p")
      case None
      then show ?thesis using assms(3) by (auto simp: consumer_powers_def apply_update_def)
    next
      case (Some q')
      then show ?thesis using here[OF Some] new(2) by (auto simp: consumer_powers_def apply_update_def get)
    qed
  qed
  show "\<exists>x w. t = s\<lparr>VaasValidators := x, cworld := w\<rparr>"
  proof -
    have "\<exists>x. (if Power u = 0 then (case GetVaasValidator s a of Some _ \<Rightarrow> DeleteVaasValidator a s | None \<Rightarrow> s)
      else SetVaasValidator new s) = s\<lparr>VaasValidators := x\<rparr>"
      by (auto simp: DeleteVaasValidator_def SetVaasValidator_def split: option.splits intro: exI[of _ "VaasValidators s"])
    then obtain x where x: "(if Power u = 0 then (case GetVaasValidator s a of Some _ \<Rightarrow> DeleteVaasValidator a s | None \<Rightarrow> s)
      else SetVaasValidator new s) = s\<lparr>VaasValidators := x\<rparr>" by blast
    from t obtain w where "t = s\<lparr>VaasValidators := x, cworld := w\<rparr>" unfolding x by blast
    then show ?thesis by blast
  qed
qed

lemma apply_changes_effect:
  assumes "key_laws k" "stored_well k s" "decodable k us" "fold_res (apply_change k) us (ret, s) = Ok (ret', t)"
  shows "stored_well k t \<and> consumer_powers k t = apply_updates us (consumer_powers k s) \<and>
    (\<exists>x w. t = s\<lparr>VaasValidators := x, cworld := w\<rparr>)"
  using assms
proof (induction us arbitrary: ret s)
  case Nil
  then have "t = s" by simp
  moreover have "\<exists>x w. s = s\<lparr>VaasValidators := x, cworld := w\<rparr>"
    by (intro exI[of _ "VaasValidators s"] exI[of _ "cworld s"]) simp
  ultimately show ?case using Nil by simp
next
  case (Cons u us)
  from Cons.prems(4) obtain ret1 s1 where step: "apply_change k u (ret, s) = Ok (ret1, s1)"
    and rest: "fold_res (apply_change k) us (ret1, s1) = Ok (ret', t)" by (auto simp: res_simps)
  obtain q where q: "FromCmtProtoPublicKey k (PubKey u) = Some q" "0 \<le> Power u" "decodable k us"
    using Cons.prems(3) by (auto simp: decodable_def)
  note e = apply_change_effect[OF Cons.prems(1,2) q(1,2) step]
  note ih = Cons.IH[OF Cons.prems(1) e(1) q(3) rest]
  obtain x w where s1: "s1 = s\<lparr>VaasValidators := x, cworld := w\<rparr>" using e(3) by blast
  obtain y v where "t = s1\<lparr>VaasValidators := y, cworld := v\<rparr>" using ih by blast
  then have "\<exists>x w. t = s\<lparr>VaasValidators := x, cworld := w\<rparr>" by (intro exI[of _ y] exI[of _ v]) (simp add: s1)
  moreover have "consumer_powers k t = apply_updates (u # us) (consumer_powers k s)" using ih e(2) by simp
  ultimately show ?case using ih by blast
qed

lemma ApplyVaasValidatorChanges_effect:
  assumes "key_laws k" "stored_well k s" "decodable k us" "ApplyVaasValidatorChanges k us s = Ok (out, t)"
  obtains x w where "stored_well k t" "consumer_powers k t = apply_updates us (consumer_powers k s)"
    "t = s\<lparr>VaasValidators := x, cworld := w\<rparr>"
  using apply_changes_effect[OF assms(1-3) assms(4)[unfolded ApplyVaasValidatorChanges_def]] by blast

text \<open>The changes apply without a panic when the bonding hook of the slashing module succeeds.\<close>

lemma ApplyVaasValidatorChanges_Ok:
  assumes "decodable k us" "\<And>w a b. AfterValidatorBonded k w a b \<noteq> None"
  shows "\<exists>out t. ApplyVaasValidatorChanges k us s = Ok (out, t)"
proof -
  have "\<exists>ret' t. fold_res (apply_change k) us (ret, s) = Ok (ret', t)" for ret and s :: "'a cstate"
    using assms(1)
  proof (induction us arbitrary: ret s)
    case (Cons u us)
    then obtain q where "FromCmtProtoPublicKey k (PubKey u) = Some q" "decodable k us" by (auto simp: decodable_def)
    moreover have "AfterValidatorBonded k w a b = Some (the (AfterValidatorBonded k w a b))" for w a b
      using assms(2)[of w a b] by auto
    then have "\<exists>ret1 s1. apply_change k u (ret, s) = Ok (ret1, s1)"
      using \<open>FromCmtProtoPublicKey k (PubKey u) = Some q\<close>
      by (simp add: apply_change_def Let_def split: option.splits) (metis option.distinct(1))
    ultimately show ?case using Cons.IH by (auto simp: res_simps)
  qed simp
  then show ?thesis by (simp add: ApplyVaasValidatorChanges_def)
qed

subsection \<open>A block's end\<close>

lemma effective_set_cong:
  "VaasValidators t = VaasValidators s \<Longrightarrow> PendingChanges t = PendingChanges s \<Longrightarrow>
     effective_set k t = effective_set k s \<and> (set_ok k t \<longleftrightarrow> set_ok k s)"
proof -
  assume eq: "VaasValidators t = VaasValidators s" "PendingChanges t = PendingChanges s"
  then have g: "GetVaasValidator t = GetVaasValidator s" by (simp add: GetVaasValidator_def fun_eq_iff)
  have "consumer_powers k t = consumer_powers k s" by (rule ext) (simp add: consumer_powers_def g split: option.split)
  then show ?thesis by (simp add: effective_set_def set_ok_def stored_well_def pending_updates_def eq g)
qed

lemma SendEvidencePackets_frame:
  "\<exists>x w. SendEvidencePackets k ctx s = s\<lparr>PendingEvidencePackets := x, cworld := w\<rparr>"
proof -
  have "\<exists>x w. s = s\<lparr>PendingEvidencePackets := x, cworld := w\<rparr>"
    by (intro exI[of _ "PendingEvidencePackets s"] exI[of _ "cworld s"]) simp
  then show ?thesis unfolding SendEvidencePackets_def Let_def by (simp split: option.splits prod.splits) blast
qed

lemma EndBlock_effect:
  assumes "key_laws k" "set_ok k s" "Consumer_EndBlock k ctx s = Ok (us, t)"
  shows "set_ok k t" "effective_set k t = effective_set k s" "consumer_powers k t = effective_set k s"
    "HighestValsetUpdateID t = HighestValsetUpdateID s"
proof -
  define s1 where "s1 = SendEvidencePackets k ctx s"
  obtain x w where s1: "s1 = s\<lparr>PendingEvidencePackets := x, cworld := w\<rparr>"
    using SendEvidencePackets_frame[of k ctx s] unfolding s1_def by blast
  have s1': "effective_set k s1 = effective_set k s" "set_ok k s1" "HighestValsetUpdateID s1 = HighestValsetUpdateID s"
    using effective_set_cong[of s1 s k] assms(2) by (simp_all add: s1)
  show "set_ok k t" "effective_set k t = effective_set k s" "consumer_powers k t = effective_set k s"
    "HighestValsetUpdateID t = HighestValsetUpdateID s"
  proof -
    have "set_ok k t \<and> PendingChanges t = None \<and> consumer_powers k t = effective_set k s1 \<and>
      HighestValsetUpdateID t = HighestValsetUpdateID s1"
    proof (cases "PendingChanges s1")
      case None
      then have "t = s1" using assms(3) by (simp add: Consumer_EndBlock_def s1_def Let_def)
      then show ?thesis using None s1'(2) by (simp add: effective_set_def pending_updates_def)
    next
      case (Some changes)
      then obtain out u where u: "ApplyVaasValidatorChanges k changes s1 = Ok (out, u)" "t = u\<lparr>PendingChanges := None\<rparr>"
        using assms(3) by (auto simp: Consumer_EndBlock_def s1_def[symmetric] Let_def res_simps)
      have ok: "stored_well k s1" "decodable k changes" using s1'(2) Some by (simp_all add: set_ok_def pending_updates_def)
      obtain y v where y: "stored_well k u" "consumer_powers k u = apply_updates changes (consumer_powers k s1)"
        "u = s1\<lparr>VaasValidators := y, cworld := v\<rparr>"
        by (rule ApplyVaasValidatorChanges_effect[OF assms(1) ok u(1)])
      then show ?thesis using Some
        by (simp add: u(2) set_ok_def stored_well_def consumer_powers_def GetVaasValidator_def pending_updates_def
            effective_set_def decodable_def fun_eq_iff cong: option.case_cong)
    qed
    then show "set_ok k t" "effective_set k t = effective_set k s" "consumer_powers k t = effective_set k s"
      "HighestValsetUpdateID t = HighestValsetUpdateID s"
      using s1' by (simp_all add: effective_set_def pending_updates_def)
  qed
qed


subsection \<open>A packet\<close>

lemma decodable_subset: "set us \<subseteq> set vs \<Longrightarrow> decodable k vs \<Longrightarrow> decodable k us"
  by (auto simp: decodable_def)

lemma decodable_append [simp]: "decodable k (us @ vs) \<longleftrightarrow> decodable k us \<and> decodable k vs"
  by (auto simp: decodable_def)

lemma set_accumulate: "set (AccumulateChanges xs ys) \<subseteq> set (xs @ ys)"
proof
  fix u assume "u \<in> set (AccumulateChanges xs ys)"
  then have "latest (xs @ ys) (PubKey u) = Some u" by (simp add: AccumulateChanges_def last_changes_props(2))
  from latest_SomeD[OF this] show "u \<in> set (xs @ ys)" by simp
qed

lemma apply_accumulate: "apply_updates (AccumulateChanges xs ys) m = apply_updates (xs @ ys) m"
  by (rule ext) (simp only: apply_updates_latest latest_accumulate)

lemma latest_append: "latest (xs @ ys) p = (case latest ys p of None \<Rightarrow> latest xs p | Some u \<Rightarrow> Some u)"
  by (simp add: latest_def find_append split: option.splits)

definition removals :: "'w ckeeper \<Rightarrow> ValidatorUpdate list \<Rightarrow> 'w cstate \<Rightarrow> ValidatorUpdate list" where
  "removals k target s =
     concat (map (\<lambda>v. case ToCmtProtoPublicKey k (vv_Pubkey v) of
           None \<Rightarrow> []
         | Some tmPk \<Rightarrow> if tmPk \<in> PubKey ` set target then [] else [\<lparr>PubKey = tmPk, Power = 0\<rparr>])
       (GetAllVaasValidator s))"

lemma computeReplaceUpdates_eq: "computeReplaceUpdates k target s = target @ removals k target s"
  by (simp add: computeReplaceUpdates_def removals_def)

lemma set_GetAllVaasValidator: "v \<in> set (GetAllVaasValidator s) \<longleftrightarrow> (\<exists>a. GetVaasValidator s a = Some v)"
  by (force simp: GetAllVaasValidator_def GetVaasValidator_def kv.iter_mem[symmetric])

lemma stored_key:
  assumes "key_laws k" "stored_well k s" "GetVaasValidator s a = Some v"
  obtains p where "FromCmtProtoPublicKey k p = Some (vv_Pubkey v)" "ToCmtProtoPublicKey k (vv_Pubkey v) = Some p"
    "PubKeyAddr k (vv_Pubkey v) = a"
  using assms unfolding key_laws_def stored_well_def by blast

lemma removals_mem:
  assumes "key_laws k" "stored_well k s"
  shows "u \<in> set (removals k target s) \<Longrightarrow>
      Power u = 0 \<and> PubKey u \<notin> PubKey ` set target \<and> FromCmtProtoPublicKey k (PubKey u) \<noteq> None"
    and "consumer_powers k s p \<noteq> None \<Longrightarrow> p \<notin> PubKey ` set target \<Longrightarrow>
      \<lparr>PubKey = p, Power = 0\<rparr> \<in> set (removals k target s)"
proof -
  assume "u \<in> set (removals k target s)"
  then obtain v where v0: "v \<in> set (GetAllVaasValidator s)"
    and u: "u \<in> set (case ToCmtProtoPublicKey k (vv_Pubkey v) of None \<Rightarrow> []
      | Some tmPk \<Rightarrow> if tmPk \<in> PubKey ` set target then [] else [\<lparr>PubKey = tmPk, Power = 0\<rparr>])"
    unfolding removals_def by (simp only: set_concat set_map UN_iff image_iff) blast
  then obtain a where v: "GetVaasValidator s a = Some v" by (auto simp: set_GetAllVaasValidator)
  obtain p where "FromCmtProtoPublicKey k p = Some (vv_Pubkey v)" "ToCmtProtoPublicKey k (vv_Pubkey v) = Some p"
    by (rule stored_key[OF assms v])
  with u show "Power u = 0 \<and> PubKey u \<notin> PubKey ` set target \<and> FromCmtProtoPublicKey k (PubKey u) \<noteq> None"
    by (auto split: if_splits)
next
  assume "consumer_powers k s p \<noteq> None" and notin: "p \<notin> PubKey ` set target"
  then obtain q v where q: "FromCmtProtoPublicKey k p = Some q" and v: "GetVaasValidator s (PubKeyAddr k q) = Some v"
    by (auto simp: consumer_powers_def split: option.splits)
  obtain p' where p': "FromCmtProtoPublicKey k p' = Some (vv_Pubkey v)" "ToCmtProtoPublicKey k (vv_Pubkey v) = Some p'"
    "PubKeyAddr k (vv_Pubkey v) = PubKeyAddr k q"
    by (rule stored_key[OF assms v])
  have "p' = p" using assms(1) q p'(1,3) unfolding key_laws_def by blast
  then have "\<lparr>PubKey = p, Power = 0\<rparr> \<in> set (case ToCmtProtoPublicKey k (vv_Pubkey v) of None \<Rightarrow> []
      | Some tmPk \<Rightarrow> if tmPk \<in> PubKey ` set target then [] else [\<lparr>PubKey = tmPk, Power = 0\<rparr>])"
    using p'(2) notin by simp
  moreover have "v \<in> set (GetAllVaasValidator s)" using v by (auto simp: set_GetAllVaasValidator)
  ultimately show "\<lparr>PubKey = p, Power = 0\<rparr> \<in> set (removals k target s)"
    unfolding removals_def by (simp only: set_concat set_map UN_iff) blast
qed

lemma replace_updates:
  assumes "key_laws k" "stored_well k s"
  shows "apply_updates (computeReplaceUpdates k target s) (consumer_powers k s) = apply_updates target Map.empty"
proof (rule ext)
  fix p
  define R where "R = removals k target s"
  show "apply_updates (computeReplaceUpdates k target s) (consumer_powers k s) p = apply_updates target Map.empty p"
  proof (cases "p \<in> PubKey ` set target")
    case True
    then have "p \<notin> PubKey ` set R" unfolding R_def using removals_mem(1)[OF assms, of _ target] by blast
    then have "latest R p = None" by (simp add: latest_None)
    moreover have "latest target p \<noteq> None" using True by (simp add: latest_None)
    ultimately show ?thesis
      by (auto simp: computeReplaceUpdates_eq apply_updates_latest R_def[symmetric])
  next
    case False
    then have t: "latest target p = None" by (simp add: latest_None)
    have "case latest R p of None \<Rightarrow> consumer_powers k s p = None | Some u \<Rightarrow> Power u = 0"
    proof (cases "latest R p")
      case None
      have "consumer_powers k s p = None"
      proof (rule ccontr)
        assume "consumer_powers k s p \<noteq> None"
        from removals_mem(2)[OF assms this False] have "p \<in> PubKey ` set R" by (force simp: R_def)
        with None show False by (simp add: latest_None)
      qed
      with None show ?thesis by simp
    next
      case (Some u)
      then show ?thesis using removals_mem(1)[OF assms, of u target] latest_SomeD[OF Some] by (simp add: R_def)
    qed
    then show ?thesis using t
      by (auto simp: computeReplaceUpdates_eq apply_updates_latest R_def[symmetric] split: option.splits)
  qed
qed

lemma computeReplaceUpdates_cong:
  "VaasValidators t = VaasValidators s \<Longrightarrow> computeReplaceUpdates k us t = computeReplaceUpdates k us s"
  by (simp add: computeReplaceUpdates_def GetAllVaasValidator_def)

lemma StageDowntimeParams_frame [simp]:
  "VaasValidators (StageDowntimeParams p s) = VaasValidators s"
  "PendingChanges (StageDowntimeParams p s) = PendingChanges s"
  "HighestValsetUpdateID (StageDowntimeParams p s) = HighestValsetUpdateID s"
  "ProviderClientID (StageDowntimeParams p s) = ProviderClientID s"
  "ProviderChainId (StageDowntimeParams p s) = ProviderChainId s"
  by (simp_all add: StageDowntimeParams_def)

lemma recv_checks:
  assumes "OnRecvVSCPacketV2 k ctx client p s = Ok t"
  obtains s1 where "ValidatorSetChangePacketData_Validate (PubKeyFromProto k) p = Ok ()"
    "authenticateProviderChainID k client s = Ok s1" "enforcePinnedProviderClient client s1 = Ok ()"
    "\<exists>x. s1 = s\<lparr>ProviderChainId := x\<rparr>"
    "if (case HighestValsetUpdateID s of None \<Rightarrow> False | Some h \<Rightarrow> ValsetUpdateId p \<le> h) then t = s1
     else wouldEmptyValidatorSet k p s1 = Ok False"
proof -
  from assms obtain s1 where s1: "ValidatorSetChangePacketData_Validate (PubKeyFromProto k) p = Ok ()"
    "authenticateProviderChainID k client s = Ok s1" "enforcePinnedProviderClient client s1 = Ok ()"
    "if (case HighestValsetUpdateID s1 of None \<Rightarrow> False | Some h \<Rightarrow> ValsetUpdateId p \<le> h) then t = s1
     else wouldEmptyValidatorSet k p s1 = Ok False"
    unfolding OnRecvVSCPacketV2_def Let_def by (auto simp: res_simps split: if_splits)
  have fr: "\<exists>x. s1 = s\<lparr>ProviderChainId := x\<rparr>"
  proof -
    have "s1 = s \<or> (\<exists>x. s1 = s\<lparr>ProviderChainId := x\<rparr>)" using s1(2) unfolding authenticateProviderChainID_def
      by (auto simp: res_simps split: option.splits client_state.splits)
    moreover have "s = s\<lparr>ProviderChainId := ProviderChainId s\<rparr>" by simp
    ultimately show ?thesis by blast
  qed
  then have "HighestValsetUpdateID s1 = HighestValsetUpdateID s" by auto
  with s1 fr that show thesis by simp
qed

lemma Validate_decodable:
  assumes "key_laws k" "ValidatorSetChangePacketData_Validate (PubKeyFromProto k) p = Ok ()"
  shows "decodable k (ValidatorUpdates p)" "ValsetUpdateId p \<noteq> 0"
proof -
  have "decodable k us" if "fold_res (\<lambda>update _.
           guard_res (PubKeyFromProto k (PubKey update)) ErrInvalidPacketData (
           guard_res (\<not> Power update < 0) ErrInvalidPacketData (Ok ()))) us () = Ok ()" for us
    using that
  proof (induction us)
    case (Cons u us)
    then show ?case using assms(1) by (auto simp: decodable_def key_laws_def res_simps not_less)
  qed (simp add: decodable_def)
  then show "decodable k (ValidatorUpdates p)" "ValsetUpdateId p \<noteq> 0"
    using assms(2) by (auto simp: ValidatorSetChangePacketData_Validate_def res_simps)
qed

definition highest_id :: "'w cstate \<Rightarrow> nat" where
  "highest_id s = (case HighestValsetUpdateID s of None \<Rightarrow> 0 | Some h \<Rightarrow> h)"

text \<open>
  A packet that is received without an error: an id that is not above the highest one is
  acknowledged and changes nothing of the set; any other packet is applied to the set the chain is
  heading for.
\<close>

lemma OnRecv_effect:
  assumes laws: "key_laws k" "set_ok k s" and recv: "OnRecvVSCPacketV2 k ctx client p s = Ok t"
  shows "set_ok k t" "0 < ValsetUpdateId p"
    "if ValsetUpdateId p \<le> highest_id s
     then highest_id t = highest_id s \<and> effective_set k t = effective_set k s
     else highest_id t = ValsetUpdateId p \<and> effective_set k t = apply_packet p (effective_set k s)"
proof -
  obtain s1 where s1: "ValidatorSetChangePacketData_Validate (PubKeyFromProto k) p = Ok ()"
    "authenticateProviderChainID k client s = Ok s1" "enforcePinnedProviderClient client s1 = Ok ()"
    "\<exists>x. s1 = s\<lparr>ProviderChainId := x\<rparr>"
    "if (case HighestValsetUpdateID s of None \<Rightarrow> False | Some h \<Rightarrow> ValsetUpdateId p \<le> h) then t = s1
     else wouldEmptyValidatorSet k p s1 = Ok False"
    by (rule recv_checks[OF recv])
  note val = Validate_decodable[OF laws(1) s1(1)]
  show pos: "0 < ValsetUpdateId p" using val(2) by simp
  have old: "(case HighestValsetUpdateID s of None \<Rightarrow> False | Some h \<Rightarrow> ValsetUpdateId p \<le> h) \<longleftrightarrow> ValsetUpdateId p \<le> highest_id s"
    using pos by (simp add: highest_id_def split: option.splits)
  have fr: "VaasValidators s1 = VaasValidators s" "PendingChanges s1 = PendingChanges s"
    "HighestValsetUpdateID s1 = HighestValsetUpdateID s" using s1(4) by auto
  note eff = effective_set_cong[OF fr(1,2), of k]
  have "set_ok k t \<and> (if ValsetUpdateId p \<le> highest_id s
     then highest_id t = highest_id s \<and> effective_set k t = effective_set k s
     else highest_id t = ValsetUpdateId p \<and> effective_set k t = apply_packet p (effective_set k s))"
  proof (cases "ValsetUpdateId p \<le> highest_id s")
    case True
    then have "t = s1" using s1(5) old by simp
    then show ?thesis using True eff laws(2) by (simp add: highest_id_def fr(3))
  next
    case False
    define pend where "pend = (if IsSnapshot p then computeReplaceUpdates k (ValidatorUpdates p) s1
      else AccumulateChanges (pending_updates s1) (ValidatorUpdates p))"
    have t: "VaasValidators t = VaasValidators s" "PendingChanges t = Some pend"
      "HighestValsetUpdateID t = Some (ValsetUpdateId p)"
      using recv s1(1-3) s1(5) False fr unfolding old[symmetric]
      by (auto simp: OnRecvVSCPacketV2_def Let_def pend_def pending_updates_def
          intro!: computeReplaceUpdates_cong split: option.splits)
    have ok: "stored_well k s1" "decodable k (pending_updates s1)" using eff laws(2) by (simp_all add: set_ok_def)
    have tk: "stored_well k t" "consumer_powers k t = consumer_powers k s1" "pending_updates t = pend"
      using effective_set_cong[of "t\<lparr>PendingChanges := PendingChanges s1\<rparr>" s1 k] ok t fr
      by (simp_all add: set_ok_def stored_well_def GetVaasValidator_def pending_updates_def consumer_powers_def fun_eq_iff
          split: option.splits)
    have "decodable k pend"
    proof (cases "IsSnapshot p")
      case True
      then show ?thesis using val(1) removals_mem(1)[OF laws(1) ok(1)]
        by (simp add: pend_def computeReplaceUpdates_eq) (auto simp: decodable_def)
    next
      case False
      show ?thesis unfolding pend_def
        by (simp add: False) (rule decodable_subset[OF set_accumulate], use ok(2) val(1) in simp)
    qed
    moreover have "apply_updates pend (consumer_powers k s1) = apply_packet p (effective_set k s1)"
      by (simp add: pend_def apply_packet_def replace_updates[OF laws(1) ok(1)] apply_accumulate effective_set_def)
    ultimately show ?thesis using False tk eff
      by (simp add: set_ok_def effective_set_def highest_id_def t(3))
  qed
  then show "set_ok k t" "if ValsetUpdateId p \<le> highest_id s
     then highest_id t = highest_id s \<and> effective_set k t = effective_set k s
     else highest_id t = ValsetUpdateId p \<and> effective_set k t = apply_packet p (effective_set k s)" by simp_all
qed


subsection \<open>The current set, and that no packet empties it\<close>

definition as_update :: "'w ckeeper \<Rightarrow> VaasValidator \<Rightarrow> ValidatorUpdate" where
  "as_update k v = \<lparr>PubKey = the (ToCmtProtoPublicKey k (vv_Pubkey v)), Power = vv_Power v\<rparr>"

lemma MustGetCurrent_eq:
  assumes "key_laws k" "stored_well k s"
  shows "MustGetCurrentValidatorsAsABCIUpdates k s = Ok (map (as_update k) (GetAllVaasValidator s))"
proof -
  have "fold_res (\<lambda>v updates. case ToCmtProtoPublicKey k (vv_Pubkey v) of
           None \<Rightarrow> Panic
         | Some tmPK \<Rightarrow> Ok (updates @ [\<lparr>PubKey = tmPK, Power = vv_Power v\<rparr>])) vs acc
        = (Ok (acc @ map (as_update k) vs) :: ValidatorUpdate list result)"
    if "\<forall>v \<in> set vs. ToCmtProtoPublicKey k (vv_Pubkey v) \<noteq> None" for vs acc
    using that by (induction vs arbitrary: acc) (auto simp: as_update_def)
  moreover have "\<forall>v \<in> set (GetAllVaasValidator s). ToCmtProtoPublicKey k (vv_Pubkey v) \<noteq> None"
    using stored_key[OF assms] by (metis set_GetAllVaasValidator option.distinct(1))
  ultimately show ?thesis by (simp add: MustGetCurrentValidatorsAsABCIUpdates_def)
qed

lemma current_distinct:
  assumes "key_laws k" "stored_well k s"
  shows "distinct (map PubKey (map (as_update k) (GetAllVaasValidator s)))"
proof -
  have addr: "snd e = v \<Longrightarrow> e \<in> set (entries (VaasValidators s)) \<Longrightarrow> fst e = vv_Address v" for e v
    using assms(2) by (cases e) (auto simp: stored_well_def GetVaasValidator_def kv.iter_mem)
  have "inj_on snd (set (entries (VaasValidators s)))" by (rule inj_onI) (metis addr prod.collapse)
  then have d: "distinct (GetAllVaasValidator s)"
    using kv.iter_distinct[of "VaasValidators s"] by (simp add: GetAllVaasValidator_def distinct_map)
  have "inj_on (\<lambda>v. the (ToCmtProtoPublicKey k (vv_Pubkey v))) (set (GetAllVaasValidator s))"
  proof (rule inj_onI)
    fix v w assume v: "v \<in> set (GetAllVaasValidator s)" and w: "w \<in> set (GetAllVaasValidator s)"
      and eq: "the (ToCmtProtoPublicKey k (vv_Pubkey v)) = the (ToCmtProtoPublicKey k (vv_Pubkey w))"
    from v w obtain a b where a: "GetVaasValidator s a = Some v" "GetVaasValidator s b = Some w"
      by (auto simp: set_GetAllVaasValidator)
    obtain p where p: "FromCmtProtoPublicKey k p = Some (vv_Pubkey v)" "ToCmtProtoPublicKey k (vv_Pubkey v) = Some p"
      "PubKeyAddr k (vv_Pubkey v) = a" by (rule stored_key[OF assms a(1)])
    obtain q where q: "FromCmtProtoPublicKey k q = Some (vv_Pubkey w)" "ToCmtProtoPublicKey k (vv_Pubkey w) = Some q"
      "PubKeyAddr k (vv_Pubkey w) = b" by (rule stored_key[OF assms a(2)])
    have "a = b" using eq p q by (metis option.sel)
    with a show "v = w" by simp
  qed
  then show ?thesis using d by (simp add: distinct_map as_update_def comp_def)
qed

lemma current_powers:
  assumes "key_laws k" "stored_well k s"
  shows "apply_updates (map (as_update k) (GetAllVaasValidator s)) Map.empty = consumer_powers k s"
proof (rule ext)
  fix p
  define us where "us = map (as_update k) (GetAllVaasValidator s)"
  have lat: "latest us p = Some u \<longleftrightarrow> u \<in> set us \<and> PubKey u = p" for u
    using latest_distinct current_distinct[OF assms] by (simp add: us_def)
  have mem: "u \<in> set us \<and> PubKey u = p \<longleftrightarrow>
      (\<exists>q v. FromCmtProtoPublicKey k p = Some q \<and> GetVaasValidator s (PubKeyAddr k q) = Some v \<and> u = as_update k v)" for u
  proof
    assume u: "u \<in> set us \<and> PubKey u = p"
    then obtain a v where v: "GetVaasValidator s a = Some v" "u = as_update k v"
      by (auto simp: us_def set_GetAllVaasValidator)
    obtain p' where "FromCmtProtoPublicKey k p' = Some (vv_Pubkey v)" "ToCmtProtoPublicKey k (vv_Pubkey v) = Some p'"
      "PubKeyAddr k (vv_Pubkey v) = a" by (rule stored_key[OF assms v(1)])
    with u v show "\<exists>q v. FromCmtProtoPublicKey k p = Some q \<and> GetVaasValidator s (PubKeyAddr k q) = Some v \<and> u = as_update k v"
      by (auto simp: as_update_def)
  next
    assume "\<exists>q v. FromCmtProtoPublicKey k p = Some q \<and> GetVaasValidator s (PubKeyAddr k q) = Some v \<and> u = as_update k v"
    then obtain q v where q: "FromCmtProtoPublicKey k p = Some q" "GetVaasValidator s (PubKeyAddr k q) = Some v" "u = as_update k v"
      by blast
    obtain p' where p': "FromCmtProtoPublicKey k p' = Some (vv_Pubkey v)" "ToCmtProtoPublicKey k (vv_Pubkey v) = Some p'"
      "PubKeyAddr k (vv_Pubkey v) = PubKeyAddr k q" by (rule stored_key[OF assms q(2)])
    have "p' = p" using assms(1) q(1) p'(1,3) unfolding key_laws_def by blast
    then have "PubKey u = p" using q(3) p'(2) by (simp add: as_update_def)
    moreover have "u \<in> set us" using q(2,3) set_GetAllVaasValidator[of v s] by (auto simp: us_def)
    ultimately show "u \<in> set us \<and> PubKey u = p" by simp
  qed
  show "apply_updates us Map.empty p = consumer_powers k s p"
  proof (cases "latest us p")
    case None
    have "consumer_powers k s p = None"
    proof (rule ccontr)
      assume "consumer_powers k s p \<noteq> None"
      then obtain q v where "FromCmtProtoPublicKey k p = Some q" "GetVaasValidator s (PubKeyAddr k q) = Some v"
        by (auto simp: consumer_powers_def split: option.splits)
      then have "latest us p = Some (as_update k v)" using lat mem by blast
      with None show False by simp
    qed
    with None show ?thesis by (simp add: apply_updates_latest)
  next
    case (Some u)
    then obtain q v where q: "FromCmtProtoPublicKey k p = Some q" "GetVaasValidator s (PubKeyAddr k q) = Some v" "u = as_update k v"
      using lat mem by blast
    moreover have "0 < vv_Power v" using assms(2) q(2) by (auto simp: stored_well_def)
    ultimately show ?thesis using Some by (simp add: apply_updates_latest consumer_powers_def as_update_def)
  qed
qed

lemma positive_update_kept:
  assumes "decodable k us" "distinct (map PubKey us)" "hasPositivePower us"
  shows "\<exists>p. apply_updates us m p \<noteq> None"
proof -
  obtain u where "u \<in> set us" "0 < Power u" using assms(3) by (auto simp: hasPositivePower_def list_ex_iff)
  then have "apply_updates us m (PubKey u) = Some (Power u)"
    using latest_distinct[OF assms(2), of "PubKey u" u] by (simp add: apply_updates_latest)
  then show ?thesis by blast
qed

lemma distinct_accumulate: "distinct (map PubKey (AccumulateChanges xs ys))"
  by (simp add: AccumulateChanges_def distinct_sort_changes last_changes_props(1))

lemma packet_keeps_a_validator:
  assumes "key_laws k" "set_ok k s" "decodable k (ValidatorUpdates p)" "wouldEmptyValidatorSet k p s = Ok False"
    "distinct (map PubKey (ValidatorUpdates p)) \<or> \<not> IsSnapshot p"
  shows "\<exists>key. apply_packet p (effective_set k s) key \<noteq> None"
proof (cases "IsSnapshot p")
  case True
  then show ?thesis using assms(4,5) positive_update_kept[OF assms(3)]
    by (auto simp: wouldEmptyValidatorSet_def apply_packet_def)
next
  case False
  define cur where "cur = map (as_update k) (GetAllVaasValidator s)"
  have ok: "stored_well k s" "decodable k (pending_updates s)" using assms(2) by (simp_all add: set_ok_def)
  have cur: "MustGetCurrentValidatorsAsABCIUpdates k s = Ok cur" "apply_updates cur Map.empty = consumer_powers k s"
    using MustGetCurrent_eq[OF assms(1) ok(1)] current_powers[OF assms(1) ok(1)] by (simp_all add: cur_def)
  define mid where "mid = (case PendingChanges s of None \<Rightarrow> cur | Some pending \<Rightarrow> AccumulateChanges cur pending)"
  define res where "res = AccumulateChanges mid (ValidatorUpdates p)"
  have "hasPositivePower res"
    using assms(4) False by (simp add: wouldEmptyValidatorSet_def cur(1) Let_def res_def mid_def)
  then obtain u where u: "u \<in> set res" "0 < Power u" by (auto simp: hasPositivePower_def list_ex_iff)
  have "apply_updates res Map.empty (PubKey u) = Some (Power u)"
    using latest_distinct[of res "PubKey u" u] u by (simp add: apply_updates_latest res_def distinct_accumulate)
  moreover have "apply_updates mid Map.empty = effective_set k s"
    by (simp add: mid_def effective_set_def pending_updates_def apply_accumulate cur(2) split: option.splits)
  ultimately show ?thesis using False by (auto simp: res_def apply_accumulate apply_packet_def)
qed

end
