(* ===== verification/Link.thy ===== *)
theory Link
  imports ConsumerSet
begin

text \<open>
  The two chains together: the provider's relay of one consumer, a network that loses, delays,
  reorders and repeats packets, and the consumer that receives them. The result is the contract of
  the protocol: whatever the network does, the validator set the consumer is heading for is the one
  the provider stored when it made the packet with the highest id the consumer accepted.
\<close>

subsection \<open>The system\<close>

text \<open>
  \<open>net\<close> holds every packet handed to IBC; one that is lost is never received, one that is repeated is
  received again. \<open>acks\<close> holds the ids the consumer has acknowledged with success. \<open>hist i\<close> is the
  set the provider stored when it queued packet \<open>i\<close>, and \<open>hist 0\<close> the set of the consumer's genesis.
\<close>

record ('w, 'v) link =
  lp :: "'w pstate"
  lc :: "'v cstate"
  net :: "ValidatorSetChangePacketData set"
  acks :: "nat set"
  hist :: "nat \<Rightarrow> pubkey \<rightharpoonup> int"

text \<open>The packets that one run of the send loop hands over, up to the first failure.\<close>

fun sent_packets ::
    "'w keeper \<Rightarrow> string \<Rightarrow> int \<Rightarrow> ValidatorSetChangePacketData list \<Rightarrow> 'w \<Rightarrow> ValidatorSetChangePacketData list" where
  "sent_packets k clientId ts [] w = []"
| "sent_packets k clientId ts (p # ps) w =
     (case SendPacket k w clientId ts p of (False, _) \<Rightarrow> [] | (True, w1) \<Rightarrow> p # sent_packets k clientId ts ps w1)"

definition handed_over :: "'w keeper \<Rightarrow> sdk_ctx \<Rightarrow> consumer_id \<Rightarrow> string \<Rightarrow> 'w pstate \<Rightarrow> ValidatorSetChangePacketData list" where
  "handed_over k ctx c clientId s =
     (if \<not> HasChannelKeeperV2 k then []
      else sent_packets k clientId
             (Unix (BlockTime ctx + min (VaasTimeoutPeriod (Params s)) (MaxTimeoutDelta k)) mod 2 ^ 64)
             (GetPendingVSCPackets s c) (world s))"

definition stored_powers :: "'w pstate \<Rightarrow> consumer_id \<Rightarrow> pubkey \<rightharpoonup> int" where
  "stored_powers s c = powers (GetConsumerValSet s c)"

definition relay_frame :: "consumer_id \<Rightarrow> 'w pstate \<Rightarrow> 'w pstate \<Rightarrow> bool" where
  "relay_frame c s t \<longleftrightarrow>
     GetPendingVSCPackets t c = GetPendingVSCPackets s c \<and> stored_powers t c = stored_powers s c \<and>
     GetConsumerHighestSentVscId t c = GetConsumerHighestSentVscId s c \<and>
     GetConsumerHighestAckedVscId t c = GetConsumerHighestAckedVscId s c \<and>
     ValidatorSetUpdateId s \<le> ValidatorSetUpdateId t \<and> valsets_ok t"

inductive link_step :: "'w keeper \<Rightarrow> 'v ckeeper \<Rightarrow> consumer_id \<Rightarrow> ('w, 'v) link \<Rightarrow> ('w, 'v) link \<Rightarrow> bool"
  for k :: "'w keeper" and ck :: "'v ckeeper" and c :: consumer_id where
  epoch: "QueueVSCPackets k ctx (lp l) = Ok t \<Longrightarrow> staking_laws k (world (lp l)) \<Longrightarrow>
    link_step k ck c l (l\<lparr>lp := t, hist := (if c \<in> set (GetAllLaunchedConsumerIds (lp l))
      then (hist l)(ValidatorSetUpdateId (lp l) := stored_powers t c) else hist l)\<rparr>)"
| snapshot: "QueueImmediateSnapshotVSCPacket k ctx c (lp l) = Ok t \<Longrightarrow> staking_laws k (world (lp l)) \<Longrightarrow>
    link_step k ck c l (l\<lparr>lp := t, hist := (hist l)(ValidatorSetUpdateId (lp l) := stored_powers t c)\<rparr>)"
| send: "sendVSCPacketsToChainStrict k ctx c clientId (lp l) = (ok, t) \<Longrightarrow>
    link_step k ck c l (l\<lparr>lp := t, net := net l \<union> set (handed_over k ctx c clientId (lp l))\<rparr>)"
| ack: "i \<in> acks l \<Longrightarrow>
    link_step k ck c l (l\<lparr>lp := OnAcknowledgementPacketV2 ctx clientId i ackError (lp l)\<rparr>)"
| timeout: "link_step k ck c l (l\<lparr>lp := OnTimeoutPacketV2 clientId (lp l)\<rparr>)"
| provider_other: "relay_frame c (lp l) t \<Longrightarrow> link_step k ck c l (l\<lparr>lp := t\<rparr>)"
| recv: "p \<in> net l \<Longrightarrow> OnRecvVSCPacketV2 ck (cx :: cctx) clientId p (lc l) = Ok t' \<Longrightarrow>
    link_step k ck c l (l\<lparr>lc := t', acks := insert (ValsetUpdateId p) (acks l)\<rparr>)"
| end_block: "Consumer_EndBlock ck (cx :: cctx) (lc l) = Ok (updates, t') \<Longrightarrow> link_step k ck c l (l\<lparr>lc := t'\<rparr>)"
| consumer_other: "VaasValidators t' = VaasValidators (lc l) \<Longrightarrow> PendingChanges t' = PendingChanges (lc l) \<Longrightarrow>
    HighestValsetUpdateID t' = HighestValsetUpdateID (lc l) \<Longrightarrow> link_step k ck c l (l\<lparr>lc := t'\<rparr>)"

text \<open>
  The start: the consumer is launched with the set the provider stored for it, nothing has been
  queued, sent or received.
\<close>

definition link_start :: "'v ckeeper \<Rightarrow> consumer_id \<Rightarrow> ('w, 'v) link \<Rightarrow> bool" where
  "link_start ck c l \<longleftrightarrow>
     GetPendingVSCPackets (lp l) c = [] \<and> GetConsumerHighestSentVscId (lp l) c = 0 \<and>
     GetConsumerHighestAckedVscId (lp l) c = 0 \<and> 0 < ValidatorSetUpdateId (lp l) \<and> valsets_ok (lp l) \<and>
     net l = {} \<and> acks l = {} \<and> HighestValsetUpdateID (lc l) = None \<and> PendingChanges (lc l) = None \<and>
     set_ok ck (lc l) \<and> consumer_powers ck (lc l) = stored_powers (lp l) c \<and> hist l 0 = stored_powers (lp l) c"

definition link_reachable :: "'w keeper \<Rightarrow> 'v ckeeper \<Rightarrow> consumer_id \<Rightarrow> ('w, 'v) link \<Rightarrow> ('w, 'v) link \<Rightarrow> bool" where
  "link_reachable k ck c = (link_step k ck c)\<^sup>*\<^sup>*"

subsection \<open>The invariant\<close>

text \<open>
  The heart is what a diff may rely on: it was made when the consumer had acknowledged everything
  ever sent, so the consumer's highest id is the id the diff builds on, until the diff itself or a
  later packet is accepted.
\<close>

definition snapshot_sound :: "(nat \<Rightarrow> pubkey \<rightharpoonup> int) \<Rightarrow> ValidatorSetChangePacketData \<Rightarrow> bool" where
  "snapshot_sound H p \<longleftrightarrow> (IsSnapshot p \<longrightarrow> (\<forall>m. apply_packet p m = H (ValsetUpdateId p)))"

definition diff_sound ::
    "(nat \<Rightarrow> pubkey \<rightharpoonup> int) \<Rightarrow> nat \<Rightarrow> ValidatorSetChangePacketData set \<Rightarrow> ValidatorSetChangePacketData \<Rightarrow> bool" where
  "diff_sound H h A p \<longleftrightarrow> (\<not> IsSnapshot p \<longrightarrow>
     (\<exists>b < ValsetUpdateId p. apply_packet p (H b) = H (ValsetUpdateId p) \<and>
        (\<forall>q \<in> A. ValsetUpdateId q \<le> b \<or> ValsetUpdateId p \<le> ValsetUpdateId q) \<and>
        (h = b \<or> ValsetUpdateId p \<le> h)))"

definition queue_head :: "'w pstate \<Rightarrow> consumer_id \<Rightarrow> nat" where
  "queue_head s c = (if GetPendingVSCPackets s c = [] then GetConsumerHighestSentVscId s c
     else ValsetUpdateId (last (GetPendingVSCPackets s c)))"

definition in_play :: "consumer_id \<Rightarrow> ('w, 'v) link \<Rightarrow> ValidatorSetChangePacketData set" where
  "in_play c l = net l \<union> set (GetPendingVSCPackets (lp l) c)"

definition link_inv :: "'v ckeeper \<Rightarrow> consumer_id \<Rightarrow> ('w, 'v) link \<Rightarrow> bool" where
  "link_inv ck c l \<longleftrightarrow>
     (let s = lp l; h = highest_id (lc l); A = in_play c l in
      valsets_ok s \<and> set_ok ck (lc l) \<and>
      (\<forall>p \<in> A. 0 < ValsetUpdateId p \<and> ValsetUpdateId p < ValidatorSetUpdateId s \<and>
               snapshot_sound (hist l) p \<and> diff_sound (hist l) h A p) \<and>
      (\<forall>p \<in> net l. ValsetUpdateId p \<le> GetConsumerHighestSentVscId s c) \<and>
      (\<forall>p \<in> set (GetPendingVSCPackets s c). ValsetUpdateId p \<le> queue_head s c) \<and>
      GetConsumerHighestSentVscId s c \<le> queue_head s c \<and> queue_head s c < ValidatorSetUpdateId s \<and>
      hist l (queue_head s c) = stored_powers s c \<and>
      GetConsumerHighestAckedVscId s c \<le> h \<and> h \<le> GetConsumerHighestSentVscId s c \<and> (\<forall>i \<in> acks l. i \<le> h) \<and>
      effective_set ck (lc l) = hist l h)"

lemma link_inv_start: "link_start ck c l \<Longrightarrow> link_inv ck c l"
  by (simp add: link_inv_def link_start_def Let_def in_play_def queue_head_def highest_id_def effective_set_def
      pending_updates_def)

text \<open>Steps of the provider that touch nothing of this consumer's relay.\<close>

lemma link_inv_frame:
  assumes "link_inv ck c l" "relay_frame c (lp l) t"
  shows "link_inv ck c (l\<lparr>lp := t\<rparr>)"
proof -
  have "queue_head t c = queue_head (lp l) c" using assms(2) by (simp add: relay_frame_def queue_head_def)
  then show ?thesis using assms unfolding link_inv_def Let_def in_play_def relay_frame_def
    by simp (meson less_le_trans)
qed


subsection \<open>Queueing\<close>

lemma link_inv_queue:
  fixes l :: "('w, 'v) link"
  assumes inv: "link_inv ck c l" and q: "queued (ValidatorSetUpdateId (lp l)) (lp l) c p t"
    and t: "valsets_ok t" "ValidatorSetUpdateId t = ValidatorSetUpdateId (lp l) + 1"
      "GetConsumerHighestSentVscId t c = GetConsumerHighestSentVscId (lp l) c"
      "GetConsumerHighestAckedVscId t c = GetConsumerHighestAckedVscId (lp l) c"
  shows "link_inv ck c (l\<lparr>lp := t, hist := (hist l)(ValidatorSetUpdateId (lp l) := stored_powers t c)\<rparr>)"
proof -
  define s where "s = lp l"
  define i where "i = ValidatorSetUpdateId s"
  define h where "h = highest_id (lc l)"
  define A where "A = in_play c l"
  define H where "H = (hist l)(i := stored_powers t c)"
  from inv have I: "valsets_ok s" "set_ok ck (lc l)"
    "\<And>q. q \<in> A \<Longrightarrow> 0 < ValsetUpdateId q \<and> ValsetUpdateId q < i \<and> snapshot_sound (hist l) q \<and> diff_sound (hist l) h A q"
    "\<And>q. q \<in> net l \<Longrightarrow> ValsetUpdateId q \<le> GetConsumerHighestSentVscId s c"
    "\<And>q. q \<in> set (GetPendingVSCPackets s c) \<Longrightarrow> ValsetUpdateId q \<le> queue_head s c"
    "GetConsumerHighestSentVscId s c \<le> queue_head s c" "queue_head s c < i"
    "hist l (queue_head s c) = stored_powers s c"
    "GetConsumerHighestAckedVscId s c \<le> h" "h \<le> GetConsumerHighestSentVscId s c" "\<And>j. j \<in> acks l \<Longrightarrow> j \<le> h"
    "effective_set ck (lc l) = hist l h"
    by (simp_all add: link_inv_def Let_def s_def i_def h_def A_def)
  from q have p: "GetPendingVSCPackets t c = GetPendingVSCPackets s c @ [p]" "ValsetUpdateId p = i" "advances s c p t"
    "IsSnapshot p \<or> GetPendingVSCPackets s c = [] \<and> GetConsumerHighestSentVscId s c \<le> GetConsumerHighestAckedVscId s c"
    by (auto simp: queued_def s_def i_def)
  have hi: "h < i" using I(6,7,10) by simp
  have Hold: "H j = hist l j" if "j < i" for j using that by (simp add: H_def)
  have pi: "H i = stored_powers t c" by (simp add: H_def)
  have old: "snapshot_sound H q \<and> diff_sound H h (insert p A) q" if "q \<in> A" for q
  proof -
    have id: "ValsetUpdateId q < i" using I(3)[OF that] by simp
    then have "snapshot_sound H q" using I(3)[OF that] by (simp add: snapshot_sound_def Hold)
    moreover have "diff_sound H h (insert p A) q"
      using I(3)[OF that] id p(2) Hold[OF id] unfolding diff_sound_def
      by (metis Hold insert_iff less_imp_le order.strict_trans)
    ultimately show ?thesis by simp
  qed
  have new: "snapshot_sound H p \<and> diff_sound H h (insert p A) p"
  proof -
    have "snapshot_sound H p" using p(3) by (simp add: snapshot_sound_def p(2) pi advances_def stored_powers_def)
    moreover have "diff_sound H h (insert p A) p"
    proof (cases "IsSnapshot p")
      case False
      with p(4) have e: "GetPendingVSCPackets s c = []" "GetConsumerHighestSentVscId s c \<le> GetConsumerHighestAckedVscId s c"
        by auto
      then have hs: "h = queue_head s c" using I(9,10) by (simp add: queue_head_def)
      then have "apply_packet p (H h) = H i"
        using p(3) I(8) Hold[OF hi] by (simp add: advances_def stored_powers_def pi)
      moreover have "ValsetUpdateId q \<le> h" if "q \<in> A" for q
        using that I(4)[of q] e I(9) hs by (auto simp: A_def in_play_def s_def)
      ultimately show ?thesis unfolding diff_sound_def using hi p(2) by auto
    qed (simp add: diff_sound_def)
    ultimately show ?thesis by simp
  qed
  have play: "in_play c (l\<lparr>lp := t, hist := H\<rparr>) = insert p A"
    by (auto simp: in_play_def A_def p(1) s_def)
  have head: "queue_head t c = i" by (simp add: queue_head_def p(1,2))
  show ?thesis
    unfolding s_def[symmetric] i_def[symmetric] H_def[symmetric]
    unfolding link_inv_def Let_def play
  proof (simp add: t s_def[symmetric] i_def[symmetric] h_def[symmetric] head pi, intro conjI)
    show "set_ok ck (lc l)" by (rule I(2))
    show "0 < ValsetUpdateId p" using I(7) p(2) by simp
    show "ValsetUpdateId p < Suc i" by (simp add: p(2))
    show "snapshot_sound H p" "diff_sound H h (insert p A) p" using new by simp_all
    show "\<forall>pa\<in>A. 0 < ValsetUpdateId pa \<and> ValsetUpdateId pa < Suc i \<and> snapshot_sound H pa \<and> diff_sound H h (insert p A) pa"
      using old I(3) by (auto intro: less_SucI)
    show "\<forall>q\<in>net l. ValsetUpdateId q \<le> GetConsumerHighestSentVscId s c" using I(4) by blast
    show "\<forall>q\<in>set (GetPendingVSCPackets t c). ValsetUpdateId q \<le> i"
      using I(5,7) p(1,2) by (auto intro: order_trans less_imp_le)
    show "GetConsumerHighestSentVscId s c \<le> i" using I(6,7) by simp
    show "GetConsumerHighestAckedVscId s c \<le> h" "h \<le> GetConsumerHighestSentVscId s c" by (rule I(9), rule I(10))
    show "\<forall>i\<in>acks l. i \<le> h" using I(11) by blast
    show "effective_set ck (lc l) = H h" using I(12) Hold[OF hi] by simp
  qed
qed


subsection \<open>Sending and acknowledging\<close>

lemma send_loop_sent:
  "GetConsumerHighestSentVscId s c \<le> GetConsumerHighestSentVscId (snd (send_loop k c cl ts ps s)) c \<and>
   (\<forall>p \<in> set (sent_packets k cl ts ps (world s)).
      ValsetUpdateId p \<le> GetConsumerHighestSentVscId (snd (send_loop k c cl ts ps s)) c)"
proof (induction ps arbitrary: s)
  case (Cons p ps)
  obtain ok w where send: "SendPacket k (world s) cl ts p = (ok, w)" by force
  show ?case
  proof (cases ok)
    case True
    define s1 where "s1 = s\<lparr>world := w\<rparr>"
    define s2 where "s2 = (if ValsetUpdateId p > GetConsumerHighestSentVscId s1 c
                    then SetConsumerHighestSentVscId c (ValsetUpdateId p) s1 else s1)"
    have w: "world s2 = w" by (simp add: s2_def s1_def SetConsumerHighestSentVscId_def)
    have "GetConsumerHighestSentVscId s2 c = max (ValsetUpdateId p) (GetConsumerHighestSentVscId s c)"
      unfolding s2_def sent_mark by (simp add: s1_def GetConsumerHighestSentVscId_def)
    with Cons.IH[of s2] send True w show ?thesis by (auto simp: s1_def s2_def Let_def)
  qed (use send in \<open>simp add: GetConsumerHighestSentVscId_def\<close>)
qed simp

lemma sent_packets_subset: "set (sent_packets k cl ts ps w) \<subseteq> set ps"
  by (induction ps arbitrary: w) (auto split: prod.splits bool.splits)

lemma strict_sent:
  assumes "sendVSCPacketsToChainStrict k ctx c cl s = (ok, t)" "p \<in> set (handed_over k ctx c cl s)"
  shows "ValsetUpdateId p \<le> GetConsumerHighestSentVscId t c" "p \<in> set (GetPendingVSCPackets s c)"
proof -
  show "p \<in> set (GetPendingVSCPackets s c)"
    using assms(2) sent_packets_subset by (fastforce simp: handed_over_def split: if_splits)
  define ts where "ts = Unix (BlockTime ctx + min (VaasTimeoutPeriod (Params s)) (MaxTimeoutDelta k)) mod 2 ^ 64"
  have ck: "HasChannelKeeperV2 k" and p: "p \<in> set (sent_packets k cl ts (GetPendingVSCPackets s c) (world s))"
    using assms(2) by (auto simp: handed_over_def ts_def split: if_splits)
  have "GetConsumerHighestSentVscId t c = GetConsumerHighestSentVscId (snd (send_loop k c cl ts (GetPendingVSCPackets s c) s)) c"
    using assms(1) ck
    by (auto simp: sendVSCPacketsToChainStrict_def Let_def ts_def GetConsumerHighestSentVscId_def keeper_simps
        split: prod.splits bool.splits)
  then show "ValsetUpdateId p \<le> GetConsumerHighestSentVscId t c" using send_loop_sent[of s c k cl ts] p by auto
qed

lemma fold_max_le: "\<forall>y \<in> set ys. y \<le> b \<Longrightarrow> x \<le> b \<Longrightarrow> fold max ys x \<le> (b :: nat)"
  by (induction ys arbitrary: x) auto

lemma fold_max_mem: "y \<in> set ys \<Longrightarrow> y \<le> fold max ys (x :: nat)"
proof (induction ys arbitrary: x)
  case (Cons z zs)
  then show ?case using fold_max_ge[of "max z x" zs] by (auto intro: order_trans[OF max.cobounded1])
qed simp

lemma link_inv_send:
  assumes inv: "link_inv ck c l" and send: "sendVSCPacketsToChainStrict k ctx c cl (lp l) = (ok, t)"
  shows "link_inv ck c (l\<lparr>lp := t, net := net l \<union> set (handed_over k ctx c cl (lp l))\<rparr>)"
proof -
  define s where "s = lp l"
  define ps where "ps = GetPendingVSCPackets s c"
  define l' where "l' = l\<lparr>lp := t, net := net l \<union> set (handed_over k ctx c cl (lp l))\<rparr>"
  obtain n where n: "GetConsumerHighestSentVscId t c = fold max (map ValsetUpdateId (take n ps)) (GetConsumerHighestSentVscId s c)"
    "if ok then n = length ps else n = 0 \<or> n < length ps" "GetPendingVSCPackets t c = (if ok then [] else ps)"
    "ConsumerValidators t = ConsumerValidators s" "ConsumerHighestAckedVscId t = ConsumerHighestAckedVscId s"
    "ValidatorSetUpdateId t = ValidatorSetUpdateId s"
    using sendStrict_effect[OF send] unfolding s_def ps_def by auto
  have fr: "stored_powers t c = stored_powers s c" "GetConsumerHighestAckedVscId t c = GetConsumerHighestAckedVscId s c"
    "valsets_ok t = valsets_ok s"
    using n(4,5) by (simp_all add: stored_powers_def GetConsumerHighestAckedVscId_def valsets_ok_def GetConsumerValSet_def)
  from inv have I: "\<forall>q \<in> set ps. ValsetUpdateId q \<le> queue_head s c" "GetConsumerHighestSentVscId s c \<le> queue_head s c"
    "\<forall>q \<in> net l. ValsetUpdateId q \<le> GetConsumerHighestSentVscId s c" "highest_id (lc l) \<le> GetConsumerHighestSentVscId s c"
    by (simp_all add: link_inv_def Let_def s_def ps_def)
  have ge: "GetConsumerHighestSentVscId s c \<le> GetConsumerHighestSentVscId t c" using n(1) fold_max_ge by simp
  have le: "GetConsumerHighestSentVscId t c \<le> queue_head s c"
    unfolding n(1) by (rule fold_max_le) (use I(1,2) in_set_takeD in fastforce)+
  have head: "queue_head t c = queue_head s c"
  proof (cases "ok \<and> ps \<noteq> []")
    case True
    then have "ValsetUpdateId (last ps) \<le> GetConsumerHighestSentVscId t c"
      unfolding n(1) using n(2) by (intro fold_max_mem) auto
    then show ?thesis using True le n(3) by (simp add: queue_head_def ps_def[symmetric])
  next
    case False
    then show ?thesis using n(1,3) by (auto simp: queue_head_def ps_def[symmetric])
  qed
  have sub: "in_play c l' \<subseteq> in_play c l"
    using strict_sent(2)[OF send] n(3) by (auto simp: in_play_def l'_def ps_def s_def split: if_splits)
  then have sound: "\<forall>p\<in>in_play c l'. 0 < ValsetUpdateId p \<and> ValsetUpdateId p < ValidatorSetUpdateId s \<and>
      snapshot_sound (hist l) p \<and> diff_sound (hist l) (highest_id (lc l)) (in_play c l') p"
    using inv unfolding link_inv_def Let_def s_def diff_sound_def by blast
  have "\<forall>q \<in> net l'. ValsetUpdateId q \<le> GetConsumerHighestSentVscId t c"
    using I(3) ge strict_sent(1)[OF send] by (auto simp: l'_def intro: order_trans)
  moreover have "\<forall>q \<in> set (GetPendingVSCPackets t c). ValsetUpdateId q \<le> queue_head t c"
    using I(1) n(3) head by simp
  ultimately have "link_inv ck c l'"
    using inv sound n(6) fr le ge head I(4) unfolding link_inv_def Let_def
    by (simp add: l'_def s_def[symmetric])
  then show ?thesis by (simp add: l'_def)
qed

lemma link_inv_ack:
  assumes inv: "link_inv ck c l" and i: "i \<in> acks l"
  shows "link_inv ck c (l\<lparr>lp := OnAcknowledgementPacketV2 ctx clientId i ackError (lp l)\<rparr>)"
proof -
  define s where "s = lp l"
  define t where "t = OnAcknowledgementPacketV2 ctx clientId i ackError s"
  have t: "GetPendingVSCPackets t c = GetPendingVSCPackets s c" "stored_powers t c = stored_powers s c"
    "GetConsumerHighestSentVscId t c = GetConsumerHighestSentVscId s c" "valsets_ok t = valsets_ok s"
    "ValidatorSetUpdateId t = ValidatorSetUpdateId s"
    "GetConsumerHighestAckedVscId t c \<le> max i (GetConsumerHighestAckedVscId s c)"
    by (auto simp: t_def OnAcknowledgementPacketV2_def Let_def GetPendingVSCPackets_def stored_powers_def
        GetConsumerValSet_def GetConsumerHighestSentVscId_def GetConsumerHighestAckedVscId_def valsets_ok_def
        SetConsumerLastAckTime_def SetConsumerHighestAckedVscId_def split: option.splits)
  have "queue_head t c = queue_head s c" by (simp add: queue_head_def t)
  then show ?thesis using inv i t unfolding link_inv_def Let_def in_play_def
    by (simp add: s_def[symmetric] t_def[symmetric]) force
qed

subsection \<open>The consumer\<close>

lemma link_inv_consumer:
  assumes inv: "link_inv ck c l" and t: "set_ok ck t" "effective_set ck t = effective_set ck (lc l)"
    "highest_id t = highest_id (lc l)"
  shows "link_inv ck c (l\<lparr>lc := t\<rparr>)"
  using inv t by (simp add: link_inv_def Let_def in_play_def)

lemma link_inv_recv:
  assumes laws: "key_laws ck" and inv: "link_inv ck c l" and p: "p \<in> net l"
    and recv: "OnRecvVSCPacketV2 ck (cx :: cctx) clientId p (lc l) = Ok t"
  shows "link_inv ck c (l\<lparr>lc := t, acks := insert (ValsetUpdateId p) (acks l)\<rparr>)"
proof -
  define h where "h = highest_id (lc l)"
  define i where "i = ValsetUpdateId p"
  define s where "s = lp l"
  from inv have I: "set_ok ck (lc l)"
    "\<And>q. q \<in> in_play c l \<Longrightarrow> 0 < ValsetUpdateId q \<and> ValsetUpdateId q < ValidatorSetUpdateId s \<and> snapshot_sound (hist l) q \<and> diff_sound (hist l) h (in_play c l) q"
    "\<And>q. q \<in> net l \<Longrightarrow> ValsetUpdateId q \<le> GetConsumerHighestSentVscId s c"
    "GetConsumerHighestAckedVscId s c \<le> h" "\<forall>j \<in> acks l. j \<le> h" "effective_set ck (lc l) = hist l h"
    by (simp_all add: link_inv_def Let_def h_def s_def)
  have play: "p \<in> in_play c l" using p by (simp add: in_play_def)
  note e = OnRecv_effect[OF laws I(1) recv]
  have new: "highest_id t = max i h" "effective_set ck t = hist l (max i h)"
  proof -
    show "highest_id t = max i h" using e(3) by (simp add: i_def h_def max_def split: if_splits)
    show "effective_set ck t = hist l (max i h)"
    proof (cases "i \<le> h")
      case True
      then show ?thesis using e(3) I(6) by (simp add: i_def h_def max_def)
    next
      case False
      then have "effective_set ck t = apply_packet p (hist l h)" using e(3) I(6) by (simp add: i_def h_def)
      also have "\<dots> = hist l i"
      proof (cases "IsSnapshot p")
        case True
        then show ?thesis using I(2)[OF play] by (simp add: snapshot_sound_def i_def)
      next
        case diff: False
        then obtain b where "apply_packet p (hist l b) = hist l i" "h = b \<or> i \<le> h"
          using I(2)[OF play] by (auto simp: diff_sound_def i_def)
        then show ?thesis using False by simp
      qed
      finally show ?thesis using False by (simp add: max_def)
    qed
  qed
  have sound: "diff_sound (hist l) (max i h) (in_play c l) q" if q: "q \<in> in_play c l" for q
  proof (cases "IsSnapshot q")
    case False
    then obtain b where b: "b < ValsetUpdateId q" "apply_packet q (hist l b) = hist l (ValsetUpdateId q)"
      "\<forall>r \<in> in_play c l. ValsetUpdateId r \<le> b \<or> ValsetUpdateId q \<le> ValsetUpdateId r" "h = b \<or> ValsetUpdateId q \<le> h"
      using I(2)[OF q] by (auto simp: diff_sound_def)
    have "max i h = b \<or> ValsetUpdateId q \<le> max i h"
      using b(4) bspec[OF b(3) play] by (auto simp: i_def[symmetric] max_def)
    with b show ?thesis unfolding diff_sound_def by blast
  qed (simp add: diff_sound_def)
  have "max i h \<le> GetConsumerHighestSentVscId s c"
    using I(3)[OF p] inv by (simp add: i_def h_def link_inv_def Let_def s_def)
  moreover have "i \<le> max i h" by simp
  ultimately show ?thesis using inv e(1) I(2,4,5) new sound
    unfolding link_inv_def Let_def
    by (simp add: in_play_def i_def[symmetric] h_def[symmetric] s_def[symmetric]) (auto intro: le_max_iff_disj[THEN iffD2])
qed

lemma link_inv_step:
  assumes "key_laws ck" "link_step k ck c l l'" "link_inv ck c l"
  shows "link_inv ck c l'"
  using assms(2,3)
proof cases
  case (epoch ctx t)
  have ok: "valsets_ok (lp l)" using assms(3) by (simp add: link_inv_def Let_def)
  note q = QueueVSCPackets_Ok[OF epoch(2,3) ok]
  show ?thesis
  proof (cases "c \<in> set (GetAllLaunchedConsumerIds (lp l))")
    case True
    then obtain p where "queued (ValidatorSetUpdateId (lp l)) (lp l) c p t" using q(4) by blast
    from link_inv_queue[OF assms(3) this q(1,3,6,7)] True show ?thesis by (simp add: epoch(1))
  next
    case False
    then have "relay_frame c (lp l) t" using q(1,3,6,7) q(5)[OF False] by (simp add: relay_frame_def untouched_def stored_powers_def)
    from link_inv_frame[OF assms(3) this] False show ?thesis by (simp add: epoch(1))
  qed
next
  case (snapshot ctx t)
  have ok: "valsets_ok (lp l)" using assms(3) by (simp add: link_inv_def Let_def)
  note q = QueueImmediateSnapshot_Ok[OF snapshot(2,3) ok]
  obtain p where "queued (ValidatorSetUpdateId (lp l)) (lp l) c p t" using q(4) by blast
  from link_inv_queue[OF assms(3) this q(1,3) q(6,7)] show ?thesis by (simp add: snapshot(1))
next
  case (send ctx clientId ok t)
  then show ?thesis using link_inv_send[OF assms(3)] by simp
next
  case (ack i ctx clientId ackError)
  then show ?thesis using link_inv_ack[OF assms(3)] by simp
next
  case (timeout clientId)
  then show ?thesis using assms(3) by (simp add: OnTimeoutPacketV2_def)
next
  case (provider_other t)
  then show ?thesis using link_inv_frame[OF assms(3)] by simp
next
  case (recv p cx clientId t')
  then show ?thesis using link_inv_recv[OF assms(1,3)] by simp
next
  case (end_block cx updates t')
  have ok: "set_ok ck (lc l)" using assms(3) by (simp add: link_inv_def Let_def)
  note e = EndBlock_effect[OF assms(1) ok end_block(2)]
  show ?thesis unfolding end_block(1)
    by (rule link_inv_consumer[OF assms(3)]) (use e in \<open>simp_all add: highest_id_def\<close>)
next
  case (consumer_other t')
  have ok: "set_ok ck (lc l)" using assms(3) by (simp add: link_inv_def Let_def)
  show ?thesis unfolding consumer_other(1)
    by (rule link_inv_consumer[OF assms(3)])
      (use effective_set_cong[OF consumer_other(2,3)] ok consumer_other(4) in \<open>simp_all add: highest_id_def\<close>)
qed

interpretation link_run: step_invariant "\<lambda>l l'. key_laws ck \<and> link_step k ck c l l'" "link_inv ck c" for k ck c
  by unfold_locales (blast intro: link_inv_step)

lemma link_inv_reachable:
  assumes "key_laws ck" "link_start ck c l0" "link_reachable k ck c l0 l"
  shows "link_inv ck c l"
  using link_run.steps_inv[of ck k c l0 l] assms link_inv_start[OF assms(2)] by (simp add: link_reachable_def)


subsection \<open>A run: a snapshot is queued, sent and received\<close>

definition ex_link_keeper :: "unit keeper" where
  "ex_link_keeper = ex_relay_keeper\<lparr>SendPacket := (\<lambda>w _ _ _. (True, w))\<rparr>"

definition ex_link :: "(unit, unit) link" where
  "ex_link = \<lparr>lp = ex_relay_state, lc = ex_cstate, net = {}, acks = {}, hist = (\<lambda>_. Map.empty)\<rparr>"

definition ex_vsc :: ValidatorSetChangePacketData where
  "ex_vsc = \<lparr>ValidatorUpdates = [\<lparr>PubKey = [1], Power = 7\<rparr>], ValsetUpdateId = 4, ConsumerInDebt = False,
     IsSnapshot = True, vsc_DowntimeParams = Some (CurrentDowntimeParams ex_relay_state)\<rparr>"

lemma ex_key_laws: "key_laws ex_ckeeper"
  by (simp add: key_laws_def ex_ckeeper_def)

lemma ex_link_start: "link_start ex_ckeeper 0 ex_link"
proof -
  have "GetConsumerValSet ex_relay_state 0 = []"
    by (simp add: GetConsumerValSet_def ex_relay_state_def blank_pstate_def store_range_def)
  then have "stored_powers ex_relay_state 0 = Map.empty" by (simp add: stored_powers_def powers_def)
  moreover have "consumer_powers ex_ckeeper ex_cstate = Map.empty"
    by (rule ext) (simp add: consumer_powers_def ex_ckeeper_def ex_cstate_def GetVaasValidator_def)
  moreover have "set_ok ex_ckeeper ex_cstate"
    by (simp add: set_ok_def stored_well_def ex_cstate_def GetVaasValidator_def pending_updates_def decodable_def)
  ultimately show ?thesis
    using ex_valsets_ok
    by (simp add: link_start_def ex_link_def)
      (simp add: ex_relay_state_def blank_pstate_def ex_cstate_def GetPendingVSCPackets_def
        GetConsumerHighestSentVscId_def GetConsumerHighestAckedVscId_def)
qed

definition ex_queued :: "unit pstate" where
  "ex_queued = IncrementValidatorSetUpdateId (AppendPendingVSCPackets 0 [ex_vsc]
     (SetConsumerValSet 0 [ex_relay_entry] ex_relay_state))"

lemma ex_snapshot: "QueueImmediateSnapshotVSCPacket ex_link_keeper (ex_ctx 5) 0 ex_relay_state = Ok ex_queued"
proof -
  have "CreateConsumerValidators ex_link_keeper (ex_ctx 5) ex_relay_state 0 [ex_validator] = Ok [ex_relay_entry]"
    by (simp add: CreateConsumerValidators_def CreateConsumerValidator_def ex_link_keeper_def ex_relay_keeper_def ex_relay_state_def
        ex_relay_entry_def blank_keeper_def blank_pstate_def ex_validator_def keeper_simps ex_ctx_def)
  moreover have "GetLastBondedValidators ex_link_keeper ex_relay_state = Ok [ex_validator]"
    by (simp add: GetLastBondedValidators_def ex_link_keeper_def ex_relay_keeper_def)
  moreover have "buildVSCPacket (SetConsumerValSet 0 [ex_relay_entry] ex_relay_state) 0
      (FullValSetUpdates [ex_relay_entry]) (ValidatorSetUpdateId ex_relay_state) True = ex_vsc"
    by (simp add: buildVSCPacket_def ex_vsc_def FullValSetUpdates_def ex_relay_entry_def ex_relay_state_def
        IsConsumerInDebt_def SetConsumerValSet_eq CurrentDowntimeParams_def blank_pstate_def)
  ultimately show ?thesis
    by (simp add: QueueImmediateSnapshotVSCPacket_def ComputeConsumerNextValSet_def ex_queued_def Let_def)
qed

lemma ex_pending: "GetPendingVSCPackets ex_queued 0 = [ex_vsc]"
  by (simp add: ex_queued_def IncrementValidatorSetUpdateId_def AppendPendingVSCPackets_def GetPendingVSCPackets_def
      SetConsumerValSet_eq ex_relay_state_def blank_pstate_def)

lemma ex_handed: "handed_over ex_link_keeper (ex_ctx 5) 0 ''07-tendermint-9'' ex_queued = [ex_vsc]"
  by (simp add: handed_over_def ex_pending) (simp add: ex_link_keeper_def ex_relay_keeper_def blank_keeper_def)

lemma ex_recv: "is_ok (OnRecvVSCPacketV2 ex_ckeeper ex_cctx ''07-tendermint-0'' ex_vsc ex_cstate)"
  by (simp add: OnRecvVSCPacketV2_def ValidatorSetChangePacketData_Validate_def authenticateProviderChainID_def
      enforcePinnedProviderClient_def wouldEmptyValidatorSet_def hasPositivePower_def Let_def
      ex_ckeeper_def ex_vsc_def ex_cstate_def)


subsection \<open>Properties\<close>

text \<open>
  C1. \<open>consumer_follows_the_provider\<close>: over any number of epochs, snapshots, sends (failing half-way
  or not), losses, delays, reorderings, repetitions, acknowledgements and block ends, the validator
  set the consumer is heading for is exactly the one the provider stored when it queued the packet
  with the highest id the consumer has accepted (its genesis set before the first). The ids the
  provider takes for acknowledged have been applied, the consumer is never ahead of what was sent,
  and once nothing is queued and everything sent is acknowledged, the consumer's set is the set the
  provider stores now.
\<close>

theorem consumer_follows_the_provider:
  assumes "key_laws ck" "link_start ck c l0" "link_reachable k ck c l0 l"
  shows "effective_set ck (lc l) = hist l (highest_id (lc l)) \<and>
    GetConsumerHighestAckedVscId (lp l) c \<le> highest_id (lc l) \<and>
    highest_id (lc l) \<le> GetConsumerHighestSentVscId (lp l) c \<and>
    (GetPendingVSCPackets (lp l) c = [] \<and>
       GetConsumerHighestSentVscId (lp l) c \<le> GetConsumerHighestAckedVscId (lp l) c \<longrightarrow>
     effective_set ck (lc l) = powers (GetConsumerValSet (lp l) c))"
proof -
  have inv: "link_inv ck c l" by (rule link_inv_reachable[OF assms])
  then have I: "effective_set ck (lc l) = hist l (highest_id (lc l))"
    "GetConsumerHighestAckedVscId (lp l) c \<le> highest_id (lc l)"
    "highest_id (lc l) \<le> GetConsumerHighestSentVscId (lp l) c"
    "hist l (queue_head (lp l) c) = stored_powers (lp l) c"
    by (simp_all add: link_inv_def Let_def)
  moreover have "highest_id (lc l) = queue_head (lp l) c"
    if "GetPendingVSCPackets (lp l) c = []" "GetConsumerHighestSentVscId (lp l) c \<le> GetConsumerHighestAckedVscId (lp l) c"
    using that I(2,3) by (simp add: queue_head_def)
  ultimately show ?thesis by (simp add: stored_powers_def)
qed

theorem consumer_follows_the_provider_witness:
  "\<exists>l. link_reachable ex_link_keeper ex_ckeeper 0 ex_link l \<and> highest_id (lc l) = 4 \<and>
     effective_set ex_ckeeper (lc l) = hist l 4 \<and> effective_set ex_ckeeper (lc l) [1] = Some 7"
proof -
  define l1 where "l1 = ex_link\<lparr>lp := ex_queued, hist := (hist ex_link)(4 := stored_powers ex_queued 0)\<rparr>"
  have "link_step ex_link_keeper ex_ckeeper 0 ex_link l1"
    using link_step.snapshot[of ex_link_keeper "ex_ctx 5" 0 ex_link ex_queued ex_ckeeper] ex_snapshot
    by (simp add: l1_def ex_link_def) (simp add: ex_relay_state_def ex_link_keeper_def ex_relay_keeper_def staking_laws_def)
  then have r1: "link_reachable ex_link_keeper ex_ckeeper 0 ex_link l1"
    unfolding link_reachable_def by (rule r_into_rtranclp)
  obtain ok t where send: "sendVSCPacketsToChainStrict ex_link_keeper (ex_ctx 5) 0 ''07-tendermint-9'' ex_queued = (ok, t)" by force
  define l2 where "l2 = l1\<lparr>lp := t, net := {ex_vsc}\<rparr>"
  have "link_step ex_link_keeper ex_ckeeper 0 l1 l2"
    using link_step.send[of ex_link_keeper "ex_ctx 5" 0 "''07-tendermint-9''" l1 ok t ex_ckeeper] send ex_handed
    by (simp add: l2_def l1_def ex_link_def)
  with r1 have r2: "link_reachable ex_link_keeper ex_ckeeper 0 ex_link l2"
    unfolding link_reachable_def by (rule rtranclp.rtrancl_into_rtrancl)
  obtain u where recv: "OnRecvVSCPacketV2 ex_ckeeper ex_cctx ''07-tendermint-0'' ex_vsc ex_cstate = Ok u"
    using ex_recv by (auto simp: is_ok_iff)
  define l3 where "l3 = l2\<lparr>lc := u, acks := {4}\<rparr>"
  have "link_step ex_link_keeper ex_ckeeper 0 l2 l3"
    using link_step.recv[of ex_vsc l2 ex_ckeeper ex_cctx "''07-tendermint-0''" u ex_link_keeper 0] recv
    by (simp add: l3_def l2_def l1_def ex_link_def) (simp add: ex_vsc_def)
  with r2 have r3: "link_reachable ex_link_keeper ex_ckeeper 0 ex_link l3"
    unfolding link_reachable_def by (rule rtranclp.rtrancl_into_rtrancl)
  have "set_ok ex_ckeeper ex_cstate" using ex_link_start by (simp add: link_start_def ex_link_def)
  from OnRecv_effect(3)[OF ex_key_laws this recv]
  have "highest_id u = 4" "effective_set ex_ckeeper u [1] = Some 7"
    by (simp_all add: ex_vsc_def highest_id_def ex_cstate_def apply_packet_def apply_update_def)
  with consumer_follows_the_provider[OF ex_key_laws ex_link_start r3] r3 show ?thesis
    by (intro exI[of _ l3]) (simp add: l3_def)
qed

text \<open>
  C33. \<open>consumer_set_never_empties\<close>: a packet the consumer accepts never leaves it without a validator
  (a diff whose effect would be an empty set is refused; a snapshot of distinct keys names at least
  one validator), and ending the block with the pending changes applies them without a panic, so that
  the stored validators are then exactly that set.
\<close>

theorem consumer_set_never_empties:
  assumes "key_laws ck" "set_ok ck s" "OnRecvVSCPacketV2 ck ctx clientId p s = Ok t" "highest_id s < ValsetUpdateId p"
    and "distinct (map PubKey (ValidatorUpdates p))" "\<And>w a b. AfterValidatorBonded ck w a b \<noteq> None"
  shows "(\<exists>key. effective_set ck t key \<noteq> None) \<and>
    (\<exists>us u. Consumer_EndBlock ck ctx' t = Ok (us, u) \<and> consumer_powers ck u = effective_set ck t)"
proof -
  obtain s1 where s1: "ValidatorSetChangePacketData_Validate (PubKeyFromProto ck) p = Ok ()"
    "authenticateProviderChainID ck clientId s = Ok s1" "enforcePinnedProviderClient clientId s1 = Ok ()"
    "\<exists>x. s1 = s\<lparr>ProviderChainId := x\<rparr>"
    "if (case HighestValsetUpdateID s of None \<Rightarrow> False | Some h \<Rightarrow> ValsetUpdateId p \<le> h) then t = s1
     else wouldEmptyValidatorSet ck p s1 = Ok False"
    by (rule recv_checks[OF assms(3)])
  note e = OnRecv_effect[OF assms(1-3)]
  have fr: "effective_set ck s1 = effective_set ck s" "set_ok ck s1"
    using s1(4) effective_set_cong[of s1 s ck] assms(2) by auto
  have "wouldEmptyValidatorSet ck p s1 = Ok False"
    using s1(5) assms(4) by (auto simp: highest_id_def split: option.splits if_splits)
  from packet_keeps_a_validator[OF assms(1) fr(2) Validate_decodable(1)[OF assms(1) s1(1)] this] assms(4,5) e(3) fr(1)
  have "\<exists>key. effective_set ck t key \<noteq> None" by auto
  moreover have "\<exists>us u. Consumer_EndBlock ck ctx' t = Ok (us, u)"
  proof -
    define t1 where "t1 = SendEvidencePackets ck ctx' t"
    have "pending_updates t1 = pending_updates t"
      using SendEvidencePackets_frame[of ck ctx' t] by (auto simp: t1_def pending_updates_def)
    then have "decodable ck (pending_updates t1)" using e(1) by (simp add: set_ok_def)
    then have "\<exists>out u. ApplyVaasValidatorChanges ck (pending_updates t1) t1 = Ok (out, u)"
      by (rule ApplyVaasValidatorChanges_Ok) (rule assms(6))
    then show ?thesis
      by (cases "PendingChanges t1") (auto simp: Consumer_EndBlock_def t1_def[symmetric] Let_def pending_updates_def)
  qed
  ultimately show ?thesis using EndBlock_effect(3)[OF assms(1) e(1)] by blast
qed

theorem consumer_set_never_empties_witness:
  "\<exists>t. OnRecvVSCPacketV2 ex_ckeeper ex_cctx ''07-tendermint-0'' ex_vsc ex_cstate = Ok t \<and>
     (\<exists>key. effective_set ex_ckeeper t key \<noteq> None)"
proof -
  obtain t where recv: "OnRecvVSCPacketV2 ex_ckeeper ex_cctx ''07-tendermint-0'' ex_vsc ex_cstate = Ok t"
    using ex_recv by (auto simp: is_ok_iff)
  have "set_ok ex_ckeeper ex_cstate" using ex_link_start by (simp add: link_start_def ex_link_def)
  moreover have "highest_id ex_cstate < ValsetUpdateId ex_vsc" "distinct (map PubKey (ValidatorUpdates ex_vsc))"
    "AfterValidatorBonded ex_ckeeper w a b \<noteq> None" for w a b
    by (simp_all add: highest_id_def ex_cstate_def ex_vsc_def ex_ckeeper_def)
  ultimately show ?thesis using consumer_set_never_empties[OF ex_key_laws _ recv] recv by blast
qed

end
