(* ===== verification/ConsumerProps.thy ===== *)
theory ConsumerProps
  imports ConsumerSet
begin

text \<open>
  Properties of the consumer on its own: the genesis round trip, the pruning of historical infos,
  the permanence of the provider pin and the bound of the evidence queue over all of its steps.
\<close>

subsection \<open>Genesis\<close>

definition fresh_cstate :: "'w \<Rightarrow> ConsumerParams \<Rightarrow> 'w cstate" where
  "fresh_cstate w params =
     \<lparr>ProviderClientID = None, PendingChanges = None, InitGenesisHeight_c = None, CParams = params, CInDebt = None,
      VaasValidators = empty_store, HistoricalInfos = empty_store, HighestValsetUpdateID = None,
      PendingEvidencePackets = empty_store, LastVSCRecvTime = None, MissedBlockBitmaps = empty_store,
      FirstTrackedHeights = empty_store, StagedDowntimeParams = None, ProviderChainId = None, cworld = w\<rparr>"

definition evidence_keyed :: "'w ckeeper \<Rightarrow> 'w cstate \<Rightarrow> bool" where
  "evidence_keyed k s \<longleftrightarrow>
     (\<forall>key bz. store_get (PendingEvidencePackets s) key = Some bz \<longrightarrow>
        (\<exists>e. UnmarshalEvidence k bz = Some e \<and> pendingEvidenceKey e = key))"

lemma restore_evidence:
  assumes "\<forall>e \<in> set es. \<exists>packet. UnmarshalEvidence k (snd e) = Some packet \<and> pendingEvidenceKey packet = fst e"
  shows "fold_res (init_pending_evidence k) (map (\<lambda>kv. (fst (fst kv), snd kv)) es) s =
    Ok (s\<lparr>PendingEvidencePackets := fold (\<lambda>e. store_set (fst e) (snd e)) es (PendingEvidencePackets s)\<rparr>)"
  using assms
proof (induction es arbitrary: s)
  case (Cons e es)
  then obtain packet where "UnmarshalEvidence k (snd e) = Some packet" "pendingEvidenceKey packet = fst e" by auto
  then show ?case using Cons by (simp add: init_pending_evidence_def)
qed simp

lemma restore_set:
  assumes laws: "key_laws k" "\<And>w a b. AfterValidatorBonded k w a b \<noteq> None"
    and vs: "\<forall>v \<in> set vs. 0 < vv_Power v \<and> (\<exists>p. FromCmtProtoPublicKey k p = Some (vv_Pubkey v)) \<and>
      PubKeyAddr k (vv_Pubkey v) = vv_Address v" "distinct (map vv_Address vs)"
    and fresh: "\<forall>v \<in> set vs. GetVaasValidator s (vv_Address v) = None"
  shows "\<exists>ret' w. fold_res (apply_change k) (map (as_update k) vs) (ret, s) =
    Ok (ret', s\<lparr>VaasValidators := fold (\<lambda>v. store_set (vv_Address v) v) vs (VaasValidators s), cworld := w\<rparr>)"
  using vs fresh
proof (induction vs arbitrary: ret s)
  case Nil
  show ?case by (intro exI[of _ ret] exI[of _ "cworld s"]) simp
next
  case (Cons v vs)
  then obtain p where p: "FromCmtProtoPublicKey k p = Some (vv_Pubkey v)" by auto
  then have to: "ToCmtProtoPublicKey k (vv_Pubkey v) = Some p" using laws(1) by (simp add: key_laws_def)
  have none: "GetVaasValidator s (vv_Address v) = None" and pos: "0 < vv_Power v"
    and addr: "PubKeyAddr k (vv_Pubkey v) = vv_Address v" using Cons.prems by auto
  have new: "NewVaasValidator (vv_Address v) (vv_Power v) (vv_Pubkey v) = v" by (simp add: NewVaasValidator_def)
  define s1 where "s1 = SetVaasValidator v s"
  obtain w where w: "AfterValidatorBonded k (cworld s1) (vv_Address v) (vv_Address v) = Some w"
    using laws(2)[of "cworld s1" "vv_Address v" "vv_Address v"] by auto
  have step: "apply_change k (as_update k v) (ret, s) = Ok (ret @ [as_update k v], s1\<lparr>cworld := w\<rparr>)"
    using p to none pos addr new w by (simp add: apply_change_def as_update_def Let_def s1_def)
  have "GetVaasValidator (s1\<lparr>cworld := w\<rparr>) (vv_Address u) = None" if "u \<in> set vs" for u
  proof -
    have "vv_Address v \<notin> vv_Address ` set vs" "vv_Address u \<in> vv_Address ` set vs" using that Cons.prems(2) by simp_all
    then have "vv_Address u \<noteq> vv_Address v" by metis
    then show ?thesis using that Cons.prems(3) by (simp add: s1_def SetVaasValidator_def GetVaasValidator_def)
  qed
  with Cons.IH[of "s1\<lparr>cworld := w\<rparr>" "ret @ [as_update k v]"] Cons.prems obtain ret' w' where
    "fold_res (apply_change k) (map (as_update k) vs) (ret @ [as_update k v], s1\<lparr>cworld := w\<rparr>) =
      Ok (ret', s1\<lparr>cworld := w\<rparr>\<lparr>VaasValidators := fold (\<lambda>v. store_set (vv_Address v) v) vs (VaasValidators s1), cworld := w'\<rparr>)"
    by auto
  then show ?case using step by (intro exI[of _ ret'] exI[of _ w']) (simp add: s1_def SetVaasValidator_def)
qed

lemma stored_addresses:
  assumes "stored_well k s"
  shows "map vv_Address (GetAllVaasValidator s) = map fst (entries (VaasValidators s))"
    "fold (\<lambda>v. store_set (vv_Address v) v) (GetAllVaasValidator s) empty_store = VaasValidators s"
proof -
  have e: "vv_Address (snd e) = fst e" if "e \<in> set (entries (VaasValidators s))" for e
  proof -
    have "GetVaasValidator s (fst e) = Some (snd e)" using that by (simp add: GetVaasValidator_def kv.iter_mem[symmetric])
    then show ?thesis using assms by (simp add: stored_well_def)
  qed
  then show "map vv_Address (GetAllVaasValidator s) = map fst (entries (VaasValidators s))"
    by (simp add: GetAllVaasValidator_def)
  have "fold (\<lambda>v. store_set (vv_Address v) v) (GetAllVaasValidator s) empty_store
      = fold (\<lambda>e. store_set (fst e) (snd e)) (entries (VaasValidators s)) empty_store"
    unfolding GetAllVaasValidator_def fold_map by (rule fold_cong) (simp_all add: e)
  then show "fold (\<lambda>v. store_set (vv_Address v) v) (GetAllVaasValidator s) empty_store = VaasValidators s"
    by (simp add: rebuild_store)
qed

definition restart_file :: "'w ckeeper \<Rightarrow> 'w cstate \<Rightarrow> GenesisState" where
  "restart_file k s =
     (NewRestartGenesisState (case ProviderClientID s of None \<Rightarrow> '''' | Some clientID \<Rightarrow> clientID)
        (map (as_update k) (GetAllVaasValidator s)) (CParams s))
       \<lparr>gs_HighestValsetUpdateId := (case HighestValsetUpdateID s of None \<Rightarrow> 0 | Some i \<Rightarrow> i),
        gs_ProviderChainId := (case ProviderChainId s of None \<Rightarrow> '''' | Some chainId \<Rightarrow> chainId),
        gs_LastVscRecvTime := LastVSCRecvTime s, gs_ConsumerInDebt := IsConsumerInDebt_c s,
        gs_MissedBlockBitmaps := entries (MissedBlockBitmaps s), gs_FirstTrackedHeights := entries (FirstTrackedHeights s),
        gs_PendingEvidencePackets := map (\<lambda>kv. (fst (fst kv), snd kv)) (entries (PendingEvidencePackets s)),
        gs_StagedDowntimeParams := StagedDowntimeParams s\<rparr>"

lemma export_is_restart_file:
  assumes "key_laws k" "stored_well k s"
  shows "Consumer_ExportGenesis k s = Ok (restart_file k s)"
  using MustGetCurrent_eq[OF assms]
  by (simp add: Consumer_ExportGenesis_def restart_file_def exportMissedBlockBitmaps_def exportFirstTrackedHeights_def
      exportPendingEvidencePackets_def)

text \<open>The state the import passes through: what concerns the provider is restored, then the rest but for the validators.\<close>

definition restored_but_set :: "'w \<Rightarrow> int \<Rightarrow> 'w cstate \<Rightarrow> 'w cstate" where
  "restored_but_set w height s = s\<lparr>InitGenesisHeight_c := Some height, HistoricalInfos := empty_store,
     CInDebt := (if IsConsumerInDebt_c s then Some True else None), VaasValidators := empty_store, cworld := w\<rparr>"

definition restored_pins :: "'w \<Rightarrow> int \<Rightarrow> 'w cstate \<Rightarrow> 'w cstate" where
  "restored_pins w height s = (restored_but_set w height s)\<lparr>LastVSCRecvTime := None, MissedBlockBitmaps := empty_store,
     FirstTrackedHeights := empty_store, PendingEvidencePackets := empty_store, StagedDowntimeParams := None\<rparr>"

lemma restart_pins:
  fixes s :: "'w cstate"
  assumes s: "PendingChanges s = None" "HighestValsetUpdateID s \<noteq> Some 0" "ProviderClientID s \<noteq> Some ''''" "ProviderChainId s \<noteq> Some ''''"
    and client: "\<And>x. ProviderClientID s = Some x \<Longrightarrow> c_GetClientState k w x \<noteq> None"
  shows "init_provider_info k (restart_file k s) ((fresh_cstate w params)\<lparr>InitGenesisHeight_c := Some height, CParams := CParams s\<rparr>) =
    Ok (restored_pins w height s)"
proof -
  let ?gs = "restart_file k s"
  define f where "f = (fresh_cstate w params)\<lparr>InitGenesisHeight_c := Some height, CParams := CParams s\<rparr>"
  have fw: "cworld f = w" by (simp add: f_def fresh_cstate_def)
  note g = restart_file_def NewRestartGenesisState_def
  have new: "gs_NewChain ?gs = False" by (simp add: g)
  have a: "(if gs_ProviderClientId ?gs \<noteq> ''''
                then (case c_GetClientState k (cworld f) (gs_ProviderClientId ?gs) of
                        None \<Rightarrow> Panic
                      | Some _ \<Rightarrow> Ok (f\<lparr>ProviderClientID := Some (gs_ProviderClientId ?gs)\<rparr>))
                else Ok f) = (Ok (f\<lparr>ProviderClientID := ProviderClientID s\<rparr>) :: 'w cstate result)"
    using s(3) client by (cases "ProviderClientID s") (auto simp: g fw f_def fresh_cstate_def split: option.splits)
  have b: "(if gs_ProviderChainId ?gs \<noteq> '''' then u\<lparr>ProviderChainId := Some (gs_ProviderChainId ?gs)\<rparr> else u) =
      u\<lparr>ProviderChainId := ProviderChainId s\<rparr>" if "ProviderChainId u = None" for u :: "'w cstate"
    using s(4) that by (cases "ProviderChainId s") (auto simp: g)
  have d: "(if gs_ConsumerInDebt ?gs then u\<lparr>CInDebt := Some True\<rparr> else u) =
      u\<lparr>CInDebt := (if IsConsumerInDebt_c s then Some True else None)\<rparr>" if "CInDebt u = None" for u :: "'w cstate"
    using that by (simp add: g)
  have hid: "gs_HighestValsetUpdateId ?gs = (case HighestValsetUpdateID s of None \<Rightarrow> 0 | Some i \<Rightarrow> i)" by (simp add: g)
  have "init_provider_info k ?gs f = Ok (f\<lparr>ProviderClientID := ProviderClientID s, ProviderChainId := ProviderChainId s,
      CInDebt := (if IsConsumerInDebt_c s then Some True else None), HighestValsetUpdateID := HighestValsetUpdateID s\<rparr>)"
    using s(2) unfolding init_provider_info_def new(1) a Let_def
    by (cases "HighestValsetUpdateID s") (simp_all add: b d hid f_def fresh_cstate_def)
  moreover have "f\<lparr>ProviderClientID := ProviderClientID s, ProviderChainId := ProviderChainId s,
      CInDebt := (if IsConsumerInDebt_c s then Some True else None), HighestValsetUpdateID := HighestValsetUpdateID s\<rparr> = restored_pins w height s"
    using s(1) by (intro cstate.equality) (simp_all add: f_def fresh_cstate_def restored_pins_def restored_but_set_def)
  ultimately show ?thesis by (simp add: f_def)
qed

lemma restart_set:
  assumes laws: "key_laws k" "\<And>w a b. AfterValidatorBonded k w a b \<noteq> None" and s: "stored_well k s"
  shows "\<exists>out w'. ApplyVaasValidatorChanges k (map (as_update k) (GetAllVaasValidator s)) (restored_but_set w height s) =
    Ok (out, (restored_but_set w height s)\<lparr>VaasValidators := VaasValidators s, cworld := w'\<rparr>)"
proof -
  have "\<forall>v \<in> set (GetAllVaasValidator s). 0 < vv_Power v \<and> (\<exists>p. FromCmtProtoPublicKey k p = Some (vv_Pubkey v)) \<and>
      PubKeyAddr k (vv_Pubkey v) = vv_Address v"
    using s by (auto simp: stored_well_def set_GetAllVaasValidator)
  moreover have "distinct (map vv_Address (GetAllVaasValidator s))" by (simp add: stored_addresses(1)[OF s] kv.iter_distinct)
  moreover have "\<forall>v \<in> set (GetAllVaasValidator s). GetVaasValidator (restored_but_set w height s) (vv_Address v) = None"
    by (simp add: restored_but_set_def GetVaasValidator_def)
  ultimately show ?thesis
    using restore_set[OF laws, of "GetAllVaasValidator s" "restored_but_set w height s" "[]"] stored_addresses(2)[OF s]
    by (auto simp: ApplyVaasValidatorChanges_def restored_but_set_def)
qed

lemma restart_import:
  fixes s :: "'w cstate"
  assumes "init_provider_info k (restart_file k s)
      ((fresh_cstate w params)\<lparr>InitGenesisHeight_c := Some (BlockHeight ctx), CParams := CParams s\<rparr>) = Ok (restored_pins w (BlockHeight ctx) s)"
    and s: "evidence_keyed k s" "staged_ok s"
    and applied: "ApplyVaasValidatorChanges k (map (as_update k) (GetAllVaasValidator s)) (restored_but_set w (BlockHeight ctx) s) = Ok (out, t)"
  shows "Consumer_InitGenesis k ctx (restart_file k s) (fresh_cstate w params) = Ok (gs_InitialValSet (restart_file k s), t)"
proof -
  let ?gs = "restart_file k s"
  define s1 where "s1 = restored_pins w (BlockHeight ctx) s"
  have gf: "gs_LastVscRecvTime ?gs = LastVSCRecvTime s" "gs_MissedBlockBitmaps ?gs = entries (MissedBlockBitmaps s)"
    "gs_FirstTrackedHeights ?gs = entries (FirstTrackedHeights s)" "gs_StagedDowntimeParams ?gs = StagedDowntimeParams s"
    "gs_PendingEvidencePackets ?gs = map (\<lambda>kv. (fst (fst kv), snd kv)) (entries (PendingEvidencePackets s))"
    "gs_InitialValSet ?gs = map (as_update k) (GetAllVaasValidator s)" "gs_Params ?gs = CParams s"
    by (simp_all add: restart_file_def NewRestartGenesisState_def)
  have ev: "\<forall>e \<in> set (entries (PendingEvidencePackets s)). \<exists>packet. UnmarshalEvidence k (snd e) = Some packet \<and> pendingEvidenceKey packet = fst e"
    using s(1) by (auto simp: evidence_keyed_def kv.iter_mem)
  have clock: "(case LastVSCRecvTime s of None \<Rightarrow> s1 | Some t \<Rightarrow> s1\<lparr>LastVSCRecvTime := Some t\<rparr>) = s1\<lparr>LastVSCRecvTime := LastVSCRecvTime s\<rparr>"
    by (cases "LastVSCRecvTime s") (simp_all add: s1_def restored_pins_def)
  have stage: "(case StagedDowntimeParams s of None \<Rightarrow> Ok u
      | Some p \<Rightarrow> if \<not> validDowntimeParams p then Panic else Ok (u\<lparr>StagedDowntimeParams := Some p\<rparr>)) =
      (Ok (u\<lparr>StagedDowntimeParams := StagedDowntimeParams s\<rparr>) :: 'w cstate result)" if "StagedDowntimeParams u = None" for u :: "'w cstate"
    using that s(2) by (cases "StagedDowntimeParams s") (simp_all add: staged_ok_def)
  have whole: "s1\<lparr>LastVSCRecvTime := LastVSCRecvTime s, MissedBlockBitmaps := MissedBlockBitmaps s,
      FirstTrackedHeights := FirstTrackedHeights s, PendingEvidencePackets := PendingEvidencePackets s,
      StagedDowntimeParams := StagedDowntimeParams s\<rparr> = restored_but_set w (BlockHeight ctx) s"
    by (simp add: s1_def restored_pins_def restored_but_set_def)
  have empty: "MissedBlockBitmaps s1 = empty_store" "FirstTrackedHeights s1 = empty_store"
    "PendingEvidencePackets s1 = empty_store" "StagedDowntimeParams s1 = None" by (simp_all add: s1_def restored_pins_def)
  show ?thesis
    by (simp add: Consumer_InitGenesis_def assms(1)[folded s1_def] gf clock restore_evidence[OF ev] rebuild_store empty stage whole applied Let_def)
qed

text \<open>
  C36. \<open>consumer_genesis_round_trip\<close>: a consumer exported between blocks and imported into an empty
  store comes back as it was: the validators, the pin, the provider's chain id, the id watermark, the
  staleness clock, the window being measured, the queued evidence and the staged parameters. What
  changes is the height the module counts its genesis from, the historical infos (which are not
  exported) and a stored debt flag of false, which comes back as none and reads the same.
\<close>

theorem consumer_genesis_round_trip:
  fixes s :: "'w cstate" and k :: "'w ckeeper"
  assumes laws: "key_laws k" "\<And>w a b. AfterValidatorBonded k w a b \<noteq> None"
    and s: "stored_well k s" "PendingChanges s = None" "evidence_keyed k s" "staged_ok s"
      "HighestValsetUpdateID s \<noteq> Some 0" "ProviderClientID s \<noteq> Some ''''" "ProviderChainId s \<noteq> Some ''''"
    and client: "\<And>x. ProviderClientID s = Some x \<Longrightarrow> c_GetClientState k w x \<noteq> None"
  shows "\<exists>gs us t. Consumer_ExportGenesis k s = Ok gs \<and>
    Consumer_InitGenesis k ctx gs (fresh_cstate w params) = Ok (us, t) \<and>
    t = s\<lparr>InitGenesisHeight_c := Some (BlockHeight ctx), HistoricalInfos := empty_store,
          CInDebt := (if IsConsumerInDebt_c s then Some True else None), cworld := cworld t\<rparr>"
proof -
  obtain out w' where applied: "ApplyVaasValidatorChanges k (map (as_update k) (GetAllVaasValidator s)) (restored_but_set w (BlockHeight ctx) s) =
      Ok (out, (restored_but_set w (BlockHeight ctx) s)\<lparr>VaasValidators := VaasValidators s, cworld := w'\<rparr>)"
    using restart_set[OF laws s(1)] by blast
  define t where "t = (restored_but_set w (BlockHeight ctx) s)\<lparr>VaasValidators := VaasValidators s, cworld := w'\<rparr>"
  have "Consumer_InitGenesis k ctx (restart_file k s) (fresh_cstate w params) = Ok (gs_InitialValSet (restart_file k s), t)"
    using restart_import[OF restart_pins[OF s(2,5-7) client] s(3,4) applied] by (simp add: t_def)
  moreover have "t = s\<lparr>InitGenesisHeight_c := Some (BlockHeight ctx), HistoricalInfos := empty_store,
          CInDebt := (if IsConsumerInDebt_c s then Some True else None), cworld := cworld t\<rparr>"
    by (simp add: t_def restored_but_set_def)
  ultimately show ?thesis using export_is_restart_file[OF laws(1) s(1)] by blast
qed

definition ex_one_validator :: "unit cstate" where
  "ex_one_validator = ex_cstate\<lparr>VaasValidators := store_set [1] (NewVaasValidator [1] 7 [1]) empty_store,
     HighestValsetUpdateID := Some 4, LastVSCRecvTime := Some 90, CInDebt := Some True\<rparr>"

lemma ex_laws: "key_laws ex_ckeeper" "AfterValidatorBonded ex_ckeeper w a b \<noteq> None"
  by (simp_all add: key_laws_def ex_ckeeper_def)

lemma ex_one_validator_ok:
  "stored_well ex_ckeeper ex_one_validator" "PendingChanges ex_one_validator = None" "evidence_keyed ex_ckeeper ex_one_validator"
  "staged_ok ex_one_validator" "HighestValsetUpdateID ex_one_validator \<noteq> Some 0" "ProviderClientID ex_one_validator \<noteq> Some ''''"
  "ProviderChainId ex_one_validator \<noteq> Some ''''"
  "ProviderClientID ex_one_validator = Some x \<Longrightarrow> c_GetClientState ex_ckeeper () x \<noteq> None"
  by (auto simp: stored_well_def evidence_keyed_def staged_ok_def ex_one_validator_def ex_cstate_def ex_ckeeper_def
      GetVaasValidator_def NewVaasValidator_def split: if_splits)

theorem consumer_genesis_round_trip_witness:
  "\<exists>gs us t. Consumer_ExportGenesis ex_ckeeper ex_one_validator = Ok gs \<and>
    Consumer_InitGenesis ex_ckeeper ex_cctx gs (fresh_cstate () (CParams ex_cstate)) = Ok (us, t) \<and>
    VaasValidators t = VaasValidators ex_one_validator \<and> HighestValsetUpdateID t = Some 4 \<and> CInDebt t = Some True"
proof -
  obtain gs us t where r: "Consumer_ExportGenesis ex_ckeeper ex_one_validator = Ok gs"
    "Consumer_InitGenesis ex_ckeeper ex_cctx gs (fresh_cstate () (CParams ex_cstate)) = Ok (us, t)"
    and t: "t = ex_one_validator\<lparr>InitGenesisHeight_c := Some (BlockHeight ex_cctx), HistoricalInfos := empty_store,
          CInDebt := (if IsConsumerInDebt_c ex_one_validator then Some True else None), cworld := cworld t\<rparr>"
    using consumer_genesis_round_trip[OF ex_laws ex_one_validator_ok, of ex_cctx "CParams ex_cstate"] by blast
  have "VaasValidators t = VaasValidators ex_one_validator" "HighestValsetUpdateID t = Some 4" "CInDebt t = Some True"
    by (subst t, simp add: ex_one_validator_def IsConsumerInDebt_c_def)+
  with r show ?thesis by blast
qed


subsection \<open>Historical infos\<close>

definition stored_heights :: "'w cstate \<Rightarrow> int set" where
  "stored_heights s = {h. GetHistoricalInfo s h \<noteq> None}"

lemma prune_frame: "\<exists>x. prune_historical i s = s\<lparr>HistoricalInfos := x\<rparr>"
proof (induction i s rule: prune_historical.induct)
  case (1 i s)
  have triv: "\<exists>x. s = s\<lparr>HistoricalInfos := x\<rparr>" by (intro exI[of _ "HistoricalInfos s"]) simp
  show ?case
  proof (cases "i < 0 \<or> GetHistoricalInfo s i = None")
    case True
    then have "prune_historical i s = s" by (subst prune_historical.simps) auto
    then show ?thesis using triv by simp
  next
    case False
    then obtain info where "GetHistoricalInfo s i = Some info" "\<not> i < 0" by auto
    moreover from this 1 obtain x where "prune_historical (i - 1) (DeleteHistoricalInfo i s) = DeleteHistoricalInfo i s\<lparr>HistoricalInfos := x\<rparr>"
      by blast
    ultimately have "prune_historical i s = s\<lparr>HistoricalInfos := x\<rparr>"
      by (subst prune_historical.simps) (simp add: DeleteHistoricalInfo_def)
    then show ?thesis by blast
  qed
qed

lemma prune_heights:
  assumes "\<And>g. 0 \<le> g \<Longrightarrow> g \<le> i \<Longrightarrow> g \<in> stored_heights s \<longleftrightarrow> lo \<le> g"
  shows "stored_heights (prune_historical i s) = stored_heights s - {g. 0 \<le> g \<and> g \<le> i}"
  using assms
proof (induction i s rule: prune_historical.induct)
  case (1 i s)
  show ?case
  proof (cases "i < 0 \<or> GetHistoricalInfo s i = None")
    case True
    then have "prune_historical i s = s" by (subst prune_historical.simps) auto
    moreover have "g \<notin> stored_heights s" if "0 \<le> g" "g \<le> i" for g
      using True that 1(2)[of g] 1(2)[of i] by (auto simp: stored_heights_def)
    ultimately show ?thesis by auto
  next
    case False
    then obtain info where info: "GetHistoricalInfo s i = Some info" "\<not> i < 0" by auto
    define s1 where "s1 = DeleteHistoricalInfo i s"
    have h1: "stored_heights s1 = stored_heights s - {i}"
      by (auto simp: s1_def stored_heights_def DeleteHistoricalInfo_def GetHistoricalInfo_def)
    have "stored_heights (prune_historical (i - 1) s1) = stored_heights s1 - {g. 0 \<le> g \<and> g \<le> i - 1}"
      unfolding s1_def by (rule 1(1)[OF info(2,1)]) (use 1(2) h1 s1_def in auto)
    moreover have "prune_historical i s = prune_historical (i - 1) s1"
      using info by (subst prune_historical.simps) (simp add: s1_def)
    ultimately have "stored_heights (prune_historical i s) = stored_heights s - {i} - {g. 0 \<le> g \<and> g \<le> i - 1}"
      using h1 by simp
    moreover have "g = i \<or> (0 \<le> g \<and> g \<le> i - 1) \<longleftrightarrow> 0 \<le> g \<and> g \<le> i" for g using info(2) by linarith
    ultimately show ?thesis by blast
  qed
qed

text \<open>
  C37. \<open>historical_infos_window\<close>: tracking historical infos ends and keeps exactly the last \<open>n\<close> heights.
  From a store whose heights run without a gap from \<open>lo\<close> to the height before, the block at height
  \<open>h\<close> leaves those that are among the last \<open>n\<close>, with its own; so it is also when governance has
  lowered \<open>n\<close> meanwhile. The entry of the block is the header with one bonded validator per
  validator of the chain, its tokens the power scaled by the power reduction.
\<close>

theorem historical_infos_window:
  assumes "stored_heights s = {lo..<BlockHeight ctx}" "0 \<le> lo" "lo \<le> BlockHeight ctx" "0 < cp_HistoricalEntries (CParams s)"
  shows "stored_heights (TrackHistoricalInfo k ctx s) =
      {max lo (BlockHeight ctx - cp_HistoricalEntries (CParams s) + 1)..BlockHeight ctx} \<and>
    GetHistoricalInfo (TrackHistoricalInfo k ctx s) (BlockHeight ctx) =
      Some (NewHistoricalInfo k (BlockHeader ctx) (map (historical_validator k) (GetAllVaasValidator s)))"
proof -
  define n where "n = cp_HistoricalEntries (CParams s)"
  define s1 where "s1 = prune_historical (BlockHeight ctx - n) s"
  have h1: "stored_heights s1 = {lo..<BlockHeight ctx} - {g. 0 \<le> g \<and> g \<le> BlockHeight ctx - n}"
    unfolding s1_def using prune_heights[of "BlockHeight ctx - n" s lo] assms(1,4) by (auto simp: n_def)
  obtain x where x: "s1 = s\<lparr>HistoricalInfos := x\<rparr>" using prune_frame unfolding s1_def by blast
  then have all: "GetAllVaasValidator s1 = GetAllVaasValidator s" by (simp add: GetAllVaasValidator_def)
  have t: "TrackHistoricalInfo k ctx s = SetHistoricalInfo (BlockHeight ctx)
      (NewHistoricalInfo k (BlockHeader ctx) (map (historical_validator k) (GetAllVaasValidator s))) s1"
    using assms(4) by (simp add: TrackHistoricalInfo_def Let_def n_def[symmetric] s1_def[symmetric] all)
  have "stored_heights (TrackHistoricalInfo k ctx s) = insert (BlockHeight ctx) (stored_heights s1)"
    by (auto simp: t stored_heights_def SetHistoricalInfo_def GetHistoricalInfo_def)
  have "stored_heights (TrackHistoricalInfo k ctx s) = {max lo (BlockHeight ctx - n + 1)..BlockHeight ctx}"
  proof -
    define b where "b = BlockHeight ctx"
    have "0 < n" "0 \<le> lo" "lo \<le> b" using assms(2-4) by (simp_all add: n_def b_def)
    then have "g = b \<or> (lo \<le> g \<and> g < b \<and> \<not> (0 \<le> g \<and> g \<le> b - n)) \<longleftrightarrow> max lo (b - n + 1) \<le> g \<and> g \<le> b" for g
      by linarith
    then have "insert b ({lo..<b} - {g. 0 \<le> g \<and> g \<le> b - n}) = {max lo (b - n + 1)..b}"
      by (intro set_eqI) simp
    then show ?thesis
      using \<open>stored_heights (TrackHistoricalInfo k ctx s) = insert (BlockHeight ctx) (stored_heights s1)\<close>
      by (simp only: h1 b_def)
  qed
  moreover have "GetHistoricalInfo (TrackHistoricalInfo k ctx s) (BlockHeight ctx) =
      Some (NewHistoricalInfo k (BlockHeader ctx) (map (historical_validator k) (GetAllVaasValidator s)))"
    by (simp add: t SetHistoricalInfo_def GetHistoricalInfo_def)
  ultimately show ?thesis by (simp add: n_def)
qed

definition ex_historical :: "unit cstate" where
  "ex_historical = ex_one_validator\<lparr>HistoricalInfos := store_set 1 \<lparr>hist_Header = [], hist_Valset = []\<rparr> empty_store,
     CParams := (CParams ex_cstate)\<lparr>cp_HistoricalEntries := 1\<rparr>\<rparr>"

theorem historical_infos_window_witness:
  "stored_heights (TrackHistoricalInfo ex_ckeeper ex_cctx ex_historical) = {2..2}"
proof -
  have "stored_heights ex_historical = {1..<BlockHeight ex_cctx}"
    by (auto simp: stored_heights_def GetHistoricalInfo_def ex_historical_def ex_one_validator_def ex_cstate_def ex_cctx_def
        split: if_splits)
  from historical_infos_window[OF this] show ?thesis by (simp add: ex_historical_def ex_cctx_def)
qed


subsection \<open>All steps of the consumer\<close>

text \<open>
  Everything that writes the module's state after its genesis; a transaction, block or callback that
  fails leaves no step. \<open>other_modules\<close> is the rest of the chain.
\<close>

inductive consumer_step :: "'w ckeeper \<Rightarrow> 'w cstate \<Rightarrow> 'w cstate \<Rightarrow> bool" for k :: "'w ckeeper" where
  begin_block: "Consumer_BeginBlock k ctx s = Ok t \<Longrightarrow> consumer_step k s t"
| end_block: "Consumer_EndBlock k (ctx :: cctx) s = Ok (updates, t) \<Longrightarrow> consumer_step k s t"
| recv: "Consumer_OnRecvPacket k (ctx :: cctx) client payload s = Ok (True, t) \<Longrightarrow> consumer_step k s t"
| timeout: "consumer_step k s (Consumer_OnTimeoutPacket k bz s)"
| ack: "Consumer_OnAcknowledgementPacket k isError bz s = (event, t) \<Longrightarrow> consumer_step k s t"
| update_params: "Consumer_UpdateParams k auth params s = Ok t \<Longrightarrow> consumer_step k s t"
| set_client: "SetProviderClient k signer client s = Ok t \<Longrightarrow> consumer_step k s t"
| other_modules: "consumer_step k s (s\<lparr>cworld := w\<rparr>)"

definition consumer_reachable :: "'w ckeeper \<Rightarrow> 'w cstate \<Rightarrow> 'w cstate \<Rightarrow> bool" where
  "consumer_reachable k = (consumer_step k)\<^sup>*\<^sup>*"

definition queue_bounded :: "'w cstate \<Rightarrow> bool" where
  "queue_bounded s \<longleftrightarrow> (\<forall>a. length (pending_of_validator a s) \<le> maxPendingEvidencePerValidator)"

text \<open>
  What a step keeps: the pin once there is one, the order of the ids, the bound of the queue, and
  the parameters the provider owns, which only a closing window replaces by staged ones.
\<close>

definition keeps :: "'w cstate \<Rightarrow> 'w cstate \<Rightarrow> bool" where
  "keeps s t \<longleftrightarrow>
     (\<forall>x. ProviderClientID s = Some x \<longrightarrow> x \<noteq> '''' \<longrightarrow> ProviderClientID t = Some x) \<and>
     highest_id s \<le> highest_id t \<and> (queue_bounded s \<longrightarrow> queue_bounded t)"

lemma keeps_refl: "keeps s s" by (simp add: keeps_def)

lemma keeps_trans: "keeps s t \<Longrightarrow> keeps t u \<Longrightarrow> keeps s u"
  unfolding keeps_def by (meson order_trans)

interpretation keeping: kept_relation keeps
  by unfold_locales (blast intro: keeps_refl keeps_trans)+

lemma keeps_frame:
  assumes "ProviderClientID t = ProviderClientID s" "HighestValsetUpdateID t = HighestValsetUpdateID s"
    "PendingEvidencePackets t = PendingEvidencePackets s"
  shows "keeps s t"
  using assms by (simp add: keeps_def highest_id_def queue_bounded_def pending_of_validator_def)

lemma pending_length: "length (pending_of_validator a s) = card {h. store_has (PendingEvidencePackets s) (a, h)}"
proof -
  have "distinct (pending_of_validator a s)" using pending_of_validator_strict[of a s] by (simp add: strict_sorted_iff)
  then have "length (pending_of_validator a s) = card (set (pending_of_validator a s))" by (simp add: distinct_card)
  also have "set (pending_of_validator a s) = Pair a ` {h. store_has (PendingEvidencePackets s) (a, h)}"
    by (auto simp: set_pending_of_validator)
  finally show ?thesis by (simp add: card_image inj_on_def)
qed

lemma finite_pending: "finite {h. store_has (PendingEvidencePackets s) (a, h)}" for s :: "'w cstate"
proof -
  have "{h. store_has (PendingEvidencePackets s) (a, h)} = snd ` set (pending_of_validator a s)"
    by (force simp: set_pending_of_validator image_iff)
  then show ?thesis by simp
qed

lemma queue_shrinks:
  assumes "queue_bounded s" "\<And>key. store_has (PendingEvidencePackets t) key \<Longrightarrow> store_has (PendingEvidencePackets s) key"
  shows "queue_bounded t"
  unfolding queue_bounded_def
proof
  fix a
  have "card {h. store_has (PendingEvidencePackets t) (a, h)} \<le> card {h. store_has (PendingEvidencePackets s) (a, h)}"
    by (rule card_mono[OF finite_pending]) (use assms(2) in blast)
  then show "length (pending_of_validator a t) \<le> maxPendingEvidencePerValidator"
    using assms(1) by (simp add: pending_length queue_bounded_def) (meson order_trans)
qed

lemma keeps_queue_evidence: "keeps s (queue_evidence e bz s)"
proof -
  have "queue_bounded (queue_evidence e bz s)" if "queue_bounded s"
    unfolding queue_bounded_def
  proof
    fix a
    show "length (pending_of_validator a (queue_evidence e bz s)) \<le> maxPendingEvidencePerValidator"
    proof (cases "a = ValidatorAddr e")
      case False
      then have "{h. store_has (PendingEvidencePackets (queue_evidence e bz s)) (a, h)} = {h. store_has (PendingEvidencePackets s) (a, h)}"
        by (simp add: store_has_def queue_evidence_other)
      then show ?thesis using that by (simp add: pending_length queue_bounded_def)
    qed (simp add: queue_evidence_bound)
  qed
  then show ?thesis
    by (simp add: keeps_def highest_id_def queue_evidence_def evictOldestPendingEvidence_def Let_def)
qed

lemma keeps_QueueEvidencePacket: "QueueEvidencePacket k e s = Ok t \<Longrightarrow> keeps s t"
  by (auto simp: QueueEvidencePacket_eq keeps_queue_evidence split: option.splits)

lemma keeps_record_vote: "record_vote g window idx v s = Ok t \<Longrightarrow> keeps s t"
  by (rule keeps_frame) (auto simp: record_vote_def Let_def res_simps split: option.splits if_splits)

lemma keeps_report_window: "report_window k ws window m tv s = Ok t \<Longrightarrow> keeps s t"
proof (cases "window_report ws window m s tv")
  case (Ok report)
  assume "report_window k ws window m tv s = Ok t"
  with Ok have "t = s \<or> (\<exists>e. QueueEvidencePacket k e s = Ok t)"
    by (auto simp: report_window_def split: option.split_asm res.split_asm)
  then show ?thesis using keeps_QueueEvidencePacket keeps_refl by blast
qed (simp_all add: report_window_def)

lemma keeps_TrackMissedBlocks:
  assumes "TrackMissedBlocks k ctx s = Ok t"
  shows "keeps s t"
proof -
  have close: "keeps u v" if "closeWindow k ws window m u = Ok v" for ws window m u v
  proof -
    from that obtain s1 where s1: "fold_res (report_window k ws window m) (entries (MissedBlockBitmaps u)) u = Ok s1"
      "v = applyStagedDowntimeParams (s1\<lparr>MissedBlockBitmaps := empty_store, FirstTrackedHeights := empty_store\<rparr>)"
      by (auto simp: closeWindow_def res_simps)
    have "keeps u s1" by (rule keeping.kept_fold_res[OF s1(1)]) (rule keeps_report_window)
    moreover have "keeps s1 v" unfolding s1(2)
      by (rule keeps_frame) (simp_all add: applyStagedDowntimeParams_def split: option.splits)
    ultimately show ?thesis by (rule keeps_trans)
  qed
  show ?thesis
  proof (cases "BlockHeight ctx - 1 \<le> 0 \<or> cp_SignedBlocksWindow (CParams s) \<le> 0")
    case True
    then have "t = s" using assms by (auto simp: TrackMissedBlocks_def GetDowntimeParams_def Let_def split: if_splits)
    then show ?thesis by (simp add: keeps_refl)
  next
    case False
    define window where "window = cp_SignedBlocksWindow (CParams s)"
    define g where "g = BlockHeight ctx - 1"
    define ws where "ws = quo g window * window"
    define m where "m = cp_MinSignedPerWindow (CParams s)"
    have "\<exists>u. fold_res (record_vote g window (g - ws)) (VoteInfos ctx) s = Ok u \<and> (t = u \<or> closeWindow k ws window m u = Ok t)"
      using assms False unfolding TrackMissedBlocks_def GetDowntimeParams_def Let_def window_def[symmetric] m_def[symmetric]
        g_def[symmetric] prod.case ws_def[symmetric]
      by (cases "g = ws + window - 1") (auto simp: bind_res_Ok_iff)
    then obtain u where u: "fold_res (record_vote g window (g - ws)) (VoteInfos ctx) s = Ok u"
      "t = u \<or> closeWindow k ws window m u = Ok t" by blast
    have "keeps s u" by (rule keeping.kept_fold_res[OF u(1)]) (rule keeps_record_vote)
    with u(2) show ?thesis using close keeps_trans by blast
  qed
qed

lemma keeps_BeginBlock:
  assumes "Consumer_BeginBlock k ctx s = Ok t"
  shows "keeps s t"
proof -
  from assms obtain u where u: "ArmVSCStalenessClock ctx (TrackHistoricalInfo k ctx s) = Ok u" "TrackMissedBlocks k ctx u = Ok t"
    by (auto simp: Consumer_BeginBlock_def res_simps)
  define h where "h = TrackHistoricalInfo k ctx s"
  have x: "ProviderClientID (prune_historical n s) = ProviderClientID s"
    "HighestValsetUpdateID (prune_historical n s) = HighestValsetUpdateID s"
    "PendingEvidencePackets (prune_historical n s) = PendingEvidencePackets s" for n
    using prune_frame[of n s] by auto
  have "keeps s h"
    by (rule keeps_frame) (simp_all add: h_def TrackHistoricalInfo_def Let_def SetHistoricalInfo_def x)
  moreover have "keeps h u" using u(1)[folded h_def]
    by (intro keeps_frame) (auto simp: ArmVSCStalenessClock_def split: option.splits if_splits)
  ultimately show ?thesis using keeps_TrackMissedBlocks[OF u(2)] by (blast intro: keeps_trans)
qed


lemma keeps_apply_change: "apply_change k change acc = Ok acc1 \<Longrightarrow> keeps (snd acc) (snd acc1)"
  by (intro keeps_frame)
    (auto simp: apply_change_def Let_def DeleteVaasValidator_def SetVaasValidator_def
      split: option.split_asm if_split_asm prod.split_asm)

lemma keeps_EndBlock:
  assumes "Consumer_EndBlock k ctx s = Ok (us, t)"
  shows "keeps s t"
proof -
  define s1 where "s1 = SendEvidencePackets k ctx s"
  have "\<exists>ks. PendingEvidencePackets s1 = fold store_remove ks (PendingEvidencePackets s)"
    unfolding s1_def SendEvidencePackets_def Let_def
    by (auto split: option.split prod.split intro: exI[of _ "[]"])
  then have sub: "store_has (PendingEvidencePackets s1) key \<Longrightarrow> store_has (PendingEvidencePackets s) key" for key
    by (auto simp: store_has_def kv.get_fold_remove split: if_splits)
  obtain x w where "s1 = s\<lparr>PendingEvidencePackets := x, cworld := w\<rparr>"
    using SendEvidencePackets_frame[of k ctx s] unfolding s1_def by blast
  then have "keeps s s1" using queue_shrinks[of s s1] sub by (simp add: keeps_def highest_id_def)
  moreover have "keeps s1 t"
  proof (cases "PendingChanges s1")
    case None
    then have "t = s1" using assms by (simp add: Consumer_EndBlock_def s1_def Let_def)
    then show ?thesis by (simp add: keeps_refl)
  next
    case (Some changes)
    then obtain out u where u: "ApplyVaasValidatorChanges k changes s1 = Ok (out, u)" "t = u\<lparr>PendingChanges := None\<rparr>"
      using assms by (auto simp: Consumer_EndBlock_def s1_def[symmetric] Let_def res_simps)
    have "keeps s1 (snd (out, u))"
      by (rule fold_res_invariant[OF u(1)[unfolded ApplyVaasValidatorChanges_def], where P = "\<lambda>acc. keeps s1 (snd acc)"])
        (auto intro: keeps_refl keeps_trans keeps_apply_change)
    moreover have "keeps u t" unfolding u(2) by (intro keeps_frame) simp_all
    ultimately show ?thesis by (simp add: keeps_trans)
  qed
  ultimately show ?thesis by (rule keeps_trans)
qed

lemma keeps_recv:
  assumes "OnRecvVSCPacketV2 k ctx client p s = Ok t"
  shows "keeps s t" "ProviderClientID s = Some client" "client \<noteq> ''''"
proof -
  obtain s1 where s1: "ValidatorSetChangePacketData_Validate (PubKeyFromProto k) p = Ok ()"
    "authenticateProviderChainID k client s = Ok s1" "enforcePinnedProviderClient client s1 = Ok ()"
    "\<exists>x. s1 = s\<lparr>ProviderChainId := x\<rparr>"
    "if (case HighestValsetUpdateID s of None \<Rightarrow> False | Some h \<Rightarrow> ValsetUpdateId p \<le> h) then t = s1
     else wouldEmptyValidatorSet k p s1 = Ok False"
    by (rule recv_checks[OF assms])
  have fr: "ProviderClientID s1 = ProviderClientID s" "HighestValsetUpdateID s1 = HighestValsetUpdateID s"
    "PendingEvidencePackets s1 = PendingEvidencePackets s" using s1(4) by auto
  show "ProviderClientID s = Some client" "client \<noteq> ''''"
    using s1(3) by (auto simp: enforcePinnedProviderClient_def res_simps fr split: option.splits)
  show "keeps s t"
  proof (cases "case HighestValsetUpdateID s of None \<Rightarrow> False | Some h \<Rightarrow> ValsetUpdateId p \<le> h")
    case True
    then have "t = s1" using s1(5) by simp
    then show ?thesis using fr by (intro keeps_frame) simp_all
  next
    case False
    have "ProviderClientID t = ProviderClientID s" "HighestValsetUpdateID t = Some (ValsetUpdateId p)"
      "PendingEvidencePackets t = PendingEvidencePackets s"
      using assms s1(1-3) s1(5) False fr
      by (auto simp: OnRecvVSCPacketV2_def Let_def StageDowntimeParams_def split: option.splits)
    then show ?thesis using False
      by (auto simp: keeps_def highest_id_def queue_bounded_def pending_of_validator_def split: option.splits)
  qed
qed

lemma recv_callback:
  "Consumer_OnRecvPacket k ctx client payload s = Ok (True, t) \<Longrightarrow> \<exists>p. OnRecvVSCPacketV2 k ctx client p s = Ok t"
  by (auto simp: Consumer_OnRecvPacket_def split: if_splits option.splits res.splits)

theorem keeps_step: "consumer_step k s t \<Longrightarrow> keeps s t"
proof (induction rule: consumer_step.induct)
  case (begin_block ctx s t)
  then show ?case by (rule keeps_BeginBlock)
next
  case (end_block ctx s updates t)
  then show ?case by (rule keeps_EndBlock)
next
  case (recv ctx client payload s t)
  then show ?case using recv_callback keeps_recv(1) by blast
next
  case (timeout s bz)
  show ?case
    by (auto simp: Consumer_OnTimeoutPacket_def RequeueEvidencePacket_def bind_res_Ok_iff keeps_refl
        intro: keeps_QueueEvidencePacket split: res.split)
next
  case (ack isError bz s event t)
  then show ?case by (auto simp: Consumer_OnAcknowledgementPacket_def keeps_refl split: if_splits)
next
  case (update_params auth params s t)
  then show ?case by (intro keeps_frame) (auto simp: Consumer_UpdateParams_def res_simps)
next
  case (set_client signer client s t)
  then obtain cs where "c_GetClientState k (cworld s) client = Some cs"
    by (auto simp: SetProviderClient_def guard_res_Ok_iff bind_res_Ok_iff of_option_Ok_iff)
  with set_client have "(ProviderClientID s = None \<or> ProviderClientID s = Some '''') \<and> t = s\<lparr>ProviderClientID := Some client\<rparr>"
    by (cases cs) (auto simp: SetProviderClient_def res_simps)
  then show ?case by (auto simp: keeps_def highest_id_def queue_bounded_def pending_of_validator_def)
next
  case (other_modules s w)
  show ?case by (intro keeps_frame) simp_all
qed

interpretation consumer_run: step_contract keeps "consumer_step k" for k
  by unfold_locales (rule keeps_step)

lemma keeps_reachable: "consumer_reachable k s t \<Longrightarrow> keeps s t"
  unfolding consumer_reachable_def by (rule consumer_run.steps_kept)

text \<open>
  C34. Once the consumer has pinned the provider's client, no block, packet, callback or message
  changes the pin, the highest id of a validator set never decreases, and from then on only a packet
  that arrives on the pinned client can succeed.
\<close>

theorem provider_pin_is_permanent:
  assumes "consumer_reachable k s t" "ProviderClientID s = Some pin" "pin \<noteq> ''''"
  shows "ProviderClientID t = Some pin \<and> highest_id s \<le> highest_id t \<and>
    (\<forall>ctx client payload u. Consumer_OnRecvPacket k (ctx :: cctx) client payload t = Ok (True, u) \<longrightarrow> client = pin)"
proof -
  have t: "ProviderClientID t = Some pin" "highest_id s \<le> highest_id t"
    using keeps_reachable[OF assms(1)] assms(2,3) by (simp_all add: keeps_def)
  moreover have "client = pin" if "Consumer_OnRecvPacket k ctx client payload t = Ok (True, u)"
    for ctx :: cctx and client payload u
    using recv_callback[OF that] keeps_recv(2) t(1) by fastforce
  ultimately show ?thesis by blast
qed

theorem provider_pin_is_permanent_witness:
  "\<exists>t. Consumer_UpdateParams ex_ckeeper ''gov'' (CParams ex_cstate) ex_cstate = Ok t \<and>
     ProviderClientID t = Some ''07-tendermint-0''"
proof -
  have "Consumer_UpdateParams ex_ckeeper ''gov'' (CParams ex_cstate) ex_cstate = Ok ex_cstate"
    by (simp add: Consumer_UpdateParams_def ConsumerParams_Validate_def ex_ckeeper_def ex_cstate_def
        ValidateDuration_def ValidatePositiveInt64_def)
  moreover from this have "consumer_reachable ex_ckeeper ex_cstate ex_cstate"
    unfolding consumer_reachable_def by (intro r_into_rtranclp consumer_step.update_params)
  then have "ProviderClientID ex_cstate = Some ''07-tendermint-0''"
    by (rule provider_pin_is_permanent[THEN conjunct1]) (simp_all add: ex_cstate_def)
  ultimately show ?thesis by blast
qed

text \<open>
  C35. The queue of downtime evidence is bounded: from a state that holds at most
  \<^const>\<open>maxPendingEvidencePerValidator\<close> packets of each validator, every block, timeout and message leads
  to such a state, so a provider that cannot be reached does not make the consumer's store grow
  beyond it, however many windows close and however many sends time out.
\<close>

theorem evidence_queue_is_bounded:
  assumes "consumer_reachable k s t" "\<forall>a. length (pending_of_validator a s) \<le> maxPendingEvidencePerValidator"
  shows "length (pending_of_validator a t) \<le> maxPendingEvidencePerValidator"
  using keeps_reachable[OF assms(1)] assms(2) by (simp add: keeps_def queue_bounded_def)


theorem evidence_queue_is_bounded_witness:
  "length (pending_of_validator [1] (Consumer_OnTimeoutPacket ex_ckeeper [] ex_cstate)) \<le> maxPendingEvidencePerValidator"
proof (rule evidence_queue_is_bounded)
  show "consumer_reachable ex_ckeeper ex_cstate (Consumer_OnTimeoutPacket ex_ckeeper [] ex_cstate)"
    unfolding consumer_reachable_def by (intro r_into_rtranclp consumer_step.timeout)
  show "\<forall>a. length (pending_of_validator a ex_cstate) \<le> maxPendingEvidencePerValidator"
    by (simp add: pending_of_validator_def ex_cstate_def store_range_def)
qed

end
