(* ===== verification/Spec2Isabelle.thy ===== *)
theory Spec2Isabelle
  imports Wire Fees GenesisCheck Ante Link ConsumerProps
begin

text \<open>
  A verification development of VAAS, the two Cosmos SDK modules by which a provider chain lends its
  validator set to consumer chains (\<^verbatim>\<open>x/vaas/provider\<close> and \<^verbatim>\<open>x/vaas/consumer\<close>).

  \<^bold>\<open>The program.\<close> The owner of a consumer chain registers it on the provider, which launches it at its
  spawn time, computes its validator set at every epoch from the bonded validators and sends the
  changes as IBC packets (VSC packets). Validators may use another consensus key on a consumer.
  The consumer applies the packets, measures downtime and reports it; the provider holds the
  slash of a report back for a challenge window. Consumers pay fees per block from a pool that
  depositors hold shares of; a validator that was down has its part of the fee withheld.
  A consumer is paused when its client is frozen or its evidence was refuted, stopped when it does
  not answer, and erased after the unbonding period.

  \<^bold>\<open>State and operations.\<close> The keeper of the provider is the record \<open>'w pstate\<close>, one field per collection
  of \<^verbatim>\<open>keeper.go\<close>; \<open>'w\<close> is the state of all other modules. A collection is an ordered finite map
  (\<open>store\<close>), iterated in key order as the code iterates it. Every function of the code is one definition that
  takes and returns the state; an error is \<open>Err\<close> with the sentinel error, a panic is \<open>Panic\<close>, and a
  cached context is the state from before. Code outside the repository (staking, slashing, bank,
  distribution, IBC clients and channels, bech32, decimals as strings, protobuf, JSON) is a field of
  \<open>'w keeper\<close>, \<open>'w verifier\<close>, \<open>'w ckeeper\<close> or \<open>sdk_checks\<close>, and what a theorem needs of it is one of its
  hypotheses. \<^verbatim>\<open>math.Int\<close> is \<open>int\<close>, \<^verbatim>\<open>LegacyDec\<close> its mantissa, a time nanoseconds, an address a byte list.

  \<^bold>\<open>The theories.\<close>
  \<^item> \<open>Prelude\<close>, \<open>KVStore\<close>: results, loops that may fail, truncating division, the ordered store; the
    locales \<open>ordered_store\<close>, \<open>kept_relation\<close>, \<open>step_contract\<close> and \<open>step_invariant\<close>, from which every proof
    about all reachable states takes its induction.
  \<^item> \<open>ProviderState\<close>, \<open>Keeper\<close>: the messages, the state, the accessors (\<^verbatim>\<open>keeper.go\<close>, \<^verbatim>\<open>permissionless.go\<close>, \<^verbatim>\<open>debt.go\<close>,
    \<^verbatim>\<open>params.go\<close>).
  \<^item> \<open>TimeQueue\<close>: the launch, removal and auto-stop queues and their consumption, with the locale \<open>time_queue\<close>
    as their interface.
  \<^item> \<open>ValSet\<close>, \<open>KeyAssignment\<close>, \<open>Relay\<close>: validator sets, consumer keys, the queueing and sending of packets
    (\<^verbatim>\<open>validator_set_update.go\<close>, \<^verbatim>\<open>key_assignment.go\<close>, \<^verbatim>\<open>relay.go\<close>). An assigned key resolves to the validator that
    assigned it and to no other, a replaced one until the unbonding period is over; the packet of
    an epoch turns the stored set into the computed one.
  \<^item> \<open>FeePool\<close>, \<open>Fees\<close>: the share ledger, the distribution of fees and the escrow (\<^verbatim>\<open>fee_pool_shares.go\<close>, \<^verbatim>\<open>fees.go\<close>,
    \<^verbatim>\<open>invariants.go\<close>, \<^verbatim>\<open>send_restriction.go\<close>). Shares add up to totals, escrow stays covered, no deposit dilutes, no
    withdrawal pays more than its quote, a request of exactly the quote is decided on every branch, a sweep pays every
    holder.
  \<^item> \<open>Wire\<close>: packet validation, bitmaps, accumulation of updates (\<^verbatim>\<open>x/vaas/types\<close>).
  \<^item> \<open>Downtime\<close>, \<open>Evidence\<close>, \<open>Rotation\<close>: downtime reports, their execution and challenge, double voting, light
    client attacks, and what a rotation of the provider key migrates. No height of a validator on a
    consumer is accepted twice, an accepted report stays disprovable for its challenge window, the sweep executes
    each matured slash once and no other, and a rotation keeps accepted windows closed when the accused address resolves through a key assignment; without one, a
    window can be accepted twice (a counterexample is proved).
  \<^item> \<open>Lifecycle\<close>, \<open>Validation\<close>, \<open>MsgServer\<close>, \<open>Blocks\<close>: the lifecycle, the checks of parameters, every transaction, the block
    hooks and packet callbacks; \<open>provider_step\<close> is one of these. \<open>LifeFrame\<close>, \<open>LifecycleInv\<close>, \<open>LifecycleSteps\<close>, \<open>LifecycleMoves\<close>,
    \<open>LifecycleProps\<close>: in every reachable state the queues agree with the phases; for every change of a phase it is
    said which operation made it and when; and there is no way back from a launch, a stop or a deletion.
  \<^item> \<open>ProviderGenesis\<close>, \<open>GenesisCheck\<close>: import, export and validation of the provider's genesis. A restart gives
    the state back with its derived collections; a validated file is imported without a panic
    into a state that satisfies the invariants; and some running states export a file that does
    not validate.
  \<^item> \<open>Consumer\<close>, \<open>ConsumerDowntime\<close>, \<open>ConsumerModule\<close>, \<open>ConsumerSet\<close>, \<open>ConsumerProps\<close>: the consumer module as the record \<open>'w cstate\<close>: the set
    it applies, the evidence queue, missed-block windows, messages, genesis, block hooks. Downtime
    is reported exactly when it exceeds the allowance, the provider client is pinned once, the
    evidence queue is bounded, the genesis survives a round trip.
  \<^item> \<open>Ante\<close>: the admission of transactions on both chains; the recursive decorators are equivalent to a
    check of all executed messages.
  \<^item> \<open>Link\<close>: both chains and a network that loses, delays, reorders and repeats packets. The consumer
    refines the provider: the set it is heading for is the one the provider stored at the epoch the
    consumer has reached, and it is never empty.

  \<^bold>\<open>Bounds and termination.\<close> No definition uses fuel. Loops over stored entries are recursions over the
  list of entries; the loops that the code ends by a limit (200 ids of a queue in a block, 50 evidence packets sent in a
  block, 16 pending packets per validator) end by it here too; the pruning of historical infos has
  a termination proof. Heights and counters are unbounded integers: sums of heights, the VSC id and
  the consumer id are taken not to reach the ends of their 64-bit types. The bits of a missed-block bitmap are those of 8-bit words.

  \<^bold>\<open>Not modelled.\<close> The gRPC queries, the command line, the wiring of the applications, generated code
  and the mocks: they hold no state of their own and only format what the definitions read. Events
  and log lines are left out. \<^verbatim>\<open>ValidateBasic\<close> of the messages is modelled only as far as the handlers
  repeat it. A nil pointer, nil \<^verbatim>\<open>math.Int\<close> and nil \<^verbatim>\<open>LegacyDec\<close> have no counterpart where the code
  checks for them before use. Gas and the failure of a store access are not modelled.
\<close>

end
